(* ===== verification/Prelude.thy ===== *)
theory Prelude
  imports Main "HOL-Library.Word"
begin

section \<open>Shared vocabulary: running Rust code, checked arithmetic, arrays\<close>

text \<open>
  Every component of the development is a set of HOL functions whose results have type
  \<open>'a run\<close>: \<open>Inr x\<close> when the Rust function returns \<open>x\<close>, \<open>Inl e\<close> when it does not return,
  with the reason \<open>e\<close>.  The images are built with the development profile of cargo (the
  targets under \<open>.vscode/tasks.json\<close> and the default paths of \<open>build-image/src/main.rs\<close>
  are debug builds), so an arithmetic overflow is a panic and not a wrap-around.  Unsigned
  integers that are only added, subtracted, multiplied and compared are natural numbers
  with the overflow check written out; values that are shifted and masked are words.

  The theory holds that vocabulary, the collection \<open>run_simps\<close> that unfolds a successful
  run into the facts that made it succeed, and the facts on lists of intervals the
  allocators share.
\<close>

subsection \<open>Runs\<close>

datatype stop =
    Overflow               \<comment> \<open>arithmetic overflow, debug build\<close>
  | OutOfBounds            \<comment> \<open>slice or array index out of range\<close>
  | AssertFailed           \<comment> \<open>\<open>assert!\<close>, \<open>assert_eq!\<close>\<close>
  | Panicked string        \<comment> \<open>\<open>panic!\<close>, \<open>expect\<close>, \<open>or_panic\<close>\<close>
  | Loops                  \<comment> \<open>the code does not terminate\<close>
  | Undefined              \<comment> \<open>undefined behaviour: uninitialised memory is used as a value\<close>

type_synonym 'a run = "stop + 'a"

named_theorems run_simps \<open>unfold a successful run into the facts that made it succeed\<close>

definition and_then :: "'a run \<Rightarrow> ('a \<Rightarrow> 'b run) \<Rightarrow> 'b run" where
  "and_then m f = (case m of Inl e \<Rightarrow> Inl e | Inr x \<Rightarrow> f x)"

lemma and_then_Inr [simp]: "and_then (Inr x) f = f x"
  by (simp add: and_then_def)

lemma and_then_Inl [simp]: "and_then (Inl e) f = Inl e"
  by (simp add: and_then_def)

lemma and_then_eq_Inr [run_simps]:
  "and_then m f = Inr y \<longleftrightarrow> (\<exists>x. m = Inr x \<and> f x = Inr y)"
  by (cases m) auto

lemma and_then_cong [fundef_cong]:
  "m = m' \<Longrightarrow> (\<And>x. m' = Inr x \<Longrightarrow> f x = f' x) \<Longrightarrow> and_then m f = and_then m' f'"
  by (cases m') auto

lemma and_then_assoc: "and_then (and_then m f) g = and_then m (\<lambda>x. and_then (f x) g)"
  by (cases m) auto

text \<open>A loop whose termination is not known is a partial function into \<open>option\<close>: \<open>None\<close> is
  a loop that never exits.\<close>

definition run_loop :: "'a run option \<Rightarrow> 'a run" where
  "run_loop m = (case m of None \<Rightarrow> Inl Loops | Some r \<Rightarrow> r)"

lemma run_loop_simps [simp]: "run_loop None = Inl Loops" "run_loop (Some r) = r"
  by (simp_all add: run_loop_def)

lemma run_loop_eq_Inr [run_simps]: "run_loop m = Inr x \<longleftrightarrow> m = Some (Inr x)"
  by (cases m) (auto simp: run_loop_def)

definition assert_run :: "bool \<Rightarrow> unit run" where
  "assert_run b = (if b then Inr () else Inl AssertFailed)"

lemma assert_run_eq_Inr [run_simps]: "assert_run b = Inr u \<longleftrightarrow> b"
  by (simp add: assert_run_def)

lemma assert_run_simps [simp]: "assert_run True = Inr ()" "assert_run False = Inl AssertFailed"
  by (simp_all add: assert_run_def)

subsection \<open>The panicking extraction of shared/src/print\_panic.rs\<close>

definition or_panic :: "'a option \<Rightarrow> string \<Rightarrow> 'a run" where
  "or_panic x msg = (case x of Some t \<Rightarrow> Inr t | None \<Rightarrow> Inl (Panicked msg))"

definition or_panic_result :: "('e + 'a) \<Rightarrow> string \<Rightarrow> 'a run" where
  "or_panic_result x msg = (case x of Inr t \<Rightarrow> Inr t | Inl e \<Rightarrow> Inl (Panicked msg))"

lemma or_panic_simps [simp]:
  "or_panic (Some t) msg = Inr t" "or_panic None msg = Inl (Panicked msg)"
  by (simp_all add: or_panic_def)

lemma or_panic_eq_Inr [run_simps]: "or_panic x msg = Inr t \<longleftrightarrow> x = Some t"
  by (cases x) (auto simp: or_panic_def)

lemma or_panic_result_simps [simp]:
  "or_panic_result (Inr t) msg = Inr t" "or_panic_result (Inl e) msg = Inl (Panicked msg)"
  by (simp_all add: or_panic_result_def)

lemma or_panic_result_eq_Inr [run_simps]: "or_panic_result x msg = Inr t \<longleftrightarrow> x = Inr t"
  by (cases x) (auto simp: or_panic_result_def)

subsection \<open>Checked 64-bit arithmetic\<close>

abbreviation two64 :: nat where
  "two64 \<equiv> 18446744073709551616"

definition add64 :: "nat \<Rightarrow> nat \<Rightarrow> nat run" where
  "add64 a b = (if a + b < two64 then Inr (a + b) else Inl Overflow)"

definition sub64 :: "nat \<Rightarrow> nat \<Rightarrow> nat run" where
  "sub64 a b = (if b \<le> a then Inr (a - b) else Inl Overflow)"

definition mul64 :: "nat \<Rightarrow> nat \<Rightarrow> nat run" where
  "mul64 a b = (if a * b < two64 then Inr (a * b) else Inl Overflow)"

lemma add64_eq_Inr [run_simps]: "add64 a b = Inr c \<longleftrightarrow> c = a + b \<and> a + b < two64"
  by (auto simp: add64_def)

lemma sub64_eq_Inr [run_simps]: "sub64 a b = Inr c \<longleftrightarrow> c = a - b \<and> b \<le> a"
  by (auto simp: sub64_def)

lemma mul64_eq_Inr [run_simps]: "mul64 a b = Inr c \<longleftrightarrow> c = a * b \<and> a * b < two64"
  by (auto simp: mul64_def)

lemma add64_ok [simp]: "a + b < two64 \<Longrightarrow> add64 a b = Inr (a + b)"
  by (simp add: add64_def)

lemma sub64_ok [simp]: "b \<le> a \<Longrightarrow> sub64 a b = Inr (a - b)"
  by (simp add: sub64_def)

lemma mul64_ok [simp]: "a * b < two64 \<Longrightarrow> mul64 a b = Inr (a * b)"
  by (simp add: mul64_def)

subsection \<open>Arrays\<close>

definition index :: "'a list \<Rightarrow> nat \<Rightarrow> 'a run" where
  "index xs i = (if i < length xs then Inr (xs ! i) else Inl OutOfBounds)"

definition store :: "'a list \<Rightarrow> nat \<Rightarrow> 'a \<Rightarrow> 'a list run" where
  "store xs i v = (if i < length xs then Inr (xs[i := v]) else Inl OutOfBounds)"

lemma index_eq_Inr [run_simps]: "index xs i = Inr v \<longleftrightarrow> i < length xs \<and> v = xs ! i"
  by (auto simp: index_def)

lemma store_eq_Inr [run_simps]: "store xs i v = Inr ys \<longleftrightarrow> i < length xs \<and> ys = xs[i := v]"
  by (auto simp: store_def)

lemma index_ok [simp]: "i < length xs \<Longrightarrow> index xs i = Inr (xs ! i)"
  by (simp add: index_def)

lemma index_oob [simp]: "length xs \<le> i \<Longrightarrow> index xs i = Inl OutOfBounds"
  by (simp add: index_def)

lemma store_ok [simp]: "i < length xs \<Longrightarrow> store xs i v = Inr (xs[i := v])"
  by (simp add: store_def)

subsection \<open>Half-open intervals, \<open>core::ops::Range<u64>\<close>\<close>

record range =
  rg_start :: nat
  rg_end :: nat

definition rg_contains :: "range \<Rightarrow> nat \<Rightarrow> bool" where
  "rg_contains r x \<longleftrightarrow> rg_start r \<le> x \<and> x < rg_end r"

definition rg_set :: "range \<Rightarrow> nat set" where
  "rg_set r = {rg_start r ..< rg_end r}"

lemma rg_contains_iff: "rg_contains r x \<longleftrightarrow> x \<in> rg_set r"
  by (simp add: rg_contains_def rg_set_def)

text \<open>A block is \<open>n\<close> bytes from \<open>a\<close>; blocks below a cursor and blocks above it are disjoint.\<close>

definition block :: "nat \<Rightarrow> nat \<Rightarrow> nat set" where
  "block a n = {a ..< a + n}"

lemma mem_block [simp]: "x \<in> block a n \<longleftrightarrow> a \<le> x \<and> x < a + n"
  by (simp add: block_def)

lemma block_disjoint: "a + n \<le> b \<Longrightarrow> block a n \<inter> block b m = {}"
  by (auto simp: block_def)

lemma block_disjoint_range:
  "a + n \<le> rg_start r \<or> rg_end r \<le> a \<Longrightarrow> block a n \<inter> rg_set r = {}"
  by (auto simp: block_def rg_set_def)

subsection \<open>Arithmetic\<close>

lemma dvd_diff_trans:
  fixes a b c d :: nat
  assumes "a \<le> b" "b \<le> c" "d dvd b - a" "d dvd c - b"
  shows "d dvd c - a"
proof -
  have "c - a = (c - b) + (b - a)" using assms(1,2) by simp
  then show ?thesis using dvd_add [OF assms(4,3)] by simp
qed

end
