(* ===== verification/Shared_Args.thy ===== *)
theory Shared_Args
  imports Prelude
begin

section \<open>The shared crate: what the bootloader hands to the kernel\<close>

text \<open>
  The data of \<open>shared/src/arg.rs\<close> and the constants of \<open>shared/src/lib.rs\<close>: the memory
  regions, the ACPI settings and the argument block that the bootloader writes and the
  kernel reads, and the level-four page-table slots both sides agree on.
\<close>

datatype memory_region_kind =
    Usable
  | Bootloader
  | UnknownUefi nat
  | UnknownBios nat

record memory_region =
  mr_start :: nat
  mr_length :: nat
  mr_kind :: memory_region_kind

definition memory_region_empty :: memory_region where
  "memory_region_empty = \<lparr>mr_start = 0, mr_length = 0, mr_kind = Bootloader\<rparr>"

text \<open>The bytes a region stands for, as \<open>start .. start + length\<close>.\<close>

definition mr_set :: "memory_region \<Rightarrow> nat set" where
  "mr_set r = {mr_start r ..< mr_start r + mr_length r}"

definition MAX_CPUS :: nat where
  "MAX_CPUS = 256"

record tls_template =
  tls_start_virt_addr :: nat
  tls_mem_size :: nat
  tls_file_size :: nat

record madt_local_apic =
  lapic_id :: "8 word"
  lapic_processor_id :: "8 word"

record madt_io_apic =
  ioapic_id :: "8 word"
  ioapic_address :: "32 word"
  ioapic_gsi_base :: "32 word"

record madt_interrupt_src_override =
  iso_bus_source :: "8 word"
  iso_irq_source :: "8 word"
  iso_gsi :: "32 word"
  iso_flags :: "16 word"

record acpi_settings =
  local_apic_base :: nat
  local_apic :: "madt_local_apic list"
  local_apic_count :: nat
  io_apic :: "madt_io_apic list"
  io_apic_count :: nat
  interrupt_src_override :: "madt_interrupt_src_override list"
  interrupt_src_override_count :: nat

definition madt_local_apic_default :: madt_local_apic where
  "madt_local_apic_default = \<lparr>lapic_id = 0, lapic_processor_id = 0\<rparr>"

definition madt_io_apic_default :: madt_io_apic where
  "madt_io_apic_default = \<lparr>ioapic_id = 0, ioapic_address = 0, ioapic_gsi_base = 0\<rparr>"

definition madt_iso_default :: madt_interrupt_src_override where
  "madt_iso_default = \<lparr>iso_bus_source = 0, iso_irq_source = 0, iso_gsi = 0, iso_flags = 0\<rparr>"

definition acpi_settings_default :: acpi_settings where
  "acpi_settings_default =
    \<lparr>local_apic_base = 0,
     local_apic = replicate MAX_CPUS madt_local_apic_default,
     local_apic_count = 0,
     io_apic = replicate MAX_CPUS madt_io_apic_default,
     io_apic_count = 0,
     interrupt_src_override = replicate MAX_CPUS madt_iso_default,
     interrupt_src_override_count = 0\<rparr>"

record kernel_arg =
  kernel_virt_space_offset :: int
  gdt_start_addr :: nat
  kernel_pml4_start_addr :: nat
  acpi :: acpi_settings
  stack_top_addr :: nat
  stack_size :: nat
  framebuffer_addr :: nat
  framebuffer_len :: nat
  framebuffer_width :: nat
  framebuffer_height :: nat
  framebuffer_stride :: nat
  phys_mem_mapped_addr :: nat
  phys_mem_size :: nat
  unav_phys_mem_regions :: "memory_region list"
  unav_phys_mem_regions_len :: nat
  bootstrap_base :: nat
  bootstrap_len :: nat
  arg_tls_template :: tls_template

text \<open>The slots of the kernel's level-four table (\<open>shared/src/lib.rs\<close>).\<close>

definition KERNEL_BYTES_P4 :: nat where "KERNEL_BYTES_P4 = 511"
definition BOOTSTRAP_BYTES_P4 :: nat where "BOOTSTRAP_BYTES_P4 = 510"
definition PHYS_MEM_P4 :: nat where "PHYS_MEM_P4 = 0"
definition KERNEL_STACK_P4 :: nat where "KERNEL_STACK_P4 = 509"
definition FRAMEBUFFER_P4 :: nat where "FRAMEBUFFER_P4 = 508"
definition KERNEL_ARG_P4 :: nat where "KERNEL_ARG_P4 = 507"

lemmas p4_slots = KERNEL_BYTES_P4_def BOOTSTRAP_BYTES_P4_def PHYS_MEM_P4_def
  KERNEL_STACK_P4_def FRAMEBUFFER_P4_def KERNEL_ARG_P4_def

end
