(* ===== verification/X86_Crate.thy ===== *)
theory X86_Crate
  imports Prelude
begin

section \<open>What the program uses of the x86\_64 crate: addresses, frames and pages\<close>

text \<open>
  The \<open>x86_64\<close> crate (version 0.14) is a dependency, not part of the repository.  The functions
  of it that the program calls are a parameter \<open>X\<close> of the model; the locale \<open>x86_laws\<close> states
  the documented behaviour the code relies on.  A 4 KiB frame and a page are represented by
  their start address, which is what \<open>start_address()\<close> gives back.
  The interpretation \<open>x86m\<close> at the end gives one implementation that satisfies the laws.
\<close>

record x86 =
  PhysAddr_new :: "nat \<Rightarrow> nat run"          \<comment> \<open>panics if bits 52..64 are set\<close>
  PhysAddr_add :: "nat \<Rightarrow> nat \<Rightarrow> nat run"   \<comment> \<open>\<open>PhysAddr + u64\<close>\<close>
  PhysAddr_sub :: "nat \<Rightarrow> nat \<Rightarrow> nat run"   \<comment> \<open>\<open>PhysAddr - u64\<close>\<close>
  VirtAddr_new :: "nat \<Rightarrow> nat run"          \<comment> \<open>sign-extends bit 47, panics if bits 48..64 disagree\<close>
  VirtAddr_add :: "nat \<Rightarrow> nat \<Rightarrow> nat run"   \<comment> \<open>\<open>VirtAddr + u64\<close>\<close>
  VirtAddr_sub :: "nat \<Rightarrow> nat \<Rightarrow> nat run"   \<comment> \<open>\<open>VirtAddr - u64\<close>\<close>
  VirtAddr_forward :: "nat \<Rightarrow> nat \<Rightarrow> nat option" \<comment> \<open>\<open>Step::forward_checked\<close>\<close>
  addr_align_up :: "nat \<Rightarrow> nat \<Rightarrow> nat run"  \<comment> \<open>\<open>align_up\<close>\<close>
  addr_align_down :: "nat \<Rightarrow> nat \<Rightarrow> nat"    \<comment> \<open>\<open>VirtAddr::align_down\<close>\<close>
  frame_containing :: "nat \<Rightarrow> nat"          \<comment> \<open>\<open>PhysFrame::<Size4KiB>::containing_address\<close>\<close>
  frame_1gib :: "nat \<Rightarrow> nat"                \<comment> \<open>\<open>PhysFrame::<Size1GiB>::containing_address\<close>\<close>
  page_containing :: "nat \<Rightarrow> nat"           \<comment> \<open>\<open>Page::<Size4KiB>::containing_address\<close>\<close>
  page_1gib :: "nat \<Rightarrow> nat"                 \<comment> \<open>\<open>Page::<Size1GiB>::containing_address\<close>\<close>
  page_from_indices_1gib :: "nat \<Rightarrow> nat \<Rightarrow> nat" \<comment> \<open>\<open>Page::from_page_table_indices_1gib\<close>\<close>
  p4_index :: "nat \<Rightarrow> nat"                  \<comment> \<open>\<open>Page::p4_index\<close>\<close>
  p3_index :: "nat \<Rightarrow> nat"                  \<comment> \<open>\<open>Page::p3_index\<close>\<close>
  p2_index :: "nat \<Rightarrow> nat"                  \<comment> \<open>\<open>Page::p2_index\<close>\<close>
  p1_index :: "nat \<Rightarrow> nat"                  \<comment> \<open>\<open>Page::p1_index\<close>\<close>
  PageTableIndex_new :: "nat \<Rightarrow> nat run"    \<comment> \<open>panics if the index is 512 or more\<close>

abbreviation max_phys :: nat where
  "max_phys \<equiv> 4503599627370496"

abbreviation sign_ext :: nat where
  "sign_ext \<equiv> 18446462598732840960"

definition canonical :: "nat \<Rightarrow> bool" where
  "canonical a \<longleftrightarrow> a < 140737488355328 \<or> 18446603336221196288 \<le> a \<and> a < two64"

text \<open>The first address of a slot of the top-level page table.\<close>

definition p4_base :: "nat \<Rightarrow> nat" where
  "p4_base i = (if i < 256 then i * 549755813888 else i * 549755813888 + sign_ext)"

locale x86_laws =
  fixes X :: x86
  assumes PhysAddr_new_ok: "a < max_phys \<Longrightarrow> PhysAddr_new X a = Inr a"
    and PhysAddr_new_bad: "max_phys \<le> a \<Longrightarrow> PhysAddr_new X a \<noteq> Inr b"
    and PhysAddr_add_ok: "a + n < max_phys \<Longrightarrow> PhysAddr_add X a n = Inr (a + n)"
    and PhysAddr_add_bad: "max_phys \<le> a + n \<Longrightarrow> PhysAddr_add X a n \<noteq> Inr b"
    and PhysAddr_sub_ok: "n \<le> a \<Longrightarrow> a < max_phys \<Longrightarrow> PhysAddr_sub X a n = Inr (a - n)"
    and PhysAddr_sub_bad: "a < n \<Longrightarrow> PhysAddr_sub X a n \<noteq> Inr b"
    and VirtAddr_new_ok: "canonical a \<Longrightarrow> VirtAddr_new X a = Inr a"
    and VirtAddr_new_ext: "140737488355328 \<le> a \<Longrightarrow> a < 281474976710656 \<Longrightarrow>
          VirtAddr_new X a = Inr (a + sign_ext)"
    and VirtAddr_new_bad: "281474976710656 \<le> a \<Longrightarrow> \<not> canonical a \<Longrightarrow> VirtAddr_new X a \<noteq> Inr b"
    and VirtAddr_add_ok: "canonical (a + n) \<Longrightarrow> VirtAddr_add X a n = Inr (a + n)"
    and VirtAddr_add_overflow: "two64 \<le> a + n \<Longrightarrow> VirtAddr_add X a n \<noteq> Inr b"
    and VirtAddr_sub_ok: "n \<le> a \<Longrightarrow> canonical (a - n) \<Longrightarrow> VirtAddr_sub X a n = Inr (a - n)"
    and VirtAddr_forward_ok: "canonical a \<Longrightarrow> canonical (a + n) \<Longrightarrow>
          (a < 140737488355328 \<longleftrightarrow> a + n < 140737488355328) \<Longrightarrow> VirtAddr_forward X a n = Some (a + n)"
    and VirtAddr_forward_high: "18446603336221196288 \<le> a \<Longrightarrow> VirtAddr_forward X a n = Some b \<Longrightarrow>
          b = a + n \<and> b < two64"
    and addr_align_up_ok: "a + 4095 < two64 \<Longrightarrow>
          addr_align_up X a 4096 = Inr (a + 4095 - (a + 4095) mod 4096)"
    and addr_align_down_eq: "addr_align_down X a 16 = a - a mod 16"
    and frame_containing_eq: "frame_containing X a = a - a mod 4096"
    and frame_1gib_eq: "frame_1gib X a = a - a mod 1073741824"
    and page_containing_eq: "page_containing X a = a - a mod 4096"
    and page_1gib_eq: "page_1gib X a = a - a mod 1073741824"
    and page_from_indices_1gib_eq: "i < 512 \<Longrightarrow> j < 512 \<Longrightarrow>
          page_from_indices_1gib X i j = p4_base i + j * 1073741824"
    and p4_index_eq: "p4_index X a = a div 549755813888 mod 512"
    and p3_index_eq: "p3_index X a = a div 1073741824 mod 512"
    and p2_index_eq: "p2_index X a = a div 2097152 mod 512"
    and p1_index_eq: "p1_index X a = a div 4096 mod 512"
    and PageTableIndex_new_ok: "i < 512 \<Longrightarrow> PageTableIndex_new X i = Inr i"
    and PageTableIndex_new_bad: "512 \<le> i \<Longrightarrow> PageTableIndex_new X i \<noteq> Inr j"
begin

lemma PhysAddr_new_eq_Inr:
  "PhysAddr_new X a = Inr b \<longleftrightarrow> a < max_phys \<and> b = a"
  using PhysAddr_new_ok PhysAddr_new_bad by (cases "a < max_phys") auto

lemma PhysAddr_add_eq_Inr:
  "PhysAddr_add X a n = Inr b \<longleftrightarrow> a + n < max_phys \<and> b = a + n"
  using PhysAddr_add_ok PhysAddr_add_bad by (cases "a + n < max_phys") auto

lemma PhysAddr_sub_eq_Inr:
  "a < max_phys \<Longrightarrow> PhysAddr_sub X a n = Inr b \<longleftrightarrow> n \<le> a \<and> b = a - n"
  using PhysAddr_sub_ok PhysAddr_sub_bad by (cases "n \<le> a") auto

lemma PageTableIndex_new_eq_Inr: "PageTableIndex_new X i = Inr j \<longleftrightarrow> i < 512 \<and> j = i"
  using PageTableIndex_new_ok PageTableIndex_new_bad by (cases "i < 512") auto

text \<open>Addresses in the upper half: sums that do not overflow stay there.\<close>

lemma VirtAddr_add_high:
  assumes "18446603336221196288 \<le> a"
  shows "VirtAddr_add X a n = Inr b \<longleftrightarrow> a + n < two64 \<and> b = a + n"
proof (cases "a + n < two64")
  case True
  with assms have "canonical (a + n)" by (simp add: canonical_def)
  with True show ?thesis using VirtAddr_add_ok by auto
next
  case False
  with VirtAddr_add_overflow [of a n] show ?thesis by auto
qed

lemma VirtAddr_sub_high:
  assumes "18446603336221196288 < a" and "a < two64"
  shows "VirtAddr_sub X a 1 = Inr (a - 1)"
  by (rule VirtAddr_sub_ok) (use assms in \<open>auto simp: canonical_def\<close>)

lemma VirtAddr_new_high: "18446603336221196288 \<le> a \<Longrightarrow> a < two64 \<Longrightarrow> VirtAddr_new X a = Inr a"
  by (rule VirtAddr_new_ok) (simp add: canonical_def)

lemma frame_containing_aligned: "a mod 4096 = 0 \<Longrightarrow> frame_containing X a = a"
  by (simp add: frame_containing_eq)

lemma frame_containing_bounds: "frame_containing X a \<le> a \<and> a < frame_containing X a + 4096"
proof -
  have "a mod 4096 < 4096" by simp
  moreover have "a mod 4096 \<le> a" by simp
  ultimately show ?thesis unfolding frame_containing_eq by linarith
qed

lemma frame_containing_dvd: "4096 dvd frame_containing X a"
  unfolding frame_containing_eq by (simp add: minus_mod_eq_mult_div)

end

definition x86_model :: x86 where
  "x86_model =
    \<lparr>PhysAddr_new = (\<lambda>a. if a < max_phys then Inr a else Inl (Panicked ''PhysAddr'')),
     PhysAddr_add = (\<lambda>a n. if a + n < max_phys then Inr (a + n) else Inl (Panicked ''PhysAddr'')),
     PhysAddr_sub = (\<lambda>a n. if n \<le> a then Inr (a - n) else Inl (Panicked ''PhysAddr'')),
     VirtAddr_new = (\<lambda>a. if canonical a then Inr a
        else if a < 281474976710656 then Inr (a + sign_ext) else Inl (Panicked ''VirtAddr'')),
     VirtAddr_add = (\<lambda>a n. if canonical (a + n) then Inr (a + n) else Inl (Panicked ''VirtAddr'')),
     VirtAddr_sub = (\<lambda>a n. if n \<le> a \<and> canonical (a - n) then Inr (a - n)
        else Inl (Panicked ''VirtAddr'')),
     VirtAddr_forward = (\<lambda>a n. if canonical (a + n) then Some (a + n) else None),
     addr_align_up = (\<lambda>a n. if a + (n - 1) < two64 then Inr (a + (n - 1) - (a + (n - 1)) mod n)
        else Inl (Panicked ''align_up'')),
     addr_align_down = (\<lambda>a n. a - a mod n),
     frame_containing = (\<lambda>a. a - a mod 4096),
     frame_1gib = (\<lambda>a. a - a mod 1073741824),
     page_containing = (\<lambda>a. a - a mod 4096),
     page_1gib = (\<lambda>a. a - a mod 1073741824),
     page_from_indices_1gib = (\<lambda>i j. p4_base i + j * 1073741824),
     p4_index = (\<lambda>a. a div 549755813888 mod 512),
     p3_index = (\<lambda>a. a div 1073741824 mod 512),
     p2_index = (\<lambda>a. a div 2097152 mod 512),
     p1_index = (\<lambda>a. a div 4096 mod 512),
     PageTableIndex_new = (\<lambda>i. if i < 512 then Inr i else Inl (Panicked ''PageTableIndex''))\<rparr>"

interpretation x86m: x86_laws x86_model
  by unfold_locales (auto simp: x86_model_def canonical_def split: if_splits)

text \<open>Evaluation of the implementation on concrete arguments.\<close>

lemma x86_model_eval:
  "PhysAddr_new x86_model a = (if a < max_phys then Inr a else Inl (Panicked ''PhysAddr''))"
  "PhysAddr_add x86_model a n = (if a + n < max_phys then Inr (a + n) else Inl (Panicked ''PhysAddr''))"
  "PhysAddr_sub x86_model a n = (if n \<le> a then Inr (a - n) else Inl (Panicked ''PhysAddr''))"
  "VirtAddr_new x86_model a = (if canonical a then Inr a
        else if a < 281474976710656 then Inr (a + sign_ext) else Inl (Panicked ''VirtAddr''))"
  "VirtAddr_add x86_model a n = (if canonical (a + n) then Inr (a + n) else Inl (Panicked ''VirtAddr''))"
  "VirtAddr_sub x86_model a n = (if n \<le> a \<and> canonical (a - n) then Inr (a - n) else Inl (Panicked ''VirtAddr''))"
  "VirtAddr_forward x86_model a n = (if canonical (a + n) then Some (a + n) else None)"
  "addr_align_up x86_model a n = (if a + (n - 1) < two64 then Inr (a + (n - 1) - (a + (n - 1)) mod n)
        else Inl (Panicked ''align_up''))"
  "addr_align_down x86_model a n = a - a mod n"
  "frame_containing x86_model a = a - a mod 4096"
  "frame_1gib x86_model a = a - a mod 1073741824"
  "page_1gib x86_model a = a - a mod 1073741824"
  "page_containing x86_model a = a - a mod 4096"
  "page_from_indices_1gib x86_model i j = p4_base i + j * 1073741824"
  "PageTableIndex_new x86_model i = (if i < 512 then Inr i else Inl (Panicked ''PageTableIndex''))"
  by (simp_all add: x86_model_def)

end
