(* ===== verification/Bump_Allocator.thy ===== *)
theory Bump_Allocator
  imports Prelude
begin

section \<open>The contract of an allocator that only moves upwards\<close>

text \<open>
  The kernel and the bootloader each have a frame allocator that keeps a cursor and never
  takes memory back.  The locale states what their clients rely on: a request \<open>q\<close> asks for
  \<open>frames_of q\<close> frames (the kernel's requests are numbers of frames, the bootloader's are
  always for one frame); a successful request returns that many consecutive frames at or
  above the cursor, outside the forbidden addresses, aligned, and leaves the cursor past them; any request keeps the invariant, the
  forbidden set, and does not move the cursor back.  The lemmas proved here are about any
  sequence of requests: what it returns is pairwise disjoint, ascending, and avoids the
  forbidden addresses.
\<close>

definition frames_block :: "nat \<Rightarrow> nat \<Rightarrow> nat set" where
  "frames_block a n = block a (n * 4096)"

text \<open>A sequence of requests; the blocks returned are collected in order, each with its
  request.\<close>

fun alloc_seq ::
  "('s \<Rightarrow> 'q \<Rightarrow> (nat option \<times> 's) run) \<Rightarrow> 's \<Rightarrow> 'q list \<Rightarrow> ((nat \<times> 'q) list \<times> 's) run" where
  "alloc_seq alloc s [] = Inr ([], s)"
| "alloc_seq alloc s (n # ns) =
     and_then (alloc s n) (\<lambda>(r, s').
     and_then (alloc_seq alloc s' ns) (\<lambda>(bs, s'').
       Inr ((case r of None \<Rightarrow> bs | Some a \<Rightarrow> (a, n) # bs), s'')))"

locale bump_allocator =
  fixes inv :: "'s \<Rightarrow> bool"
    and cursor :: "'s \<Rightarrow> nat"
    and forbidden :: "'s \<Rightarrow> nat set"
    and frames_of :: "'q \<Rightarrow> nat"
    and alloc :: "'s \<Rightarrow> 'q \<Rightarrow> (nat option \<times> 's) run"
  assumes alloc_inv: "inv s \<Longrightarrow> alloc s q = Inr (r, s') \<Longrightarrow> inv s'"
    and alloc_cursor: "inv s \<Longrightarrow> alloc s q = Inr (r, s') \<Longrightarrow> cursor s \<le> cursor s'"
    and alloc_forbidden: "inv s \<Longrightarrow> alloc s q = Inr (r, s') \<Longrightarrow> forbidden s' = forbidden s"
    and alloc_above: "inv s \<Longrightarrow> alloc s q = Inr (Some a, s') \<Longrightarrow>
          cursor s \<le> a \<and> a + frames_of q * 4096 \<le> cursor s'"
    and alloc_avoids: "inv s \<Longrightarrow> alloc s q = Inr (Some a, s') \<Longrightarrow>
          frames_block a (frames_of q) \<inter> forbidden s = {}"
    and alloc_aligned: "inv s \<Longrightarrow> alloc s q = Inr (Some a, s') \<Longrightarrow> 4096 dvd a"
begin

lemma alloc_seq_above:
  assumes "inv s" and "alloc_seq alloc s qs = Inr (bs, s')"
  shows "inv s' \<and> cursor s \<le> cursor s' \<and> forbidden s' = forbidden s
     \<and> (\<forall>(a, q)\<in>set bs. cursor s \<le> a \<and> a + frames_of q * 4096 \<le> cursor s' \<and> 4096 dvd a
          \<and> frames_block a (frames_of q) \<inter> forbidden s = {})"
  using assms
proof (induction qs arbitrary: s bs)
  case Nil
  then show ?case by simp
next
  case (Cons q qs)
  from Cons.prems(2) obtain r s1 bs1 where step: "alloc s q = Inr (r, s1)"
    and rest: "alloc_seq alloc s1 qs = Inr (bs1, s')"
    and bs: "bs = (case r of None \<Rightarrow> bs1 | Some a \<Rightarrow> (a, q) # bs1)"
    by (auto simp: run_simps)
  note laws = alloc_inv [OF Cons.prems(1) step] alloc_cursor [OF Cons.prems(1) step]
    alloc_forbidden [OF Cons.prems(1) step]
  note IH = Cons.IH [OF laws(1) rest]
  show ?case
  proof (cases r)
    case None
    with IH laws bs show ?thesis by fastforce
  next
    case (Some a)
    note blk = alloc_above [OF Cons.prems(1) step [unfolded Some]]
      alloc_avoids [OF Cons.prems(1) step [unfolded Some]]
      alloc_aligned [OF Cons.prems(1) step [unfolded Some]]
    from IH laws blk bs Some show ?thesis by fastforce
  qed
qed

lemma alloc_seq_ascending:
  assumes "inv s" and "alloc_seq alloc s qs = Inr (bs, s')"
  shows "sorted_wrt (\<lambda>(a, q) (b, q'). a + frames_of q * 4096 \<le> b) bs"
  using assms
proof (induction qs arbitrary: s bs)
  case Nil
  then show ?case by simp
next
  case (Cons q qs)
  from Cons.prems(2) obtain r s1 bs1 where step: "alloc s q = Inr (r, s1)"
    and rest: "alloc_seq alloc s1 qs = Inr (bs1, s')"
    and bs: "bs = (case r of None \<Rightarrow> bs1 | Some a \<Rightarrow> (a, q) # bs1)"
    by (auto simp: run_simps)
  have inv1: "inv s1" by (rule alloc_inv [OF Cons.prems(1) step])
  note IH = Cons.IH [OF inv1 rest]
  show ?case
  proof (cases r)
    case None
    with IH bs show ?thesis by simp
  next
    case (Some a)
    have "a + frames_of q * 4096 \<le> cursor s1"
      using alloc_above [OF Cons.prems(1) step [unfolded Some]] by simp
    with alloc_seq_above [OF inv1 rest] IH bs Some show ?thesis by fastforce
  qed
qed

theorem alloc_seq_disjoint:
  assumes "inv s" and "alloc_seq alloc s qs = Inr (bs, s')" and "i < j" and "j < length bs"
  shows "frames_block (fst (bs ! i)) (frames_of (snd (bs ! i)))
       \<inter> frames_block (fst (bs ! j)) (frames_of (snd (bs ! j))) = {}"
proof -
  from alloc_seq_ascending [OF assms(1,2)] assms(3,4)
  have "fst (bs ! i) + frames_of (snd (bs ! i)) * 4096 \<le> fst (bs ! j)"
    by (auto simp: sorted_wrt_iff_nth_less case_prod_beta)
  then show ?thesis unfolding frames_block_def by (rule block_disjoint)
qed

end

end
