(* ===== verification/Kernel_Frames.thy ===== *)
theory Kernel_Frames
  imports Shared_Args X86_Crate Bump_Allocator
begin

section \<open>The kernel's physical frame allocator (kernel/src/mem/frame\_allocator.rs)\<close>

text \<open>
  The allocator hands out physical memory upwards from \<open>0x100000\<close> and steps over the
  regions the bootloader reported as unavailable.  \<open>LinkedRangeIterator\<close> holds those
  regions merged into separated ascending ranges, a cursor, and the index of the first
  range the cursor has not passed.  The theory models the construction, the iterator and
  the allocator on top, and shows: the merge keeps exactly the reported bytes; a block
  handed out meets no unavailable range and no earlier block; the search returns whenever
  the address space leaves room; running out of memory is permanent.
\<close>

subsection \<open>Data\<close>

definition MAX_RANGE_COUNT :: nat where
  "MAX_RANGE_COUNT = 512"

definition PAGE_SIZE :: nat where
  "PAGE_SIZE = 4096"

record linked_range_iterator =
  ranges :: "range list"
  range_size :: nat
  window :: nat
  current_range_index :: nat
  current_value :: nat

record linear_inc_frame_allocator =
  range_iterator :: linked_range_iterator
  base_address :: nat
  phys_mem_right_boundary :: nat
  alloc_window :: nat

subsection \<open>Construction from the memory regions\<close>

definition region_range :: "memory_region \<Rightarrow> range run" where
  "region_range r =
     and_then (add64 (mr_start r) (mr_length r)) (\<lambda>e. Inr \<lparr>rg_start = mr_start r, rg_end = e\<rparr>)"

text \<open>
  The merge loop.  The written prefix of \<open>merged_stack\<close> is the list \<open>st\<close>; \<open>curr_idx\<close> is the
  index of its last element and \<open>size\<close> its length.
\<close>

fun merge_loop :: "range list \<Rightarrow> memory_region list \<Rightarrow> range list run" where
  "merge_loop st [] = Inr st"
| "merge_loop st (r # rs) =
     and_then (region_range r) (\<lambda>g.
       if rg_end (last st) < rg_start g then
         if length st < MAX_RANGE_COUNT then merge_loop (st @ [g]) rs else Inl OutOfBounds
       else if rg_end (last st) < rg_end g then
         merge_loop (butlast st @ [\<lparr>rg_start = rg_start (last st), rg_end = rg_end g\<rparr>]) rs
       else merge_loop st rs)"

definition merge_regions :: "memory_region list \<Rightarrow> range list run" where
  "merge_regions regions =
     (case regions of
        [] \<Rightarrow> Inl OutOfBounds
      | r # rs \<Rightarrow> and_then (region_range r) (\<lambda>g. merge_loop [g] rs))"

text \<open>The copy loop, which also finds the first range that ends above \<open>start\<close>.\<close>

fun initial_index_loop :: "nat \<Rightarrow> nat \<Rightarrow> nat \<Rightarrow> range list \<Rightarrow> nat" where
  "initial_index_loop start curr_idx initial_index [] = initial_index"
| "initial_index_loop start curr_idx initial_index (p # ps) =
     initial_index_loop start (Suc curr_idx)
       (if rg_end p \<le> start then Suc curr_idx else initial_index) ps"

text \<open>
  The part of the array past \<open>size\<close> is never written; its contents are the argument
  \<open>junk\<close>, an arbitrary value for every index.
\<close>

definition from_memory_regions ::
  "(nat \<Rightarrow> range) \<Rightarrow> nat \<Rightarrow> nat \<Rightarrow> memory_region list \<Rightarrow> linked_range_iterator run" where
  "from_memory_regions junk start win regions =
     and_then (merge_regions regions) (\<lambda>merged.
       Inr \<lparr>ranges = merged @ map junk [length merged ..< MAX_RANGE_COUNT],
            range_size = length merged,
            window = win,
            current_range_index = initial_index_loop start 0 0 merged,
            current_value = start\<rparr>)"

subsection \<open>Advancing the cursor\<close>

text \<open>The inner loop \<open>while current_range.contains(&curr) { curr += required_size }\<close>.\<close>

partial_function (option) skip_range :: "range \<Rightarrow> nat \<Rightarrow> nat \<Rightarrow> nat run option" where
  "skip_range rg req cur =
     (if rg_contains rg cur then
        (case add64 cur req of Inl e \<Rightarrow> Some (Inl e) | Inr c \<Rightarrow> skip_range rg req c)
      else Some (Inr cur))"

text \<open>The outer loop: it leaves the pair of \<open>curr\<close> and \<open>current_range_index\<close>.\<close>

function skip_loop ::
  "range list \<Rightarrow> nat \<Rightarrow> nat \<Rightarrow> bool \<Rightarrow> nat \<Rightarrow> nat \<Rightarrow> (nat \<times> nat) run" where
  "skip_loop rgs sz req overlapped cur idx =
     (if overlapped \<and> idx < sz then
        and_then (index rgs idx) (\<lambda>current_range.
        and_then (run_loop (skip_range current_range req cur)) (\<lambda>cur'.
        and_then (index rgs (Suc idx)) (\<lambda>next_range.
          skip_loop rgs sz req (rg_contains next_range cur') cur' (Suc idx))))
      else Inr (cur, idx))"
  by pat_completeness auto
termination
  by (relation "measure (\<lambda>(rgs, sz, req, ov, cur, idx). sz - idx)") auto

declare skip_loop.simps [simp del]

text \<open>
  \<open>next_n\<close> calls itself after the loop.  Nothing in the code bounds that recursion by
  itself, so it is a partial function; \<open>None\<close> is a call that never returns.
\<close>

partial_function (option) next_n_rec ::
  "linked_range_iterator \<Rightarrow> nat \<Rightarrow> (nat option \<times> linked_range_iterator) run option" where
  "next_n_rec it count =
     (case mul64 (window it) count of Inl e \<Rightarrow> Some (Inl e) | Inr required_size \<Rightarrow>
       if current_range_index it = range_size it then
         Some (and_then (add64 (current_value it) required_size) (\<lambda>v.
           Inr (Some (current_value it), it\<lparr>current_value := v\<rparr>)))
       else
         (case add64 (current_value it) required_size of Inl e \<Rightarrow> Some (Inl e) | Inr v \<Rightarrow>
         (case index (ranges it) (current_range_index it) of Inl e \<Rightarrow> Some (Inl e) | Inr rg \<Rightarrow>
           if v \<le> rg_start rg then
             Some (Inr (Some (current_value it), it\<lparr>current_value := v\<rparr>))
           else
             (case skip_loop (ranges it) (range_size it) required_size True v
                     (current_range_index it) of
                Inl e \<Rightarrow> Some (Inl e)
              | Inr (cur, idx) \<Rightarrow>
                  next_n_rec (it\<lparr>current_value := cur, current_range_index := idx\<rparr>) count))))"

definition next_n :: "linked_range_iterator \<Rightarrow> nat \<Rightarrow> (nat option \<times> linked_range_iterator) run" where
  "next_n it count = run_loop (next_n_rec it count)"

subsection \<open>The allocator\<close>

definition allocator_new ::
  "(nat \<Rightarrow> range) \<Rightarrow> nat \<Rightarrow> nat \<Rightarrow> nat \<Rightarrow> memory_region list \<Rightarrow> linear_inc_frame_allocator run" where
  "allocator_new junk phys_start_addr win mem_size unav_regions =
     and_then (from_memory_regions junk 0x100000 win unav_regions) (\<lambda>it.
     and_then (add64 phys_start_addr mem_size) (\<lambda>boundary.
       Inr \<lparr>range_iterator = it, base_address = phys_start_addr,
            phys_mem_right_boundary = boundary, alloc_window = win\<rparr>))"

definition allocate_frames ::
  "x86 \<Rightarrow> linear_inc_frame_allocator \<Rightarrow> nat \<Rightarrow> (nat option \<times> linear_inc_frame_allocator) run" where
  "allocate_frames X al count =
     and_then (next_n (range_iterator al) count) (\<lambda>(r, it).
       let al' = al\<lparr>range_iterator := it\<rparr> in
       case r of
         None \<Rightarrow> Inr (None, al')
       | Some phys_addr \<Rightarrow>
           and_then (mul64 (alloc_window al) count) (\<lambda>len.
           and_then (add64 phys_addr len) (\<lambda>e.
             if e > phys_mem_right_boundary al then Inr (None, al')
             else
               and_then (add64 (base_address al) phys_addr) (\<lambda>a.
               and_then (PhysAddr_new X a) (\<lambda>pa.
                 Inr (Some (frame_containing X pa), al'))))))"

definition allocate_frame ::
  "x86 \<Rightarrow> linear_inc_frame_allocator \<Rightarrow> (nat option \<times> linear_inc_frame_allocator) run" where
  "allocate_frame X al = allocate_frames X al 1"

text \<open>
  The global allocator: \<open>FRAME_ALLOCATOR\<close> is uninitialised until \<open>init_frame_allocator\<close>
  writes it, \<open>PHYS_MEM_SIZE\<close> is a cell that keeps its first value.  \<open>with_frame_alloc\<close>
  runs a closure on the allocator behind the lock.
\<close>

record frame_globals =
  FRAME_ALLOCATOR :: "linear_inc_frame_allocator option"
  PHYS_MEM_SIZE :: "nat option"

definition init_frame_allocator ::
  "(nat \<Rightarrow> range) \<Rightarrow> nat \<Rightarrow> nat \<Rightarrow> memory_region list \<Rightarrow> frame_globals \<Rightarrow> frame_globals run" where
  "init_frame_allocator junk phys_start_addr mem_size mem_regions g =
     and_then (allocator_new junk phys_start_addr PAGE_SIZE mem_size mem_regions) (\<lambda>al.
       Inr (g\<lparr>FRAME_ALLOCATOR := Some al,
              PHYS_MEM_SIZE := (case PHYS_MEM_SIZE g of None \<Rightarrow> Some mem_size | Some n \<Rightarrow> Some n)\<rparr>))"

definition with_frame_alloc ::
  "(linear_inc_frame_allocator \<Rightarrow> ('r \<times> linear_inc_frame_allocator) run)
     \<Rightarrow> frame_globals \<Rightarrow> ('r \<times> frame_globals) run" where
  "with_frame_alloc f g =
     (case FRAME_ALLOCATOR g of
        None \<Rightarrow> Inl Undefined
      | Some al \<Rightarrow> and_then (f al) (\<lambda>(r, al'). Inr (r, g\<lparr>FRAME_ALLOCATOR := Some al'\<rparr>)))"

definition frame_alloc :: "x86 \<Rightarrow> frame_globals \<Rightarrow> (nat option \<times> frame_globals) run" where
  "frame_alloc X g = with_frame_alloc (allocate_frame X) g"

definition frame_alloc_n :: "x86 \<Rightarrow> nat \<Rightarrow> frame_globals \<Rightarrow> (nat option \<times> frame_globals) run" where
  "frame_alloc_n X count g = with_frame_alloc (\<lambda>al. allocate_frames X al count) g"

definition frame_dealloc :: "nat \<Rightarrow> frame_globals \<Rightarrow> frame_globals" where
  "frame_dealloc frame g = g"

subsection \<open>Separated ranges\<close>

definition separated :: "range list \<Rightarrow> bool" where
  "separated rs \<longleftrightarrow> sorted_wrt (\<lambda>a b. rg_end a < rg_start b) rs \<and> (\<forall>r\<in>set rs. rg_start r \<le> rg_end r)"

definition covered :: "range list \<Rightarrow> nat set" where
  "covered rs = \<Union> (rg_set ` set rs)"

lemma separated_snoc:
  "separated (bs @ [l]) \<longleftrightarrow>
     separated bs \<and> rg_start l \<le> rg_end l \<and> (\<forall>b\<in>set bs. rg_end b < rg_start l)"
  by (auto simp: separated_def sorted_wrt_append)

lemma covered_snoc: "covered (bs @ [l]) = covered bs \<union> rg_set l"
  by (auto simp: covered_def)

lemma separated_nth:
  assumes "separated rs" and "i < j" and "j < length rs"
  shows "rg_end (rs ! i) < rg_start (rs ! j)"
  using assms by (auto simp: separated_def sorted_wrt_iff_nth_less)

lemma separated_nth_end_mono:
  assumes "separated rs" and "i \<le> j" and "j < length rs"
  shows "rg_end (rs ! i) \<le> rg_end (rs ! j)"
proof (cases "i = j")
  case False
  with assms have "rg_end (rs ! i) < rg_start (rs ! j)" by (simp add: separated_nth)
  moreover from assms have "rg_start (rs ! j) \<le> rg_end (rs ! j)" by (simp add: separated_def)
  ultimately show ?thesis by simp
qed simp

lemma separated_nth_start_mono:
  assumes "separated rs" and "i \<le> j" and "j < length rs"
  shows "rg_start (rs ! i) \<le> rg_start (rs ! j)"
proof (cases "i = j")
  case False
  with assms have "rg_end (rs ! i) < rg_start (rs ! j)" by (simp add: separated_nth)
  moreover from assms have "rg_start (rs ! i) \<le> rg_end (rs ! i)" by (simp add: separated_def)
  ultimately show ?thesis by simp
qed simp

subsection \<open>The merge keeps the reported bytes\<close>

definition merge_inv :: "range list \<Rightarrow> memory_region list \<Rightarrow> bool" where
  "merge_inv st rs \<longleftrightarrow>
     st \<noteq> [] \<and> separated st \<and> sorted (map mr_start rs)
     \<and> (\<forall>r\<in>set rs. rg_start (last st) \<le> mr_start r)"

lemma merge_inv_push:
  assumes "merge_inv st (r # rs)" and "rg_end (last st) < mr_start r" and "mr_start r \<le> e"
  shows "merge_inv (st @ [\<lparr>rg_start = mr_start r, rg_end = e\<rparr>]) rs"
proof -
  from assms(1) obtain bs l where st: "st = bs @ [l]"
    by (metis merge_inv_def append_butlast_last_id)
  from assms have "\<forall>b\<in>set st. rg_end b < mr_start r"
    unfolding merge_inv_def st by (fastforce simp: separated_snoc)
  with assms have "separated (st @ [\<lparr>rg_start = mr_start r, rg_end = e\<rparr>])"
    by (simp add: merge_inv_def separated_snoc)
  with assms(1) show ?thesis by (simp add: merge_inv_def)
qed

lemma merge_inv_extend:
  assumes "merge_inv st (r # rs)" and "rg_end (last st) < e"
  shows "merge_inv (butlast st @ [\<lparr>rg_start = rg_start (last st), rg_end = e\<rparr>]) rs"
proof -
  from assms(1) obtain bs l where st: "st = bs @ [l]"
    by (metis merge_inv_def append_butlast_last_id)
  show ?thesis
    using assms unfolding merge_inv_def st by (auto simp: separated_snoc)
qed

lemma covered_extend:
  assumes "merge_inv st (r # rs)" and "mr_start r \<le> rg_end (last st)" and "rg_end (last st) < e"
  shows "covered (butlast st @ [\<lparr>rg_start = rg_start (last st), rg_end = e\<rparr>])
         = covered st \<union> {mr_start r ..< e}"
proof -
  from assms(1) obtain bs l where st: "st = bs @ [l]"
    by (metis merge_inv_def append_butlast_last_id)
  show ?thesis
    using assms unfolding merge_inv_def st by (auto simp: covered_snoc rg_set_def)
qed

lemma covered_absorb:
  assumes "merge_inv st (r # rs)" and "e \<le> rg_end (last st)"
  shows "{mr_start r ..< e} \<subseteq> covered st"
proof -
  from assms(1) obtain bs l where st: "st = bs @ [l]"
    by (metis merge_inv_def append_butlast_last_id)
  show ?thesis
    using assms unfolding merge_inv_def st by (auto simp: covered_snoc rg_set_def)
qed

lemma region_range_eq_Inr [run_simps]:
  "region_range r = Inr g \<longleftrightarrow>
     mr_start r + mr_length r < two64
     \<and> g = \<lparr>rg_start = mr_start r, rg_end = mr_start r + mr_length r\<rparr>"
  by (auto simp: region_range_def run_simps)

lemma merge_loop_correct:
  assumes "merge_inv st rs" and "merge_loop st rs = Inr m"
  shows "separated m \<and> m \<noteq> [] \<and> length m \<le> max (length st) MAX_RANGE_COUNT
         \<and> covered m = covered st \<union> \<Union> (mr_set ` set rs)"
  using assms
proof (induction st rs rule: merge_loop.induct)
  case (1 st)
  then show ?case by (auto simp: merge_inv_def)
next
  case (2 st r rs)
  let ?e = "mr_start r + mr_length r"
  let ?g = "\<lparr>rg_start = mr_start r, rg_end = ?e\<rparr>"
  from "2.prems"(2) have g: "region_range r = Inr ?g"
    by (auto simp: run_simps)
  have mr: "mr_set r = {mr_start r ..< ?e}" by (simp add: mr_set_def)
  consider (push) "rg_end (last st) < mr_start r"
    | (extend) "mr_start r \<le> rg_end (last st)" "rg_end (last st) < ?e"
    | (absorb) "mr_start r \<le> rg_end (last st)" "?e \<le> rg_end (last st)"
    by linarith
  then show ?case
  proof cases
    case push
    with "2.prems" g have len: "length st < MAX_RANGE_COUNT"
      and m: "merge_loop (st @ [?g]) rs = Inr m"
      by (auto split: if_splits)
    have "merge_inv (st @ [?g]) rs"
      using merge_inv_push [OF "2.prems"(1) push] by simp
    from "2.IH"(1) [OF g _ _ this m] push len show ?thesis
      by (auto simp: covered_snoc rg_set_def mr)
  next
    case extend
    let ?st = "butlast st @ [\<lparr>rg_start = rg_start (last st), rg_end = ?e\<rparr>]"
    from extend "2.prems" g have m: "merge_loop ?st rs = Inr m" by simp
    have inv: "merge_inv ?st rs" by (rule merge_inv_extend [OF "2.prems"(1) extend(2)])
    have "length ?st = length st" using "2.prems"(1) by (simp add: merge_inv_def)
    with "2.IH"(2) [OF g, simplified] inv m extend covered_extend [OF "2.prems"(1) extend]
    show ?thesis by (auto simp: mr)
  next
    case absorb
    with "2.prems" g have m: "merge_loop st rs = Inr m" by simp
    have "merge_inv st rs" using "2.prems"(1) by (simp add: merge_inv_def)
    from "2.IH"(3) [OF g _ _ this m] absorb covered_absorb [OF "2.prems"(1) absorb(2)]
    show ?thesis by (auto simp: mr)
  qed
qed

lemma merge_loop_returns:
  assumes "\<forall>r\<in>set rs. mr_start r + mr_length r < two64" and "st \<noteq> []"
    and "length st + length rs \<le> MAX_RANGE_COUNT"
  shows "\<exists>m. merge_loop st rs = Inr m"
  using assms
proof (induction st rs rule: merge_loop.induct)
  case (1 st)
  then show ?case by simp
next
  case (2 st r rs)
  then have g: "region_range r = Inr \<lparr>rg_start = mr_start r, rg_end = mr_start r + mr_length r\<rparr>"
    by (simp add: run_simps)
  have "length (butlast st) + 1 = length st" using "2.prems" by (cases st) auto
  with "2.IH" [OF g] "2.prems" g show ?case by simp
qed

lemma merge_regions_correct:
  assumes "sorted (map mr_start regions)" and "merge_regions regions = Inr m"
  shows "separated m \<and> m \<noteq> [] \<and> length m \<le> MAX_RANGE_COUNT
         \<and> covered m = \<Union> (mr_set ` set regions)"
proof (cases regions)
  case Nil
  with assms show ?thesis by (simp add: merge_regions_def)
next
  case (Cons r rs)
  let ?g = "\<lparr>rg_start = mr_start r, rg_end = mr_start r + mr_length r\<rparr>"
  from assms(2) Cons have m: "merge_loop [?g] rs = Inr m"
    by (auto simp: merge_regions_def run_simps)
  have "merge_inv [?g] rs"
    using assms(1) Cons by (auto simp: merge_inv_def separated_def)
  from merge_loop_correct [OF this m] Cons show ?thesis
    by (simp add: MAX_RANGE_COUNT_def covered_def rg_set_def mr_set_def)
qed

lemma merge_loop_length: "merge_loop st rs = Inr m \<Longrightarrow> st \<noteq> [] \<Longrightarrow> length m \<le> length st + length rs"
  by (induction st rs rule: merge_loop.induct) (fastforce simp: run_simps split: if_splits)+

lemma merge_regions_length: "merge_regions regions = Inr m \<Longrightarrow> length m \<le> length regions"
  using merge_loop_length by (fastforce simp: merge_regions_def run_simps split: list.splits)

lemma merge_regions_returns:
  assumes "\<forall>r\<in>set regions. mr_start r + mr_length r < two64"
    and "regions \<noteq> []" and "length regions \<le> MAX_RANGE_COUNT"
  shows "\<exists>m. merge_regions regions = Inr m"
proof -
  obtain r rs where rs: "regions = r # rs" using assms(2) by (cases regions) auto
  with assms(1) have g: "region_range r = Inr \<lparr>rg_start = mr_start r, rg_end = mr_start r + mr_length r\<rparr>"
    by (simp add: run_simps)
  have "\<exists>m. merge_loop [\<lparr>rg_start = mr_start r, rg_end = mr_start r + mr_length r\<rparr>] rs = Inr m"
    by (rule merge_loop_returns) (use assms rs in auto)
  with g rs show ?thesis by (simp add: merge_regions_def)
qed

subsection \<open>The iterator's invariant\<close>

abbreviation live_ranges :: "linked_range_iterator \<Rightarrow> range list" where
  "live_ranges it \<equiv> take (range_size it) (ranges it)"

definition it_wf :: "linked_range_iterator \<Rightarrow> bool" where
  "it_wf it \<longleftrightarrow>
     length (ranges it) = MAX_RANGE_COUNT \<and> range_size it \<le> MAX_RANGE_COUNT
     \<and> current_range_index it \<le> range_size it \<and> separated (live_ranges it)
     \<and> (\<forall>i<current_range_index it. rg_end (ranges it ! i) \<le> current_value it)"

text \<open>The copy loop finds the number of ranges that end at or below \<open>start\<close>.\<close>

lemma initial_index_loop_le:
  "i \<le> k \<Longrightarrow> initial_index_loop start k i ps \<le> k + length ps"
proof (induction ps arbitrary: k i)
  case (Cons p ps)
  from Cons.prems Cons.IH [of "Suc k" "Suc k"] Cons.IH [of i "Suc k"] show ?case by simp
qed simp

lemma initial_index_loop_passed:
  assumes "separated (qs @ ps)" and "\<forall>j<i. rg_end (qs ! j) \<le> start" and "i \<le> length qs"
  shows "\<forall>j<initial_index_loop start (length qs) i ps. rg_end ((qs @ ps) ! j) \<le> start"
  using assms
proof (induction ps arbitrary: qs i)
  case Nil
  then show ?case by auto
next
  case (Cons p ps)
  let ?i = "if rg_end p \<le> start then Suc (length qs) else i"
  have low: "\<forall>j<?i. rg_end ((qs @ [p]) ! j) \<le> start"
  proof (cases "rg_end p \<le> start")
    case True
    have "rg_end ((qs @ [p]) ! j) \<le> start" if "j < Suc (length qs)" for j
    proof -
      have "separated (qs @ [p])" using Cons.prems(1)
        by (auto simp: separated_def sorted_wrt_append)
      with that have "rg_end ((qs @ [p]) ! j) \<le> rg_end ((qs @ [p]) ! length qs)"
        by (intro separated_nth_end_mono) auto
      with True show ?thesis by simp
    qed
    with True show ?thesis by simp
  next
    case False
    with Cons.prems(2,3) show ?thesis by (auto simp: nth_append)
  qed
  have "\<forall>j<initial_index_loop start (length (qs @ [p])) ?i ps.
          rg_end (((qs @ [p]) @ ps) ! j) \<le> start"
    by (rule Cons.IH) (use Cons.prems low in auto)
  then show ?case by simp
qed

lemma from_memory_regions_wf:
  assumes "sorted (map mr_start regions)"
    and "from_memory_regions junk start win regions = Inr it"
  shows "it_wf it" and "covered (live_ranges it) = \<Union> (mr_set ` set regions)"
    and "current_value it = start" and "window it = win"
proof -
  from assms(2) obtain m where m: "merge_regions regions = Inr m"
    and it: "it = \<lparr>ranges = m @ map junk [length m ..< MAX_RANGE_COUNT], range_size = length m,
       window = win, current_range_index = initial_index_loop start 0 0 m, current_value = start\<rparr>"
    by (auto simp: from_memory_regions_def run_simps)
  note ok = merge_regions_correct [OF assms(1) m]
  have passed: "\<forall>j<initial_index_loop start 0 0 m. rg_end (m ! j) \<le> start"
    using initial_index_loop_passed [of "[]" m 0 start] ok by simp
  have le: "initial_index_loop start 0 0 m \<le> length m"
    using initial_index_loop_le [of 0 0 start m] by simp
  show "it_wf it" using ok passed le it by (auto simp: it_wf_def nth_append)
  show "covered (live_ranges it) = \<Union> (mr_set ` set regions)" using ok it by simp
  show "current_value it = start" "window it = win" using it by simp_all
qed

subsection \<open>The inner loop\<close>

lemma skip_range_sound:
  assumes "skip_range rg req cur = Some (Inr c)"
  shows "cur \<le> c \<and> \<not> rg_contains rg c \<and> req dvd (c - cur)"
proof -
  have "\<forall>c. v = Inr c \<longrightarrow> cur \<le> c \<and> \<not> rg_contains rg c \<and> req dvd (c - cur)"
    if "skip_range rg req cur = Some v" for v
  proof (rule skip_range.raw_induct [where P = "\<lambda>rg req cur v.
      \<forall>c. v = Inr c \<longrightarrow> cur \<le> c \<and> \<not> rg_contains rg c \<and> req dvd (c - cur)", OF _ that])
    fix f rg req cur v
    assume IH: "\<And>rg req cur v. f rg req cur = Some v \<Longrightarrow>
        \<forall>c. v = Inr c \<longrightarrow> cur \<le> c \<and> \<not> rg_contains rg c \<and> req dvd (c - cur)"
      and eq: "(if rg_contains rg cur
         then case add64 cur req of Inl e \<Rightarrow> Some (Inl e) | Inr c \<Rightarrow> f rg req c
         else Some (Inr cur)) = Some v"
    show "\<forall>c. v = Inr c \<longrightarrow> cur \<le> c \<and> \<not> rg_contains rg c \<and> req dvd (c - cur)"
    proof (intro allI impI)
      fix c assume v: "v = Inr c"
      show "cur \<le> c \<and> \<not> rg_contains rg c \<and> req dvd (c - cur)"
      proof (cases "rg_contains rg cur")
        case True
        with eq v have "f rg req (cur + req) = Some (Inr c)"
          by (auto simp: add64_def split: if_splits)
        from IH [OF this] have "cur + req \<le> c" "\<not> rg_contains rg c" "req dvd (c - (cur + req))"
          by auto
        then show ?thesis using dvd_diff_trans [of cur "cur + req" c req] by auto
      next
        case False
        with eq v show ?thesis by simp
      qed
    qed
  qed
  with assms show ?thesis by blast
qed

lemma skip_range_past:
  assumes "skip_range rg req cur = Some (Inr c)" and "rg_start rg \<le> cur"
  shows "rg_end rg \<le> c"
  using skip_range_sound [OF assms(1)] assms(2) by (auto simp: rg_contains_def)

lemma skip_range_returns:
  assumes "0 < req" and "rg_end rg + req \<le> two64"
  shows "\<exists>c. skip_range rg req cur = Some (Inr c) \<and> c \<le> max cur (rg_end rg + req)"
proof (induction "rg_end rg - cur" arbitrary: cur rule: less_induct)
  case less
  show ?case
  proof (cases "rg_contains rg cur")
    case True
    then have lt: "cur < rg_end rg" by (simp add: rg_contains_def)
    with assms have "rg_end rg - (cur + req) < rg_end rg - cur" by linarith
    from less.hyps [OF this] obtain c where
      c: "skip_range rg req (cur + req) = Some (Inr c)" "c \<le> max (cur + req) (rg_end rg + req)"
      by blast
    from lt assms have "add64 cur req = Inr (cur + req)" by simp
    with c True lt show ?thesis by (subst skip_range.simps) auto
  next
    case False
    then show ?thesis by (subst skip_range.simps) simp
  qed
qed

text \<open>With a zero stride the loop never leaves a range it has entered.\<close>

lemma skip_range_zero_diverges:
  assumes "rg_contains rg cur" and "cur < two64"
  shows "skip_range rg 0 cur = None"
proof (rule ccontr)
  assume "skip_range rg 0 cur \<noteq> None"
  then obtain v where v: "skip_range rg 0 cur = Some v" by blast
  have "\<not> ((0::nat) = 0 \<and> rg_contains rg cur \<and> cur < two64)"
  proof (rule skip_range.raw_induct [where P = "\<lambda>rg req cur v.
      \<not> (req = 0 \<and> rg_contains rg cur \<and> cur < two64)", OF _ v])
    fix f rg req cur v
    assume IH: "\<And>rg req cur v. f rg req cur = Some v \<Longrightarrow>
        \<not> (req = 0 \<and> rg_contains rg cur \<and> cur < two64)"
      and eq: "(if rg_contains rg cur
         then case add64 cur req of Inl e \<Rightarrow> Some (Inl e) | Inr c \<Rightarrow> f rg req c
         else Some (Inr cur)) = Some v"
    show "\<not> (req = 0 \<and> rg_contains rg cur \<and> cur < two64)"
    proof
      assume a: "req = 0 \<and> rg_contains rg cur \<and> cur < two64"
      with eq have "f rg 0 cur = Some v" by simp
      from IH [OF this] a show False by simp
    qed
  qed
  with assms show False by simp
qed

subsection \<open>The outer loop\<close>

definition passed :: "range list \<Rightarrow> nat \<Rightarrow> nat \<Rightarrow> bool" where
  "passed rgs idx cur \<longleftrightarrow> (\<forall>i<idx. rg_end (rgs ! i) \<le> cur)"

lemma passed_Suc: "passed rgs (Suc idx) cur \<longleftrightarrow> passed rgs idx cur \<and> rg_end (rgs ! idx) \<le> cur"
  by (auto simp: passed_def less_Suc_eq)

lemma passed_mono: "passed rgs idx cur \<Longrightarrow> cur \<le> c \<Longrightarrow> passed rgs idx c"
  by (auto simp: passed_def intro: le_trans)

lemma skip_loop_sound:
  assumes "skip_loop rgs sz req ov cur idx = Inr (c, i)"
    and "idx \<le> sz" and "passed rgs idx cur" and "ov \<Longrightarrow> idx < sz \<Longrightarrow> rg_start (rgs ! idx) \<le> cur"
  shows "idx \<le> i \<and> (ov \<and> idx < sz \<longrightarrow> idx < i) \<and> i \<le> sz \<and> cur \<le> c \<and> passed rgs i c
         \<and> req dvd (c - cur)"
  using assms
proof (induction rgs sz req ov cur idx rule: skip_loop.induct)
  case (1 rgs sz req ov cur idx)
  show ?case
  proof (cases "ov \<and> idx < sz")
    case True
    with "1.prems"(1) obtain c' where
      bound: "idx < length rgs" "Suc idx < length rgs"
      and skip: "skip_range (rgs ! idx) req cur = Some (Inr c')"
      and rest: "skip_loop rgs sz req (rg_contains (rgs ! Suc idx) c') c' (Suc idx) = Inr (c, i)"
      by (subst (asm) skip_loop.simps) (auto simp: run_simps)
    have c': "cur \<le> c'" "req dvd (c' - cur)" using skip_range_sound [OF skip] by auto
    have "rg_end (rgs ! idx) \<le> c'" using skip_range_past [OF skip] "1.prems"(4) True by simp
    with "1.prems"(3) c' have p: "passed rgs (Suc idx) c'"
      by (auto simp: passed_Suc intro: passed_mono)
    have "Suc idx \<le> i \<and> (rg_contains (rgs ! Suc idx) c' \<and> Suc idx < sz \<longrightarrow> Suc idx < i)
        \<and> i \<le> sz \<and> c' \<le> c \<and> passed rgs i c \<and> req dvd (c - c')"
      by (rule "1.IH" [OF True _ _ _ rest])
         (use True bound skip p in \<open>auto simp: rg_contains_def\<close>)
    with c' show ?thesis using dvd_diff_trans [of cur c' c req] by auto
  next
    case False
    with "1.prems" show ?thesis by (subst (asm) skip_loop.simps) auto
  qed
qed

lemma skip_loop_returns:
  assumes "0 < req" and "\<forall>i < sz. rg_end (rgs ! i) \<le> M" and "M + req < two64"
    and "sz < length rgs" and "cur \<le> M + req"
  shows "\<exists>c i. skip_loop rgs sz req ov cur idx = Inr (c, i) \<and> c \<le> M + req"
  using assms
proof (induction rgs sz req ov cur idx rule: skip_loop.induct)
  case (1 rgs sz req ov cur idx)
  show ?case
  proof (cases "ov \<and> idx < sz")
    case True
    with "1.prems"(2,3) have end_le: "rg_end (rgs ! idx) \<le> M" and "rg_end (rgs ! idx) + req \<le> two64"
      by force+
    from skip_range_returns [OF "1.prems"(1) this(2), of cur] obtain c' where
      skip: "skip_range (rgs ! idx) req cur = Some (Inr c')"
      and le: "c' \<le> max cur (rg_end (rgs ! idx) + req)"
      by blast
    from le end_le "1.prems"(5) have c': "c' \<le> M + req" by simp
    from True "1.prems"(4) have b: "index rgs idx = Inr (rgs ! idx)"
      "index rgs (Suc idx) = Inr (rgs ! Suc idx)" by simp_all
    have "\<exists>c i. skip_loop rgs sz req (rg_contains (rgs ! Suc idx) c') c' (Suc idx) = Inr (c, i)
        \<and> c \<le> M + req"
      by (rule "1.IH" [OF True b(1) _ b(2)]) (use skip c' "1.prems" in auto)
    with True b skip show ?thesis by (subst skip_loop.simps) simp
  next
    case False
    with "1.prems"(5) show ?thesis by (subst skip_loop.simps) auto
  qed
qed

subsection \<open>\<open>next_n\<close>\<close>

definition it_unavailable :: "linked_range_iterator \<Rightarrow> nat set" where
  "it_unavailable it = covered (live_ranges it)"

text \<open>A block that starts above the passed ranges and ends below the next one meets none.\<close>

lemma block_avoids_unavailable:
  assumes "it_wf it" and "current_value it \<le> a"
    and "current_range_index it < range_size it \<Longrightarrow> a + n \<le> rg_start (ranges it ! current_range_index it)"
  shows "block a n \<inter> it_unavailable it = {}"
proof -
  have "block a n \<inter> rg_set r = {}" if "r \<in> set (live_ranges it)" for r
  proof -
    from that assms(1) obtain j where j: "j < range_size it" and r: "r = ranges it ! j"
      by (auto simp: in_set_conv_nth it_wf_def)
    show ?thesis
    proof (cases "j < current_range_index it")
      case True
      with assms(1,2) r have "rg_end r \<le> a" by (auto simp: it_wf_def intro: le_trans)
      then show ?thesis by (simp add: block_disjoint_range)
    next
      case False
      with j have "rg_start (live_ranges it ! current_range_index it) \<le> rg_start (live_ranges it ! j)"
        using assms(1) by (intro separated_nth_start_mono) (auto simp: it_wf_def)
      with assms(3) j False r have "a + n \<le> rg_start r" by simp
      then show ?thesis by (simp add: block_disjoint_range)
    qed
  qed
  then show ?thesis by (auto simp: it_unavailable_def covered_def)
qed

definition next_n_post ::
  "linked_range_iterator \<Rightarrow> nat \<Rightarrow> nat option \<Rightarrow> linked_range_iterator \<Rightarrow> bool" where
  "next_n_post it count r it' \<longleftrightarrow>
     (\<exists>a. r = Some a \<and> current_value it \<le> a \<and> window it dvd (a - current_value it)
        \<and> block a (window it * count) \<inter> it_unavailable it = {}
        \<and> it' = it\<lparr>current_value := a + window it * count,
                   current_range_index := current_range_index it'\<rparr>
        \<and> it_wf it')"

lemma next_n_post_cursor:
  assumes "next_n_post it count (Some a) it'"
  shows "current_value it' = a + window it * count"
proof -
  from assms obtain i where
    "it' = it\<lparr>current_value := a + window it * count, current_range_index := i\<rparr>"
    by (auto simp: next_n_post_def)
  then show ?thesis by simp
qed

lemma next_n_post_here:
  assumes "it_wf it"
    and "current_range_index it < range_size it \<Longrightarrow>
         current_value it + window it * count \<le> rg_start (ranges it ! current_range_index it)"
  shows "next_n_post it count (Some (current_value it))
           (it\<lparr>current_value := current_value it + window it * count\<rparr>)"
  using block_avoids_unavailable [OF assms(1) order_refl assms(2)] assms(1)
  by (auto simp: next_n_post_def it_wf_def trans_le_add1)

lemma next_n_post_skip:
  assumes post: "next_n_post (it\<lparr>current_value := c, current_range_index := i\<rparr>) count r it'"
    and "current_value it \<le> c" and "window it dvd (c - current_value it)"
  shows "next_n_post it count r it'"
proof -
  from post obtain a where "r = Some a" "c \<le> a" "window it dvd (a - c)"
    and rest: "block a (window it * count) \<inter> it_unavailable it = {}" "it_wf it'"
      "it' = it\<lparr>current_value := a + window it * count, current_range_index := current_range_index it'\<rparr>"
    by (auto simp: next_n_post_def it_unavailable_def)
  moreover from this assms(2,3) have "window it dvd (a - current_value it)"
    using dvd_diff_trans [of "current_value it" c a "window it"] by simp
  ultimately show ?thesis using assms(2) by (auto simp: next_n_post_def)
qed

lemma it_wf_skip:
  assumes "it_wf it" and "current_range_index it \<le> i" and "i \<le> range_size it"
    and "passed (ranges it) i c"
  shows "it_wf (it\<lparr>current_value := c, current_range_index := i\<rparr>)"
  using assms by (simp add: it_wf_def passed_def)

lemma next_n_rec_sound:
  assumes "it_wf it" and "next_n_rec it count = Some (Inr (r, it'))"
  shows "next_n_post it count r it'"
  using assms
proof (induction "range_size it - current_range_index it" arbitrary: it rule: less_induct)
  case less
  let ?req = "window it * count" and ?idx = "current_range_index it"
  from less.prems(1) have wf: "?idx \<le> range_size it" "length (ranges it) = MAX_RANGE_COUNT"
    "range_size it \<le> MAX_RANGE_COUNT" by (auto simp: it_wf_def)
  note unf = less.prems(2) [unfolded next_n_rec.simps [of it count]]
  from unf have mul: "mul64 (window it) count = Inr ?req"
    by (auto simp: mul64_def split: if_splits)
  show ?case
  proof (cases "?idx = range_size it")
    case True
    with unf mul have "r = Some (current_value it)" "it' = it\<lparr>current_value := current_value it + ?req\<rparr>"
      by (auto simp: run_simps)
    with True next_n_post_here [OF less.prems(1), of count] show ?thesis by simp
  next
    case False
    with wf have lt: "?idx < range_size it" "?idx < length (ranges it)" by auto
    from unf mul False have add: "add64 (current_value it) ?req = Inr (current_value it + ?req)"
      by (auto simp: add64_def split: if_splits)
    show ?thesis
    proof (cases "current_value it + ?req \<le> rg_start (ranges it ! ?idx)")
      case True
      with unf mul False add lt have "r = Some (current_value it)"
        "it' = it\<lparr>current_value := current_value it + ?req\<rparr>" by auto
      with True next_n_post_here [OF less.prems(1), of count] show ?thesis by simp
    next
      case no_gap: False
      from unf mul False add lt no_gap obtain c i where
        loop: "skip_loop (ranges it) (range_size it) ?req True (current_value it + ?req) ?idx = Inr (c, i)"
        and rec: "next_n_rec (it\<lparr>current_value := c, current_range_index := i\<rparr>) count = Some (Inr (r, it'))"
        by (auto split: sum.splits prod.splits)
      have "passed (ranges it) ?idx (current_value it + ?req)"
        using less.prems(1) by (auto simp: it_wf_def passed_def intro: trans_le_add1)
      from skip_loop_sound [OF loop _ this] lt no_gap
      have i: "?idx < i" "i \<le> range_size it" "current_value it + ?req \<le> c" "passed (ranges it) i c"
        "?req dvd (c - (current_value it + ?req))" by auto
      have wf': "it_wf (it\<lparr>current_value := c, current_range_index := i\<rparr>)"
        by (rule it_wf_skip) (use less.prems(1) i in auto)
      have post: "next_n_post (it\<lparr>current_value := c, current_range_index := i\<rparr>) count r it'"
        by (rule less.hyps [OF _ wf' rec]) (use i lt in auto)
      have "window it dvd (c - current_value it)"
        using dvd_diff_trans [of "current_value it" "current_value it + ?req" c "window it"] i
        by (auto intro: dvd_mult_left)
      with next_n_post_skip [OF post] i(3) show ?thesis by simp
    qed
  qed
qed

lemma next_n_sound:
  "it_wf it \<Longrightarrow> next_n it count = Inr (r, it') \<Longrightarrow> next_n_post it count r it'"
  by (simp add: next_n_def run_simps next_n_rec_sound)

text \<open>
  The call returns whenever the address space leaves one stride of room above \<open>M\<close> for every
  range still ahead, and what it returns is at most that far up.
\<close>

lemma next_n_rec_returns:
  assumes "it_wf it" and "range_size it < MAX_RANGE_COUNT" and "0 < window it * count"
    and "\<forall>i<range_size it. rg_end (ranges it ! i) \<le> M" and "current_value it \<le> M"
    and "M + Suc (range_size it - current_range_index it) * (window it * count) < two64"
  shows "\<exists>a it'. next_n_rec it count = Some (Inr (Some a, it'))
     \<and> a \<le> M + (range_size it - current_range_index it) * (window it * count)"
  using assms
proof (induction "range_size it - current_range_index it" arbitrary: it M rule: less_induct)
  case less
  let ?req = "window it * count" and ?idx = "current_range_index it"
  from less.prems(1) have wf: "?idx \<le> range_size it" "length (ranges it) = MAX_RANGE_COUNT"
    by (auto simp: it_wf_def)
  have "?req \<le> Suc (range_size it - ?idx) * ?req" by simp
  with less.prems(5,6) have room: "M + ?req < two64" by linarith
  with less.prems(5) have ar: "?req < two64" "current_value it + ?req < two64" by auto
  show ?case
  proof (cases "?idx = range_size it \<or>
      ?idx < range_size it \<and> current_value it + ?req \<le> rg_start (ranges it ! ?idx)")
    case True
    with wf less.prems(2,5) ar show ?thesis
      by (subst next_n_rec.simps) (auto simp: trans_le_add1)
  next
    case False
    with wf less.prems(2) have lt: "?idx < range_size it" "?idx < length (ranges it)"
      "range_size it < length (ranges it)" "rg_start (ranges it ! ?idx) < current_value it + ?req" by auto
    obtain c i where
      loop: "skip_loop (ranges it) (range_size it) ?req True (current_value it + ?req) ?idx = Inr (c, i)"
      and c: "c \<le> M + ?req"
      using skip_loop_returns [OF less.prems(3,4) room lt(3), of "current_value it + ?req" True ?idx]
        less.prems(5) by auto
    have "passed (ranges it) ?idx (current_value it + ?req)"
      using less.prems(1) by (auto simp: it_wf_def passed_def intro: trans_le_add1)
    from skip_loop_sound [OF loop wf(1) this] lt
    have i: "?idx < i" "i \<le> range_size it" "passed (ranges it) i c" by auto
    let ?it = "it\<lparr>current_value := c, current_range_index := i\<rparr>"
    have "Suc (Suc (range_size it - i)) * ?req \<le> Suc (range_size it - ?idx) * ?req"
      by (rule mult_le_mono1) (use i in simp)
    then have grow: "M + ?req + Suc (range_size it - i) * ?req \<le> M + Suc (range_size it - ?idx) * ?req"
      by simp
    have "\<exists>a it'. next_n_rec ?it count = Some (Inr (Some a, it'))
       \<and> a \<le> M + ?req + (range_size ?it - current_range_index ?it) * (window ?it * count)"
      by (rule less.hyps [of ?it "M + ?req"])
         (use i lt c less.prems grow it_wf_skip [OF less.prems(1) _ i(2,3)] in \<open>auto simp: trans_le_add1\<close>)
    then obtain a it' where rec: "next_n_rec ?it count = Some (Inr (Some a, it'))"
      "a \<le> M + ?req + (range_size it - i) * ?req" by auto
    with grow have "a \<le> M + (range_size it - ?idx) * ?req" by simp
    with rec lt ar loop show ?thesis by (subst next_n_rec.simps) auto
  qed
qed

text \<open>A zero-sized request made from inside a range never returns.\<close>

lemma next_n_zero_diverges:
  assumes "it_wf it" and "current_range_index it < range_size it"
    and "rg_start (ranges it ! current_range_index it) < current_value it"
    and "current_value it < rg_end (ranges it ! current_range_index it)" and "current_value it < two64"
  shows "next_n it 0 = Inl Loops"
proof -
  have "skip_range (ranges it ! current_range_index it) 0 (current_value it) = None"
    by (rule skip_range_zero_diverges) (use assms in \<open>auto simp: rg_contains_def\<close>)
  with assms show ?thesis
    by (simp add: next_n_def next_n_rec.simps [of it 0] skip_loop.simps it_wf_def)
qed

subsection \<open>The array's unwritten tail\<close>

text \<open>Replacing the unwritten tail of the array changes no result while a slot is left past
  the last range; a full array is read one slot past its end.\<close>

lemma skip_loop_tail:
  assumes "sz < length rgs" and "length rgs' = length rgs" and "take sz rgs' = take sz rgs"
  shows "skip_loop rgs' sz req ov cur idx = skip_loop rgs sz req ov cur idx"
  using assms
proof (induction rgs sz req ov cur idx rule: skip_loop.induct)
  case (1 rgs sz req ov cur idx)
  show ?case
  proof (cases "ov \<and> idx < sz")
    case True
    have nth: "rgs' ! k = rgs ! k" if "k < sz" for k
      using arg_cong [OF "1.prems"(3), of "\<lambda>l. l ! k"] that by simp
    show ?thesis
    proof (cases "Suc idx < sz")
      case nxt: True
      have "skip_loop rgs' sz req (rg_contains (rgs ! Suc idx) c) c (Suc idx)
          = skip_loop rgs sz req (rg_contains (rgs ! Suc idx) c) c (Suc idx)"
        if "run_loop (skip_range (rgs ! idx) req cur) = Inr c" for c
        by (rule "1.IH" [OF True, of "rgs ! idx" c]) (use True nxt "1.prems" that in auto)
      then show ?thesis using True nxt "1.prems" nth
        by (subst (1 2) skip_loop.simps) (auto intro!: and_then_cong)
    next
      case False
      with True have "sz = Suc idx" by simp
      with True "1.prems" nth show ?thesis
        by (subst (1 2) skip_loop.simps) (auto simp: skip_loop.simps intro!: and_then_cong)
    qed
  next
    case False
    then show ?thesis by (subst (1 2) skip_loop.simps) auto
  qed
qed

lemma next_n_rec_tail:
  assumes "it_wf it" and "range_size it < MAX_RANGE_COUNT"
    and "length rgs = MAX_RANGE_COUNT" and "take (range_size it) rgs = live_ranges it"
  shows "next_n_rec (it\<lparr>ranges := rgs\<rparr>) count
       = map_option (\<lambda>m. and_then m (\<lambda>(r, it'). Inr (r, it'\<lparr>ranges := rgs\<rparr>))) (next_n_rec it count)"
  using assms
proof (induction "range_size it - current_range_index it" arbitrary: it rule: less_induct)
  case less
  let ?req = "window it * count" and ?idx = "current_range_index it"
  from less.prems(1,2) have wf: "?idx \<le> range_size it" "length (ranges it) = MAX_RANGE_COUNT"
    by (auto simp: it_wf_def)
  have nth: "rgs ! k = ranges it ! k" if "k < range_size it" for k
    using arg_cong [OF less.prems(4), of "\<lambda>l. l ! k"] that by simp
  note tail = skip_loop_tail [of "range_size it" "ranges it" rgs]
  show ?case
  proof (cases "?idx < range_size it \<and> ?req < two64 \<and> current_value it + ?req < two64
      \<and> rg_start (ranges it ! ?idx) < current_value it + ?req")
    case True
    have rec: "next_n_rec (it\<lparr>ranges := rgs, current_value := c, current_range_index := i\<rparr>) count
       = map_option (\<lambda>m. and_then m (\<lambda>(r, it'). Inr (r, it'\<lparr>ranges := rgs\<rparr>)))
           (next_n_rec (it\<lparr>current_value := c, current_range_index := i\<rparr>) count)"
      if loop: "skip_loop (ranges it) (range_size it) ?req True (current_value it + ?req) ?idx = Inr (c, i)"
      for c i
    proof -
      have "passed (ranges it) ?idx (current_value it + ?req)"
        using less.prems(1) by (auto simp: it_wf_def passed_def intro: trans_le_add1)
      from skip_loop_sound [OF loop wf(1) this] True
      have i: "?idx < i" "i \<le> range_size it" "passed (ranges it) i c" by auto
      have wf': "it_wf (it\<lparr>current_value := c, current_range_index := i\<rparr>)"
        by (rule it_wf_skip) (use less.prems(1) i in auto)
      have comm: "it\<lparr>ranges := rgs, current_value := c, current_range_index := i\<rparr>
          = it\<lparr>current_value := c, current_range_index := i, ranges := rgs\<rparr>"
        by (cases it) simp
      have "range_size it - i < range_size it - ?idx" using i by linarith
      then show ?thesis unfolding comm
        by (intro less.hyps [OF _ wf']) (use less.prems in auto)
    qed
    show ?thesis using True wf less.prems nth tail rec
      by (subst (1 2) next_n_rec.simps) (auto split: sum.splits)
  next
    case False
    with wf less.prems nth show ?thesis
      by (subst (1 2) next_n_rec.simps)
         (auto simp: add64_def mul64_def)
  qed
qed

lemma next_n_tail:
  assumes "it_wf it" and "range_size it < MAX_RANGE_COUNT"
    and "length rgs = MAX_RANGE_COUNT" and "take (range_size it) rgs = live_ranges it"
  shows "next_n (it\<lparr>ranges := rgs\<rparr>) count
       = and_then (next_n it count) (\<lambda>(r, it'). Inr (r, it'\<lparr>ranges := rgs\<rparr>))"
  unfolding next_n_def next_n_rec_tail [OF assms]
  by (cases "next_n_rec it count") auto

text \<open>With all 512 slots in use, a search that comes to the last range reads the slot after it.\<close>

lemma next_n_full_table:
  assumes "it_wf it" and "range_size it = MAX_RANGE_COUNT"
    and "current_range_index it = MAX_RANGE_COUNT - 1" and "0 < window it * count"
    and "rg_start (last (ranges it)) < current_value it + window it * count"
    and "rg_end (last (ranges it)) + window it * count \<le> two64"
    and "current_value it + window it * count < two64"
  shows "next_n it count = Inl OutOfBounds"
proof -
  have len: "length (ranges it) = MAX_RANGE_COUNT" using assms(1) by (simp add: it_wf_def)
  then have l: "last (ranges it) = ranges it ! current_range_index it"
    using assms(3) by (subst last_conv_nth) (auto simp: MAX_RANGE_COUNT_def)
  obtain c where "skip_range (ranges it ! current_range_index it) (window it * count)
      (current_value it + window it * count) = Some (Inr c)"
    using skip_range_returns [OF assms(4), of "ranges it ! current_range_index it"
        "current_value it + window it * count"] assms(6) l by auto
  with assms len l show ?thesis
    by (simp add: next_n_def next_n_rec.simps [of it] skip_loop.simps MAX_RANGE_COUNT_def)
qed

subsection \<open>The allocator as a bump allocator\<close>

definition kf_wf :: "linear_inc_frame_allocator \<Rightarrow> bool" where
  "kf_wf al \<longleftrightarrow>
     it_wf (range_iterator al) \<and> window (range_iterator al) = PAGE_SIZE \<and> alloc_window al = PAGE_SIZE
     \<and> PAGE_SIZE dvd current_value (range_iterator al) \<and> PAGE_SIZE dvd base_address al"

definition kf_cursor :: "linear_inc_frame_allocator \<Rightarrow> nat" where
  "kf_cursor al = base_address al + current_value (range_iterator al)"

definition kf_forbidden :: "linear_inc_frame_allocator \<Rightarrow> nat set" where
  "kf_forbidden al = (+) (base_address al) ` it_unavailable (range_iterator al)"

text \<open>One request seen from outside: what it can return and what it changes.\<close>

definition kf_step ::
  "linear_inc_frame_allocator \<Rightarrow> nat \<Rightarrow> nat option \<Rightarrow> linear_inc_frame_allocator \<Rightarrow> bool" where
  "kf_step al count r al' \<longleftrightarrow>
     (\<exists>a it. next_n_post (range_iterator al) count (Some a) it \<and> al' = al\<lparr>range_iterator := it\<rparr>
        \<and> (if a + PAGE_SIZE * count \<le> phys_mem_right_boundary al
           then r = Some (base_address al + a) else r = None))"

lemma kf_wf_dvd:
  assumes "kf_wf al" and "next_n_post (range_iterator al) count (Some a) it"
  shows "4096 dvd a"
proof -
  from assms have "4096 dvd a - current_value (range_iterator al)"
    "current_value (range_iterator al) \<le> a" "4096 dvd current_value (range_iterator al)"
    by (auto simp: kf_wf_def next_n_post_def PAGE_SIZE_def)
  then have "4096 dvd (a - current_value (range_iterator al)) + current_value (range_iterator al)"
    by (intro dvd_add)
  with \<open>current_value (range_iterator al) \<le> a\<close> show ?thesis by simp
qed

lemma kf_step_props:
  assumes "kf_wf al" and "kf_step al n r al'"
  shows "kf_wf al'" and "kf_cursor al \<le> kf_cursor al'" and "kf_forbidden al' = kf_forbidden al"
    and "r = Some a \<Longrightarrow> kf_cursor al \<le> a \<and> a + n * 4096 \<le> kf_cursor al'"
    and "r = Some a \<Longrightarrow> frames_block a n \<inter> kf_forbidden al = {}"
    and "r = Some a \<Longrightarrow> 4096 dvd a"
proof -
  from assms(2) obtain b it where post: "next_n_post (range_iterator al) n (Some b) it"
    and al': "al' = al\<lparr>range_iterator := it\<rparr>"
    and r: "if b + PAGE_SIZE * n \<le> phys_mem_right_boundary al
            then r = Some (base_address al + b) else r = None"
    by (auto simp: kf_step_def)
  have b: "4096 dvd b" by (rule kf_wf_dvd [OF assms(1) post])
  from post assms(1) obtain i where it: "it = (range_iterator al)\<lparr>current_value := b + 4096 * n,
      current_range_index := i\<rparr>"
    and le: "current_value (range_iterator al) \<le> b" and wf: "it_wf it"
    and free: "block b (4096 * n) \<inter> it_unavailable (range_iterator al) = {}"
    by (auto simp: next_n_post_def kf_wf_def PAGE_SIZE_def)
  show "kf_wf al'" using assms(1) b wf al' it by (simp add: kf_wf_def PAGE_SIZE_def)
  show "kf_cursor al \<le> kf_cursor al'" using le al' it by (simp add: kf_cursor_def)
  show "kf_forbidden al' = kf_forbidden al" using al' it
    by (simp add: kf_forbidden_def it_unavailable_def)
  show "kf_cursor al \<le> a \<and> a + n * 4096 \<le> kf_cursor al'" if "r = Some a"
    using that r le al' it by (auto simp: kf_cursor_def split: if_splits)
  show "frames_block a n \<inter> kf_forbidden al = {}" if "r = Some a"
    using that r free by (auto simp: kf_forbidden_def frames_block_def block_def mult.commute split: if_splits)
  show "4096 dvd a" if "r = Some a"
    using that r b assms(1) by (auto simp: kf_wf_def PAGE_SIZE_def split: if_splits)
qed

lemma frame_of_aligned:
  assumes "x86_laws X" and "kf_wf al" and "next_n_post (range_iterator al) count (Some a) it"
  shows "frame_containing X (base_address al + a) = base_address al + a"
proof -
  have "4096 dvd base_address al + a"
    using kf_wf_dvd [OF assms(2,3)] assms(2) by (auto simp: kf_wf_def PAGE_SIZE_def)
  then show ?thesis by (intro x86_laws.frame_containing_aligned [OF assms(1)]) (simp add: dvd_eq_mod_eq_0)
qed

lemma allocate_frames_step:
  assumes "x86_laws X" and "kf_wf al" and "allocate_frames X al n = Inr (r, al')"
  shows "kf_step al n r al'"
proof -
  from assms(3) obtain a it where nx: "next_n (range_iterator al) n = Inr (a, it)"
    by (auto simp: allocate_frames_def run_simps)
  have wf: "it_wf (range_iterator al)" using assms(2) by (simp add: kf_wf_def)
  from next_n_sound [OF wf nx] obtain b where a: "a = Some b" by (auto simp: next_n_post_def)
  note post = next_n_sound [OF wf nx [unfolded a]]
  show ?thesis
    using assms(2,3) nx a post frame_of_aligned [OF assms(1,2) post]
      x86_laws.PhysAddr_new_eq_Inr [OF assms(1)]
    unfolding kf_step_def
    by (intro exI [of _ b] exI [of _ it])
       (auto simp: allocate_frames_def kf_wf_def run_simps Let_def split: if_splits)
qed

lemma kf_laws:
  assumes "x86_laws X" and "kf_wf al" and "allocate_frames X al n = Inr (r, al')"
  shows "kf_wf al'" and "kf_cursor al \<le> kf_cursor al'" and "kf_forbidden al' = kf_forbidden al"
    and "r = Some a \<Longrightarrow> kf_cursor al \<le> a \<and> a + n * 4096 \<le> kf_cursor al'"
    and "r = Some a \<Longrightarrow> frames_block a n \<inter> kf_forbidden al = {}"
    and "r = Some a \<Longrightarrow> 4096 dvd a"
  using kf_step_props [OF assms(2) allocate_frames_step [OF assms]] by blast+

sublocale x86_laws \<subseteq> kfa: bump_allocator kf_wf kf_cursor kf_forbidden "\<lambda>n. n" "allocate_frames X"
proof
qed (rule kf_laws [OF x86_laws_axioms], assumption+, simp?)+

subsection \<open>The global allocator as a bump allocator\<close>

definition kg_wf :: "frame_globals \<Rightarrow> bool" where
  "kg_wf g \<longleftrightarrow> (\<exists>al. FRAME_ALLOCATOR g = Some al \<and> kf_wf al)"

definition kg_cursor :: "frame_globals \<Rightarrow> nat" where
  "kg_cursor g = kf_cursor (the (FRAME_ALLOCATOR g))"

definition kg_forbidden :: "frame_globals \<Rightarrow> nat set" where
  "kg_forbidden g = kf_forbidden (the (FRAME_ALLOCATOR g))"

lemma frame_alloc_n_eq_Inr:
  "FRAME_ALLOCATOR g = Some al \<Longrightarrow>
   frame_alloc_n X n g = Inr (r, g') \<longleftrightarrow>
     (\<exists>al'. allocate_frames X al n = Inr (r, al') \<and> g' = g\<lparr>FRAME_ALLOCATOR := Some al'\<rparr>)"
  by (auto simp: frame_alloc_n_def with_frame_alloc_def run_simps)

lemma kg_laws:
  assumes "x86_laws X" and "kg_wf g" and "frame_alloc_n X n g = Inr (r, g')"
  shows "kg_wf g'" and "kg_cursor g \<le> kg_cursor g'" and "kg_forbidden g' = kg_forbidden g"
    and "r = Some a \<Longrightarrow> kg_cursor g \<le> a \<and> a + n * 4096 \<le> kg_cursor g'"
    and "r = Some a \<Longrightarrow> frames_block a n \<inter> kg_forbidden g = {}"
    and "r = Some a \<Longrightarrow> 4096 dvd a"
proof -
  from assms(2) obtain al where al: "FRAME_ALLOCATOR g = Some al" "kf_wf al"
    by (auto simp: kg_wf_def)
  from assms(3) obtain al' where al': "allocate_frames X al n = Inr (r, al')"
    "g' = g\<lparr>FRAME_ALLOCATOR := Some al'\<rparr>"
    by (auto simp: frame_alloc_n_eq_Inr [OF al(1)])
  note laws = kf_laws [OF assms(1) al(2) al'(1)]
  show "kg_wf g'" and "kg_cursor g \<le> kg_cursor g'" and "kg_forbidden g' = kg_forbidden g"
    and "r = Some a \<Longrightarrow> kg_cursor g \<le> a \<and> a + n * 4096 \<le> kg_cursor g'"
    and "r = Some a \<Longrightarrow> frames_block a n \<inter> kg_forbidden g = {}"
    and "r = Some a \<Longrightarrow> 4096 dvd a"
    using laws al al'(2) by (simp_all add: kg_wf_def kg_cursor_def kg_forbidden_def)
qed

sublocale x86_laws \<subseteq> kga: bump_allocator kg_wf kg_cursor kg_forbidden "\<lambda>n. n" "\<lambda>g n. frame_alloc_n X n g"
proof
qed (rule kg_laws [OF x86_laws_axioms], assumption+, simp?)+

context x86_laws
begin

lemmas kernel_seq_above = kga.alloc_seq_above
lemmas kernel_seq_disjoint = kga.alloc_seq_disjoint

end

lemma init_frame_allocator_wf:
  assumes "sorted (map mr_start regions)" and "PAGE_SIZE dvd base"
    and "init_frame_allocator junk base mem_size regions g0 = Inr g"
  shows "kg_wf g" and "kg_cursor g = base + 0x100000"
    and "kg_forbidden g = (+) base ` \<Union> (mr_set ` set regions)"
proof -
  from assms(3) obtain it where it: "from_memory_regions junk 0x100000 PAGE_SIZE regions = Inr it"
    and g: "FRAME_ALLOCATOR g = Some \<lparr>range_iterator = it, base_address = base,
      phys_mem_right_boundary = base + mem_size, alloc_window = PAGE_SIZE\<rparr>"
    by (auto simp: init_frame_allocator_def allocator_new_def run_simps)
  note wf = from_memory_regions_wf [OF assms(1) it]
  show "kg_wf g" using g wf assms(2) by (simp add: kg_wf_def kf_wf_def) (simp add: PAGE_SIZE_def)
  show "kg_cursor g = base + 0x100000" using g wf by (simp add: kg_cursor_def kf_cursor_def)
  show "kg_forbidden g = (+) base ` \<Union> (mr_set ` set regions)"
    using g wf by (simp add: kg_forbidden_def kf_forbidden_def it_unavailable_def)
qed

subsection \<open>Running out of memory\<close>

definition exhausted :: "linear_inc_frame_allocator \<Rightarrow> bool" where
  "exhausted al \<longleftrightarrow> phys_mem_right_boundary al < current_value (range_iterator al)"

lemma allocate_frames_exhausts:
  assumes "x86_laws X" and "kf_wf al" and "allocate_frames X al n = Inr (None, al')"
  shows "exhausted al'"
  using allocate_frames_step [OF assms] assms(2)
  by (auto simp: kf_step_def next_n_post_cursor exhausted_def kf_wf_def split: if_splits)

lemma exhausted_fails:
  assumes "x86_laws X" and "kf_wf al" and "exhausted al" and "allocate_frames X al n = Inr (r, al')"
  shows "r = None"
  using allocate_frames_step [OF assms(1,2,4)] assms(3)
  by (auto simp: kf_step_def next_n_post_def exhausted_def split: if_splits)

lemma exhausted_seq:
  assumes "x86_laws X" and "kf_wf al" and "exhausted al"
    and "alloc_seq (allocate_frames X) al ns = Inr (bs, al')"
  shows "bs = []"
  using assms(2-4)
proof (induction ns arbitrary: al bs)
  case (Cons n ns)
  from Cons.prems(3) obtain r al1 bs1 where step: "allocate_frames X al n = Inr (r, al1)"
    and rest: "alloc_seq (allocate_frames X) al1 ns = Inr (bs1, al')"
    and bs: "bs = (case r of None \<Rightarrow> bs1 | Some a \<Rightarrow> (a, n) # bs1)"
    by (auto simp: run_simps)
  have r: "r = None" by (rule exhausted_fails [OF assms(1) Cons.prems(1,2) step])
  have "bs1 = []"
    using Cons.IH [OF kf_laws(1) [OF assms(1) Cons.prems(1) step] _ rest]
      allocate_frames_exhausts [OF assms(1) Cons.prems(1) step [unfolded r]] by simp
  with r bs show ?case by simp
qed simp

subsection \<open>The unwritten tail and the allocator\<close>

definition retail :: "range list \<Rightarrow> linear_inc_frame_allocator \<Rightarrow> linear_inc_frame_allocator" where
  "retail rgs al = al\<lparr>range_iterator := (range_iterator al)\<lparr>ranges := rgs\<rparr>\<rparr>"

definition same_table :: "range list \<Rightarrow> linear_inc_frame_allocator \<Rightarrow> bool" where
  "same_table rgs al \<longleftrightarrow>
     it_wf (range_iterator al) \<and> range_size (range_iterator al) < MAX_RANGE_COUNT
     \<and> length rgs = MAX_RANGE_COUNT
     \<and> take (range_size (range_iterator al)) rgs = live_ranges (range_iterator al)"

lemma allocate_frames_retail:
  assumes "same_table rgs al"
  shows "allocate_frames X (retail rgs al) n
       = and_then (allocate_frames X al n) (\<lambda>(r, al'). Inr (r, retail rgs al'))"
  using next_n_tail [of "range_iterator al" rgs n] assms
  by (cases "next_n (range_iterator al) n")
     (auto simp: same_table_def allocate_frames_def retail_def Let_def and_then_assoc
       split: option.splits intro!: and_then_cong)

lemma same_table_step:
  assumes "same_table rgs al" and "allocate_frames X al n = Inr (r, al')"
  shows "same_table rgs al'"
proof -
  from assms(2) obtain q it where nx: "next_n (range_iterator al) n = Inr (q, it)"
    and al': "range_iterator al' = it"
    by (auto simp: allocate_frames_def run_simps Let_def split: option.splits if_splits)
  have "next_n_post (range_iterator al) n q it"
    by (rule next_n_sound [OF _ nx]) (use assms(1) in \<open>simp add: same_table_def\<close>)
  then obtain c i where "it = (range_iterator al)\<lparr>current_value := c, current_range_index := i\<rparr>"
    and "it_wf it" by (auto simp: next_n_post_def)
  with assms(1) al' show ?thesis by (simp add: same_table_def)
qed

lemma alloc_seq_retail:
  assumes "same_table rgs al"
  shows "map_sum id fst (alloc_seq (allocate_frames X) (retail rgs al) ns)
       = map_sum id fst (alloc_seq (allocate_frames X) al ns)"
  using assms
proof (induction ns arbitrary: al)
  case (Cons n ns)
  show ?case
  proof (cases "allocate_frames X al n")
    case (Inr p)
    obtain r al' where p: "p = (r, al')" by (cases p)
    from same_table_step [OF Cons.prems Inr [unfolded p]]
    have "map_sum id fst (alloc_seq (allocate_frames X) (retail rgs al') ns)
       = map_sum id fst (alloc_seq (allocate_frames X) al' ns)" by (rule Cons.IH)
    with Inr p allocate_frames_retail [OF Cons.prems] show ?thesis
      by (cases "alloc_seq (allocate_frames X) (retail rgs al') ns";
          cases "alloc_seq (allocate_frames X) al' ns") auto
  qed (simp add: allocate_frames_retail [OF Cons.prems])
qed simp

subsection \<open>After the initialisation a request returns\<close>

lemma merge_loop_ends:
  assumes "merge_loop st rs = Inr m" and "st \<noteq> []" and "\<forall>g\<in>set st. rg_end g \<le> M" and "\<forall>r\<in>set rs. mr_start r + mr_length r \<le> M"
  shows "\<forall>g\<in>set m. rg_end g \<le> M"
  using assms
proof (induction rs arbitrary: st)
  case (Cons r rs)
  obtain g where g: "region_range r = Inr g" "rg_end g = mr_start r + mr_length r" using Cons.prems(1) by (auto simp: run_simps)
  have "\<forall>x\<in>set (butlast st). rg_end x \<le> M" using Cons.prems(3) by (auto dest: in_set_butlastD)
  with Cons.prems g
    Cons.IH [of "st @ [g]"] Cons.IH [of "butlast st @ [\<lparr>rg_start = rg_start (last st), rg_end = rg_end g\<rparr>]"] Cons.IH [of st]
  show ?case by (auto split: if_splits)
qed simp

lemma merge_regions_ends:
  assumes "merge_regions regions = Inr m" and "\<forall>r\<in>set regions. mr_start r + mr_length r \<le> M"
  shows "\<forall>g\<in>set m. rg_end g \<le> M"
proof (cases regions)
  case (Cons r rs)
  with assms(1) obtain g where "region_range r = Inr g" "rg_end g = mr_start r + mr_length r" "merge_loop [g] rs = Inr m"
    by (auto simp: merge_regions_def run_simps)
  with merge_loop_ends [of "[g]" rs m M] assms(2) Cons show ?thesis by simp
qed (use assms(1) in \<open>simp add: merge_regions_def\<close>)

lemma allocate_frames_returns:
  fixes al :: linear_inc_frame_allocator
  defines "it \<equiv> range_iterator al"
  assumes "x86_laws X" and "kf_wf al" and "0 < n" and "range_size it < MAX_RANGE_COUNT"
    and "\<forall>i<range_size it. rg_end (ranges it ! i) \<le> M" and "current_value it \<le> M"
    and "M + Suc (range_size it - current_range_index it) * (PAGE_SIZE * n) \<le> phys_mem_right_boundary al"
    and "base_address al + phys_mem_right_boundary al < 4503599627370496"
  shows "\<exists>a al'. allocate_frames X al n = Inr (Some a, al')"
proof -
  let ?req = "PAGE_SIZE * n"
  have wf: "it_wf it" "window it = PAGE_SIZE" "alloc_window al = PAGE_SIZE"
    using assms(3) by (auto simp: kf_wf_def it_def)
  have "\<exists>a it'. next_n_rec it n = Some (Inr (Some a, it'))
      \<and> a \<le> M + (range_size it - current_range_index it) * (window it * n)"
    by (rule next_n_rec_returns) (use assms wf in \<open>auto simp: PAGE_SIZE_def\<close>)
  then obtain a it' where nx: "next_n it n = Inr (Some a, it')"
    and a: "a + ?req \<le> phys_mem_right_boundary al"
    using assms(8) wf by (auto simp: next_n_def)
  from next_n_sound [OF wf(1) nx] have post: "next_n_post (range_iterator al) n (Some a) it'"
    by (simp add: it_def)
  have "PhysAddr_new X (base_address al + a) = Inr (base_address al + a)"
    by (rule x86_laws.PhysAddr_new_ok [OF assms(2)]) (use a assms(9) in linarith)
  moreover have "base_address al + a < two64" "a + ?req < two64" "?req < two64" using a assms(9) by linarith+
  ultimately show ?thesis using nx a wf by (simp add: allocate_frames_def it_def Let_def)
qed

lemma init_allocates:
  assumes "x86_laws X" and "sorted (map mr_start regions)" and "regions \<noteq> []" and "length regions < MAX_RANGE_COUNT"
    and "\<forall>r\<in>set regions. mr_start r + mr_length r \<le> M" and "0x100000 \<le> M" and "0 < n"
    and "M + Suc (length regions) * (PAGE_SIZE * n) \<le> mem_size" and "mem_size < 4503599627370496"
  shows "\<exists>g a g'. init_frame_allocator junk 0 mem_size regions g0 = Inr g \<and> frame_alloc_n X n g = Inr (Some a, g')"
proof -
  have small: "\<forall>r\<in>set regions. mr_start r + mr_length r < two64"
  proof
    fix r assume "r \<in> set regions"
    then have "mr_start r + mr_length r \<le> M" using assms(5) by blast
    then show "mr_start r + mr_length r < two64" using assms(8,9) by simp
  qed
  obtain m where m: "merge_regions regions = Inr m"
    using merge_regions_returns [OF small assms(3) less_imp_le [OF assms(4)]] by blast
  define it where "it = \<lparr>ranges = m @ map junk [length m ..< MAX_RANGE_COUNT], range_size = length m,
       window = PAGE_SIZE, current_range_index = initial_index_loop 0x100000 0 0 m, current_value = 0x100000\<rparr>"
  have it: "from_memory_regions junk 0x100000 PAGE_SIZE regions = Inr it"
    by (simp add: from_memory_regions_def m it_def)
  define al where "al = \<lparr>range_iterator = it, base_address = 0, phys_mem_right_boundary = mem_size, alloc_window = PAGE_SIZE\<rparr>"
  have init: "init_frame_allocator junk 0 mem_size regions g0 = Inr (g0\<lparr>FRAME_ALLOCATOR := Some al,
              PHYS_MEM_SIZE := (case PHYS_MEM_SIZE g0 of None \<Rightarrow> Some mem_size | Some n \<Rightarrow> Some n)\<rparr>)" (is "_ = Inr ?g")
    using it assms(9) by (simp add: init_frame_allocator_def allocator_new_def al_def)
  have wf: "kf_wf al" using init_frame_allocator_wf(1) [OF assms(2) _ init] by (simp add: kg_wf_def)
  have len: "length m \<le> length regions" by (rule merge_regions_length [OF m])
  have ends: "\<forall>g\<in>set m. rg_end g \<le> M" by (rule merge_regions_ends [OF m assms(5)])
  have le: "M + Suc (length m - j) * (PAGE_SIZE * n) \<le> mem_size" for j
  proof -
    have "Suc (length m - j) \<le> Suc (length regions)" using len by simp
    from mult_le_mono1 [OF this] assms(8) show ?thesis by (meson add_le_mono order_trans le_refl)
  qed
  have "\<exists>a al'. allocate_frames X al n = Inr (Some a, al')"
    by (rule allocate_frames_returns [OF assms(1) wf assms(7), where M = M])
       (use len ends le assms in \<open>simp_all add: al_def it_def nth_append\<close>)
  then show ?thesis using init by (auto simp: frame_alloc_n_def with_frame_alloc_def)
qed

subsection \<open>Properties of the allocator\<close>

text \<open>C2. The frames the kernel hands out after \<open>init_frame_allocator\<close>, over any sequence of
  \<open>frame_alloc_n\<close> requests: every block is page aligned, lies at or above 1 MiB past the base,
  meets none of the memory regions the bootloader reported, and no two blocks overlap.  The
  bootloader's contract is that the regions are sorted by start address and the base is
  page aligned.\<close>

theorem kernel_frames_safe:
  assumes "x86_laws X" and "sorted (map mr_start regions)" and "PAGE_SIZE dvd base"
    and "init_frame_allocator junk base mem_size regions g0 = Inr g"
    and "alloc_seq (\<lambda>g n. frame_alloc_n X n g) g ns = Inr (bs, g')"
  shows "(\<forall>(a, n)\<in>set bs. 4096 dvd a \<and> base + 0x100000 \<le> a
            \<and> (\<forall>r\<in>set regions. frames_block a n \<inter> (+) base ` mr_set r = {}))
       \<and> (\<forall>i j. i < j \<and> j < length bs \<longrightarrow>
            frames_block (fst (bs ! i)) (snd (bs ! i)) \<inter> frames_block (fst (bs ! j)) (snd (bs ! j)) = {})"
proof -
  note init = init_frame_allocator_wf [OF assms(2-4)]
  note all = x86_laws.kernel_seq_above [OF assms(1) init(1) assms(5)]
  note disj = x86_laws.kernel_seq_disjoint [OF assms(1) init(1) assms(5)]
  from all init(2,3) have "\<forall>(a, n)\<in>set bs. 4096 dvd a \<and> base + 0x100000 \<le> a
      \<and> frames_block a n \<inter> (+) base ` \<Union> (mr_set ` set regions) = {}"
    by (simp add: case_prod_beta)
  moreover have "frames_block a n \<inter> (+) base ` mr_set r = {}"
    if "frames_block a n \<inter> (+) base ` \<Union> (mr_set ` set regions) = {}" "r \<in> set regions" for a n r
    using that by blast
  ultimately show ?thesis using disj by fastforce
qed

definition sample_regions :: "memory_region list" where
  "sample_regions =
     [\<lparr>mr_start = 0x101000, mr_length = 0x1500, mr_kind = Bootloader\<rparr>,
      \<lparr>mr_start = 0x104000, mr_length = 0x800, mr_kind = Bootloader\<rparr>,
      \<lparr>mr_start = 0x104800, mr_length = 0x800, mr_kind = Bootloader\<rparr>]"

definition sample_iterator :: linked_range_iterator where
  "sample_iterator =
     \<lparr>ranges = \<lparr>rg_start = 0x101000, rg_end = 0x102500\<rparr> # \<lparr>rg_start = 0x104000, rg_end = 0x105000\<rparr>
                # replicate 510 \<lparr>rg_start = 0, rg_end = 0\<rparr>,
      range_size = 2, window = PAGE_SIZE, current_range_index = 0, current_value = 0x100000\<rparr>"

definition sample_allocator :: linear_inc_frame_allocator where
  "sample_allocator = \<lparr>range_iterator = sample_iterator, base_address = 0,
     phys_mem_right_boundary = 0x1000000, alloc_window = PAGE_SIZE\<rparr>"

lemma sample_from_regions:
  "from_memory_regions (\<lambda>_. \<lparr>rg_start = 0, rg_end = 0\<rparr>) 0x100000 PAGE_SIZE sample_regions
     = Inr sample_iterator"
  by (simp add: from_memory_regions_def merge_regions_def region_range_def sample_regions_def
      sample_iterator_def MAX_RANGE_COUNT_def map_replicate_const)

lemma sample_init:
  "init_frame_allocator (\<lambda>_. \<lparr>rg_start = 0, rg_end = 0\<rparr>) 0 0x1000000 sample_regions
       \<lparr>FRAME_ALLOCATOR = None, PHYS_MEM_SIZE = None\<rparr>
     = Inr \<lparr>FRAME_ALLOCATOR = Some sample_allocator, PHYS_MEM_SIZE = Some 0x1000000\<rparr>"
  by (simp add: init_frame_allocator_def allocator_new_def sample_from_regions sample_allocator_def)

lemma sample_wf: "kf_wf sample_allocator"
  by (auto simp: kf_wf_def it_wf_def sample_allocator_def sample_iterator_def PAGE_SIZE_def
      MAX_RANGE_COUNT_def separated_def)

lemmas alloc_eval = alloc_seq.simps frame_alloc_n_def with_frame_alloc_def allocate_frames_def next_n_def
  next_n_rec.simps skip_loop.simps skip_range.simps rg_contains_def PAGE_SIZE_def
  sample_allocator_def sample_iterator_def

theorem kernel_frames_safe_witness:
  "\<exists>g'. alloc_seq (\<lambda>g n. frame_alloc_n x86_model n g)
           \<lparr>FRAME_ALLOCATOR = Some sample_allocator, PHYS_MEM_SIZE = Some 0x1000000\<rparr> [1, 2]
         = Inr ([(0x100000, 1), (0x105000, 2)], g')
     \<and> frames_block 0x100000 1 \<inter> frames_block 0x105000 2 = {}"
proof -
  let ?g = "\<lparr>FRAME_ALLOCATOR = Some sample_allocator, PHYS_MEM_SIZE = Some 0x1000000\<rparr>"
  obtain g' where "alloc_seq (\<lambda>g n. frame_alloc_n x86_model n g) ?g [1, 2]
      = Inr ([(0x100000, 1), (0x105000, 2)], g')"
    by (simp add: alloc_eval x86_model_def)
  moreover from kernel_frames_safe [OF x86m.x86_laws_axioms _ _ sample_init this,
      THEN conjunct2, rule_format, of 0 1]
  have "frames_block 0x100000 1 \<inter> frames_block 0x105000 2 = {}"
    by (simp add: sample_regions_def)
  ultimately show ?thesis by blast
qed







text \<open>C35. Running out of memory is permanent: after one request that returned \<open>None\<close>, whatever its
  size, no later request of the allocator returns a frame, because the failed request has
  already moved the cursor past the boundary.\<close>

theorem out_of_memory_permanent:
  assumes "x86_laws X" and "kf_wf al" and "allocate_frames X al n = Inr (None, al')"
    and "alloc_seq (allocate_frames X) al' ns = Inr (bs, al'')"
  shows "bs = []"
  by (rule exhausted_seq [OF assms(1) kf_laws(1) [OF assms(1-3)]
        allocate_frames_exhausts [OF assms(1-3)] assms(4)])

theorem out_of_memory_permanent_witness:
  "\<exists>al' al''. allocate_frames x86_model sample_allocator 0x1000 = Inr (None, al')
     \<and> alloc_seq (allocate_frames x86_model) al' [1] = Inr ([], al'')"
proof -
  obtain al' al'' bs where "allocate_frames x86_model sample_allocator 0x1000 = Inr (None, al')"
    "alloc_seq (allocate_frames x86_model) al' [1] = Inr (bs, al'')"
    by (simp add: alloc_eval x86_model_def)
  then show ?thesis
    using out_of_memory_permanent [OF x86m.x86_laws_axioms sample_wf, of "0x1000" al' "[1]" bs al'']
    by blast
qed

text \<open>The slots of the table past the last range are never written, and the search reads one
  of them; what they contain does not matter.  With fewer than 512 regions, two allocators
  that differ only in those slots answer every sequence of requests with the same blocks,
  or stop for the same reason.\<close>

theorem unwritten_slots_irrelevant:
  assumes "sorted (map mr_start regions)" and "length regions < MAX_RANGE_COUNT"
    and "allocator_new junk base win mem_size regions = Inr al"
    and "allocator_new junk' base win mem_size regions = Inr al'"
  shows "map_sum id fst (alloc_seq (allocate_frames X) al ns)
       = map_sum id fst (alloc_seq (allocate_frames X) al' ns)"
proof -
  from assms(3) obtain it where it: "from_memory_regions junk 0x100000 win regions = Inr it"
    and al: "al = \<lparr>range_iterator = it, base_address = base,
      phys_mem_right_boundary = base + mem_size, alloc_window = win\<rparr>"
    by (auto simp: allocator_new_def run_simps)
  from it obtain m where m: "merge_regions regions = Inr m" "live_ranges it = m"
    "range_size it = length m"
    by (auto simp: from_memory_regions_def run_simps)
  let ?rgs = "m @ map junk' [length m ..< MAX_RANGE_COUNT]"
  have "al' = retail ?rgs al" using assms(4) it m al
    by (auto simp: retail_def allocator_new_def from_memory_regions_def run_simps)
  moreover have "length m \<le> length regions" by (rule merge_regions_length [OF m(1)])
  then have "same_table ?rgs al"
    using m al assms(2) from_memory_regions_wf(1) [OF assms(1) it] by (simp add: same_table_def)
  ultimately show ?thesis by (simp add: alloc_seq_retail)
qed

theorem unwritten_slots_irrelevant_witness:
  "\<exists>al al'. allocator_new (\<lambda>_. \<lparr>rg_start = 0, rg_end = 0\<rparr>) 0 PAGE_SIZE 0x1000000 sample_regions = Inr al
     \<and> allocator_new (\<lambda>_. \<lparr>rg_start = 0, rg_end = 0x200000\<rparr>) 0 PAGE_SIZE 0x1000000 sample_regions = Inr al'
     \<and> map_sum id fst (alloc_seq (allocate_frames x86_model) al [1, 2])
       = map_sum id fst (alloc_seq (allocate_frames x86_model) al' [1, 2])"
proof -
  obtain al al' where
    "allocator_new (\<lambda>_. \<lparr>rg_start = 0, rg_end = 0\<rparr>) 0 PAGE_SIZE 0x1000000 sample_regions = Inr al"
    "allocator_new (\<lambda>_. \<lparr>rg_start = 0, rg_end = 0x200000\<rparr>) 0 PAGE_SIZE 0x1000000 sample_regions = Inr al'"
    by (simp add: allocator_new_def from_memory_regions_def merge_regions_def region_range_def
        sample_regions_def MAX_RANGE_COUNT_def)
  moreover have "sorted (map mr_start sample_regions)" "length sample_regions < MAX_RANGE_COUNT"
    by (simp_all add: sample_regions_def MAX_RANGE_COUNT_def)
  ultimately show ?thesis using unwritten_slots_irrelevant by blast
qed

text \<open>A table with all 512 slots in use makes the search panic: when it comes to the last
  range and has to step over it, the code reads the slot after the last one.\<close>

theorem full_table_panics:
  assumes "kf_wf al" and "range_size (range_iterator al) = MAX_RANGE_COUNT"
    and "current_range_index (range_iterator al) = MAX_RANGE_COUNT - 1" and "0 < n"
    and "rg_start (last (ranges (range_iterator al))) < current_value (range_iterator al) + PAGE_SIZE * n"
    and "rg_end (last (ranges (range_iterator al))) + PAGE_SIZE * n \<le> two64"
    and "current_value (range_iterator al) + PAGE_SIZE * n < two64"
  shows "allocate_frames X al n = Inl OutOfBounds"
proof -
  have "next_n (range_iterator al) n = Inl OutOfBounds"
    by (rule next_n_full_table) (use assms in \<open>auto simp: kf_wf_def PAGE_SIZE_def\<close>)
  then show ?thesis by (simp add: allocate_frames_def)
qed

definition full_allocator :: linear_inc_frame_allocator where
  "full_allocator = \<lparr>range_iterator =
       \<lparr>ranges = map (\<lambda>i. \<lparr>rg_start = 0x2000 * i, rg_end = 0x2000 * i + 0x1000\<rparr>) [0 ..< MAX_RANGE_COUNT],
        range_size = MAX_RANGE_COUNT, window = PAGE_SIZE,
        current_range_index = MAX_RANGE_COUNT - 1, current_value = 0x3FE000\<rparr>,
     base_address = 0, phys_mem_right_boundary = 0x1000000, alloc_window = PAGE_SIZE\<rparr>"

lemma full_allocator_wf: "kf_wf full_allocator"
  by (auto simp: full_allocator_def kf_wf_def it_wf_def PAGE_SIZE_def MAX_RANGE_COUNT_def
      separated_def sorted_wrt_iff_nth_less)

theorem full_table_panics_witness: "allocate_frames x86_model full_allocator 1 = Inl OutOfBounds"
  by (rule full_table_panics [OF full_allocator_wf])
     (simp_all add: full_allocator_def PAGE_SIZE_def last_conv_nth MAX_RANGE_COUNT_def)

text \<open>A request for zero frames made while the cursor is inside an unavailable range never
  returns: the stride of the inner loop is the requested size.\<close>

theorem zero_request_loops:
  assumes "kf_wf al"
    and "current_range_index (range_iterator al) < range_size (range_iterator al)"
    and "rg_start (ranges (range_iterator al) ! current_range_index (range_iterator al))
           < current_value (range_iterator al)"
    and "current_value (range_iterator al)
           < rg_end (ranges (range_iterator al) ! current_range_index (range_iterator al))"
    and "current_value (range_iterator al) < two64"
  shows "allocate_frames X al 0 = Inl Loops"
  using next_n_zero_diverges [of "range_iterator al"] assms
  by (simp add: allocate_frames_def kf_wf_def)

theorem zero_request_loops_witness:
  "allocate_frames x86_model
     (sample_allocator\<lparr>range_iterator := sample_iterator\<lparr>current_value := 0x102000\<rparr>\<rparr>) 0 = Inl Loops"
  by (rule zero_request_loops)
     (auto simp: kf_wf_def it_wf_def sample_allocator_def sample_iterator_def PAGE_SIZE_def
        MAX_RANGE_COUNT_def separated_def)

end
