(* ===== verification/Boot_Frames.thy ===== *)
theory Boot_Frames
  imports Shared_Args X86_Crate Bump_Allocator
begin

section \<open>The bootloader's frame allocator (bootloader-efi/src/mem/frame\_allocator.rs, memory\_descriptor.rs)\<close>

text \<open>
  After the exit from the boot services the bootloader takes single frames from the usable
  descriptors of the UEFI memory map, upwards from 1 MiB.  The theory models the view of a
  UEFI descriptor as a memory region, the allocator and its queries, and shows that it keeps
  the contract of an allocator that only moves upwards: frames are aligned, lie inside
  usable descriptors, never repeat, and lie in \<open>allocated_region\<close>; and that it gives up only
  when every usable frame above the start has been handed out.
\<close>

subsection \<open>Descriptors\<close>

text \<open>
  The memory types the source names; \<open>OtherType\<close> is any other one.  The tag number of a type
  (\<open>other.0\<close>) belongs to the uefi crate and is an argument of the function that reads it.
\<close>

datatype memory_type =
    CONVENTIONAL | BOOT_SERVICES_CODE | BOOT_SERVICES_DATA
  | RUNTIME_SERVICES_CODE | RUNTIME_SERVICES_DATA | OtherType nat

record memory_descriptor =
  md_ty :: memory_type
  phys_start :: nat
  page_count :: nat

definition md_start :: "x86 \<Rightarrow> memory_descriptor \<Rightarrow> nat run" where
  "md_start X d = PhysAddr_new X (phys_start d)"

definition md_len :: "memory_descriptor \<Rightarrow> nat run" where
  "md_len d = mul64 (page_count d) 4096"

definition md_is_empty :: "memory_descriptor \<Rightarrow> bool run" where
  "md_is_empty d = and_then (md_len d) (\<lambda>n. Inr (n = 0))"

definition md_kind :: "(memory_type \<Rightarrow> nat) \<Rightarrow> memory_descriptor \<Rightarrow> memory_region_kind" where
  "md_kind tag d = (case md_ty d of CONVENTIONAL \<Rightarrow> Usable | other \<Rightarrow> UnknownUefi (tag other))"

definition usable_after_bootloader_exit :: "memory_descriptor \<Rightarrow> bool" where
  "usable_after_bootloader_exit d =
     (case md_ty d of
        CONVENTIONAL \<Rightarrow> True
      | BOOT_SERVICES_CODE \<Rightarrow> True
      | BOOT_SERVICES_DATA \<Rightarrow> True
      | RUNTIME_SERVICES_CODE \<Rightarrow> False
      | RUNTIME_SERVICES_DATA \<Rightarrow> False
      | _ \<Rightarrow> False)"

subsection \<open>The allocator\<close>

record boot_frame_allocator =
  bf_original :: "memory_descriptor list"
  bf_memory_map :: "memory_descriptor list"       \<comment> \<open>what the iterator has left\<close>
  bf_start_phys_addr :: nat
  bf_current_descriptor :: "memory_descriptor option"
  bf_next_frame :: nat

definition new_starting_at :: "nat \<Rightarrow> memory_descriptor list \<Rightarrow> boot_frame_allocator" where
  "new_starting_at frame memory_map =
     \<lparr>bf_original = memory_map, bf_memory_map = memory_map, bf_start_phys_addr = frame,
      bf_current_descriptor = None, bf_next_frame = frame\<rparr>"

definition boot_frames_new :: "x86 \<Rightarrow> memory_descriptor list \<Rightarrow> boot_frame_allocator run" where
  "boot_frames_new X memory_map =
     and_then (PhysAddr_new X 0x100000) (\<lambda>a. Inr (new_starting_at (frame_containing X a) memory_map))"

definition allocate_frame_from_descriptor ::
  "x86 \<Rightarrow> boot_frame_allocator \<Rightarrow> memory_descriptor \<Rightarrow> (nat option \<times> boot_frame_allocator) run" where
  "allocate_frame_from_descriptor X al d =
     and_then (md_start X d) (\<lambda>start_addr.
     and_then (md_len d) (\<lambda>len.
     and_then (PhysAddr_add X start_addr len) (\<lambda>end_addr.
     and_then (PhysAddr_sub X end_addr 1) (\<lambda>last_addr.
       let start_frame = frame_containing X start_addr;
           end_frame = frame_containing X last_addr;
           al1 = (if bf_next_frame al < start_frame then al\<lparr>bf_next_frame := start_frame\<rparr> else al)
       in if bf_next_frame al1 \<le> end_frame
          then and_then (PhysAddr_add X (bf_next_frame al1) 4096) (\<lambda>nf.
                 Inr (Some (bf_next_frame al1), al1\<lparr>bf_next_frame := nf\<rparr>))
          else Inr (None, al1)))))"

text \<open>The loop over the descriptors the iterator has left; \<open>ds\<close> is that rest.\<close>

fun descriptor_loop ::
  "x86 \<Rightarrow> (memory_type \<Rightarrow> nat) \<Rightarrow> boot_frame_allocator \<Rightarrow> memory_descriptor list
     \<Rightarrow> (nat option \<times> boot_frame_allocator) run" where
  "descriptor_loop X tag al [] = Inr (None, al\<lparr>bf_memory_map := []\<rparr>)"
| "descriptor_loop X tag al (d # ds) =
     (if md_kind tag d \<noteq> Usable then descriptor_loop X tag al ds
      else
        and_then (allocate_frame_from_descriptor X al d) (\<lambda>(r, al1).
          case r of
            Some frame \<Rightarrow> Inr (Some frame, al1\<lparr>bf_memory_map := ds, bf_current_descriptor := Some d\<rparr>)
          | None \<Rightarrow> descriptor_loop X tag al1 ds))"

definition boot_allocate_frame ::
  "x86 \<Rightarrow> (memory_type \<Rightarrow> nat) \<Rightarrow> boot_frame_allocator \<Rightarrow> (nat option \<times> boot_frame_allocator) run" where
  "boot_allocate_frame X tag al =
     (case bf_current_descriptor al of
        None \<Rightarrow> descriptor_loop X tag al (bf_memory_map al)
      | Some d \<Rightarrow>
          and_then (allocate_frame_from_descriptor X al d) (\<lambda>(r, al1).
            case r of
              Some frame \<Rightarrow> Inr (Some frame, al1)
            | None \<Rightarrow>
                descriptor_loop X tag (al1\<lparr>bf_current_descriptor := None\<rparr>) (bf_memory_map al1)))"

definition bf_len :: "boot_frame_allocator \<Rightarrow> nat" where
  "bf_len al = length (bf_original al)"

definition bf_is_empty :: "boot_frame_allocator \<Rightarrow> bool" where
  "bf_is_empty al \<longleftrightarrow> bf_len al = 0"

definition md_end :: "x86 \<Rightarrow> memory_descriptor \<Rightarrow> nat run" where
  "md_end X d =
     and_then (md_start X d) (\<lambda>s. and_then (md_len d) (\<lambda>n. PhysAddr_add X s n))"

fun max_end :: "x86 \<Rightarrow> memory_descriptor list \<Rightarrow> nat option run" where
  "max_end X [] = Inr None"
| "max_end X (d # ds) =
     and_then (md_end X d) (\<lambda>e.
     and_then (max_end X ds) (\<lambda>m.
       Inr (Some (case m of None \<Rightarrow> e | Some m \<Rightarrow> max e m))))"

definition max_phys_addr :: "x86 \<Rightarrow> boot_frame_allocator \<Rightarrow> nat run" where
  "max_phys_addr X al =
     and_then (max_end X (bf_original al)) (\<lambda>m. or_panic m ''unwrap on None'')"

definition allocated_region :: "boot_frame_allocator \<Rightarrow> memory_region run" where
  "allocated_region al =
     and_then (sub64 (bf_next_frame al) (bf_start_phys_addr al)) (\<lambda>n.
       Inr \<lparr>mr_start = bf_start_phys_addr al, mr_length = n, mr_kind = Bootloader\<rparr>)"

subsection \<open>One descriptor\<close>

definition md_limit :: "memory_descriptor \<Rightarrow> nat" where
  "md_limit d = phys_start d + page_count d * 4096"

definition md_bytes :: "memory_descriptor \<Rightarrow> nat set" where
  "md_bytes d = {phys_start d ..< md_limit d}"

lemma md_kind_Usable [simp]: "md_kind tag d = Usable \<longleftrightarrow> md_ty d = CONVENTIONAL"
  by (cases "md_ty d") (simp_all add: md_kind_def)

lemma page_dvd_step: "4096 dvd (a::nat) \<Longrightarrow> 4096 dvd b \<Longrightarrow> a < b + 4096 \<longleftrightarrow> a \<le> b"
  by (auto elim!: dvdE)

lemma last_frame:
  fixes e :: nat
  assumes "4096 dvd e" and "1 \<le> e"
  shows "e - 1 - (e - 1) mod 4096 = e - 4096"
proof -
  from assms obtain k where k: "e = 4096 * Suc k" by (metis dvdE mult_0_right not0_implies_Suc not_one_le_zero)
  then have "e - 1 = 4095 + 4096 * k" by simp
  then have "(e - 1) mod 4096 = 4095" by (simp only: mod_mult_self2) simp
  with k show ?thesis by simp
qed

lemma from_descriptor_eq:
  assumes "x86_laws X" and "4096 dvd phys_start d"
    and "allocate_frame_from_descriptor X al d = Inr (r, al')"
  shows "r = (if max (bf_next_frame al) (phys_start d) + 4096 \<le> md_limit d
              then Some (max (bf_next_frame al) (phys_start d)) else None)
     \<and> al' = al\<lparr>bf_next_frame := max (bf_next_frame al) (phys_start d) + (if r = None then 0 else 4096)\<rparr>"
proof -
  note laws = x86_laws.PhysAddr_new_eq_Inr [OF assms(1)] x86_laws.PhysAddr_add_eq_Inr [OF assms(1)]
  define nf where "nf = max (bf_next_frame al) (phys_start d)"
  have dv: "4096 dvd md_limit d" using assms(2) by (simp add: md_limit_def)
  have first: "frame_containing X (phys_start d) = phys_start d"
    using assms(2) by (simp add: x86_laws.frame_containing_aligned [OF assms(1)] dvd_eq_mod_eq_0)
  have nf: "(if bf_next_frame al < frame_containing X (phys_start d)
      then al\<lparr>bf_next_frame := frame_containing X (phys_start d)\<rparr> else al) = al\<lparr>bf_next_frame := nf\<rparr>"
    by (simp add: nf_def first)
  from assms(3) obtain l where lim: "md_limit d < max_phys" "PhysAddr_sub X (md_limit d) 1 = Inr l"
    and unf: "(if nf \<le> frame_containing X l
      then and_then (PhysAddr_add X nf 4096) (\<lambda>n. Inr (Some nf, al\<lparr>bf_next_frame := n\<rparr>))
      else Inr (None, al\<lparr>bf_next_frame := nf\<rparr>)) = Inr (r, al')"
    by (auto simp: allocate_frame_from_descriptor_def md_start_def md_len_def md_limit_def run_simps
        laws Let_def nf cong: if_cong)
  from lim have l: "1 \<le> md_limit d" "l = md_limit d - 1"
    by (auto simp: x86_laws.PhysAddr_sub_eq_Inr [OF assms(1)])
  have "frame_containing X l = md_limit d - 4096" "4096 \<le> md_limit d"
    using l dv last_frame [OF dv l(1)] dvd_imp_le [OF dv]
    by (simp_all add: x86_laws.frame_containing_eq [OF assms(1)])
  then have "nf \<le> frame_containing X l \<longleftrightarrow> nf + 4096 \<le> md_limit d" by linarith
  with unf show ?thesis unfolding nf_def [symmetric]
    by (cases "nf + 4096 \<le> md_limit d") (auto simp: run_simps laws)
qed

subsection \<open>The invariant\<close>

definition spent :: "boot_frame_allocator \<Rightarrow> memory_descriptor \<Rightarrow> bool" where
  "spent al d \<longleftrightarrow> md_ty d = CONVENTIONAL \<longrightarrow> md_limit d \<le> bf_next_frame al"

definition bf_core :: "boot_frame_allocator \<Rightarrow> memory_descriptor list \<Rightarrow> bool" where
  "bf_core al ds \<longleftrightarrow>
     (\<forall>d\<in>set (bf_original al). 4096 dvd phys_start d) \<and> 4096 dvd bf_next_frame al
     \<and> bf_start_phys_addr al \<le> bf_next_frame al
     \<and> (\<exists>before. bf_original al = before @ ds
          \<and> (\<forall>d\<in>set before. spent al d \<or> bf_current_descriptor al = Some d))"

definition bf_wf :: "boot_frame_allocator \<Rightarrow> bool" where
  "bf_wf al \<longleftrightarrow> bf_core al (bf_memory_map al)
     \<and> (\<forall>d. bf_current_descriptor al = Some d \<longrightarrow>
          d \<in> set (bf_original al) \<and> md_ty d = CONVENTIONAL \<and> phys_start d \<le> bf_next_frame al)"

definition usable_bytes :: "boot_frame_allocator \<Rightarrow> nat set" where
  "usable_bytes al = \<Union> (md_bytes ` {d \<in> set (bf_original al). md_ty d = CONVENTIONAL})"

text \<open>What one call may do.  When the map is sorted by start address, no usable byte is skipped.\<close>

definition gap_free :: "boot_frame_allocator \<Rightarrow> nat \<Rightarrow> bool" where
  "gap_free al a \<longleftrightarrow> (sorted (map phys_start (bf_original al)) \<longrightarrow>
     usable_bytes al \<inter> {bf_next_frame al ..< a} = {})"

definition bf_post :: "boot_frame_allocator \<Rightarrow> nat option \<Rightarrow> boot_frame_allocator \<Rightarrow> bool" where
  "bf_post al r al' \<longleftrightarrow>
     bf_wf al' \<and> bf_original al' = bf_original al \<and> bf_start_phys_addr al' = bf_start_phys_addr al
     \<and> bf_next_frame al \<le> bf_next_frame al'
     \<and> (case r of
          Some a \<Rightarrow> bf_next_frame al \<le> a \<and> bf_next_frame al' = a + 4096 \<and> 4096 dvd a
                    \<and> block a 4096 \<subseteq> usable_bytes al \<and> gap_free al a
        | None \<Rightarrow> (\<forall>d\<in>set (bf_original al). spent al' d) \<and> gap_free al (bf_next_frame al'))"

lemma from_descriptor_block:
  assumes "d \<in> set (bf_original al)" and "md_ty d = CONVENTIONAL"
    and "phys_start d \<le> a" and "a + 4096 \<le> md_limit d"
  shows "block a 4096 \<subseteq> usable_bytes al"
proof
  fix x assume "x \<in> block a 4096"
  with assms(3,4) have "x \<in> md_bytes d" by (simp add: md_bytes_def)
  with assms(1,2) show "x \<in> usable_bytes al" by (auto simp: usable_bytes_def)
qed

lemma spent_mono: "spent al d \<Longrightarrow> bf_next_frame al \<le> bf_next_frame al' \<Longrightarrow> spent al' d"
  by (auto simp: spent_def)

text \<open>A descriptor that gives no frame is spent afterwards; one that gives a frame becomes the
  current one.\<close>

lemma from_descriptor_None:
  assumes "x86_laws X" and "4096 dvd phys_start d" and "4096 dvd bf_next_frame al"
    and "allocate_frame_from_descriptor X al d = Inr (None, al')"
  shows "al' = al\<lparr>bf_next_frame := max (bf_next_frame al) (phys_start d)\<rparr> \<and> spent al' d"
proof -
  let ?nf = "max (bf_next_frame al) (phys_start d)"
  have dv: "4096 dvd ?nf" "4096 dvd md_limit d" using assms(2,3) by (auto simp: max_def md_limit_def)
  from from_descriptor_eq [OF assms(1,2,4)] have "md_limit d < ?nf + 4096"
    and al': "al' = al\<lparr>bf_next_frame := ?nf\<rparr>" by (auto split: if_splits)
  with page_dvd_step [OF dv(2,1)] show ?thesis by (simp add: spent_def)
qed

lemma from_descriptor_Some:
  assumes "x86_laws X" and "4096 dvd phys_start d"
    and "allocate_frame_from_descriptor X al d = Inr (Some a, al')"
  shows "a = max (bf_next_frame al) (phys_start d)" and "a + 4096 \<le> md_limit d"
    and "al' = al\<lparr>bf_next_frame := a + 4096\<rparr>"
  using from_descriptor_eq [OF assms]
  by (cases "max (bf_next_frame al) (phys_start d) + 4096 \<le> md_limit d"; simp)+

subsection \<open>The loop over the descriptors\<close>

lemma bf_core_next:
  assumes "bf_core al (d # ds)" and "bf_current_descriptor al = None"
    and "bf_next_frame al \<le> nf" and "4096 dvd nf"
    and "spent (al\<lparr>bf_next_frame := nf\<rparr>) d \<or> c = Some d"
  shows "bf_core (al\<lparr>bf_next_frame := nf, bf_memory_map := m, bf_current_descriptor := c\<rparr>) ds"
proof -
  let ?al = "al\<lparr>bf_next_frame := nf, bf_memory_map := m, bf_current_descriptor := c\<rparr>"
  from assms(1) obtain before where b: "bf_original al = before @ d # ds"
    "\<forall>e\<in>set before. spent al e" "bf_start_phys_addr al \<le> bf_next_frame al"
    "\<forall>e\<in>set (bf_original al). 4096 dvd phys_start e"
    using assms(2) by (auto simp: bf_core_def)
  have "\<forall>e\<in>set (before @ [d]). spent ?al e \<or> bf_current_descriptor ?al = Some e"
    using b(2) assms(3,5) spent_mono [of al _ ?al] by (auto simp: spent_def)
  moreover have "bf_original ?al = (before @ [d]) @ ds" using b(1) by simp
  ultimately show ?thesis using b(3,4) assms(3,4) unfolding bf_core_def by fastforce
qed

lemma bf_core_stay:
  assumes "bf_core al (d # ds)" and "bf_current_descriptor al = None"
    and "bf_next_frame al \<le> nf" and "4096 dvd nf" and "spent (al\<lparr>bf_next_frame := nf\<rparr>) d"
  shows "bf_core (al\<lparr>bf_next_frame := nf\<rparr>) ds"
proof -
  have "bf_core (al\<lparr>bf_next_frame := nf, bf_memory_map := bf_memory_map al,
      bf_current_descriptor := None\<rparr>) ds"
    by (rule bf_core_next) (use assms in auto)
  then show ?thesis using assms(2) by (simp add: bf_core_def spent_def)
qed

lemma bf_core_head:
  assumes "bf_core al (d # ds)"
  shows "d \<in> set (bf_original al)" "4096 dvd phys_start d" "4096 dvd bf_next_frame al"
  using assms by (auto simp: bf_core_def)

lemma gap_free_head:
  assumes "bf_core al (d # ds)" and "bf_current_descriptor al = None"
  shows "gap_free al (max (bf_next_frame al) (phys_start d))"
proof -
  from assms obtain before where b: "bf_original al = before @ d # ds" "\<forall>e\<in>set before. spent al e"
    by (auto simp: bf_core_def)
  show ?thesis unfolding gap_free_def
  proof (intro impI equals0I)
    fix x assume srt: "sorted (map phys_start (bf_original al))"
      and "x \<in> usable_bytes al \<inter> {bf_next_frame al ..< max (bf_next_frame al) (phys_start d)}"
    then obtain e where e: "e \<in> set (bf_original al)" "md_ty e = CONVENTIONAL" "phys_start e \<le> x"
      "x < md_limit e" "bf_next_frame al \<le> x" "x < phys_start d"
      by (auto simp: usable_bytes_def md_bytes_def)
    then have "e \<in> set before" using srt b(1) by (auto simp: sorted_append)
    with b(2) e show False by (auto simp: spent_def)
  qed
qed

lemma gap_free_trans:
  assumes "gap_free al nf" and "gap_free (al\<lparr>bf_next_frame := nf\<rparr>) a"
  shows "gap_free al a"
  using assms by (fastforce simp: gap_free_def usable_bytes_def)

lemma bf_post_trans:
  assumes "bf_post al1 r al'" and "al1 = al\<lparr>bf_next_frame := nf\<rparr>" and "bf_next_frame al \<le> nf"
    and "gap_free al nf"
  shows "bf_post al r al'"
  using assms gap_free_trans [OF assms(4)]
  by (auto simp: bf_post_def usable_bytes_def split: option.splits)

lemma descriptor_loop_post:
  assumes "x86_laws X" and "bf_core al ds" and "bf_current_descriptor al = None"
    and "descriptor_loop X tag al ds = Inr (r, al')"
  shows "bf_post al r al'"
  using assms(2-4)
proof (induction ds arbitrary: al)
  case Nil
  then show ?case by (auto simp: bf_post_def bf_wf_def bf_core_def spent_def gap_free_def)
next
  case (Cons d ds)
  note hd = bf_core_head [OF Cons.prems(1)]
  show ?case
  proof (cases "md_ty d = CONVENTIONAL")
    case False
    then have "bf_core al ds"
      using bf_core_stay [OF Cons.prems(1,2) order_refl hd(3)] by (simp add: spent_def)
    with False Cons show ?thesis by simp
  next
    case True
    with Cons.prems(3) obtain q al1 where step: "allocate_frame_from_descriptor X al d = Inr (q, al1)"
      and rest: "(case q of
            Some frame \<Rightarrow> Inr (Some frame, al1\<lparr>bf_memory_map := ds, bf_current_descriptor := Some d\<rparr>)
          | None \<Rightarrow> descriptor_loop X tag al1 ds) = Inr (r, al')"
      by (auto simp: run_simps)
    show ?thesis
    proof (cases q)
      case None
      note nxt = from_descriptor_None [OF assms(1) hd(2,3) step [unfolded None]]
      let ?nf = "max (bf_next_frame al) (phys_start d)"
      have al1: "al1 = al\<lparr>bf_next_frame := ?nf\<rparr>" and sp: "spent (al\<lparr>bf_next_frame := ?nf\<rparr>) d"
        using nxt by auto
      have "4096 dvd ?nf" using hd by (simp add: max_def)
      from bf_core_stay [OF Cons.prems(1,2) _ this sp] have "bf_core al1 ds" by (simp add: al1)
      from Cons.IH [OF this] rest None al1 Cons.prems(2) have "bf_post al1 r al'" by simp
      then show ?thesis
        by (rule bf_post_trans [OF _ al1]) (use gap_free_head [OF Cons.prems(1,2)] in simp_all)
    next
      case (Some a)
      note a = from_descriptor_Some [OF assms(1) hd(2) step [unfolded Some]]
      have dv: "4096 dvd a" using hd a(1) by (simp add: max_def)
      have r: "r = Some a" and al': "al' = al\<lparr>bf_next_frame := a + 4096, bf_memory_map := ds,
          bf_current_descriptor := Some d\<rparr>" using rest Some a(3) by auto
      have "bf_core al' ds" unfolding al'
        by (rule bf_core_next [OF Cons.prems(1,2)]) (use dv a(1) in auto)
      then have "bf_wf al'" using al' hd True a(1) by (simp add: bf_wf_def)
      moreover have "block a 4096 \<subseteq> usable_bytes al"
        by (rule from_descriptor_block [OF hd(1) True]) (use a in auto)
      ultimately show ?thesis using r al' dv a(1) gap_free_head [OF Cons.prems(1,2)]
        by (simp add: bf_post_def)
    qed
  qed
qed

lemma boot_allocate_frame_post:
  assumes "x86_laws X" and "bf_wf al" and "boot_allocate_frame X tag al = Inr (r, al')"
  shows "bf_post al r al'"
proof (cases "bf_current_descriptor al")
  case None
  with assms show ?thesis
    by (intro descriptor_loop_post [OF assms(1)]) (auto simp: bf_wf_def boot_allocate_frame_def)
next
  case (Some d)
  have d: "d \<in> set (bf_original al)" "md_ty d = CONVENTIONAL" "4096 dvd phys_start d"
    "4096 dvd bf_next_frame al" "phys_start d \<le> bf_next_frame al" and core: "bf_core al (bf_memory_map al)"
    using assms(2) Some by (auto simp: bf_wf_def bf_core_def)
  from assms(3) Some obtain q al1 where step: "allocate_frame_from_descriptor X al d = Inr (q, al1)"
    and rest: "(case q of Some frame \<Rightarrow> Inr (Some frame, al1) | None \<Rightarrow>
        descriptor_loop X tag (al1\<lparr>bf_current_descriptor := None\<rparr>) (bf_memory_map al1)) = Inr (r, al')"
    by (auto simp: boot_allocate_frame_def run_simps)
  show ?thesis
  proof (cases q)
    case None
    note nxt = from_descriptor_None [OF assms(1) d(3,4) step [unfolded None]]
    let ?al = "al1\<lparr>bf_current_descriptor := None\<rparr>"
    have "4096 dvd max (bf_next_frame al) (phys_start d)" using d by (simp add: max_def)
    then have "bf_core ?al (bf_memory_map al1)"
      using core nxt Some unfolding bf_core_def by (fastforce simp: spent_def)
    from descriptor_loop_post [OF assms(1) this] rest None have "bf_post ?al r al'" by simp
    then show ?thesis using nxt d(5)
      by (auto simp: bf_post_def usable_bytes_def gap_free_def split: option.splits)
  next
    case q: (Some a)
    note a = from_descriptor_Some [OF assms(1) d(3) step [unfolded q]]
    have dv: "4096 dvd a" using d a(1) by (simp add: max_def)
    have r: "r = Some a" and al': "al' = al\<lparr>bf_next_frame := a + 4096\<rparr>" using rest q a(3) by auto
    have "bf_core al' (bf_memory_map al')"
      using core dv a(1) unfolding bf_core_def al' by (fastforce simp: spent_def)
    then have "bf_wf al'" using assms(2) al' d(5) Some a(1) by (simp add: bf_wf_def)
    moreover have "block a 4096 \<subseteq> usable_bytes al"
      by (rule from_descriptor_block [OF d(1,2)]) (use a in auto)
    ultimately show ?thesis using r al' dv a(1) d(5) by (simp add: bf_post_def gap_free_def max_def)
  qed
qed

subsection \<open>The contract\<close>

sublocale x86_laws \<subseteq> bfa: bump_allocator bf_wf bf_next_frame "\<lambda>al. - usable_bytes al"
    "\<lambda>_ :: unit. 1" "\<lambda>al _. boot_allocate_frame X tag al" for tag
proof
  fix al q r al' and a :: nat
  assume wf: "bf_wf al"
  assume step: "boot_allocate_frame X tag al = Inr (r, al')"
  from boot_allocate_frame_post [OF x86_laws_axioms wf step]
  show "bf_wf al'" "bf_next_frame al \<le> bf_next_frame al'" "- usable_bytes al' = - usable_bytes al"
    by (auto simp: bf_post_def usable_bytes_def)
next
  fix al q al' and a :: nat
  assume wf: "bf_wf al"
  assume step: "boot_allocate_frame X tag al = Inr (Some a, al')"
  from boot_allocate_frame_post [OF x86_laws_axioms wf step]
  show "bf_next_frame al \<le> a \<and> a + 1 * 4096 \<le> bf_next_frame al'"
    "frames_block a 1 \<inter> - usable_bytes al = {}" "4096 dvd a"
    by (auto simp: bf_post_def frames_block_def)
qed

context x86_laws
begin

lemmas boot_seq_above = bfa.alloc_seq_above
lemmas boot_seq_ascending = bfa.alloc_seq_ascending

end

abbreviation boot_alloc_seq ::
  "x86 \<Rightarrow> (memory_type \<Rightarrow> nat) \<Rightarrow> boot_frame_allocator \<Rightarrow> unit list
     \<Rightarrow> ((nat \<times> unit) list \<times> boot_frame_allocator) run" where
  "boot_alloc_seq X tag al us \<equiv> alloc_seq (\<lambda>al _. boot_allocate_frame X tag al) al us"

lemma new_starting_at_wf:
  assumes "\<forall>d\<in>set mm. 4096 dvd phys_start d" and "4096 dvd frame"
  shows "bf_wf (new_starting_at frame mm)"
  using assms by (simp add: bf_wf_def bf_core_def new_starting_at_def)

lemma boot_frames_new_eq:
  assumes "x86_laws X"
  shows "boot_frames_new X mm = Inr (new_starting_at 0x100000 mm)"
  by (simp add: boot_frames_new_def x86_laws.PhysAddr_new_ok [OF assms]
      x86_laws.frame_containing_aligned [OF assms])

lemma boot_seq_start:
  assumes "x86_laws X" and "bf_wf al" and "boot_alloc_seq X tag al us = Inr (bs, al')"
  shows "bf_start_phys_addr al' = bf_start_phys_addr al \<and> bf_original al' = bf_original al \<and> bf_wf al'"
  using assms(2,3)
proof (induction us arbitrary: al bs)
  case (Cons u us)
  from Cons.prems(2) obtain r al1 bs1 where step: "boot_allocate_frame X tag al = Inr (r, al1)"
    and rest: "boot_alloc_seq X tag al1 us = Inr (bs1, al')" by (auto simp: run_simps)
  from boot_allocate_frame_post [OF assms(1) Cons.prems(1) step]
  have "bf_wf al1" "bf_start_phys_addr al1 = bf_start_phys_addr al" "bf_original al1 = bf_original al"
    by (auto simp: bf_post_def)
  with Cons.IH [OF _ rest] show ?case by simp
qed simp

text \<open>On a sorted map the frames handed out are exactly the usable bytes the cursor passed.\<close>

lemma boot_seq_exact:
  assumes "x86_laws X" and "bf_wf al" and "sorted (map phys_start (bf_original al))"
    and "boot_alloc_seq X tag al us = Inr (bs, al')"
  shows "(\<Union>(a, u)\<in>set bs. block a 4096) = usable_bytes al \<inter> {bf_next_frame al ..< bf_next_frame al'}"
  using assms(2-4)
proof (induction us arbitrary: al bs)
  case (Cons u us)
  from Cons.prems(3) obtain r al1 bs1 where step: "boot_allocate_frame X tag al = Inr (r, al1)"
    and rest: "boot_alloc_seq X tag al1 us = Inr (bs1, al')"
    and bs: "bs = (case r of None \<Rightarrow> bs1 | Some a \<Rightarrow> (a, ()) # bs1)" by (auto simp: run_simps)
  have post: "bf_post al r al1" by (rule boot_allocate_frame_post [OF assms(1) Cons.prems(1) step])
  then have wf1: "bf_wf al1" and same: "bf_original al1 = bf_original al" by (auto simp: bf_post_def)
  have IH: "(\<Union>(a, u)\<in>set bs1. block a 4096)
      = usable_bytes al1 \<inter> {bf_next_frame al1 ..< bf_next_frame al'}"
    by (rule Cons.IH [OF wf1 _ rest]) (simp add: same Cons.prems(2))
  have le: "bf_next_frame al1 \<le> bf_next_frame al'"
    using x86_laws.boot_seq_above [OF assms(1) wf1 rest] by simp
  have u: "usable_bytes al1 = usable_bytes al" using same by (simp add: usable_bytes_def)
  show ?case
  proof (cases r)
    case None
    have gap: "usable_bytes al \<inter> {bf_next_frame al ..< bf_next_frame al1} = {}"
      "bf_next_frame al \<le> bf_next_frame al1"
      using post Cons.prems(2) by (auto simp: gap_free_def bf_post_def None)
    have "{bf_next_frame al ..< bf_next_frame al'}
        = {bf_next_frame al ..< bf_next_frame al1} \<union> {bf_next_frame al1 ..< bf_next_frame al'}"
      using le gap(2) by auto
    with IH bs None u gap(1) show ?thesis by (simp add: Int_Un_distrib)
  next
    case (Some a)
    have gap: "usable_bytes al \<inter> {bf_next_frame al ..< a} = {}" "bf_next_frame al \<le> a"
      "bf_next_frame al1 = a + 4096" "block a 4096 \<subseteq> usable_bytes al"
      using post Cons.prems(2) by (auto simp: gap_free_def bf_post_def Some)
    have "{bf_next_frame al ..< bf_next_frame al'}
        = {bf_next_frame al ..< a} \<union> block a 4096 \<union> {bf_next_frame al1 ..< bf_next_frame al'}"
      using le gap(2,3) by (auto simp: block_def)
    moreover have "usable_bytes al \<inter> block a 4096 = block a 4096" using gap(4) by blast
    ultimately show ?thesis using IH bs Some u gap(1) by (simp add: Int_Un_distrib)
  qed
qed simp

subsection \<open>Properties of the bootloader's allocator\<close>

definition sample_map :: "memory_descriptor list" where
  "sample_map =
     [\<lparr>md_ty = CONVENTIONAL, phys_start = 0, page_count = 0xA0\<rparr>,
      \<lparr>md_ty = CONVENTIONAL, phys_start = 0x100000, page_count = 1\<rparr>,
      \<lparr>md_ty = RUNTIME_SERVICES_DATA, phys_start = 0x101000, page_count = 2\<rparr>,
      \<lparr>md_ty = CONVENTIONAL, phys_start = 0x103000, page_count = 1\<rparr>]"

lemmas boot_eval = boot_allocate_frame_def allocate_frame_from_descriptor_def new_starting_at_def
  md_start_def md_len_def md_kind_def x86_model_def sample_map_def Let_def

text \<open>C29. Every sequence of frame requests of the bootloader, on a memory map whose descriptors
  start on page boundaries: each frame is page aligned, lies at or above 1 MiB inside a
  usable (conventional) descriptor and inside \<open>allocated_region\<close>; frames ascend, so none is
  handed out twice.\<close>

theorem boot_frames_safe:
  assumes "x86_laws X" and "\<forall>d\<in>set mm. 4096 dvd phys_start d"
    and "boot_frames_new X mm = Inr al" and "boot_alloc_seq X tag al us = Inr (bs, al')"
  shows "sorted_wrt (\<lambda>(a, _) (b, _). a + 4096 \<le> b) bs
     \<and> (\<exists>r. allocated_region al' = Inr r \<and> mr_start r = 0x100000
          \<and> (\<forall>(a, _)\<in>set bs. 4096 dvd a \<and> block a 4096 \<subseteq> usable_bytes al \<and> block a 4096 \<subseteq> mr_set r))"
proof -
  have al: "al = new_starting_at 0x100000 mm" using assms(3) boot_frames_new_eq [OF assms(1)] by simp
  have wf: "bf_wf al" unfolding al by (rule new_starting_at_wf [OF assms(2)]) simp
  have start: "bf_start_phys_addr al' = 0x100000" "bf_next_frame al = 0x100000"
    using boot_seq_start [OF assms(1) wf assms(4)] al by (simp_all add: new_starting_at_def)
  note above = x86_laws.boot_seq_above [OF assms(1) wf assms(4)]
  let ?r = "\<lparr>mr_start = 0x100000, mr_length = bf_next_frame al' - 0x100000, mr_kind = Bootloader\<rparr>"
  have "allocated_region al' = Inr ?r" using above start by (simp add: allocated_region_def)
  moreover have "4096 dvd a \<and> block a 4096 \<subseteq> usable_bytes al \<and> block a 4096 \<subseteq> mr_set ?r"
    if "(a, u) \<in> set bs" for a u
    using above that start by (auto simp: frames_block_def mr_set_def)
  ultimately show ?thesis
    using x86_laws.boot_seq_ascending [OF assms(1) wf assms(4)] by auto
qed

theorem boot_frames_safe_witness:
  "\<exists>al'. boot_alloc_seq x86_model (\<lambda>_. 0) (new_starting_at 0x100000 sample_map) [(), ()]
       = Inr ([(0x100000, ()), (0x103000, ())], al')
     \<and> block 0x103000 4096 \<subseteq> usable_bytes (new_starting_at 0x100000 sample_map)"
proof -
  obtain al' where "boot_alloc_seq x86_model (\<lambda>_. 0) (new_starting_at 0x100000 sample_map) [(), ()]
       = Inr ([(0x100000, ()), (0x103000, ())], al')"
    by (simp add: boot_eval)
  moreover from boot_frames_safe [OF x86m.x86_laws_axioms _ boot_frames_new_eq [OF x86m.x86_laws_axioms] this]
  have "block 0x103000 4096 \<subseteq> usable_bytes (new_starting_at 0x100000 sample_map)"
    by (auto simp: sample_map_def)
  ultimately show ?thesis by blast
qed

text \<open>C30. On a map sorted by start address (the bootloader sorts it) the allocator wastes nothing:
  when it reports that no frame is left, the frames handed out are exactly the usable bytes
  at or above 1 MiB.\<close>

theorem boot_frames_complete:
  assumes "x86_laws X" and "\<forall>d\<in>set mm. 4096 dvd phys_start d" and "sorted (map phys_start mm)"
    and "boot_frames_new X mm = Inr al" and "boot_alloc_seq X tag al us = Inr (bs, al')"
    and "boot_allocate_frame X tag al' = Inr (None, al'')"
  shows "(\<Union>(a, u)\<in>set bs. block a 4096) = usable_bytes al \<inter> {0x100000 ..}"
proof -
  have al: "al = new_starting_at 0x100000 mm" using assms(4) boot_frames_new_eq [OF assms(1)] by simp
  have wf: "bf_wf al" unfolding al by (rule new_starting_at_wf [OF assms(2)]) simp
  have srt: "sorted (map phys_start (bf_original al))" using assms(3) al by (simp add: new_starting_at_def)
  note same = boot_seq_start [OF assms(1) wf assms(5)]
  note post = boot_allocate_frame_post [OF assms(1) conjunct2 [OF conjunct2 [OF same]] assms(6)]
  have "x < bf_next_frame al'" if "x \<in> usable_bytes al" for x
  proof (rule ccontr)
    assume "\<not> x < bf_next_frame al'"
    from that obtain d where "d \<in> set (bf_original al)" "md_ty d = CONVENTIONAL" "x < md_limit d"
      by (auto simp: usable_bytes_def md_bytes_def)
    with post same have "x < bf_next_frame al''" by (force simp: bf_post_def spent_def)
    with \<open>\<not> x < bf_next_frame al'\<close> that post same srt show False
      by (auto simp: bf_post_def gap_free_def usable_bytes_def)
  qed
  then show ?thesis
    using boot_seq_exact [OF assms(1) wf srt assms(5)] al by (auto simp: new_starting_at_def)
qed

theorem boot_frames_complete_witness:
  "block 0x100000 4096 \<union> block 0x103000 4096
     = usable_bytes (new_starting_at 0x100000 sample_map) \<inter> {0x100000 ..}"
proof -
  obtain al' al'' where
    "boot_alloc_seq x86_model (\<lambda>_. 0) (new_starting_at 0x100000 sample_map) [(), ()]
       = Inr ([(0x100000, ()), (0x103000, ())], al')"
    "boot_allocate_frame x86_model (\<lambda>_. 0) al' = Inr (None, al'')"
    by (simp add: boot_eval)
  from boot_frames_complete [OF x86m.x86_laws_axioms _ _ boot_frames_new_eq [OF x86m.x86_laws_axioms] this]
  show ?thesis by (simp add: sample_map_def)
qed

lemma md_end_eq: "x86_laws X \<Longrightarrow> md_end X d = Inr e \<Longrightarrow> e = md_limit d"
  by (auto simp: run_simps md_end_def md_start_def md_len_def md_limit_def
      x86_laws.PhysAddr_new_eq_Inr x86_laws.PhysAddr_add_eq_Inr)

lemma max_end_correct:
  assumes "x86_laws X" and "max_end X ds = Inr m"
  shows "m = (if ds = [] then None else Some (Max (md_limit ` set ds)))"
  using assms(2)
proof (induction ds arbitrary: m)
  case (Cons d ds)
  from Cons.prems obtain m' where m': "max_end X ds = Inr m'"
    and m: "m = Some (case m' of None \<Rightarrow> md_limit d | Some k \<Rightarrow> max (md_limit d) k)"
    by (auto simp: run_simps dest: md_end_eq [OF assms(1)])
  from Cons.IH [OF m'] m show ?case by (cases "ds = []") auto
qed simp

end
