(* ===== verification/Tracked_Mapper.thy ===== *)
theory Tracked_Mapper
  imports X86_Crate
begin

section \<open>The page table wrapper that tracks its free slots (bootloader-efi/src/mem/tracked\_mapper.rs)\<close>

text \<open>
  \<open>TrackedMapper\<close> keeps a flag per page-table slot and two cached indices, of the first and of
  the last free slot.  The theory models marking, unmarking and the search for free slots;
  it shows that the cached indices are the least and the greatest free slot as long as no slot
  of a full table is released, that a request for one slot is answered by exactly that slot,
  that a request for several slots only ever takes free consecutive slots, and where the
  search falls short.
\<close>

subsection \<open>Data\<close>

definition PTE_COUNT_PER_PT :: nat where
  "PTE_COUNT_PER_PT = 512"

datatype page_table_level = LevelOne | LevelTwo | LevelThree | LevelFour

record 'm tracked_mapper =
  tm_inner :: 'm
  tm_level :: page_table_level
  used :: "bool list"
  first_available_index :: nat
  last_available_index :: nat

definition tracked_new :: "'m \<Rightarrow> page_table_level \<Rightarrow> 'm tracked_mapper" where
  "tracked_new table level =
     \<lparr>tm_inner = table, tm_level = level, used = replicate PTE_COUNT_PER_PT False,
      first_available_index = 0, last_available_index = PTE_COUNT_PER_PT - 1\<rparr>"

subsection \<open>Marking\<close>

text \<open>The two scans over the flags.\<close>

function scan_up :: "bool list \<Rightarrow> nat \<Rightarrow> nat run" where
  "scan_up us cur =
     (if cur < 512 then and_then (index us cur) (\<lambda>u. if u then scan_up us (Suc cur) else Inr cur)
      else Inr cur)"
  by pat_completeness auto
termination
  by (relation "measure (\<lambda>(us, cur). 512 - cur)") auto

declare scan_up.simps [simp del]

fun scan_down :: "bool list \<Rightarrow> nat \<Rightarrow> nat run" where
  "scan_down us 0 = Inr 0"
| "scan_down us (Suc cur) =
     and_then (index us (Suc cur)) (\<lambda>u. if u then scan_down us cur else Inr (Suc cur))"

text \<open>Which cached index is moved when slot \<open>i\<close> has just been marked.\<close>

definition update_indices :: "nat \<Rightarrow> 'm tracked_mapper \<Rightarrow> 'm tracked_mapper run" where
  "update_indices i tm1 =
     (if first_available_index tm1 = i then
        and_then (scan_up (used tm1) (first_available_index tm1)) (\<lambda>c.
          Inr (tm1\<lparr>first_available_index := c\<rparr>))
      else if last_available_index tm1 = i then
        and_then (scan_down (used tm1) (last_available_index tm1)) (\<lambda>c.
          Inr (tm1\<lparr>last_available_index := c\<rparr>))
      else Inr tm1)"

definition mark_as_used ::
  "x86 \<Rightarrow> 'm tracked_mapper \<Rightarrow> nat \<Rightarrow> (nat option \<times> 'm tracked_mapper) run" where
  "mark_as_used X tm i =
     (if i > 512 then Inr (None, tm)
      else
        and_then (index (used tm) i) (\<lambda>u.
          if u then Inr (None, tm)
          else
            let tm1 = tm\<lparr>used := (used tm)[i := True]\<rparr> in
            and_then (update_indices i tm1) (\<lambda>tm2.
            and_then (PageTableIndex_new X (i mod 65536)) (\<lambda>pti.
              Inr (Some pti, tm2)))))"

definition mark_as_unused :: "'m tracked_mapper \<Rightarrow> nat \<Rightarrow> 'm tracked_mapper run" where
  "mark_as_unused tm i =
     (if i > 512 then Inr tm
      else
        and_then (store (used tm) i False) (\<lambda>us.
          let tm1 = tm\<lparr>used := us\<rparr> in
          Inr (if first_available_index tm1 > i then tm1\<lparr>first_available_index := i\<rparr>
               else if last_available_index tm1 < i then tm1\<lparr>last_available_index := i\<rparr>
               else tm1)))"

text \<open>The loop of \<open>mark_range_as_used\<close>: it marks every index and remembers whether one worked.\<close>

fun mark_range_loop ::
  "x86 \<Rightarrow> 'm tracked_mapper \<Rightarrow> nat list \<Rightarrow> bool \<Rightarrow> (bool \<times> 'm tracked_mapper) run" where
  "mark_range_loop X tm [] ok = Inr (ok, tm)"
| "mark_range_loop X tm (i # is) ok =
     and_then (mark_as_used X tm i) (\<lambda>(r, tm').
       mark_range_loop X tm' is (if r \<noteq> None then True else ok))"

definition level_index :: "x86 \<Rightarrow> page_table_level \<Rightarrow> nat \<Rightarrow> nat" where
  "level_index X level page =
     (case level of
        LevelFour \<Rightarrow> p4_index X page
      | LevelThree \<Rightarrow> p3_index X page
      | LevelTwo \<Rightarrow> p2_index X page
      | LevelOne \<Rightarrow> p1_index X page)"

definition mark_range_as_used ::
  "x86 \<Rightarrow> 'm tracked_mapper \<Rightarrow> nat \<Rightarrow> nat \<Rightarrow> ((nat \<times> nat) option \<times> 'm tracked_mapper) run" where
  "mark_range_as_used X tm range_start range_end =
     and_then (VirtAddr_sub X range_end 1) (\<lambda>last_addr.
       let lo = level_index X (tm_level tm) (page_containing X range_start);
           hi = level_index X (tm_level tm) (page_containing X last_addr)
       in and_then (mark_range_loop X tm [lo ..< Suc hi] False) (\<lambda>(partial_mark_success, tm').
            if partial_mark_success then
              and_then (PageTableIndex_new X lo) (\<lambda>i. Inr (Some (i, Suc hi - lo), tm'))
            else Inr (None, tm')))"

subsection \<open>Searching\<close>

definition total_available_mem_size :: "'m tracked_mapper \<Rightarrow> nat" where
  "total_available_mem_size tm =
     (case tm_level tm of
        LevelOne \<Rightarrow> 4096
      | LevelTwo \<Rightarrow> 4096 * PTE_COUNT_PER_PT
      | LevelThree \<Rightarrow> 4096 * PTE_COUNT_PER_PT * PTE_COUNT_PER_PT
      | LevelFour \<Rightarrow> 4096 * PTE_COUNT_PER_PT * PTE_COUNT_PER_PT * PTE_COUNT_PER_PT)"

fun mark_each :: "x86 \<Rightarrow> 'm tracked_mapper \<Rightarrow> nat list \<Rightarrow> 'm tracked_mapper run" where
  "mark_each X tm [] = Inr tm"
| "mark_each X tm (i # is) = and_then (mark_as_used X tm i) (\<lambda>(_, tm'). mark_each X tm' is)"

text \<open>The slice \<open>&self.used[lo..lo + n]\<close>.\<close>

definition used_slice :: "'m tracked_mapper \<Rightarrow> nat \<Rightarrow> nat \<Rightarrow> bool list run" where
  "used_slice tm lo n =
     (if lo + n \<le> length (used tm) then Inr (take n (drop lo (used tm))) else Inl OutOfBounds)"

function find_loop ::
  "x86 \<Rightarrow> 'm tracked_mapper \<Rightarrow> nat \<Rightarrow> bool \<Rightarrow> nat \<Rightarrow> ((nat \<times> nat) option \<times> 'm tracked_mapper) run" where
  "find_loop X tm req reverse cur =
     and_then (sub64 PTE_COUNT_PER_PT req) (\<lambda>x.
     and_then (sub64 x 1) (\<lambda>hi.
       if req \<le> cur \<and> cur < hi then
         and_then (index (used tm) cur) (\<lambda>u.
         and_then
           (if u then Inr None
            else
              and_then (if reverse then sub64 cur req else Inr cur) (\<lambda>lo.
              and_then (used_slice tm lo req) (\<lambda>sl.
                Inr (if list_all Not sl then Some lo else None)))) (\<lambda>hit.
           case hit of
             Some lo \<Rightarrow>
               and_then (mark_each X tm (if reverse then rev [lo ..< lo + req] else [lo ..< lo + req])) (\<lambda>tm'.
               and_then (PageTableIndex_new X (lo mod 65536)) (\<lambda>i.
                 Inr (Some (i, req), tm')))
           | None \<Rightarrow>
               and_then (if reverse then sub64 cur 1 else add64 cur 1) (\<lambda>next.
                 find_loop X tm req reverse next)))
       else Inr (None, tm)))"
  by pat_completeness auto
termination
  by (relation "measure (\<lambda>(X, tm, req, reverse, cur). if reverse then cur else 512 - cur)")
     (auto simp: run_simps PTE_COUNT_PER_PT_def split: if_splits)

declare find_loop.simps [simp del]

definition find_free_space_and_mark ::
  "x86 \<Rightarrow> 'm tracked_mapper \<Rightarrow> nat \<Rightarrow> bool \<Rightarrow> ((nat \<times> nat) option \<times> 'm tracked_mapper) run" where
  "find_free_space_and_mark X tm sz reverse =
     (let each_pte_max_size = total_available_mem_size tm in
      and_then (add64 sz (each_pte_max_size - 1)) (\<lambda>s.
        let required_pte_size = s div each_pte_max_size in
        if int (last_available_index tm mod 65536) - int (first_available_index tm mod 65536) + 1
             < int (required_pte_size mod 65536)
        then Inr (None, tm)
        else
          let curr_idx = (if reverse then last_available_index tm else first_available_index tm) in
          if required_pte_size = 1 then
            and_then (mark_as_used X tm curr_idx) (\<lambda>(r, tm').
              Inr (map_option (\<lambda>pte. (pte, 1)) r, tm'))
          else find_loop X tm required_pte_size reverse curr_idx))"

subsection \<open>The scans\<close>

lemma scan_up_correct:
  assumes "length us = 512" and "cur \<le> 512"
  shows "\<exists>c. scan_up us cur = Inr c \<and> cur \<le> c \<and> c \<le> 512 \<and> (\<forall>i. cur \<le> i \<and> i < c \<longrightarrow> us ! i)
           \<and> (c < 512 \<longrightarrow> \<not> us ! c)"
  using assms
proof (induction us cur rule: scan_up.induct)
  case (1 us cur)
  show ?case
  proof (cases "cur < 512 \<and> us ! cur")
    case True
    with "1.IH" [of "us ! cur"] "1.prems" obtain c where
      c: "scan_up us (Suc cur) = Inr c" "Suc cur \<le> c" "c \<le> 512" "c < 512 \<longrightarrow> \<not> us ! c"
      and all: "\<forall>i. Suc cur \<le> i \<and> i < c \<longrightarrow> us ! i" by auto
    have "\<forall>i. cur \<le> i \<and> i < c \<longrightarrow> us ! i" using True all by (metis Suc_leI le_neq_implies_less)
    with c True "1.prems" show ?thesis by (subst scan_up.simps) simp
  next
    case False
    with "1.prems" show ?thesis by (subst scan_up.simps) auto
  qed
qed

lemma scan_down_correct:
  assumes "cur < length us"
  shows "\<exists>c\<le>cur. scan_down us cur = Inr c \<and> (\<forall>i. c < i \<and> i \<le> cur \<longrightarrow> us ! i)
           \<and> (0 < c \<longrightarrow> \<not> us ! c)"
  using assms
proof (induction cur)
  case (Suc cur)
  show ?case
  proof (cases "us ! Suc cur")
    case True
    with Suc obtain c where "c \<le> cur" "scan_down us cur = Inr c" "\<forall>i. c < i \<and> i \<le> cur \<longrightarrow> us ! i"
      "0 < c \<longrightarrow> \<not> us ! c" by auto
    with True Suc.prems show ?thesis by (intro exI [of _ c]) (auto simp: le_Suc_eq)
  qed (use Suc.prems in auto)
qed simp

subsection \<open>The invariant\<close>

definition free_slots :: "'m tracked_mapper \<Rightarrow> nat set" where
  "free_slots tm = {i. i < 512 \<and> \<not> used tm ! i}"

lemma finite_free_slots [simp]: "finite (free_slots tm)"
  by (simp add: free_slots_def)

text \<open>The cached indices: \<open>first\<close> is the least free slot, or 512; \<open>last\<close> is the greatest free slot
  if there is one.\<close>

definition tm_wf :: "'m tracked_mapper \<Rightarrow> bool" where
  "tm_wf tm \<longleftrightarrow>
     length (used tm) = 512 \<and> last_available_index tm < 512
     \<and> first_available_index tm = (if free_slots tm = {} then 512 else Min (free_slots tm))
     \<and> (free_slots tm \<noteq> {} \<longrightarrow> last_available_index tm = Max (free_slots tm))"

lemma free_slots_update:
  "i < 512 \<Longrightarrow> length (used tm) = 512 \<Longrightarrow>
   {j. j < 512 \<and> \<not> (used tm)[i := True] ! j} = free_slots tm - {i}"
  by (auto simp: free_slots_def nth_list_update)

lemma scan_up_Min:
  assumes "length us = 512" and "F = {i. i < 512 \<and> \<not> us ! i}" and "\<forall>i\<in>F. cur \<le> i" and "cur \<le> 512"
  shows "scan_up us cur = Inr (if F = {} then 512 else Min F)"
proof -
  from scan_up_correct [OF assms(1,4)] obtain c where c: "scan_up us cur = Inr c" "cur \<le> c" "c \<le> 512"
    "\<forall>i. cur \<le> i \<and> i < c \<longrightarrow> us ! i" "c < 512 \<longrightarrow> \<not> us ! c" by blast
  have le: "c \<le> i" if "i \<in> F" for i
  proof -
    from that assms(2) have "\<not> us ! i" by blast
    moreover from that assms(3) have "cur \<le> i" by blast
    ultimately show ?thesis using c(4) not_le by blast
  qed
  have fin: "finite F" using assms(2) by simp
  show ?thesis
  proof (cases "c < 512")
    case True
    with c(5) assms(2) have "c \<in> F" by simp
    with le fin have "Min F = c" by (intro Min_eqI)
    with \<open>c \<in> F\<close> c(1) show ?thesis by auto
  next
    case False
    with c(3) have "c = 512" by simp
    with le assms(2) have "F = {}" by fastforce
    with \<open>c = 512\<close> c(1) show ?thesis by simp
  qed
qed

lemma scan_down_Max:
  assumes "length us = 512" and "F = {i. i < 512 \<and> \<not> us ! i}" and "F \<noteq> {}" and "\<forall>i\<in>F. i \<le> cur"
    and "cur < 512"
  shows "scan_down us cur = Inr (Max F)"
proof -
  from scan_down_correct [of cur us] assms(1,5) obtain c where c: "scan_down us cur = Inr c" "c \<le> cur"
    "\<forall>i. c < i \<and> i \<le> cur \<longrightarrow> us ! i" "0 < c \<longrightarrow> \<not> us ! c" by auto
  have le: "i \<le> c" if "i \<in> F" for i
  proof -
    from that assms(2) have "\<not> us ! i" by blast
    moreover from that assms(4) have "i \<le> cur" by blast
    ultimately show ?thesis using c(3) not_le by blast
  qed
  have fin: "finite F" using assms(2) by simp
  have "c \<in> F"
  proof (cases "0 < c")
    case True
    with c(2,4) assms(2,5) show ?thesis by simp
  next
    case False
    obtain i where "i \<in> F" using assms(3) by blast
    with False le [OF this] show ?thesis by simp
  qed
  with le fin have "Max F = c" by (intro Max_eqI)
  with c(1) show ?thesis by simp
qed

lemma Min_remove: "finite F \<Longrightarrow> F \<noteq> {} \<Longrightarrow> i \<noteq> Min F \<Longrightarrow> Min (F - {i}) = Min F" for F :: "nat set"
  by (intro Min_eqI) auto

lemma Max_remove: "finite F \<Longrightarrow> F \<noteq> {} \<Longrightarrow> i \<noteq> Max F \<Longrightarrow> Max (F - {i}) = Max F" for F :: "nat set"
  by (intro Max_eqI) auto

lemma Min_Max_singleton: "finite F \<Longrightarrow> F \<noteq> {} \<Longrightarrow> Min F = Max F \<Longrightarrow> F = {Max F}" for F :: "nat set"
  by (metis Max.coboundedI Min_le Max_in antisym is_singletonI' is_singleton_the_elem singletonD)

text \<open>What marking a free slot does: it takes that slot and nothing else.\<close>

definition marked :: "nat set \<Rightarrow> 'm tracked_mapper \<Rightarrow> 'm tracked_mapper \<Rightarrow> bool" where
  "marked S tm tm' \<longleftrightarrow>
     tm_wf tm' \<and> free_slots tm' = free_slots tm - S \<and> tm_inner tm' = tm_inner tm
     \<and> tm_level tm' = tm_level tm"

lemma update_indices_marked:
  assumes "tm_wf tm" and "i \<in> free_slots tm"
  shows "\<exists>tm'. update_indices i (tm\<lparr>used := (used tm)[i := True]\<rparr>) = Inr tm' \<and> marked {i} tm tm'"
proof -
  let ?G = "free_slots tm" and ?tm = "tm\<lparr>used := (used tm)[i := True]\<rparr>"
  define F where "F = ?G - {i}"
  have ne: "?G \<noteq> {}" and i: "i < 512" using assms(2) by (auto simp: free_slots_def)
  have "Max ?G \<in> ?G" using ne by simp
  then have "Max ?G < 512" by (simp only: free_slots_def mem_Collect_eq)
  with assms(1) ne have wf: "length (used tm) = 512" "first_available_index tm = Min ?G"
    "last_available_index tm = Max ?G" "Max ?G < 512" by (simp_all add: tm_wf_def)
  have F: "F = {j. j < 512 \<and> \<not> (used tm)[i := True] ! j}" and len: "length ((used tm)[i := True]) = 512"
    using free_slots_update [OF i wf(1)] wf(1) by (auto simp: F_def)
  have mk: "marked {i} tm tm'"
    if "used tm' = (used tm)[i := True]" "first_available_index tm' = (if F = {} then 512 else Min F)"
      "last_available_index tm' < 512" "F \<noteq> {} \<longrightarrow> last_available_index tm' = Max F"
      "tm_inner tm' = tm_inner tm" "tm_level tm' = tm_level tm" for tm'
  proof -
    have "free_slots tm' = F" using that(1) F by (simp add: free_slots_def [of tm'])
    with that len show ?thesis by (simp add: marked_def tm_wf_def F_def [symmetric])
  qed
  show ?thesis
  proof (cases "Min ?G = i")
    case True
    have "scan_up ((used tm)[i := True]) i = Inr (if F = {} then 512 else Min F)"
      by (rule scan_up_Min [OF len F]) (use True i in \<open>auto simp: F_def\<close>)
    with True wf have "update_indices i ?tm = Inr (?tm\<lparr>first_available_index := if F = {} then 512 else Min F\<rparr>)"
      by (simp add: update_indices_def)
    moreover have "F \<noteq> {} \<longrightarrow> Max ?G = Max F"
    proof
      assume "F \<noteq> {}"
      then have "Max ?G \<noteq> i"
        using Min_Max_singleton [OF finite_free_slots ne] True by (metis F_def Diff_cancel)
      then show "Max ?G = Max F" using Max_remove [OF finite_free_slots ne, of i] by (simp add: F_def)
    qed
    ultimately show ?thesis using wf by (auto intro!: mk)
  next
    case False
    have "Min ?G \<in> F" using False ne by (simp add: F_def)
    then have nF: "F \<noteq> {}" by blast
    have mn: "Min F = Min ?G" using Min_remove [OF finite_free_slots ne] False by (auto simp: F_def)
    show ?thesis
    proof (cases "Max ?G = i")
      case True
      have "scan_down ((used tm)[i := True]) i = Inr (Max F)"
        by (rule scan_down_Max [OF len F nF]) (use True i in \<open>auto simp: F_def\<close>)
      with False True wf have "update_indices i ?tm = Inr (?tm\<lparr>last_available_index := Max F\<rparr>)"
        by (simp add: update_indices_def)
      moreover have "Max F < 512" using Max_in [OF _ nF] F by simp
      ultimately show ?thesis using wf nF mn by (auto intro!: mk)
    next
      case neq: False
      have "Max F = Max ?G" using Max_remove [OF finite_free_slots ne] neq by (auto simp: F_def)
      moreover have "update_indices i ?tm = Inr ?tm" using False neq wf by (simp add: update_indices_def)
      ultimately show ?thesis using wf nF mn by (auto intro!: mk)
    qed
  qed
qed

lemma mark_as_used_free:
  assumes "x86_laws X" and "tm_wf tm" and "i \<in> free_slots tm"
  shows "\<exists>tm'. mark_as_used X tm i = Inr (Some i, tm') \<and> marked {i} tm tm'"
proof -
  have "i < 512" "\<not> used tm ! i" "length (used tm) = 512"
    using assms(2,3) by (auto simp: free_slots_def tm_wf_def)
  with update_indices_marked [OF assms(2,3)] show ?thesis
    by (auto simp: mark_as_used_def Let_def x86_laws.PageTableIndex_new_ok [OF assms(1)])
qed

lemma mark_as_used_taken:
  assumes "tm_wf tm" and "i < 512" and "i \<notin> free_slots tm"
  shows "mark_as_used X tm i = Inr (None, tm)"
  using assms by (simp add: mark_as_used_def tm_wf_def free_slots_def)

lemma tracked_new_wf: "tm_wf (tracked_new table level)"
  and tracked_new_free: "free_slots (tracked_new table level) = {..<512}"
proof -
  show free: "free_slots (tracked_new table level) = {..<512}"
    by (auto simp: free_slots_def tracked_new_def PTE_COUNT_PER_PT_def)
  have "Min {..<512::nat} = 0" by (rule Min_eqI) auto
  moreover have "Max {..<512::nat} = 511" by (rule Max_eqI) auto
  ultimately show "tm_wf (tracked_new table level)"
    unfolding tm_wf_def free by (simp add: tracked_new_def PTE_COUNT_PER_PT_def lessThan_empty_iff)
qed

subsection \<open>Releasing a slot\<close>

lemma mark_as_unused_correct:
  assumes "tm_wf tm" and "i < 512" and "free_slots tm \<noteq> {}"
  shows "\<exists>tm'. mark_as_unused tm i = Inr tm' \<and> tm_wf tm' \<and> free_slots tm' = insert i (free_slots tm)"
proof -
  let ?G = "free_slots tm" and ?f = "first_available_index tm" and ?l = "last_available_index tm"
  have wf: "length (used tm) = 512" "?l < 512" "?f = Min ?G" "?l = Max ?G"
    using assms(1,3) unfolding tm_wf_def by metis+
  have free: "free_slots tm' = insert i ?G" if "used tm' = (used tm)[i := False]" for tm' :: "'a tracked_mapper"
    using that wf(1) assms(2) by (auto simp: free_slots_def nth_list_update)
  have ifs: "min i m = (if i < m then i else m)" "max i m = (if m < i then i else m)" for m by auto
  have mn: "Min (insert i ?G) = (if i < ?f then i else ?f)"
    and mx: "Max (insert i ?G) = (if ?l < i then i else ?l)"
    by (simp_all only: wf(3,4) ifs Min_insert [OF finite_free_slots assms(3)]
        Max_insert [OF finite_free_slots assms(3)])
  have "?f \<le> ?l" using assms(3) by (simp add: wf(3,4))
  then show ?thesis using wf(1,2) assms(2)
    by (auto simp: mark_as_unused_def Let_def tm_wf_def free mn mx)
qed

subsection \<open>Marking several slots\<close>

lemma marked_trans: "marked S tm tm' \<Longrightarrow> marked T tm' tm'' \<Longrightarrow> marked (S \<union> T) tm tm''"
  by (auto simp: marked_def)

lemma mark_each_free:
  assumes "x86_laws X" and "tm_wf tm" and "distinct is" and "set is \<subseteq> free_slots tm"
  shows "\<exists>tm'. mark_each X tm is = Inr tm' \<and> marked (set is) tm tm'"
  using assms(2-4)
proof (induction "is" arbitrary: tm)
  case Nil
  then show ?case by (simp add: marked_def)
next
  case (Cons i "is")
  then obtain tm1 where m1: "mark_as_used X tm i = Inr (Some i, tm1)" "marked {i} tm tm1"
    using mark_as_used_free [OF assms(1), of tm i] by auto
  with Cons.prems have "tm_wf tm1" "set is \<subseteq> free_slots tm1" by (auto simp: marked_def)
  with Cons.IH [of tm1] Cons.prems(2) obtain tm2 where "mark_each X tm1 is = Inr tm2" "marked (set is) tm1 tm2"
    by auto
  with m1 marked_trans [OF m1(2)] show ?case by auto
qed

lemma list_all_slice:
  assumes "lo + n \<le> 512" and "length (used tm) = 512"
  shows "list_all Not (take n (drop lo (used tm))) \<longleftrightarrow> {lo ..< lo + n} \<subseteq> free_slots tm"
proof -
  have "list_all Not (take n (drop lo (used tm))) \<longleftrightarrow> (\<forall>k<n. \<not> used tm ! (lo + k))"
    using assms by (simp add: list_all_length min_absorb2)
  also have "\<dots> \<longleftrightarrow> (\<forall>i. lo \<le> i \<and> i < lo + n \<longrightarrow> \<not> used tm ! i)"
    by (metis add_less_cancel_left le_add1 le_iff_add)
  also have "\<dots> \<longleftrightarrow> {lo ..< lo + n} \<subseteq> free_slots tm" using assms(1) by (auto simp: free_slots_def)
  finally show ?thesis .
qed

subsection \<open>The search\<close>

text \<open>One turn of the loop on a well-formed table.\<close>

lemma find_loop_turn:
  fixes reverse :: bool and tm :: "'m tracked_mapper"
  assumes "tm_wf tm" and "req < 512" and "req \<le> cur" and "cur < 512 - req - 1"
  defines "lo \<equiv> if reverse then cur - req else cur"
  shows "find_loop X tm req reverse cur =
     (if cur \<in> free_slots tm \<and> {lo ..< lo + req} \<subseteq> free_slots tm then
        and_then (mark_each X tm (if reverse then rev [lo ..< lo + req] else [lo ..< lo + req])) (\<lambda>tm'.
        and_then (PageTableIndex_new X lo) (\<lambda>i. Inr (Some (i, req), tm')))
      else
        and_then (if reverse then sub64 cur 1 else add64 cur 1) (\<lambda>next. find_loop X tm req reverse next))"
proof -
  have len: "length (used tm) = 512" using assms(1) by (simp add: tm_wf_def)
  have lo: "lo + req \<le> 512" "cur < 512" "lo < 512" using assms(2-4) by (auto simp: lo_def)
  have c: "used tm ! cur \<longleftrightarrow> cur \<notin> free_slots tm" using lo(2) by (simp add: free_slots_def)
  note sl = list_all_slice [OF lo(1) len]
  show ?thesis
  proof (cases reverse)
    case True
    then have "lo = cur - req" by (simp add: lo_def)
    with True sl assms(2-4) len lo c show ?thesis
      by (subst find_loop.simps) (auto simp: PTE_COUNT_PER_PT_def used_slice_def)
  next
    case False
    then have "lo = cur" by (simp add: lo_def)
    with False sl assms(2-4) len lo c show ?thesis
      by (subst find_loop.simps) (auto simp: PTE_COUNT_PER_PT_def used_slice_def)
  qed
qed

lemma find_loop_stop:
  assumes "req < 512" and "\<not> (req \<le> cur \<and> cur < 512 - req - 1)"
  shows "find_loop X tm req reverse cur = Inr (None, tm)"
  using assms by (subst find_loop.simps) (auto simp: PTE_COUNT_PER_PT_def)

lemma find_loop_too_many: "512 \<le> req \<Longrightarrow> find_loop X tm req reverse cur = Inl Overflow"
  by (subst find_loop.simps) (cases "req = 512"; simp add: PTE_COUNT_PER_PT_def sub64_def)

lemma find_loop_sound:
  assumes "x86_laws X" and "tm_wf tm" and "find_loop X tm req reverse cur = Inr (r, tm')"
  shows "case r of
      None \<Rightarrow> tm' = tm
    | Some (i, n) \<Rightarrow> n = req \<and> {i ..< i + req} \<subseteq> free_slots tm \<and> marked {i ..< i + req} tm tm'"
  using assms(3)
proof (induction "if reverse then cur else 512 - cur" arbitrary: cur rule: less_induct)
  case less
  have req: "req < 512"
    using less.prems find_loop_too_many [of req X tm reverse cur] by (cases "req < 512") auto
  show ?case
  proof (cases "req \<le> cur \<and> cur < 512 - req - 1")
    case True
    define lo where "lo = (if reverse then cur - req else cur)"
    note turn = find_loop_turn [OF assms(2) req, where cur = cur and reverse = reverse and X = X, folded lo_def]
    show ?thesis
    proof (cases "cur \<in> free_slots tm \<and> {lo ..< lo + req} \<subseteq> free_slots tm")
      case hit: True
      let ?is = "if reverse then rev [lo ..< lo + req] else [lo ..< lo + req]"
      have s: "set ?is = {lo ..< lo + req}" "distinct ?is" by auto
      with mark_each_free [OF assms(1,2), of ?is] hit obtain tm1 where
        m: "mark_each X tm ?is = Inr tm1" "marked {lo ..< lo + req} tm tm1" by auto
      have "lo < 512" using True by (auto simp: lo_def)
      with turn True hit m less.prems show ?thesis
        by (auto simp: x86_laws.PageTableIndex_new_ok [OF assms(1)])
    next
      case miss: False
      with turn True less.prems have "and_then (if reverse then sub64 cur 1 else add64 cur 1)
          (\<lambda>next. find_loop X tm req reverse next) = Inr (r, tm')" by simp
      then obtain c where c: "(if reverse then sub64 cur 1 else add64 cur 1) = Inr c"
        and rec: "find_loop X tm req reverse c = Inr (r, tm')" unfolding and_then_eq_Inr by blast
      have "(if reverse then c else 512 - c) < (if reverse then cur else 512 - cur)"
        using c True by (auto simp: run_simps split: if_splits)
      then show ?thesis by (rule less.hyps [OF _ rec])
    qed
  next
    case False
    from find_loop_stop [OF req False, where X = X and tm = tm and reverse = reverse] less.prems
    show ?thesis by simp
  qed
qed

subsection \<open>Requests\<close>

lemma total_pos: "0 < total_available_mem_size tm" "total_available_mem_size tm \<le> 549755813888"
proof -
  show "0 < total_available_mem_size tm"
    by (cases "tm_level tm") (simp_all add: total_available_mem_size_def PTE_COUNT_PER_PT_def)
  show "total_available_mem_size tm \<le> 549755813888"
    by (cases "tm_level tm") (simp_all add: total_available_mem_size_def PTE_COUNT_PER_PT_def)
qed

lemma tm_wf_first_le: "tm_wf tm \<Longrightarrow> first_available_index tm \<le> 512"
  for tm :: "'m tracked_mapper"
proof -
  assume wf: "tm_wf tm"
  have "Min (free_slots tm) \<le> 512" if "free_slots tm \<noteq> {}"
    using Min_in [OF finite_free_slots that] by (simp only: free_slots_def mem_Collect_eq) simp
  with wf show ?thesis by (simp add: tm_wf_def)
qed

lemma tm_wf_indices:
  assumes "tm_wf tm" and "free_slots tm \<noteq> {}"
  shows "first_available_index tm \<in> free_slots tm" "last_available_index tm \<in> free_slots tm"
    "first_available_index tm \<le> last_available_index tm"
proof -
  have i: "first_available_index tm = Min (free_slots tm)" "last_available_index tm = Max (free_slots tm)"
    using assms unfolding tm_wf_def by metis+
  show "first_available_index tm \<in> free_slots tm" "last_available_index tm \<in> free_slots tm"
    unfolding i by (rule Min_in [OF finite_free_slots assms(2)], rule Max_in [OF finite_free_slots assms(2)])
  show "first_available_index tm \<le> last_available_index tm"
    unfolding i using assms(2) by simp
qed

lemma one_slot_required:
  assumes "0 < sz" and "sz \<le> total_available_mem_size tm"
  shows "add64 sz (total_available_mem_size tm - 1) = Inr (sz + (total_available_mem_size tm - 1))"
    and "(sz + (total_available_mem_size tm - 1)) div total_available_mem_size tm = 1"
proof -
  let ?t = "total_available_mem_size tm"
  show "add64 sz (?t - 1) = Inr (sz + (?t - 1))" using assms total_pos(2) [of tm] by simp
  have eq: "sz + (?t - 1) = (sz - 1) + ?t" using assms by simp
  have "(sz - 1) div ?t = 0" using assms by simp
  moreover have "((sz - 1) + ?t) div ?t = (sz - 1) div ?t + 1"
    by (rule div_add_self2) (use total_pos(1) [of tm] in simp)
  ultimately have "((sz - 1) + ?t) div ?t = 1" by simp
  then show "(sz + (?t - 1)) div ?t = 1" by (simp only: eq)
qed

lemma find_sound:
  assumes "x86_laws X" and "tm_wf tm" and "find_free_space_and_mark X tm sz reverse = Inr (r, tm')"
  shows "case r of
      None \<Rightarrow> tm' = tm
    | Some (i, n) \<Rightarrow> sz \<le> n * total_available_mem_size tm
        \<and> {i ..< i + n} \<subseteq> free_slots tm \<and> marked {i ..< i + n} tm tm'"
proof -
  let ?t = "total_available_mem_size tm"
  define req where "req = (sz + (?t - 1)) div ?t"
  have enough: "sz \<le> req * ?t"
  proof -
    have "sz + (?t - 1) < Suc req * ?t" unfolding req_def
      by (metis dividend_less_div_times mult.commute mult_Suc total_pos(1))
    then show ?thesis using total_pos(1) [of tm] by simp
  qed
  let ?cur = "if reverse then last_available_index tm else first_available_index tm"
  have eq: "(if int (last_available_index tm mod 65536) - int (first_available_index tm mod 65536) + 1
        < int (req mod 65536) then Inr (None, tm)
      else if req = 1 then and_then (mark_as_used X tm ?cur) (\<lambda>(r, tm'). Inr (map_option (\<lambda>p. (p, 1)) r, tm'))
      else find_loop X tm req reverse ?cur) = Inr (r, tm')"
    using assms(3) unfolding find_free_space_and_mark_def Let_def and_then_eq_Inr add64_eq_Inr req_def
    by (elim exE conjE) (hypsubst, assumption)
  show ?thesis
  proof (cases "int (last_available_index tm mod 65536) - int (first_available_index tm mod 65536) + 1
      < int (req mod 65536)")
    case True
    with eq show ?thesis by simp
  next
    case room: False
    show ?thesis
    proof (cases "req = 1")
      case True
      with eq room obtain q where q: "mark_as_used X tm ?cur = Inr (q, tm')" "r = map_option (\<lambda>p. (p, 1)) q"
        by (auto simp: and_then_eq_Inr)
      have "first_available_index tm \<le> 512" "last_available_index tm < 512"
        using assms(2) tm_wf_first_le unfolding tm_wf_def by blast+
      with room True have "first_available_index tm < 512" by simp
      then have ne: "free_slots tm \<noteq> {}" using assms(2) unfolding tm_wf_def by force
      have c: "?cur \<in> free_slots tm" using tm_wf_indices [OF assms(2) ne] by simp
      with mark_as_used_free [OF assms(1,2)] q have "q = Some ?cur" "marked {?cur} tm tm'" by fastforce+
      moreover have "{?cur ..< ?cur + 1} = {?cur}" by auto
      ultimately show ?thesis using c q(2) enough True by simp
    next
      case False
      with eq room have "find_loop X tm req reverse ?cur = Inr (r, tm')" by simp
      from find_loop_sound [OF assms(1,2) this] enough show ?thesis by (auto split: option.splits)
    qed
  qed
qed

subsection \<open>Properties\<close>

lemma find_one_slot_spec:
  assumes "x86_laws X" and "tm_wf tm" and "0 < sz" and "sz \<le> total_available_mem_size tm"
  shows "if free_slots tm = {} then find_free_space_and_mark X tm sz reverse = Inr (None, tm)
     else let i = (if reverse then Max (free_slots tm) else Min (free_slots tm)) in
       \<exists>tm'. find_free_space_and_mark X tm sz reverse = Inr (Some (i, 1), tm') \<and> marked {i} tm tm'"
proof (cases "free_slots tm = {}")
  case True
  have "first_available_index tm = 512" "last_available_index tm < 512"
    using assms(2) True unfolding tm_wf_def by metis+
  then show ?thesis
    using True one_slot_required [OF assms(3,4)] by (simp add: find_free_space_and_mark_def Let_def)
next
  case False
  let ?cur = "if reverse then last_available_index tm else first_available_index tm"
  note i = tm_wf_indices [OF assms(2) False]
  have c: "?cur \<in> free_slots tm" using i by simp
  have cur: "?cur = (if reverse then Max (free_slots tm) else Min (free_slots tm))"
    using assms(2) False unfolding tm_wf_def by metis
  have "last_available_index tm < 512" using assms(2) unfolding tm_wf_def by metis
  with i(3) have "\<not> int (last_available_index tm mod 65536)
      - int (first_available_index tm mod 65536) + 1 < 1" by simp
  moreover obtain tm' where "mark_as_used X tm ?cur = Inr (Some ?cur, tm')" "marked {?cur} tm tm'"
    using mark_as_used_free [OF assms(1,2) c] by blast
  ultimately have "\<exists>tm'. find_free_space_and_mark X tm sz reverse = Inr (Some (?cur, 1), tm')
      \<and> marked {?cur} tm tm'"
    using one_slot_required [OF assms(3,4)] by (simp add: find_free_space_and_mark_def Let_def)
  then show ?thesis using False unfolding cur by (simp add: Let_def)
qed

text \<open>C33. A request that fits into one slot is answered by exactly the greatest free slot (searching
  from the end) or the least free slot, which is then taken, and it fails only if no slot is
  free.\<close>

theorem find_one_slot:
  assumes "x86_laws X" and "tm_wf tm" and "0 < sz" and "sz \<le> total_available_mem_size tm"
  shows "if free_slots tm = {} then find_free_space_and_mark X tm sz reverse = Inr (None, tm)
     else let i = (if reverse then Max (free_slots tm) else Min (free_slots tm)) in
       \<exists>tm'. find_free_space_and_mark X tm sz reverse = Inr (Some (i, 1), tm') \<and> marked {i} tm tm'"
  using find_one_slot_spec [OF assms] .

theorem find_one_slot_witness:
  "\<exists>tm'. find_free_space_and_mark x86_model (tracked_new () LevelFour) 0x81000 True = Inr (Some (511, 1), tm')"
proof -
  have "Max {..<512::nat} = 511" by (rule Max_eqI) auto
  moreover have "0x81000 \<le> total_available_mem_size (tracked_new () LevelFour)"
    by (simp add: total_available_mem_size_def tracked_new_def PTE_COUNT_PER_PT_def)
  ultimately show ?thesis
    using find_one_slot [OF x86m.x86_laws_axioms tracked_new_wf [of "()" LevelFour], of "0x81000" True]
    by (auto simp: tracked_new_free lessThan_empty_iff)
qed

text \<open>Whatever the size, a successful search returns consecutive slots that together index at
  least the requested size, were all free, and are exactly the slots taken; an unsuccessful
  search changes nothing; the cached indices stay right.\<close>

theorem find_takes_free_slots:
  assumes "x86_laws X" and "tm_wf tm" and "find_free_space_and_mark X tm sz reverse = Inr (r, tm')"
  shows "case r of
      None \<Rightarrow> tm' = tm
    | Some (i, n) \<Rightarrow> sz \<le> n * total_available_mem_size tm \<and> {i ..< i + n} \<subseteq> free_slots tm
        \<and> free_slots tm' = free_slots tm - {i ..< i + n} \<and> tm_wf tm'"
  using find_sound [OF assms] by (auto simp: marked_def split: option.splits)

definition half_table :: "unit tracked_mapper" where
  "half_table = \<lparr>tm_inner = (), tm_level = LevelOne, used = replicate 10 True @ replicate 502 False,
     first_available_index = 10, last_available_index = 511\<rparr>"

lemma half_table_free: "free_slots half_table = {10 ..< 512}"
  by (auto simp: free_slots_def half_table_def nth_append)

lemma half_table_wf: "tm_wf half_table"
proof -
  have "Min {10 ..< 512::nat} = 10" by (rule Min_eqI) auto
  moreover have "Max {10 ..< 512::nat} = 511" by (rule Max_eqI) auto
  ultimately show ?thesis unfolding tm_wf_def half_table_free by (simp add: half_table_def)
qed

lemma half_table_search:
  "\<exists>tm'. find_free_space_and_mark x86_model half_table 0x2000 False = Inr (Some (10, 2), tm')"
proof -
  obtain tm' where "mark_each x86_model half_table [10 ..< 12] = Inr tm'"
    using mark_each_free [OF x86m.x86_laws_axioms half_table_wf, of "[10 ..< 12]"]
    by (auto simp: half_table_free)
  moreover have "find_loop x86_model half_table 2 False 10
      = and_then (mark_each x86_model half_table [10 ..< 12]) (\<lambda>tm'.
          and_then (PageTableIndex_new x86_model 10) (\<lambda>i. Inr (Some (i, 2), tm')))"
    using find_loop_turn [OF half_table_wf, of 2 10 x86_model False] by (simp add: half_table_free)
  ultimately show ?thesis
    by (simp add: find_free_space_and_mark_def Let_def total_available_mem_size_def half_table_def
        x86_model_def)
qed

theorem find_takes_free_slots_witness:
  "\<exists>tm'. find_free_space_and_mark x86_model half_table 0x2000 False = Inr (Some (10, 2), tm')
     \<and> free_slots tm' = {12 ..< 512}"
proof -
  obtain tm' where s: "find_free_space_and_mark x86_model half_table 0x2000 False = Inr (Some (10, 2), tm')"
    using half_table_search by blast
  have "free_slots tm' = {10 ..< 512} - {10 ..< 12}"
    using find_takes_free_slots [OF x86m.x86_laws_axioms half_table_wf s] by (simp add: half_table_free)
  also have "\<dots> = {12 ..< 512}" by auto
  finally show ?thesis using s by blast
qed

text \<open>On a fresh table every request for more than one slot fails, in both directions, although
  all 512 slots are free: the search only looks at indices strictly inside the table.\<close>

theorem fresh_table_refuses_many:
  assumes "total_available_mem_size (tracked_new table level) < sz"
    and "sz \<le> 511 * total_available_mem_size (tracked_new table level)"
  shows "find_free_space_and_mark X (tracked_new table level) sz reverse
     = Inr (None, tracked_new table level)"
proof -
  let ?tm = "tracked_new table level"
  let ?t = "total_available_mem_size ?tm"
  define req where "req = (sz + (?t - 1)) div ?t"
  have "2 * ?t \<le> sz + (?t - 1)" using assms(1) by simp
  then have "2 \<le> req" unfolding req_def using total_pos(1) [of ?tm]
    by (simp add: less_eq_div_iff_mult_less_eq)
  moreover have "sz + (?t - 1) < 512 * ?t" using assms(2) total_pos(1) [of ?tm] by simp
  then have "req < 512" unfolding req_def by (simp add: less_mult_imp_div_less)
  moreover have "sz + (?t - 1) < two64" using assms(2) total_pos(2) [of ?tm] by simp
  moreover have "first_available_index ?tm = 0" "last_available_index ?tm = 511"
    by (simp_all add: tracked_new_def PTE_COUNT_PER_PT_def)
  moreover have "find_loop X ?tm req reverse (if reverse then 511 else 0) = Inr (None, ?tm)"
    by (rule find_loop_stop) (use \<open>2 \<le> req\<close> \<open>req < 512\<close> in auto)
  moreover have "(sz + (?t - Suc 0)) div ?t = req" by (simp add: req_def)
  ultimately show ?thesis by (cases reverse) (simp_all add: find_free_space_and_mark_def Let_def)
qed

theorem fresh_table_refuses_many_witness:
  "find_free_space_and_mark x86_model (tracked_new () LevelOne) 0x2000 True
     = Inr (None, tracked_new () LevelOne)"
  by (rule fresh_table_refuses_many)
     (simp_all add: total_available_mem_size_def tracked_new_def)

text \<open>Releasing a slot of a full table that lies above the cached last index loses the slot for
  searches from the end: the slot is free, yet the search reports none.\<close>

theorem released_slot_lost:
  assumes "tm_wf tm" and "free_slots tm = {}" and "last_available_index tm < i" and "i < 512"
    and "0 < sz" and "sz \<le> total_available_mem_size tm"
  shows "\<exists>tm'. mark_as_unused tm i = Inr tm' \<and> free_slots tm' = {i}
     \<and> find_free_space_and_mark X tm' sz True = Inr (None, tm')"
proof -
  have wf: "length (used tm) = 512" "first_available_index tm = 512"
    using assms(1,2) unfolding tm_wf_def by metis+
  define tm' where "tm' = tm\<lparr>used := (used tm)[i := False], first_available_index := i\<rparr>"
  have "mark_as_unused tm i = Inr tm'"
    using wf assms(3,4) by (simp add: mark_as_unused_def Let_def tm'_def)
  moreover have "free_slots tm' = {i}"
    using assms(2,4) wf(1) by (auto simp: free_slots_def tm'_def nth_list_update)
  moreover have t: "total_available_mem_size tm' = total_available_mem_size tm"
    by (simp add: total_available_mem_size_def tm'_def)
  have "find_free_space_and_mark X tm' sz True = Inr (None, tm')"
    using one_slot_required [of sz tm'] assms(3-6) t
    by (simp add: find_free_space_and_mark_def Let_def) (simp add: tm'_def)
  ultimately show ?thesis by blast
qed

definition full_table :: "unit tracked_mapper" where
  "full_table = \<lparr>tm_inner = (), tm_level = LevelFour, used = replicate 512 True,
     first_available_index = 512, last_available_index = 10\<rparr>"

theorem released_slot_lost_witness:
  "\<exists>tm'. mark_as_unused full_table 20 = Inr tm' \<and> free_slots tm' = {20}
     \<and> find_free_space_and_mark x86_model tm' 4096 True = Inr (None, tm')"
proof (rule released_slot_lost)
  show free: "free_slots full_table = {}" by (simp add: free_slots_def full_table_def)
  then show "tm_wf full_table" unfolding tm_wf_def free by (simp add: full_table_def)
qed (simp_all add: full_table_def total_available_mem_size_def PTE_COUNT_PER_PT_def)

end
