(* ===== verification/Paging.thy ===== *)
theory Paging
  imports X86_Crate Bump_Allocator
begin

section \<open>What the program uses of the x86\_64 crate: page tables\<close>

text \<open>
  Page tables are edited through the \<open>Mapper\<close> and \<open>Translate\<close> traits of the \<open>x86_64\<close> crate.
  Those functions are a parameter \<open>M\<close> of the model, over a type \<open>'m\<close> of page tables and a
  type \<open>'s\<close> of frame allocator states: \<open>map_to\<close> may ask the allocator it is given for frames
  for intermediate tables.  The locale \<open>mapper_laws\<close> states the documented behaviour through a
  \<open>view\<close> of a table as a finite map from 4 KiB pages to frames and flags.  The page and frame
  ranges of the crate are the lists of their elements.

  The lemmas proved once for every mapper: what a loop that maps a list of pages to a list
  of frames leaves in the table.
\<close>

datatype pt_flag = PRESENT | WRITABLE | USER_ACCESSIBLE | NO_EXECUTE | BIT_9 | OtherFlag nat

type_synonym pt_flags = "pt_flag set"

datatype map_to_error = FrameAllocationFailed | ParentEntryHugePage | PageAlreadyMapped

datatype mapped_frame = Size4KiB nat | LargerFrame nat

datatype translate_result = Mapped mapped_frame pt_flags | NotMapped

type_synonym 's frame_source = "'s \<Rightarrow> (nat option \<times> 's) run"

record ('m, 's) mapper_ops =
  map_to :: "'s frame_source \<Rightarrow> 'm \<Rightarrow> 's \<Rightarrow> nat \<Rightarrow> nat \<Rightarrow> pt_flags
     \<Rightarrow> ((map_to_error + unit) \<times> 'm \<times> 's) run"
  map_to_1gib :: "'s frame_source \<Rightarrow> 'm \<Rightarrow> 's \<Rightarrow> nat \<Rightarrow> nat \<Rightarrow> pt_flags
     \<Rightarrow> ((map_to_error + unit) \<times> 'm \<times> 's) run"
  unmap :: "'m \<Rightarrow> nat \<Rightarrow> (unit + nat) \<times> 'm"
  update_flags :: "'m \<Rightarrow> nat \<Rightarrow> pt_flags \<Rightarrow> (unit + unit) \<times> 'm"
  translate :: "'m \<Rightarrow> nat \<Rightarrow> translate_result"

text \<open>The elements of \<open>range_inclusive(a, b)\<close> for aligned \<open>a\<close> and \<open>b\<close>, a multiple of \<open>sz\<close> apart.\<close>

definition range_list :: "nat \<Rightarrow> nat \<Rightarrow> nat \<Rightarrow> nat list" where
  "range_list sz a b = (if a \<le> b then map (\<lambda>k. a + sz * k) [0 ..< Suc ((b - a) div sz)] else [])"

lemma set_range_list:
  assumes "0 < sz" and "sz dvd a" and "sz dvd b"
  shows "set (range_list sz a b) = {x. a \<le> x \<and> x \<le> b \<and> sz dvd x}"
proof -
  have "\<exists>k. x = a + sz * k \<and> k < Suc ((b - a) div sz)" if "a \<le> x" "x \<le> b" "sz dvd x" for x
  proof -
    from that assms(2) have "sz dvd x - a" by simp
    then obtain k where k: "x - a = sz * k" by (elim dvdE)
    have "k = (x - a) div sz" using k assms(1) by simp
    also have "\<dots> \<le> (b - a) div sz" using that by (intro div_le_mono) simp
    finally show ?thesis using k that(1) by (intro exI [of _ k]) simp
  qed
  moreover have "a + sz * k \<le> b" if "k < Suc ((b - a) div sz)" "a \<le> b" for k
  proof -
    have "sz * k \<le> sz * ((b - a) div sz)" using that by simp
    also have "\<dots> \<le> b - a" by simp
    finally show ?thesis using that(2) by simp
  qed
  moreover have "set (range_list sz a b)
      = (if a \<le> b then (\<lambda>k. a + sz * k) ` {k. k < Suc ((b - a) div sz)} else {})"
    by (auto simp: range_list_def simp del: upt_Suc)
  ultimately show ?thesis using assms(2) by (auto simp: image_iff)
qed

lemma distinct_range_list: "0 < sz \<Longrightarrow> distinct (range_list sz a b)"
  by (simp add: range_list_def distinct_map inj_on_def del: upt_Suc)

lemma length_range_list: "a \<le> b \<Longrightarrow> length (range_list sz a b) = Suc ((b - a) div sz)"
  by (simp add: range_list_def)

lemma nth_range_list: "a \<le> b \<Longrightarrow> k \<le> (b - a) div sz \<Longrightarrow> range_list sz a b ! k = a + sz * k"
  by (simp add: range_list_def nth_append del: upt_Suc)

text \<open>The allocator states that some number of requests leads to.\<close>

inductive alloc_reach :: "'s frame_source \<Rightarrow> 's \<Rightarrow> 's \<Rightarrow> bool" for al where
  reach_refl: "alloc_reach al s s"
| reach_step: "alloc_reach al s s' \<Longrightarrow> al s' = Inr (r, s'') \<Longrightarrow> alloc_reach al s s''"

lemma alloc_reach_trans: "alloc_reach al s' s'' \<Longrightarrow> alloc_reach al s s' \<Longrightarrow> alloc_reach al s s''"
  by (induction rule: alloc_reach.induct) (auto intro: reach_step)

lemma alloc_reach_inv:
  assumes "alloc_reach al s s'" and "P s" and "\<And>s r s'. P s \<Longrightarrow> al s = Inr (r, s') \<Longrightarrow> P s'"
  shows "P s'"
  using assms by (induction rule: alloc_reach.induct) auto

locale mapper_laws =
  fixes M :: "('m, 's) mapper_ops"
    and view :: "'m \<Rightarrow> nat \<Rightarrow> (nat \<times> pt_flags) option"
  assumes map_to_ok: "map_to M al m s p f fl = Inr (Inr (), m', s') \<Longrightarrow> PRESENT \<in> fl \<Longrightarrow>
      view m p = None \<and> view m' = (view m)(p \<mapsto> (f, fl))"
    and map_to_err: "map_to M al m s p f fl = Inr (Inl e, m', s') \<Longrightarrow> view m' = view m"
    and map_to_reach: "map_to M al m s p f fl = Inr (r, m', s') \<Longrightarrow> alloc_reach al s s'"
    and map_to_1gib_reach: "map_to_1gib M al m s p f fl = Inr (r, m', s') \<Longrightarrow> alloc_reach al s s'"
    and map_to_1gib_view: "map_to_1gib M al m s p f fl = Inr (r, m', s') \<Longrightarrow> view m' = view m"
    and unmap_ok: "view m p = Some (f, fl) \<Longrightarrow>
      \<exists>m'. unmap M m p = (Inr f, m') \<and> view m' = (view m)(p := None)"
    and update_flags_ok: "view m p = Some (f, fl) \<Longrightarrow> PRESENT \<in> fl' \<Longrightarrow>
      \<exists>m'. update_flags M m p fl' = (Inr (), m') \<and> view m' = (view m)(p \<mapsto> (f, fl'))"
    and update_flags_none: "view m p = None \<Longrightarrow> update_flags M m p fl' \<noteq> (Inr (), m')"
    and translate_ok: "view m p = Some (f, fl) \<Longrightarrow> translate M m p = Mapped (Size4KiB f) fl"
    and translate_none: "view m p = None \<Longrightarrow> translate M m p \<noteq> Mapped (Size4KiB f) fl"

text \<open>One mapper with these laws: the table is the view itself, and no intermediate tables are
  needed.\<close>

definition map_mapper :: "(nat \<Rightarrow> (nat \<times> pt_flags) option, 's) mapper_ops" where
  "map_mapper =
     \<lparr>map_to = (\<lambda>al m s p f fl.
        Inr (if m p = None then (Inr (), m(p \<mapsto> (f, fl)), s) else (Inl PageAlreadyMapped, m, s))),
      map_to_1gib = (\<lambda>al m s p f fl. Inr (Inr (), m, s)),
      unmap = (\<lambda>m p. case m p of None \<Rightarrow> (Inl (), m) | Some (f, _) \<Rightarrow> (Inr f, m(p := None))),
      update_flags = (\<lambda>m p fl. case m p of None \<Rightarrow> (Inl (), m) | Some (f, _) \<Rightarrow> (Inr (), m(p \<mapsto> (f, fl)))),
      translate = (\<lambda>m p. case m p of None \<Rightarrow> NotMapped | Some (f, fl) \<Rightarrow> Mapped (Size4KiB f) fl)\<rparr>"

interpretation mapm: mapper_laws map_mapper "\<lambda>m. m"
  by unfold_locales
     (auto simp: map_mapper_def split: if_splits option.splits intro: reach_refl)

lemma map_mapper_eval:
  "map_to map_mapper al m s p f fl
     = Inr (if m p = None then (Inr (), m(p \<mapsto> (f, fl)), s) else (Inl PageAlreadyMapped, m, s))"
  "map_to_1gib map_mapper al m s p f fl = Inr (Inr (), m, s)"
  "unmap map_mapper m p = (case m p of None \<Rightarrow> (Inl (), m) | Some (f, _) \<Rightarrow> (Inr f, m(p := None)))"
  "update_flags map_mapper m p fl = (case m p of None \<Rightarrow> (Inl (), m) | Some (f, _) \<Rightarrow> (Inr (), m(p \<mapsto> (f, fl))))"
  "translate map_mapper m p = (case m p of None \<Rightarrow> NotMapped | Some (f, fl) \<Rightarrow> Mapped (Size4KiB f) fl)"
  by (simp_all add: map_mapper_def)

end
