(* ===== verification/Boot_Maps.thy ===== *)
theory Boot_Maps
  imports Boot_Frames Tracked_Mapper Paging
begin

section \<open>The bootloader's mappings (bootloader-efi/src/mem/runtime\_map.rs, page\_allocator.rs)\<close>

text \<open>
  After the exit from the boot services the bootloader builds the kernel's page table: the
  identity window on physical memory, the bootstrap image, the kernel stack, the framebuffer
  and the kernel argument, each in its own slot of the top-level table.  The theory models
  each of these functions over the tracked table and the frame allocator, with the mapper
  as a parameter.  It shows that each region is mapped page by page onto the intended
  frames, which slots the sequence of regions takes, and that the list of unavailable
  memory regions handed to the kernel is sorted and keeps every entry.
\<close>

subsection \<open>Environment and state\<close>

record 'm boot_env =
  be_x :: x86
  be_tag :: "memory_type \<Rightarrow> nat"
  be_m :: "('m, boot_frame_allocator) mapper_ops"
  be_new_table :: "nat \<Rightarrow> 'm"         \<comment> \<open>\<open>OffsetPageTable::new\<close> on a cleared table in a frame\<close>

type_synonym 'm boot_state = "'m tracked_mapper \<times> boot_frame_allocator"

abbreviation be_alloc :: "'m boot_env \<Rightarrow> boot_frame_allocator frame_source" where
  "be_alloc E \<equiv> boot_allocate_frame (be_x E) (be_tag E)"

definition boot_map_to ::
  "'m boot_env \<Rightarrow> string \<Rightarrow> pt_flags \<Rightarrow> nat \<Rightarrow> nat \<Rightarrow> 'm boot_state \<Rightarrow> 'm boot_state run" where
  "boot_map_to E msg fl page frame st =
     (case st of (tm, al) \<Rightarrow>
       and_then (map_to (be_m E) (be_alloc E) (tm_inner tm) al page frame fl) (\<lambda>(r, m, al').
       and_then (or_panic_result r msg) (\<lambda>_.
         Inr (tm\<lparr>tm_inner := m\<rparr>, al'))))"

subsection \<open>Page tables\<close>

definition map_boot_stage_page_table ::
  "'m boot_env \<Rightarrow> boot_frame_allocator \<Rightarrow> (nat \<times> boot_frame_allocator) run" where
  "map_boot_stage_page_table E al =
     and_then (boot_allocate_frame (be_x E) (be_tag E) al) (\<lambda>(r, al').
     and_then (or_panic r ''failed to allocate new physics frame for boot pml4 table'') (\<lambda>frame.
     and_then (VirtAddr_add (be_x E) 0 frame) (\<lambda>_.
       Inr (frame, al'))))"

definition create_page_table ::
  "'m boot_env \<Rightarrow> nat \<Rightarrow> boot_frame_allocator \<Rightarrow> (nat \<times> 'm boot_state) run" where
  "create_page_table E phys_offset al =
     and_then (boot_allocate_frame (be_x E) (be_tag E) al) (\<lambda>(r, al').
     and_then (or_panic r ''failed to allocate new physics frame for kernel pml4 table'') (\<lambda>frame.
     and_then (VirtAddr_add (be_x E) phys_offset frame) (\<lambda>_.
       Inr (frame, (tracked_new (be_new_table E frame) LevelFour, al')))))"

subsection \<open>Taking a slot\<close>

text \<open>Every mapping function starts with the same lines: find the last free slot, and check that
  it is the one both sides agreed on.\<close>

definition take_slot ::
  "'m boot_env \<Rightarrow> string \<Rightarrow> nat \<Rightarrow> nat \<Rightarrow> 'm tracked_mapper \<Rightarrow> (nat \<times> 'm tracked_mapper) run" where
  "take_slot E msg expected sz tm =
     and_then (find_free_space_and_mark (be_x E) tm sz True) (\<lambda>(r, tm').
     and_then (or_panic r msg) (\<lambda>(i, _).
     and_then (PageTableIndex_new (be_x E) expected) (\<lambda>e.
     and_then (assert_run (e = i)) (\<lambda>_.
       Inr (i, tm')))))"

subsection \<open>The kernel stack\<close>

fun map_new_frames :: "'m boot_env \<Rightarrow> pt_flags \<Rightarrow> nat list \<Rightarrow> 'm boot_state \<Rightarrow> 'm boot_state run" where
  "map_new_frames E fl [] st = Inr st"
| "map_new_frames E fl (page # pages) (tm, al) =
     and_then (boot_allocate_frame (be_x E) (be_tag E) al) (\<lambda>(r, al').
     and_then (or_panic r ''failed to allocate new physics frame for kernel stack'') (\<lambda>frame.
     and_then (boot_map_to E ''failed to map new allocated physics frame to kernel stack page.''
                 fl page frame (tm, al')) (\<lambda>st'.
       map_new_frames E fl pages st')))"

definition alloc_and_map_kernel_stack ::
  "'m boot_env \<Rightarrow> nat \<Rightarrow> 'm boot_state \<Rightarrow> (nat \<times> 'm boot_state) run" where
  "alloc_and_map_kernel_stack E stack_sz st =
     (case st of (tm, al) \<Rightarrow>
       and_then (add64 stack_sz 4096) (\<lambda>total_size.
       and_then (take_slot E ''failed to get available pml4 entry for kernel stack, maybe it run out''
                   KERNEL_STACK_P4 total_size tm) (\<lambda>(i, tm1).
         let start_page = page_containing (be_x E) (page_from_indices_1gib (be_x E) i 0) in
         and_then (VirtAddr_add (be_x E) start_page total_size) (\<lambda>e.
         and_then (VirtAddr_sub (be_x E) e 1) (\<lambda>l.
         and_then (map_new_frames E {PRESENT, WRITABLE}
                     (range_list 4096 start_page (page_containing (be_x E) l)) (tm1, al)) (\<lambda>st'.
         and_then (VirtAddr_add (be_x E) start_page 4096) (\<lambda>v.
           Inr (v, st'))))))))"

subsection \<open>The global descriptor table: the frame it is built in\<close>

definition init_gdt_frame :: "'m boot_env \<Rightarrow> 'm boot_state \<Rightarrow> (nat \<times> 'm boot_state) run" where
  "init_gdt_frame E st =
     (case st of (tm, al) \<Rightarrow>
       and_then (boot_allocate_frame (be_x E) (be_tag E) al) (\<lambda>(r, al').
       and_then (or_panic r ''failed to allocate new physics frame for global descriptor table.'') (\<lambda>frame.
         Inr (frame, (tm, al')))))"

subsection \<open>The framebuffer\<close>

fun map_enumerated ::
  "'m boot_env \<Rightarrow> string \<Rightarrow> pt_flags \<Rightarrow> nat \<Rightarrow> nat \<Rightarrow> nat list \<Rightarrow> 'm boot_state \<Rightarrow> 'm boot_state run" where
  "map_enumerated E msg fl start_page idx [] st = Inr st"
| "map_enumerated E msg fl start_page idx (frame # frames) st =
     and_then (VirtAddr_add (be_x E) start_page (4096 * idx)) (\<lambda>page.
     and_then (boot_map_to E msg fl page frame st) (\<lambda>st'.
       map_enumerated E msg fl start_page (Suc idx) frames st'))"

definition map_framebuffer ::
  "'m boot_env \<Rightarrow> nat \<Rightarrow> nat \<Rightarrow> 'm boot_state \<Rightarrow> (nat \<times> 'm boot_state) run" where
  "map_framebuffer E fb_addr fb_len st =
     (case st of (tm, al) \<Rightarrow>
       and_then (take_slot E ''failed to get available pml4 entry for framebuffer, maybe it run out''
                   FRAMEBUFFER_P4 fb_len tm) (\<lambda>(i, tm1).
         let start_page = page_containing (be_x E) (page_from_indices_1gib (be_x E) i 0) in
         and_then (if 0 < fb_len then Inr () else Inl OutOfBounds) (\<lambda>_.
         and_then (PhysAddr_new (be_x E) fb_addr) (\<lambda>phys.
         and_then (PhysAddr_add (be_x E) phys fb_len) (\<lambda>e.
         and_then (PhysAddr_sub (be_x E) e 1) (\<lambda>l.
         and_then (map_enumerated E ''failed to map new allocated physics frame to kernel stack page.''
                     {PRESENT, WRITABLE} start_page 0
                     (range_list 4096 (frame_containing (be_x E) phys) (frame_containing (be_x E) l))
                     (tm1, al)) (\<lambda>st'.
         and_then (VirtAddr_add (be_x E) start_page (phys - (phys - phys mod 4096))) (\<lambda>v.
           Inr (v, st')))))))))"

subsection \<open>Physical memory\<close>

fun map_gib_frames ::
  "'m boot_env \<Rightarrow> nat \<Rightarrow> nat list \<Rightarrow> 'm boot_state \<Rightarrow> 'm boot_state run" where
  "map_gib_frames E phys_start_page [] st = Inr st"
| "map_gib_frames E phys_start_page (frame # frames) (tm, al) =
     and_then (VirtAddr_add (be_x E) phys_start_page frame) (\<lambda>v.
     and_then (map_to_1gib (be_m E) (be_alloc E) (tm_inner tm) al (page_1gib (be_x E) v) frame
                 {PRESENT, WRITABLE}) (\<lambda>(r, m, al').
     and_then (or_panic_result r ''failed to map physics address space to kernel page.'') (\<lambda>_.
       map_gib_frames E phys_start_page frames (tm\<lparr>tm_inner := m\<rparr>, al'))))"

definition map_physics_memory ::
  "'m boot_env \<Rightarrow> nat \<Rightarrow> 'm boot_state \<Rightarrow> (nat \<times> 'm boot_state) run" where
  "map_physics_memory E max_addr st =
     (case st of (tm, al) \<Rightarrow>
       and_then (PhysAddr_new (be_x E) 0) (\<lambda>zero.
       and_then (PhysAddr_sub (be_x E) max_addr 1) (\<lambda>l.
       and_then (mark_as_unused tm PHYS_MEM_P4) (\<lambda>tm1.
       and_then (PageTableIndex_new (be_x E) PHYS_MEM_P4) (\<lambda>i.
         let phys_start_page = page_from_indices_1gib (be_x E) i 0 in
         and_then (map_gib_frames E phys_start_page
                     (range_list 1073741824 (frame_1gib (be_x E) zero) (frame_1gib (be_x E) l))
                     (tm1, al)) (\<lambda>st'.
           Inr (phys_start_page, st')))))))"

subsection \<open>The kernel argument and the bootstrap image\<close>

text \<open>Frames mapped one after the other from a start page; the page of a frame is found from its
  distance to the first frame.\<close>

fun map_offset ::
  "'m boot_env \<Rightarrow> string \<Rightarrow> pt_flags \<Rightarrow> nat \<Rightarrow> nat \<Rightarrow> nat list \<Rightarrow> 'm boot_state \<Rightarrow> 'm boot_state run" where
  "map_offset E msg fl start_page first [] st = Inr st"
| "map_offset E msg fl start_page first (frame # frames) st =
     and_then (VirtAddr_add (be_x E) start_page (4096 * ((frame - first) div 4096))) (\<lambda>page.
     and_then (boot_map_to E msg fl page frame st) (\<lambda>st'.
       map_offset E msg fl start_page first frames st'))"

text \<open>Recording one more region: the array has 512 places.\<close>

definition push_region :: "memory_region \<Rightarrow> kernel_arg \<Rightarrow> kernel_arg run" where
  "push_region r arg =
     and_then (store (unav_phys_mem_regions arg) (unav_phys_mem_regions_len arg) r) (\<lambda>rs.
       Inr (arg\<lparr>unav_phys_mem_regions := rs,
                unav_phys_mem_regions_len := unav_phys_mem_regions_len arg + 1\<rparr>))"

definition sort_regions :: "kernel_arg \<Rightarrow> kernel_arg run" where
  "sort_regions arg =
     (let n = unav_phys_mem_regions_len arg; rs = unav_phys_mem_regions arg in
      if n \<le> length rs
      then Inr (arg\<lparr>unav_phys_mem_regions := sort_key mr_start (take n rs) @ drop n rs\<rparr>)
      else Inl OutOfBounds)"

text \<open>\<open>arg_addr\<close> is the address of the structure, \<open>arg_len\<close> its size in bytes.\<close>

definition map_kernel_arg ::
  "'m boot_env \<Rightarrow> nat \<Rightarrow> nat \<Rightarrow> kernel_arg \<Rightarrow> 'm boot_state \<Rightarrow> (nat \<times> kernel_arg \<times> 'm boot_state) run" where
  "map_kernel_arg E arg_addr arg_len arg st =
     (case st of (tm, al) \<Rightarrow>
       and_then (take_slot E ''failed to get available pml4 entry for KernelArg, maybe it run out''
                   KERNEL_ARG_P4 arg_len tm) (\<lambda>(i, tm1).
         let start_page = page_containing (be_x E) (page_from_indices_1gib (be_x E) i 0) in
         and_then (PhysAddr_new (be_x E) arg_addr) (\<lambda>pa.
         and_then (and_then (add64 arg_addr arg_len) (\<lambda>e. sub64 e 1)) (\<lambda>e.
         and_then (PhysAddr_new (be_x E) e) (\<lambda>pe.
           let first = frame_containing (be_x E) pa in
           and_then (map_offset E ''failed to identity map new allocated kernel arg.'' {PRESENT}
                       start_page first (range_list 4096 first (frame_containing (be_x E) pe)) (tm1, al)) (\<lambda>(tm2, al2).
           and_then (push_region \<lparr>mr_start = arg_addr, mr_length = arg_len, mr_kind = Bootloader\<rparr> arg) (\<lambda>arg1.
           and_then (allocated_region al2) (\<lambda>r.
           and_then (push_region r arg1) (\<lambda>arg2.
           and_then (sort_regions arg2) (\<lambda>arg3.
           and_then (VirtAddr_add (be_x E) start_page (arg_addr - (arg_addr - arg_addr mod 4096))) (\<lambda>v.
             Inr (v, arg3, (tm2, al2)))))))))))))"

definition map_bootstrap ::
  "'m boot_env \<Rightarrow> nat \<Rightarrow> nat \<Rightarrow> 'm boot_state \<Rightarrow> (nat \<times> 'm boot_state) run" where
  "map_bootstrap E bs_addr bs_len st =
     (case st of (tm, al) \<Rightarrow>
       and_then (take_slot E ''failed to get available pml4 entry for KernelArg, maybe it run out''
                   BOOTSTRAP_BYTES_P4 bs_len tm) (\<lambda>(i, tm1).
         let start_page = page_containing (be_x E) (page_from_indices_1gib (be_x E) i 0) in
         and_then (if 0 < bs_len then Inr () else Inl OutOfBounds) (\<lambda>_.
         and_then (PhysAddr_new (be_x E) bs_addr) (\<lambda>pa.
         and_then (PhysAddr_add (be_x E) pa bs_len) (\<lambda>pe.
           let first = frame_containing (be_x E) pa in
           and_then (map_offset E ''failed to identity map new allocated bootstrap.'' {PRESENT}
                       start_page first (range_list 4096 first (frame_containing (be_x E) pe)) (tm1, al)) (\<lambda>st'.
           and_then (VirtAddr_add (be_x E) start_page (pa - first)) (\<lambda>v.
             Inr (v, st'))))))))"

subsection \<open>What a view says about addresses\<close>

text \<open>Virtual address \<open>v\<close> is mapped to physical address \<open>a\<close> with flags \<open>fl\<close>.\<close>

definition translates :: "(nat \<Rightarrow> (nat \<times> pt_flags) option) \<Rightarrow> pt_flags \<Rightarrow> nat \<Rightarrow> nat \<Rightarrow> bool" where
  "translates vw fl v a \<longleftrightarrow> vw (v - v mod 4096) = Some (a - a mod 4096, fl) \<and> v mod 4096 = a mod 4096"

lemma window_translates:
  fixes start first a :: nat
  assumes "4096 dvd start" and "first = a - a mod 4096"
    and pages: "\<And>j. j \<le> n \<Longrightarrow> vw (start + 4096 * j) = Some (first + 4096 * j, fl)"
    and k: "a mod 4096 + k < 4096 * Suc n"
  shows "translates vw fl (start + a mod 4096 + k) (a + k)"
proof -
  define o' where "o' = a mod 4096 + k"
  have a: "a + k = first + o'" using assms(2) by (simp add: o'_def)
  have d: "4096 dvd first" using assms(2) by (simp add: minus_mod_eq_mult_div)
  have pg: "(b + o') - (b + o') mod 4096 = b + 4096 * (o' div 4096)" and md: "(b + o') mod 4096 = o' mod 4096"
    if "4096 dvd b" for b :: nat
  proof -
    from that show md: "(b + o') mod 4096 = o' mod 4096" by (auto elim: dvdE)
    show "(b + o') - (b + o') mod 4096 = b + 4096 * (o' div 4096)"
      unfolding md by (simp add: minus_mod_eq_mult_div [symmetric])
  qed
  have "o' div 4096 \<le> n" using k by (simp add: o'_def less_mult_imp_div_less less_Suc_eq_le [symmetric] mult.commute)
  then show ?thesis using pages a pg [OF assms(1)] pg [OF d] md [OF assms(1)] md [OF d]
    by (simp add: translates_def o'_def [symmetric] add.assoc)
qed

definition slot_taken :: "nat \<Rightarrow> 'm tracked_mapper \<Rightarrow> 'm tracked_mapper \<Rightarrow> bool" where
  "slot_taken i tm tm' \<longleftrightarrow>
     i = Max (free_slots tm) \<and> free_slots tm \<noteq> {} \<and> tm_wf tm' \<and> free_slots tm' = free_slots tm - {i}
     \<and> tm_level tm' = tm_level tm"

lemma free_slots_inner [simp]: "free_slots (tm\<lparr>tm_inner := t\<rparr>) = free_slots tm"
  by (simp add: free_slots_def)

lemma tm_wf_inner [simp]: "tm_wf (tm\<lparr>tm_inner := t\<rparr>) = tm_wf tm"
  by (simp add: tm_wf_def)

lemma slot_taken_inner:
  assumes "marked {i} tm tm1" and "i = Max (free_slots tm)" and "free_slots tm \<noteq> {}"
    and "tm' = tm1\<lparr>tm_inner := t\<rparr>"
  shows "slot_taken i tm tm'"
  using assms by (simp add: slot_taken_def marked_def)

lemma p4_base_dvd: "4096 dvd p4_base i"
proof -
  have "4096 dvd i * 549755813888" by (rule dvd_mult) simp
  moreover have "4096 dvd sign_ext" by simp
  ultimately show ?thesis by (simp add: p4_base_def)
qed

lemma canonical_slot: "256 \<le> i \<Longrightarrow> i < 511 \<Longrightarrow> d \<le> 549755813888 \<Longrightarrow> canonical (p4_base i + d)"
  by (simp add: canonical_def p4_base_def)

locale boot_maps =
  fixes E :: "'m boot_env" and view :: "'m \<Rightarrow> nat \<Rightarrow> (nat \<times> pt_flags) option"
  assumes x: "x86_laws (be_x E)"
    and m: "mapper_laws (be_m E) view"
    and new_table: "view (be_new_table E f) = Map.empty"
begin

lemma boot_map_to_ok:
  assumes "boot_map_to E msg fl p f (tm, al) = Inr (tm', al')" and "PRESENT \<in> fl"
  shows "view (tm_inner tm) p = None \<and> view (tm_inner tm') = (view (tm_inner tm))(p \<mapsto> (f, fl))
     \<and> tm' = tm\<lparr>tm_inner := tm_inner tm'\<rparr> \<and> alloc_reach (be_alloc E) al al'"
proof -
  from assms(1) obtain m' where step: "map_to (be_m E) (be_alloc E) (tm_inner tm) al p f fl = Inr (Inr (), m', al')"
    and tm': "tm' = tm\<lparr>tm_inner := m'\<rparr>"
    by (auto simp: boot_map_to_def run_simps)
  from mapper_laws.map_to_ok [OF m step assms(2)] mapper_laws.map_to_reach [OF m step] tm'
  show ?thesis by simp
qed

lemma map_offset_ok:
  assumes "map_offset E msg fl start first frames (tm, al) = Inr (tm', al')" and "PRESENT \<in> fl"
    and "\<forall>f\<in>set frames. canonical (start + 4096 * ((f - first) div 4096))"
  shows "(\<forall>f\<in>set frames. view (tm_inner tm') (start + 4096 * ((f - first) div 4096)) = Some (f, fl))
     \<and> (\<forall>p. p \<notin> (\<lambda>f. start + 4096 * ((f - first) div 4096)) ` set frames \<longrightarrow>
          view (tm_inner tm') p = view (tm_inner tm) p)
     \<and> (\<forall>p. view (tm_inner tm) p \<noteq> None \<longrightarrow> view (tm_inner tm') p = view (tm_inner tm) p)
     \<and> tm' = tm\<lparr>tm_inner := tm_inner tm'\<rparr> \<and> alloc_reach (be_alloc E) al al'"
  using assms(1,3)
proof (induction frames arbitrary: tm al)
  case Nil
  then show ?case by (auto intro: reach_refl)
next
  case (Cons f frames)
  let ?p = "start + 4096 * ((f - first) div 4096)"
  have "VirtAddr_add (be_x E) start (4096 * ((f - first) div 4096)) = Inr ?p"
    by (rule x86_laws.VirtAddr_add_ok [OF x]) (use Cons.prems in simp)
  with Cons.prems(1) obtain tm1 al1 where step: "boot_map_to E msg fl ?p f (tm, al) = Inr (tm1, al1)"
    and rest: "map_offset E msg fl start first frames (tm1, al1) = Inr (tm', al')"
    by (auto simp: run_simps)
  note one = boot_map_to_ok [OF step assms(2)]
  let ?ps = "(\<lambda>f. start + 4096 * ((f - first) div 4096)) ` set frames"
  have IH: "\<forall>f\<in>set frames. view (tm_inner tm') (start + 4096 * ((f - first) div 4096)) = Some (f, fl)"
    and frame: "\<forall>p. p \<notin> ?ps \<longrightarrow> view (tm_inner tm') p = view (tm_inner tm1) p"
    and keep: "\<forall>p. view (tm_inner tm1) p \<noteq> None \<longrightarrow> view (tm_inner tm') p = view (tm_inner tm1) p"
    and same: "tm' = tm1\<lparr>tm_inner := tm_inner tm'\<rparr>" and reach: "alloc_reach (be_alloc E) al1 al'"
    using Cons.IH [OF rest] Cons.prems(2) by simp_all
  have p: "view (tm_inner tm') ?p = Some (f, fl)" using keep one by simp
  have "alloc_reach (be_alloc E) al al'" by (rule alloc_reach_trans [OF reach]) (use one in simp)
  moreover have "tm' = tm\<lparr>tm_inner := tm_inner tm'\<rparr>"
    using same one by (metis tracked_mapper.update_convs(1) tracked_mapper.surjective)
  moreover have "view (tm_inner tm') q = view (tm_inner tm) q" if "q \<notin> insert ?p ?ps" for q
    using frame one that by simp
  moreover have "view (tm_inner tm') q = view (tm_inner tm) q" if "view (tm_inner tm) q \<noteq> None" for q
  proof -
    from that one have "q \<noteq> ?p" by auto
    with that one keep show ?thesis by simp
  qed
  ultimately show ?case using IH p by simp
qed

lemma window_mapped:
  assumes "map_offset E msg fl start first (range_list 4096 first l) (tm, al) = Inr (tm', al')"
    and "PRESENT \<in> fl" and "4096 dvd start" and "first = a - a mod 4096" and "4096 dvd l"
    and "first \<le> l" and "a + len \<le> l + 4096" and can: "\<And>d. d \<le> l - first \<Longrightarrow> canonical (start + d)"
  shows "(\<forall>k<len. translates (view (tm_inner tm')) fl (start + a mod 4096 + k) (a + k))
     \<and> (\<forall>p. view (tm_inner tm) p \<noteq> None \<longrightarrow> view (tm_inner tm') p = view (tm_inner tm) p)
     \<and> tm' = tm\<lparr>tm_inner := tm_inner tm'\<rparr> \<and> alloc_reach (be_alloc E) al al'"
proof -
  let ?n = "(l - first) div 4096"
  have d: "4096 dvd first" using assms(4) by (simp add: minus_mod_eq_mult_div)
  have mem: "\<exists>j. f = first + 4096 * j \<and> 4096 * j \<le> l - first" if "f \<in> set (range_list 4096 first l)" for f
  proof -
    from that set_range_list [OF _ d assms(5)] have "first \<le> f" "f \<le> l" "4096 dvd f" by auto
    with d have "4096 dvd f - first" by simp
    then obtain j where "f - first = 4096 * j" by (elim dvdE)
    with \<open>first \<le> f\<close> \<open>f \<le> l\<close> show ?thesis by (intro exI [of _ j]) auto
  qed
  have "\<forall>f\<in>set (range_list 4096 first l). canonical (start + 4096 * ((f - first) div 4096))"
    using mem can by fastforce
  note ok = map_offset_ok [OF assms(1,2) this]
  have "translates (view (tm_inner tm')) fl (start + a mod 4096 + k) (a + k)" if "k < len" for k
  proof (rule window_translates [OF assms(3,4)])
    have "a = first + a mod 4096" using assms(4) by simp
    moreover have "4096 * ?n = l - first" using d assms(5) by (simp add: dvd_mult_div_cancel)
    ultimately show "a mod 4096 + k < 4096 * Suc ?n" using that assms(6,7) by simp
    fix j assume j: "j \<le> ?n"
    then have "first + 4096 * j \<in> set (range_list 4096 first l)"
      using assms(6) by (auto simp: range_list_def simp del: upt_Suc)
    with ok have "view (tm_inner tm') (start + 4096 * ((first + 4096 * j - first) div 4096))
        = Some (first + 4096 * j, fl)" by blast
    then show "view (tm_inner tm') (start + 4096 * j) = Some (first + 4096 * j, fl)" by simp
  qed
  with ok show ?thesis by blast
qed

text \<open>The framebuffer's loop counts frames; on consecutive frames that is the same loop.\<close>

lemma map_enumerated_eq:
  "map_enumerated E msg fl start idx (map (\<lambda>k. first + 4096 * k) [idx ..< n]) st
     = map_offset E msg fl start first (map (\<lambda>k. first + 4096 * k) [idx ..< n]) st"
proof (induction "n - idx" arbitrary: idx st)
  case (Suc d)
  then have u: "[idx ..< n] = idx # [Suc idx ..< n]" by (simp add: upt_conv_Cons)
  from Suc have "map_enumerated E msg fl start (Suc idx) (map (\<lambda>k. first + 4096 * k) [Suc idx ..< n])
      = map_offset E msg fl start first (map (\<lambda>k. first + 4096 * k) [Suc idx ..< n])" by (intro ext) simp
  then show ?case unfolding u by simp
qed simp

lemma map_enumerated_range:
  "map_enumerated E msg fl start 0 (range_list 4096 first l) st
     = map_offset E msg fl start first (range_list 4096 first l) st"
  by (simp add: range_list_def map_enumerated_eq del: upt_Suc)

subsection \<open>Slots\<close>

lemma take_slot_ok:
  assumes "take_slot E msg expected sz tm = Inr (i, tm')" and "tm_wf tm" and "tm_level tm = LevelFour"
    and "0 < sz" and "sz \<le> 549755813888"
  shows "i = expected \<and> free_slots tm \<noteq> {} \<and> i = Max (free_slots tm) \<and> marked {i} tm tm' \<and> i < 512"
proof -
  have tot: "total_available_mem_size tm = 549755813888"
    using assms(3) by (simp add: total_available_mem_size_def PTE_COUNT_PER_PT_def)
  have exp: "expected < 512 \<and> i = expected"
    using assms(1) by (auto simp: take_slot_def run_simps x86_laws.PageTableIndex_new_eq_Inr [OF x])
  have spec: "if free_slots tm = {} then find_free_space_and_mark (be_x E) tm sz True = Inr (None, tm)
     else \<exists>tm'. find_free_space_and_mark (be_x E) tm sz True = Inr (Some (Max (free_slots tm), 1), tm')
       \<and> marked {Max (free_slots tm)} tm tm'"
    using find_one_slot_spec [OF x assms(2,4), of True] assms(5) tot
    by (cases "free_slots tm = {}") (simp_all add: Let_def)
  show ?thesis
  proof (cases "free_slots tm = {}")
    case True
    with spec assms(1) show ?thesis by (simp add: take_slot_def)
  next
    case False
    with spec obtain tm1 where "find_free_space_and_mark (be_x E) tm sz True = Inr (Some (Max (free_slots tm), 1), tm1)"
      "marked {Max (free_slots tm)} tm tm1" by auto
    with assms(1) False exp show ?thesis by (auto simp: take_slot_def run_simps)
  qed
qed

lemma start_page: "i < 512 \<Longrightarrow> page_containing (be_x E) (page_from_indices_1gib (be_x E) i 0) = p4_base i"
  using p4_base_dvd [of i]
  by (simp add: x86_laws.page_containing_eq [OF x] x86_laws.page_from_indices_1gib_eq [OF x] dvd_eq_mod_eq_0)

lemma frame_bounds:
  "frame_containing (be_x E) a = a - a mod 4096" "4096 dvd frame_containing (be_x E) a"
  "frame_containing (be_x E) a \<le> a" "a < frame_containing (be_x E) a + 4096"
  using x86_laws.frame_containing_eq [OF x] x86_laws.frame_containing_dvd [OF x]
    x86_laws.frame_containing_bounds [OF x] by auto

text \<open>The part the three windows share: the frames that hold \<open>a .. e\<close> are mapped from the start
  of slot \<open>i\<close>.\<close>

lemma slot_window:
  assumes "take_slot E msg i sz tm = Inr (j, tm1)" and "tm_wf tm" and "tm_level tm = LevelFour"
    and "0 < sz" and "sz \<le> 549755813888" and "256 \<le> i" and "i < 511" and "PRESENT \<in> fl"
    and "map_offset E msg' fl (p4_base j) (frame_containing (be_x E) a)
           (range_list 4096 (frame_containing (be_x E) a) (frame_containing (be_x E) e)) (tm1, al) = Inr (tm', al')"
    and "a + len \<le> e + 1" and "a \<le> e" and "e - frame_containing (be_x E) a \<le> 549755813888"
  shows "(\<forall>k<len. translates (view (tm_inner tm')) fl (p4_base i + a mod 4096 + k) (a + k))
     \<and> (\<forall>p. view (tm_inner tm) p \<noteq> None \<longrightarrow> view (tm_inner tm') p = view (tm_inner tm) p)
     \<and> slot_taken i tm tm' \<and> alloc_reach (be_alloc E) al al'"
proof -
  note slot = take_slot_ok [OF assms(1-5)]
  have inner: "tm_inner tm1 = tm_inner tm" using slot by (simp add: marked_def)
  let ?f = "frame_containing (be_x E) a" and ?l = "frame_containing (be_x E) e"
  have le: "?f \<le> ?l" using assms(11) div_le_mono [of a e 4096]
    by (simp add: frame_bounds(1) minus_mod_eq_mult_div)
  have "a + len \<le> ?l + 4096" using assms(10) frame_bounds(4) [of e] by simp
  moreover have "canonical (p4_base j + d)" if "d \<le> ?l - ?f" for d
    using slot that assms(6,7,12) frame_bounds(3) [of e] by (intro canonical_slot) auto
  ultimately have w: "(\<forall>k<len. translates (view (tm_inner tm')) fl (p4_base j + a mod 4096 + k) (a + k))
     \<and> (\<forall>p. view (tm_inner tm1) p \<noteq> None \<longrightarrow> view (tm_inner tm') p = view (tm_inner tm1) p)
     \<and> tm' = tm1\<lparr>tm_inner := tm_inner tm'\<rparr> \<and> alloc_reach (be_alloc E) al al'"
    by (intro window_mapped [OF assms(9,8) p4_base_dvd frame_bounds(1) frame_bounds(2) le])
  moreover have "slot_taken i tm tm'"
    by (rule slot_taken_inner [of _ _ tm1 _ "tm_inner tm'"]) (use slot w in auto)
  ultimately show ?thesis using slot inner by simp
qed

lemma map_bootstrap_ok:
  assumes "map_bootstrap E a len (tm, al) = Inr (v, tm', al')" and "tm_wf tm"
    and "tm_level tm = LevelFour" and "len + 4096 \<le> 549755813888"
  shows "v = p4_base 510 + a mod 4096 \<and> (\<forall>k<len. translates (view (tm_inner tm')) {PRESENT} (v + k) (a + k))
     \<and> (\<forall>p. view (tm_inner tm) p \<noteq> None \<longrightarrow> view (tm_inner tm') p = view (tm_inner tm) p)
     \<and> slot_taken 510 tm tm' \<and> alloc_reach (be_alloc E) al al'"
proof -
  let ?f = "frame_containing (be_x E) a"
  from assms(1) obtain i tm1 where
    slot: "take_slot E ''failed to get available pml4 entry for KernelArg, maybe it run out'' 510 len tm = Inr (i, tm1)"
    and len: "0 < len" and loop: "map_offset E ''failed to identity map new allocated bootstrap.'' {PRESENT}
      (page_containing (be_x E) (page_from_indices_1gib (be_x E) i 0)) ?f
      (range_list 4096 ?f (frame_containing (be_x E) (a + len))) (tm1, al) = Inr (tm', al')"
    and v: "VirtAddr_add (be_x E) (page_containing (be_x E) (page_from_indices_1gib (be_x E) i 0)) (a - ?f) = Inr v"
    by (auto simp: map_bootstrap_def Let_def run_simps p4_slots x86_laws.PhysAddr_new_eq_Inr [OF x]
        x86_laws.PhysAddr_add_eq_Inr [OF x] split: if_splits)
  have i: "i = 510" using take_slot_ok [OF slot assms(2,3) len] assms(4) by simp
  have sp: "page_containing (be_x E) (page_from_indices_1gib (be_x E) i 0) = p4_base 510"
    using start_page [of 510] i by simp
  have "(\<forall>k<len. translates (view (tm_inner tm')) {PRESENT} (p4_base 510 + a mod 4096 + k) (a + k))
     \<and> (\<forall>p. view (tm_inner tm) p \<noteq> None \<longrightarrow> view (tm_inner tm') p = view (tm_inner tm) p)
     \<and> slot_taken 510 tm tm' \<and> alloc_reach (be_alloc E) al al'"
    by (rule slot_window [OF slot assms(2,3) len _ _ _ _ loop [unfolded sp i [symmetric]]])
       (use assms(4) len frame_bounds [of a] i in auto)
  moreover have "v = p4_base 510 + a mod 4096"
  proof -
    have "a - ?f = a mod 4096" by (simp add: frame_bounds(1))
    moreover have "canonical (p4_base 510 + a mod 4096)"
      by (rule canonical_slot) (use mod_less_divisor [of 4096 a] in auto)
    ultimately show ?thesis using v x86_laws.VirtAddr_add_ok [OF x] by (simp add: sp)
  qed
  ultimately show ?thesis by simp
qed

lemma map_framebuffer_ok:
  assumes "map_framebuffer E a len (tm, al) = Inr (v, tm', al')" and "tm_wf tm"
    and "tm_level tm = LevelFour" and "len + 4096 \<le> 549755813888"
  shows "v = p4_base 508 + a mod 4096
     \<and> (\<forall>k<len. translates (view (tm_inner tm')) {PRESENT, WRITABLE} (v + k) (a + k))
     \<and> (\<forall>p. view (tm_inner tm) p \<noteq> None \<longrightarrow> view (tm_inner tm') p = view (tm_inner tm) p)
     \<and> slot_taken 508 tm tm' \<and> alloc_reach (be_alloc E) al al'"
proof -
  let ?f = "frame_containing (be_x E) a"
  from assms(1) obtain i tm1 where
    slot: "take_slot E ''failed to get available pml4 entry for framebuffer, maybe it run out'' 508 len tm = Inr (i, tm1)"
    and len: "0 < len" and loop: "map_offset E ''failed to map new allocated physics frame to kernel stack page.''
      {PRESENT, WRITABLE} (page_containing (be_x E) (page_from_indices_1gib (be_x E) i 0)) ?f
      (range_list 4096 ?f (frame_containing (be_x E) (a + len - 1))) (tm1, al) = Inr (tm', al')"
    and v: "VirtAddr_add (be_x E) (page_containing (be_x E) (page_from_indices_1gib (be_x E) i 0)) (a mod 4096) = Inr v"
    by (auto simp: map_framebuffer_def Let_def run_simps p4_slots map_enumerated_range
        x86_laws.PhysAddr_new_eq_Inr [OF x] x86_laws.PhysAddr_add_eq_Inr [OF x]
        x86_laws.PhysAddr_sub_eq_Inr [OF x] split: if_splits)
  have i: "i = 508" using take_slot_ok [OF slot assms(2,3) len] assms(4) by simp
  have sp: "page_containing (be_x E) (page_from_indices_1gib (be_x E) i 0) = p4_base 508"
    using start_page [of 508] i by simp
  have "(\<forall>k<len. translates (view (tm_inner tm')) {PRESENT, WRITABLE} (p4_base 508 + a mod 4096 + k) (a + k))
     \<and> (\<forall>p. view (tm_inner tm) p \<noteq> None \<longrightarrow> view (tm_inner tm') p = view (tm_inner tm) p)
     \<and> slot_taken 508 tm tm' \<and> alloc_reach (be_alloc E) al al'"
    by (rule slot_window [OF slot assms(2,3) len _ _ _ _ loop [unfolded sp i [symmetric]]])
       (use assms(4) len frame_bounds [of a] i in auto)
  moreover have "canonical (p4_base 508 + a mod 4096)"
    by (rule canonical_slot) (use mod_less_divisor [of 4096 a] in auto)
  then have "v = p4_base 508 + a mod 4096" using v x86_laws.VirtAddr_add_ok [OF x] by (simp add: sp)
  ultimately show ?thesis by simp
qed

lemma map_kernel_arg_ok:
  assumes "map_kernel_arg E a len arg (tm, al) = Inr (v, arg', tm', al')" and "tm_wf tm"
    and "tm_level tm = LevelFour" and "0 < len" and "len + 4096 \<le> 549755813888"
  shows "v = p4_base 507 + a mod 4096 \<and> (\<forall>k<len. translates (view (tm_inner tm')) {PRESENT} (v + k) (a + k))
     \<and> (\<forall>p. view (tm_inner tm) p \<noteq> None \<longrightarrow> view (tm_inner tm') p = view (tm_inner tm) p)
     \<and> slot_taken 507 tm tm' \<and> alloc_reach (be_alloc E) al al'
     \<and> (\<exists>r arg1 arg2. allocated_region al' = Inr r
          \<and> push_region \<lparr>mr_start = a, mr_length = len, mr_kind = Bootloader\<rparr> arg = Inr arg1
          \<and> push_region r arg1 = Inr arg2 \<and> sort_regions arg2 = Inr arg')"
proof -
  let ?f = "frame_containing (be_x E) a"
  from assms(1,4) obtain i tm1 where
    slot: "take_slot E ''failed to get available pml4 entry for KernelArg, maybe it run out'' 507 len tm = Inr (i, tm1)"
    and loop: "map_offset E ''failed to identity map new allocated kernel arg.'' {PRESENT}
      (page_containing (be_x E) (page_from_indices_1gib (be_x E) i 0)) ?f
      (range_list 4096 ?f (frame_containing (be_x E) (a + len - 1))) (tm1, al) = Inr (tm', al')"
    and v: "VirtAddr_add (be_x E) (page_containing (be_x E) (page_from_indices_1gib (be_x E) i 0)) (a mod 4096) = Inr v"
    and regions: "\<exists>r arg1 arg2. allocated_region al' = Inr r
          \<and> push_region \<lparr>mr_start = a, mr_length = len, mr_kind = Bootloader\<rparr> arg = Inr arg1
          \<and> push_region r arg1 = Inr arg2 \<and> sort_regions arg2 = Inr arg'"
    by (auto simp: map_kernel_arg_def Let_def run_simps p4_slots x86_laws.PhysAddr_new_eq_Inr [OF x])
  have i: "i = 507" using take_slot_ok [OF slot assms(2-4)] assms(5) by simp
  have sp: "page_containing (be_x E) (page_from_indices_1gib (be_x E) i 0) = p4_base 507"
    using start_page [of 507] i by simp
  have "(\<forall>k<len. translates (view (tm_inner tm')) {PRESENT} (p4_base 507 + a mod 4096 + k) (a + k))
     \<and> (\<forall>p. view (tm_inner tm) p \<noteq> None \<longrightarrow> view (tm_inner tm') p = view (tm_inner tm) p)
     \<and> slot_taken 507 tm tm' \<and> alloc_reach (be_alloc E) al al'"
    by (rule slot_window [OF slot assms(2-4) _ _ _ _ loop [unfolded sp i [symmetric]]])
       (use assms(4,5) frame_bounds [of a] i in auto)
  moreover have "canonical (p4_base 507 + a mod 4096)"
    by (rule canonical_slot) (use mod_less_divisor [of 4096 a] in auto)
  then have "v = p4_base 507 + a mod 4096" using v x86_laws.VirtAddr_add_ok [OF x] by (simp add: sp)
  ultimately show ?thesis using regions by simp
qed

subsection \<open>The allocator behind the mappings\<close>

lemma boot_reach:
  assumes "alloc_reach (be_alloc E) al al'" and "bf_wf al"
  shows "bf_wf al' \<and> bf_next_frame al \<le> bf_next_frame al' \<and> bf_original al' = bf_original al
     \<and> bf_start_phys_addr al' = bf_start_phys_addr al"
  using assms
proof (induction rule: alloc_reach.induct)
  case (reach_step s s' r s'')
  then have wf: "bf_wf s'" by simp
  from boot_allocate_frame_post [OF x wf reach_step.hyps(2)] reach_step show ?case
    by (auto simp: bf_post_def)
qed simp

lemma map_new_frames_ok:
  assumes "map_new_frames E fl pages (tm, al) = Inr (tm', al')" and "PRESENT \<in> fl" and "bf_wf al"
  shows "\<exists>fs. length fs = length pages \<and> sorted_wrt (\<lambda>a b. a + 4096 \<le> b) fs
     \<and> (\<forall>f\<in>set fs. 4096 dvd f \<and> bf_next_frame al \<le> f \<and> block f 4096 \<subseteq> usable_bytes al)
     \<and> (\<forall>j<length pages. view (tm_inner tm') (pages ! j) = Some (fs ! j, fl))
     \<and> (\<forall>p. view (tm_inner tm) p \<noteq> None \<longrightarrow> view (tm_inner tm') p = view (tm_inner tm) p)
     \<and> tm' = tm\<lparr>tm_inner := tm_inner tm'\<rparr> \<and> alloc_reach (be_alloc E) al al'"
  using assms(1,3)
proof (induction pages arbitrary: tm al)
  case Nil
  then show ?case by (auto intro: reach_refl)
next
  case (Cons p pages)
  from Cons.prems(1) obtain f al1 tm2 al2 where alloc: "be_alloc E al = Inr (Some f, al1)"
    and step: "boot_map_to E ''failed to map new allocated physics frame to kernel stack page.'' fl p f (tm, al1)
      = Inr (tm2, al2)"
    and rest: "map_new_frames E fl pages (tm2, al2) = Inr (tm', al')"
    by (auto simp: run_simps)
  have post: "bf_post al (Some f) al1" by (rule boot_allocate_frame_post [OF x Cons.prems(2) alloc])
  then have f: "bf_wf al1" "bf_next_frame al1 = f + 4096" "bf_next_frame al \<le> f" "4096 dvd f"
    "block f 4096 \<subseteq> usable_bytes al" "usable_bytes al1 = usable_bytes al"
    by (auto simp: bf_post_def usable_bytes_def)
  note one = boot_map_to_ok [OF step assms(2)]
  have r2: "bf_wf al2" "f + 4096 \<le> bf_next_frame al2" "usable_bytes al2 = usable_bytes al"
    using boot_reach [of al1 al2] one f by (auto simp: usable_bytes_def)
  from Cons.IH [OF rest r2(1)] obtain fs where fs: "length fs = length pages"
    "sorted_wrt (\<lambda>a b. a + 4096 \<le> b) fs"
    "\<forall>g\<in>set fs. 4096 dvd g \<and> bf_next_frame al2 \<le> g \<and> block g 4096 \<subseteq> usable_bytes al2"
    "\<forall>j<length pages. view (tm_inner tm') (pages ! j) = Some (fs ! j, fl)"
    and keep: "\<forall>q. view (tm_inner tm2) q \<noteq> None \<longrightarrow> view (tm_inner tm') q = view (tm_inner tm2) q"
    and same: "tm' = tm2\<lparr>tm_inner := tm_inner tm'\<rparr>" and reach: "alloc_reach (be_alloc E) al2 al'"
    by blast
  have "view (tm_inner tm') p = Some (f, fl)" using keep one by simp
  then have "\<forall>j<length (p # pages). view (tm_inner tm') ((p # pages) ! j) = Some ((f # fs) ! j, fl)"
    using fs(4) by (auto simp: nth_Cons split: nat.splits)
  moreover have "\<forall>g\<in>set (f # fs). 4096 dvd g \<and> bf_next_frame al \<le> g \<and> block g 4096 \<subseteq> usable_bytes al"
    using fs(3) f r2 by fastforce
  moreover have "sorted_wrt (\<lambda>a b. a + 4096 \<le> b) (f # fs)" using fs(2,3) r2(2) by fastforce
  moreover have "view (tm_inner tm') q = view (tm_inner tm) q" if "view (tm_inner tm) q \<noteq> None" for q
  proof -
    from that one have "q \<noteq> p" by auto
    with that one keep show ?thesis by simp
  qed
  moreover have "tm' = tm\<lparr>tm_inner := tm_inner tm'\<rparr>"
    using same one by (metis tracked_mapper.update_convs(1) tracked_mapper.surjective)
  moreover have "alloc_reach (be_alloc E) al al'"
  proof (rule alloc_reach_trans [OF reach])
    have "alloc_reach (be_alloc E) al al1" by (rule reach_step, rule reach_refl, rule alloc)
    with one show "alloc_reach (be_alloc E) al al2" using alloc_reach_trans by metis
  qed
  ultimately show ?case using fs(1) by (intro exI [of _ "f # fs"]) simp
qed

lemma kernel_stack_ok:
  assumes "alloc_and_map_kernel_stack E sz (tm, al) = Inr (v, tm', al')" and "tm_wf tm"
    and "tm_level tm = LevelFour" and "bf_wf al" and "sz + 8192 \<le> 549755813888"
  shows "v = p4_base 509 + 4096
     \<and> (\<exists>fs. sorted_wrt (\<lambda>a b. a + 4096 \<le> b) fs \<and> (\<forall>f\<in>set fs. 4096 dvd f \<and> block f 4096 \<subseteq> usable_bytes al)
          \<and> (\<forall>j<length fs. view (tm_inner tm') (p4_base 509 + 4096 * j) = Some (fs ! j, {PRESENT, WRITABLE}))
          \<and> sz + 4096 \<le> 4096 * length fs)
     \<and> (\<forall>p. view (tm_inner tm) p \<noteq> None \<longrightarrow> view (tm_inner tm') p = view (tm_inner tm) p)
     \<and> slot_taken 509 tm tm' \<and> alloc_reach (be_alloc E) al al'"
proof -
  let ?b = "p4_base 509"
  have can: "canonical (?b + d)" if "d \<le> 549755813888" for d by (rule canonical_slot) (use that in auto)
  have tot: "add64 sz 4096 = Inr (sz + 4096)" using assms(5) by simp
  from assms(1) obtain i tm1 where slot: "take_slot E
      ''failed to get available pml4 entry for kernel stack, maybe it run out'' 509 (sz + 4096) tm = Inr (i, tm1)"
    by (auto simp: alloc_and_map_kernel_stack_def tot p4_slots and_then_eq_Inr)
  note s = take_slot_ok [OF slot assms(2,3)]
  have i: "i = 509" "marked {509} tm tm1" "509 = Max (free_slots tm)" "free_slots tm \<noteq> {}"
    using s assms(5) by auto
  have sp: "page_containing (be_x E) (page_from_indices_1gib (be_x E) 509 0) = ?b" by (rule start_page) simp
  define l where "l = ?b + sz + 4095 - (?b + sz + 4095) mod 4096"
  have e1: "VirtAddr_add (be_x E) ?b (sz + 4096) = Inr (?b + (sz + 4096))"
    by (rule x86_laws.VirtAddr_add_ok [OF x can]) (use assms(5) in simp)
  have eq: "?b + (sz + 4096) - 1 = ?b + sz + 4095" by simp
  have "canonical (?b + sz + 4095)" using can [of "sz + 4095"] assms(5) by (simp add: add.assoc)
  then have e2: "VirtAddr_sub (be_x E) (?b + (sz + 4096)) 1 = Inr (?b + sz + 4095)"
    using x86_laws.VirtAddr_sub_ok [OF x, of 1 "?b + (sz + 4096)", unfolded eq] by simp
  have e3: "VirtAddr_add (be_x E) ?b 4096 = Inr (?b + 4096)" by (rule x86_laws.VirtAddr_add_ok [OF x can]) simp
  have pe: "page_containing (be_x E) (?b + sz + 4095) = l"
    by (simp add: l_def x86_laws.page_containing_eq [OF x])
  have loop: "map_new_frames E {PRESENT, WRITABLE} (range_list 4096 ?b l) (tm1, al) = Inr (tm', al')"
    and v: "v = ?b + 4096"
    using assms(1) slot i(1)
    by (auto simp: alloc_and_map_kernel_stack_def tot p4_slots Let_def sp e1 e2 [unfolded One_nat_def] e3 pe
        and_then_eq_Inr)
  have ge: "?b \<le> l" "?b + sz + 4096 \<le> l + 4096"
    using p4_base_dvd [of 509] unfolding l_def
    by (auto simp: le_diff_conv2 algebra_simps dest: mod_less_divisor)
  have "4096 dvd l" unfolding l_def by (simp add: minus_mod_eq_mult_div)
  then have n: "4096 * Suc ((l - ?b) div 4096) = l - ?b + 4096" using p4_base_dvd [of 509]
    by (simp add: dvd_mult_div_cancel)
  from map_new_frames_ok [OF loop _ assms(4)] obtain fs where fs:
    "length fs = length (range_list 4096 ?b l)" "sorted_wrt (\<lambda>a b. a + 4096 \<le> b) fs"
    "\<forall>f\<in>set fs. 4096 dvd f \<and> block f 4096 \<subseteq> usable_bytes al"
    "\<forall>j<length fs. view (tm_inner tm') (range_list 4096 ?b l ! j) = Some (fs ! j, {PRESENT, WRITABLE})"
    and keep: "\<forall>p. view (tm_inner tm1) p \<noteq> None \<longrightarrow> view (tm_inner tm') p = view (tm_inner tm1) p"
    and same: "tm' = tm1\<lparr>tm_inner := tm_inner tm'\<rparr>" and reach: "alloc_reach (be_alloc E) al al'"
    by auto
  have len: "length fs = Suc ((l - ?b) div 4096)" using fs(1) ge(1) by (simp add: length_range_list)
  have "\<forall>j<length fs. view (tm_inner tm') (?b + 4096 * j) = Some (fs ! j, {PRESENT, WRITABLE})"
    using fs(4) ge(1) len by (simp add: nth_range_list)
  moreover have "sz + 4096 \<le> 4096 * length fs" using len n ge by simp
  moreover have "slot_taken 509 tm tm'" by (rule slot_taken_inner [OF i(2-4) same])
  ultimately show ?thesis using v fs(2,3) keep reach i(2) by (auto simp: marked_def)
qed

lemma take_slot_returns:
  assumes "tm_wf tm" and "tm_level tm = LevelFour" and "0 < sz" and "sz \<le> 549755813888"
    and "free_slots tm \<noteq> {}" and "Max (free_slots tm) = i"
  shows "\<exists>tm1. take_slot E msg i sz tm = Inr (i, tm1) \<and> marked {i} tm tm1"
proof -
  have tot: "total_available_mem_size tm = 549755813888"
    using assms(2) by (simp add: total_available_mem_size_def PTE_COUNT_PER_PT_def)
  have "i \<in> free_slots tm" using assms(5,6) Max_in [OF finite_free_slots] by blast
  then have "i < 512" by (simp add: free_slots_def)
  moreover obtain tm1 where "find_free_space_and_mark (be_x E) tm sz True = Inr (Some (i, 1), tm1)"
    "marked {i} tm tm1"
    using find_one_slot_spec [OF x assms(1,3), of True] assms(4-6) tot by (auto simp: Let_def)
  ultimately show ?thesis
    by (simp add: take_slot_def x86_laws.PageTableIndex_new_ok [OF x])
qed

end

subsection \<open>The regions recorded for the kernel\<close>

definition live_regions :: "kernel_arg \<Rightarrow> memory_region list" where
  "live_regions arg = take (unav_phys_mem_regions_len arg) (unav_phys_mem_regions arg)"

lemma push_region_live:
  assumes "push_region r arg = Inr arg'"
  shows "live_regions arg' = live_regions arg @ [r]
     \<and> unav_phys_mem_regions_len arg' \<le> length (unav_phys_mem_regions arg')
     \<and> length (unav_phys_mem_regions arg') = length (unav_phys_mem_regions arg)"
  using assms by (auto simp: push_region_def run_simps live_regions_def take_Suc_conv_app_nth)

lemma sort_regions_live:
  assumes "sort_regions arg = Inr arg'" and "unav_phys_mem_regions_len arg \<le> length (unav_phys_mem_regions arg)"
  shows "live_regions arg' = sort_key mr_start (live_regions arg)
     \<and> arg' = arg\<lparr>unav_phys_mem_regions := unav_phys_mem_regions arg'\<rparr>"
  using assms by (auto simp: sort_regions_def Let_def live_regions_def)

lemma regions_recorded:
  assumes "push_region r1 arg = Inr arg1" and "push_region r2 arg1 = Inr arg2" and "sort_regions arg2 = Inr arg'"
  shows "sorted (map mr_start (live_regions arg')) \<and> set (live_regions arg') = insert r1 (insert r2 (set (live_regions arg)))"
proof -
  have "live_regions arg2 = live_regions arg @ [r1, r2]"
    and "unav_phys_mem_regions_len arg2 \<le> length (unav_phys_mem_regions arg2)"
    using push_region_live [OF assms(1)] push_region_live [OF assms(2)] by auto
  with sort_regions_live [OF assms(3)] show ?thesis by auto
qed

subsection \<open>The mappings on a concrete environment\<close>

definition model_env :: "(nat \<Rightarrow> (nat \<times> pt_flags) option) boot_env" where
  "model_env = \<lparr>be_x = x86_model, be_tag = (\<lambda>_. 0), be_m = map_mapper, be_new_table = (\<lambda>_. Map.empty)\<rparr>"

interpretation bootm: boot_maps model_env "\<lambda>m. m"
  by (rule boot_maps.intro)
     (simp_all add: model_env_def x86m.x86_laws_axioms mapm.mapper_laws_axioms)

lemma model_env_eval:
  "be_x model_env = x86_model" "be_tag model_env t = 0" "be_m model_env = map_mapper" "be_new_table model_env f = Map.empty"
  by (simp_all add: model_env_def)

definition slots_below :: "nat \<Rightarrow> (nat \<Rightarrow> (nat \<times> pt_flags) option) tracked_mapper" where
  "slots_below n = \<lparr>tm_inner = Map.empty, tm_level = LevelFour,
     used = replicate n False @ replicate (512 - n) True,
     first_available_index = 0, last_available_index = n - 1\<rparr>"

lemma slots_below_free:
  assumes "n \<le> 512"
  shows "free_slots (slots_below n) = {..<n}"
proof -
  have "used (slots_below n) ! i \<longleftrightarrow> n \<le> i" if "i < 512" for i
    using that by (cases "n \<le> i") (simp_all add: slots_below_def nth_append diff_less_mono)
  with assms show ?thesis by (auto simp: free_slots_def)
qed

lemma slots_below_wf:
  assumes "0 < n" and "n \<le> 512"
  shows "tm_wf (slots_below n)" and "Max (free_slots (slots_below n)) = n - 1"
    and "free_slots (slots_below n) \<noteq> {}" and "tm_level (slots_below n) = LevelFour"
proof -
  have mx: "Max {..<n} = n - 1" by (rule Max_eqI) (use assms(1) in auto)
  have mn: "Min {..<n} = 0" by (rule Min_eqI) (use assms(1) in auto)
  have ne: "{..<n} \<noteq> {}" using assms(1) by auto
  show "tm_wf (slots_below n)" unfolding tm_wf_def slots_below_free [OF assms(2)] mx mn
    using assms ne by (simp add: slots_below_def)
  show "Max (free_slots (slots_below n)) = n - 1" "free_slots (slots_below n) \<noteq> {}"
    using slots_below_free [OF assms(2)] mx ne by simp_all
  show "tm_level (slots_below n) = LevelFour" by (simp add: slots_below_def)
qed

subsection \<open>Properties\<close>

text \<open>C32. \<open>map_kernel_arg\<close>: every byte of the argument structure is mapped read-only in slot 507, at
  the returned virtual address plus its offset; mappings made before are untouched; and the list of
  unavailable regions the kernel will read is sorted by start address and holds exactly the
  earlier regions, the structure itself and the frames allocated up to that moment, including
  those taken for this very mapping.\<close>

theorem kernel_arg_mapped:
  assumes "boot_maps E view" and "tm_wf tm" and "tm_level tm = LevelFour" and "0 < len"
    and "len + 4096 \<le> 549755813888" and "map_kernel_arg E a len arg (tm, al) = Inr (v, arg', tm', al')"
  shows "(\<forall>k<len. translates (view (tm_inner tm')) {PRESENT} (v + k) (a + k))
     \<and> v = p4_base 507 + a mod 4096
     \<and> (\<forall>p. view (tm_inner tm) p \<noteq> None \<longrightarrow> view (tm_inner tm') p = view (tm_inner tm) p)
     \<and> sorted (map mr_start (live_regions arg'))
     \<and> (\<exists>r. allocated_region al' = Inr r \<and>
          set (live_regions arg') = {\<lparr>mr_start = a, mr_length = len, mr_kind = Bootloader\<rparr>, r} \<union> set (live_regions arg))"
proof -
  note ok = boot_maps.map_kernel_arg_ok [OF assms(1,6,2-5)]
  then obtain r arg1 arg2 where r: "allocated_region al' = Inr r"
    "push_region \<lparr>mr_start = a, mr_length = len, mr_kind = Bootloader\<rparr> arg = Inr arg1"
    "push_region r arg1 = Inr arg2" "sort_regions arg2 = Inr arg'" by blast
  note reg = regions_recorded [OF r(2-4)]
  show ?thesis
  proof (intro conjI)
    show "\<exists>r. allocated_region al' = Inr r \<and> set (live_regions arg') =
        {\<lparr>mr_start = a, mr_length = len, mr_kind = Bootloader\<rparr>, r} \<union> set (live_regions arg)"
      using reg r(1) by auto
  qed (use ok reg in blast)+
qed

definition sample_arg :: kernel_arg where
  "sample_arg = \<lparr>kernel_virt_space_offset = 0, gdt_start_addr = 0, kernel_pml4_start_addr = 0,
     acpi = acpi_settings_default, stack_top_addr = 0, stack_size = 0, framebuffer_addr = 0,
     framebuffer_len = 0, framebuffer_width = 0, framebuffer_height = 0, framebuffer_stride = 0,
     phys_mem_mapped_addr = 0, phys_mem_size = 0, unav_phys_mem_regions = replicate 512 memory_region_empty,
     unav_phys_mem_regions_len = 1, bootstrap_base = 0, bootstrap_len = 0,
     arg_tls_template = \<lparr>tls_start_virt_addr = 0, tls_mem_size = 0, tls_file_size = 0\<rparr>\<rparr>"

lemma sample_arg_run:
  "\<exists>v arg' tm'. map_kernel_arg model_env 0x5010 0x100 sample_arg
      (slots_below 508, new_starting_at 0x100000 sample_map) = Inr (v, arg', tm', new_starting_at 0x100000 sample_map)"
proof -
  obtain tm1 where slot: "take_slot model_env
      ''failed to get available pml4 entry for KernelArg, maybe it run out'' 507 0x100 (slots_below 508) = Inr (507, tm1)"
    and tm1: "tm_inner tm1 = Map.empty"
  proof -
    have "tm_inner (slots_below 508) = Map.empty" by (simp add: slots_below_def)
    moreover have "\<exists>tm1. take_slot model_env ''failed to get available pml4 entry for KernelArg, maybe it run out''
        507 0x100 (slots_below 508) = Inr (507, tm1) \<and> marked {507} (slots_below 508) tm1"
      by (rule bootm.take_slot_returns) (use slots_below_wf [of 508] in simp_all)
    ultimately show ?thesis using that by (auto simp: marked_def)
  qed
  have sp: "page_containing x86_model (page_from_indices_1gib x86_model 507 0) = p4_base 507"
    using bootm.start_page [of 507] by (simp add: model_env_def)
  have can: "canonical (p4_base 507)" "canonical (p4_base 507 + 16)"
    using canonical_slot [of 507 0] canonical_slot [of 507 16] by simp_all
  show ?thesis
    using slot tm1 sp can
    by (simp add: map_kernel_arg_def p4_slots Let_def) (simp add: model_env_def x86_model_def range_list_def
        boot_map_to_def map_mapper_def push_region_def sort_regions_def allocated_region_def new_starting_at_def
        sample_arg_def Let_def)
qed

theorem kernel_arg_mapped_witness:
  "\<exists>v arg' tm' al'. map_kernel_arg model_env 0x5010 0x100 sample_arg
       (slots_below 508, new_starting_at 0x100000 sample_map) = Inr (v, arg', tm', al')
     \<and> (\<forall>k<0x100. translates (tm_inner tm') {PRESENT} (v + k) (0x5010 + k))
     \<and> sorted (map mr_start (live_regions arg'))"
proof -
  obtain v arg' tm' where run: "map_kernel_arg model_env 0x5010 0x100 sample_arg
      (slots_below 508, new_starting_at 0x100000 sample_map) = Inr (v, arg', tm', new_starting_at 0x100000 sample_map)"
    using sample_arg_run by blast
  have "tm_wf (slots_below 508)" "tm_level (slots_below 508) = LevelFour" using slots_below_wf [of 508] by simp_all
  from kernel_arg_mapped [OF bootm.boot_maps_axioms this _ _ run] run show ?thesis by auto
qed

text \<open>\<open>alloc_and_map_kernel_stack\<close>: slot 509 is taken, and the pages from its start up to the end
  of the stack are mapped writable onto frames that are pairwise disjoint, page aligned and
  inside usable memory; the returned base lies one page above the start of the slot; mappings
  made before are untouched.\<close>

theorem kernel_stack_mapped:
  assumes "boot_maps E view" and "tm_wf tm" and "tm_level tm = LevelFour" and "bf_wf al"
    and "sz + 8192 \<le> 549755813888" and "alloc_and_map_kernel_stack E sz (tm, al) = Inr (v, tm', al')"
  shows "v = p4_base 509 + 4096 \<and> free_slots tm' = free_slots tm - {509}
     \<and> (\<exists>fs. sorted_wrt (\<lambda>a b. a + 4096 \<le> b) fs \<and> (\<forall>f\<in>set fs. 4096 dvd f \<and> block f 4096 \<subseteq> usable_bytes al)
          \<and> (\<forall>j<length fs. view (tm_inner tm') (p4_base 509 + 4096 * j) = Some (fs ! j, {PRESENT, WRITABLE}))
          \<and> sz + 4096 \<le> 4096 * length fs)
     \<and> (\<forall>p. view (tm_inner tm) p \<noteq> None \<longrightarrow> view (tm_inner tm') p = view (tm_inner tm) p)"
  using boot_maps.kernel_stack_ok [OF assms(1,6,2-5)] unfolding slot_taken_def by blast

lemma sample_stack_run:
  "\<exists>v tm' al'. alloc_and_map_kernel_stack model_env 0x1000 (slots_below 510, new_starting_at 0x100000 sample_map)
      = Inr (v, tm', al')"
proof -
  obtain tm1 where slot: "take_slot model_env
      ''failed to get available pml4 entry for kernel stack, maybe it run out'' 509 0x2000 (slots_below 510) = Inr (509, tm1)"
    and tm1: "tm_inner tm1 = Map.empty"
  proof -
    have "tm_inner (slots_below 510) = Map.empty" by (simp add: slots_below_def)
    moreover have "\<exists>tm1. take_slot model_env ''failed to get available pml4 entry for kernel stack, maybe it run out''
        509 0x2000 (slots_below 510) = Inr (509, tm1) \<and> marked {509} (slots_below 510) tm1"
      by (rule bootm.take_slot_returns) (use slots_below_wf [of 510] in simp_all)
    ultimately show ?thesis using that by (auto simp: marked_def)
  qed
  have sp: "page_containing x86_model (page_from_indices_1gib x86_model 509 0) = p4_base 509"
    using bootm.start_page [of 509] by (simp add: model_env_def)
  have pb: "p4_base 509 = 18446742424442109952" by (simp add: p4_base_def)
  show ?thesis
    using slot tm1 sp
    by (simp add: alloc_and_map_kernel_stack_def p4_slots Let_def)
       (simp add: model_env_def pb, simp add: x86_model_def canonical_def range_list_def boot_map_to_def
         map_mapper_def boot_eval)
qed

theorem kernel_stack_mapped_witness:
  "\<exists>v tm' al'. alloc_and_map_kernel_stack model_env 0x1000
       (slots_below 510, new_starting_at 0x100000 sample_map) = Inr (v, tm', al') \<and> v = p4_base 509 + 4096"
proof -
  obtain v tm' al' where run: "alloc_and_map_kernel_stack model_env 0x1000
      (slots_below 510, new_starting_at 0x100000 sample_map) = Inr (v, tm', al')"
    using sample_stack_run by blast
  have "tm_wf (slots_below 510)" "tm_level (slots_below 510) = LevelFour" using slots_below_wf [of 510] by simp_all
  moreover have "bf_wf (new_starting_at 0x100000 sample_map)"
    by (rule new_starting_at_wf) (simp_all add: sample_map_def)
  ultimately show ?thesis using kernel_stack_mapped [OF bootm.boot_maps_axioms _ _ _ _ run] run by auto
qed

end
