(* ===== verification/Elf_Image.thy ===== *)
theory Elf_Image
  imports Paging
begin

section \<open>ELF images and physical memory\<close>

text \<open>
  Both the bootloader and the kernel load ELF images through the \<open>xmas_elf\<close> crate.  What they
  read of a parsed file is the record \<open>elf_file\<close>; the parser itself is an argument of the
  loaders.  Physical memory is a function from addresses to bytes: at that stage frames are
  accessed at their physical address.  The theory holds the parts both loaders have in
  common: the scan for the address range, the scan of the dynamic section, the segment flags,
  reading a relocation entry, and the helpers on memory.
\<close>

subsection \<open>Parsed files\<close>

datatype ph_type = PtLoad | PtDynamic | PtGnuRelro | PtTls | PtNull | PtOther nat

datatype dyn_tag = TagRela | TagRelaSize | TagRelaEnt | TagOther

record dyn_entry =
  dyn_tag :: "dyn_tag option"         \<comment> \<open>\<open>None\<close>: \<open>get_tag\<close> fails\<close>
  dyn_val :: "nat option"             \<comment> \<open>\<open>None\<close>: \<open>get_ptr\<close> or \<open>get_val\<close> fails\<close>

datatype segment_data = SegmentError | Dynamic64 "dyn_entry list" | SegmentOther

record program_header =
  ph_type :: "ph_type option"         \<comment> \<open>\<open>None\<close>: \<open>get_type\<close> fails\<close>
  ph_sane :: bool                     \<comment> \<open>\<open>program::sanity_check\<close>\<close>
  ph_offset :: nat
  ph_vaddr :: nat
  ph_filesz :: nat
  ph_memsz :: nat
  ph_execute :: bool
  ph_write :: bool
  ph_data :: segment_data

datatype elf_type = Executable | SharedObject | ElfOther

record elf_file =
  elf_type :: elf_type
  elf_sane :: bool                    \<comment> \<open>\<open>header::sanity_check\<close>\<close>
  elf_entry :: nat
  elf_phs :: "program_header list"

definition ph_kind :: "program_header \<Rightarrow> ph_type" where
  "ph_kind ph = (case ph_type ph of None \<Rightarrow> PtNull | Some t \<Rightarrow> t)"

subsection \<open>Memory\<close>

type_synonym memory = "nat \<Rightarrow> 8 word"

definition write_bytes :: "nat \<Rightarrow> 8 word \<Rightarrow> nat \<Rightarrow> memory \<Rightarrow> memory" where
  "write_bytes a v n mem = (\<lambda>x. if a \<le> x \<and> x < a + n then v else mem x)"

definition copy_bytes :: "nat \<Rightarrow> nat \<Rightarrow> nat \<Rightarrow> memory \<Rightarrow> memory" where
  "copy_bytes src dst n mem = (\<lambda>x. if dst \<le> x \<and> x < dst + n then mem (src + (x - dst)) else mem x)"

definition store_bytes :: "nat \<Rightarrow> 8 word list \<Rightarrow> memory \<Rightarrow> memory" where
  "store_bytes a bs mem = (\<lambda>x. if a \<le> x \<and> x < a + length bs then bs ! (x - a) else mem x)"

text \<open>A little-endian 64-bit value in memory, and the bytes of one (\<open>to_ne_bytes\<close>).\<close>

fun le_value :: "8 word list \<Rightarrow> nat" where
  "le_value [] = 0"
| "le_value (b # bs) = unat b + 256 * le_value bs"

definition read64 :: "memory \<Rightarrow> nat \<Rightarrow> nat" where
  "read64 mem a = le_value (map (\<lambda>k. mem (a + k)) [0 ..< 8])"

fun le_bytes :: "nat \<Rightarrow> nat \<Rightarrow> 8 word list" where
  "le_bytes 0 v = []"
| "le_bytes (Suc n) v = word_of_nat (v mod 256) # le_bytes n (v div 256)"

lemma length_le_bytes [simp]: "length (le_bytes n v) = n"
  by (induction n arbitrary: v) auto

lemma le_value_bytes: "v < 256 ^ n \<Longrightarrow> le_value (le_bytes n v) = v"
proof (induction n arbitrary: v)
  case (Suc n)
  have "v div 256 < 256 ^ n" using Suc.prems by (simp add: less_mult_imp_div_less mult.commute)
  moreover have "unat (word_of_nat (v mod 256) :: 8 word) = v mod 256" by (simp add: unat_of_nat)
  ultimately show ?case using Suc.IH by simp
qed simp

subsection \<open>Address range\<close>

text \<open>The scan over the LOAD headers: the least start address and the greatest end.\<close>

fun load_bounds :: "program_header list \<Rightarrow> nat \<Rightarrow> nat \<Rightarrow> (nat \<times> nat) run" where
  "load_bounds [] mn mx = Inr (mn, mx)"
| "load_bounds (ph # phs) mn mx =
     (if ph_type ph = Some PtLoad then
        and_then (add64 (ph_vaddr ph) (ph_memsz ph)) (\<lambda>r.
          load_bounds phs (if ph_vaddr ph < mn then ph_vaddr ph else mn) (if r > mx then r else mx))
      else load_bounds phs mn mx)"

text \<open>The range of a file: its start and its size.\<close>

definition elf_range :: "elf_file \<Rightarrow> (nat \<times> nat) run" where
  "elf_range f =
     (case elf_type f of
        ElfOther \<Rightarrow> Inl (Panicked ''elf type'')
      | _ \<Rightarrow> and_then (load_bounds (elf_phs f) (two64 - 1) 0) (\<lambda>(mn, mx).
               and_then (sub64 mx mn) (\<lambda>n. Inr (mn, n))))"

lemma load_bounds_ok:
  assumes "load_bounds phs mn mx = Inr (mn', mx')"
  shows "mn' \<le> mn \<and> mx \<le> mx'
     \<and> (\<forall>ph\<in>set phs. ph_kind ph = PtLoad \<longrightarrow> mn' \<le> ph_vaddr ph \<and> ph_vaddr ph + ph_memsz ph \<le> mx')"
  using assms
proof (induction phs arbitrary: mn mx)
  case (Cons ph phs)
  show ?case
  proof (cases "ph_type ph = Some PtLoad")
    case True
    with Cons.prems have "load_bounds phs (min (ph_vaddr ph) mn) (max (ph_vaddr ph + ph_memsz ph) mx) = Inr (mn', mx')"
      by (auto simp: run_simps min_def max_def split: if_splits)
    from Cons.IH [OF this] show ?thesis by simp
  next
    case False
    then have "ph_kind ph \<noteq> PtLoad" by (auto simp: ph_kind_def split: option.splits)
    with False Cons show ?thesis by simp
  qed
qed simp

lemma elf_range_ok:
  assumes "elf_range f = Inr (d, n)" and "ph \<in> set (elf_phs f)" and "ph_kind ph = PtLoad"
  shows "d \<le> ph_vaddr ph \<and> ph_vaddr ph + ph_memsz ph \<le> d + n"
proof -
  from assms(1) obtain mx where "load_bounds (elf_phs f) (two64 - 1) 0 = Inr (d, mx)" "d \<le> mx" "n = mx - d"
    by (auto simp: elf_range_def run_simps split: elf_type.splits)
  with load_bounds_ok [OF this(1)] assms(2,3) show ?thesis by auto
qed

definition sanity_checks :: "elf_file \<Rightarrow> unit run" where
  "sanity_checks f =
     (if \<not> list_all ph_sane (elf_phs f) then Inl (Panicked ''program sanity check'')
      else if \<not> elf_sane f then Inl (Panicked ''header sanity check'')
      else Inr ())"

subsection \<open>Segment flags\<close>

definition seg_flags :: "program_header \<Rightarrow> pt_flags" where
  "seg_flags ph = {PRESENT} \<union> (if \<not> ph_execute ph then {NO_EXECUTE} else {})
     \<union> (if ph_write ph then {WRITABLE} else {})"

subsection \<open>The dynamic section\<close>

fun scan_dynamic ::
  "dyn_entry list \<Rightarrow> nat option \<Rightarrow> nat option \<Rightarrow> nat option \<Rightarrow> (nat option \<times> nat option \<times> nat option) run" where
  "scan_dynamic [] rela sz ent = Inr (rela, sz, ent)"
| "scan_dynamic (d # ds) rela sz ent =
     and_then (or_panic (dyn_tag d) ''failed get tag of dynamic data'') (\<lambda>t.
       case t of
         TagRela \<Rightarrow>
           and_then (or_panic (dyn_val d) ''failed to get rela ptr of dynamic data'') (\<lambda>v.
             if rela \<noteq> None then Inl (Panicked ''more than one Rela entry'')
             else scan_dynamic ds (Some v) sz ent)
       | TagRelaSize \<Rightarrow>
           and_then (or_panic (dyn_val d) ''failed to get rela size of dynamic data'') (\<lambda>v.
             if sz \<noteq> None then Inl (Panicked ''more than one RelaSize entry'')
             else scan_dynamic ds rela (Some v) ent)
       | TagRelaEnt \<Rightarrow>
           and_then (or_panic (dyn_val d) ''failed to get rela entry of dynamic data'') (\<lambda>v.
             if ent \<noteq> None then Inl (Panicked ''more than one RelaEnt entry'')
             else scan_dynamic ds rela sz (Some v))
       | TagOther \<Rightarrow> scan_dynamic ds rela sz ent)"

text \<open>The table of relocations found by the scan: its address and number of entries, or nothing.\<close>

definition rela_table :: "segment_data \<Rightarrow> (nat \<times> nat) option run" where
  "rela_table data =
     (case data of
        SegmentError \<Rightarrow> Inl (Panicked ''failed to load kernel elf dynamic data'')
      | SegmentOther \<Rightarrow> Inl (Panicked ''not dynamic 64 data'')
      | Dynamic64 ds \<Rightarrow>
          and_then (scan_dynamic ds None None None) (\<lambda>(rela, sz, ent).
            case rela of
              None \<Rightarrow> Inr None
            | Some ptr \<Rightarrow>
                and_then (or_panic sz ''RelaSize entry is missing'') (\<lambda>total_size.
                and_then (or_panic ent ''RelaEnt entry is missing'') (\<lambda>entry_size.
                  if entry_size \<noteq> 24 then Inl (Panicked ''unsupported dynamic relative entry size'')
                  else Inr (Some (ptr, total_size div entry_size))))))"

text \<open>One entry, read from memory: offset, info word and addend, eight bytes each.\<close>

record rela_entry =
  rela_offset :: nat
  rela_info :: nat
  rela_addend :: nat

definition read_rela :: "memory \<Rightarrow> nat \<Rightarrow> rela_entry" where
  "read_rela mem a =
     \<lparr>rela_offset = read64 mem a, rela_info = read64 mem (a + 8), rela_addend = read64 mem (a + 16)\<rparr>"

definition rela_symbol :: "rela_entry \<Rightarrow> nat" where
  "rela_symbol r = rela_info r div 4294967296"

definition rela_type :: "rela_entry \<Rightarrow> nat" where
  "rela_type r = rela_info r mod 4294967296"

end
