(* ===== verification/Virtual_Memory.thy ===== *)
theory Virtual_Memory
  imports Elf_Image
begin

section \<open>Contents of virtual memory\<close>

text \<open>
  Both ELF loaders build an address space page by page: they map frames of the image, give a page a
  private copy before it is written, and map fresh zeroed frames.  What the loaded program
  sees is \<open>vread\<close>, the byte at a virtual address, through a view \<open>V\<close> of the page table and
  physical memory.  This theory holds the lemmas on views and memory the two loaders share.
  Allocator frames come from a set \<open>U\<close> of addresses and grow upwards from \<open>n\<close>; \<open>vm_ok\<close> says that a
  mapped frame lies either outside \<open>U\<close> (it belongs to an image, and several pages may share it) or
  in the handed out part of \<open>U\<close>, where it is mapped only once.
\<close>

definition page_of :: "nat \<Rightarrow> nat" where
  "page_of v = v - v mod 4096"

definition vread :: "(nat \<Rightarrow> (nat \<times> pt_flags) option) \<Rightarrow> memory \<Rightarrow> nat \<Rightarrow> 8 word option" where
  "vread V mem v = (case V (page_of v) of None \<Rightarrow> None | Some (f, _) \<Rightarrow> Some (mem (f + v mod 4096)))"

definition vflags :: "(nat \<Rightarrow> (nat \<times> pt_flags) option) \<Rightarrow> nat \<Rightarrow> pt_flags option" where
  "vflags V v = map_option snd (V (page_of v))"

text \<open>No other page is mapped to frame \<open>f\<close> of page \<open>p\<close>.\<close>

definition sole :: "(nat \<Rightarrow> (nat \<times> pt_flags) option) \<Rightarrow> nat \<Rightarrow> nat \<Rightarrow> bool" where
  "sole V p f \<longleftrightarrow> (\<forall>q g fl. V q = Some (g, fl) \<longrightarrow> q \<noteq> p \<longrightarrow> g \<noteq> f)"

definition vm_ok :: "nat set \<Rightarrow> nat \<Rightarrow> (nat \<Rightarrow> (nat \<times> pt_flags) option) \<Rightarrow> bool" where
  "vm_ok U n V \<longleftrightarrow> (\<forall>p f fl. V p = Some (f, fl) \<longrightarrow>
     4096 dvd f \<and> PRESENT \<in> fl \<and> (BIT_9 \<in> fl \<longrightarrow> block f 4096 \<subseteq> U)
     \<and> (block f 4096 \<inter> U = {}
        \<or> block f 4096 \<subseteq> U \<and> f + 4096 \<le> n \<and> sole V p f))"

subsection \<open>Pages\<close>

lemma page_of_le: "page_of v \<le> v" "v < page_of v + 4096" "page_of v + v mod 4096 = v"
  using mod_less_divisor [of 4096 v] mod_less_eq_dividend [of v 4096] by (simp_all add: page_of_def)

lemma page_of_dvd [simp]: "4096 dvd page_of v"
  by (simp add: page_of_def minus_mod_eq_mult_div)

lemma page_of_add: "4096 dvd p \<Longrightarrow> o' < 4096 \<Longrightarrow> page_of (p + o') = p \<and> (p + o') mod 4096 = o'"
  by (auto simp: page_of_def elim!: dvdE)

lemma page_of_eq: "4096 dvd p \<Longrightarrow> page_of v = p \<longleftrightarrow> p \<le> v \<and> v < p + 4096"
  using page_of_add [of p "v - p"] page_of_le [of v] by (cases "p \<le> v") auto

lemma page_of_aligned [simp]: "4096 dvd p \<Longrightarrow> page_of p = p"
  by (simp add: page_of_eq)

lemma page_of_mono: "v \<le> w \<Longrightarrow> page_of v \<le> page_of w"
  by (simp add: page_of_def minus_mod_eq_mult_div div_le_mono)

lemma page_of_base: "4096 dvd p \<Longrightarrow> page_of (p + x) = p + page_of x"
  by (auto simp: page_of_def elim!: dvdE)

text \<open>The first page boundary at or above \<open>x\<close>.\<close>

lemma page_of_up:
  "x \<le> page_of (x + 4095)" "page_of (x + 4095) < x + 4096"
  "x mod 4096 \<noteq> 0 \<Longrightarrow> page_of (x + 4095) = page_of x + 4096" "x mod 4096 = 0 \<Longrightarrow> page_of (x + 4095) = x"
proof -
  show "x \<le> page_of (x + 4095)" "page_of (x + 4095) < x + 4096" using page_of_le [of "x + 4095"] by simp_all
  show "page_of (x + 4095) = page_of x + 4096" if "x mod 4096 \<noteq> 0"
  proof -
    have "page_of (page_of x + (x mod 4096 + 4095)) = page_of x + page_of (x mod 4096 + 4095)"
      by (rule page_of_base) simp
    moreover have "page_of (x mod 4096 + 4095) = 4096"
      using that mod_less_divisor [of 4096 x] by (subst page_of_eq) auto
    ultimately show ?thesis using page_of_le(3) [of x] by (metis add.assoc)
  qed
  show "page_of (x + 4095) = x" if "x mod 4096 = 0"
    using that by (subst page_of_eq) auto
qed

lemma page_of_pred: "x mod 4096 \<noteq> 0 \<Longrightarrow> page_of (x - 1) = page_of x"
  using page_of_le [of x] by (subst page_of_eq) (auto simp: page_of_def)

lemma aligned_apart: "4096 dvd (f::nat) \<Longrightarrow> 4096 dvd g \<Longrightarrow> f \<noteq> g \<Longrightarrow> block f 4096 \<inter> block g 4096 = {}"
  by (auto elim!: dvdE)

lemma block_offset [intro]: "v mod 4096 < (4096::nat) \<Longrightarrow> f + v mod 4096 \<in> block f 4096"
  by simp

subsection \<open>Keeping \<open>vm_ok\<close>\<close>

lemma soleD: "sole V p f \<Longrightarrow> V q = Some (g, fl) \<Longrightarrow> q \<noteq> p \<Longrightarrow> g \<noteq> f"
  unfolding sole_def by blast

lemma sole_upd: "sole V q g \<Longrightarrow> f \<noteq> g \<Longrightarrow> sole (V(p \<mapsto> (f, fl))) q g"
  unfolding sole_def by (simp add: fun_upd_apply)

lemma sole_upd_same: "\<forall>q g fl. V q = Some (g, fl) \<longrightarrow> g \<noteq> f \<Longrightarrow> sole (V(p \<mapsto> (f, fl'))) p f"
  unfolding sole_def by (simp add: fun_upd_apply)

lemma sole_flags: "sole V q g \<Longrightarrow> V p = Some (f, fl) \<Longrightarrow> sole (V(p \<mapsto> (f, fl'))) q g"
  unfolding sole_def fun_upd_apply by (metis option.inject prod.inject)

lemma sole_del: "sole V q g \<Longrightarrow> sole (V(p := None)) q g"
  unfolding sole_def by (simp add: fun_upd_apply)

lemma vm_okD:
  assumes "vm_ok U n V" and "V p = Some (f, fl)"
  shows "4096 dvd f" and "PRESENT \<in> fl" and "BIT_9 \<in> fl \<longrightarrow> block f 4096 \<subseteq> U"
    and "block f 4096 \<inter> U = {} \<or> block f 4096 \<subseteq> U \<and> f + 4096 \<le> n \<and> sole V p f"
  using assms unfolding vm_ok_def by blast+

lemma vm_ok_owned:
  assumes "vm_ok U n V" and "V p = Some (f, fl)" and "block f 4096 \<subseteq> U" and "V q = Some (g, fl')" and "q \<noteq> p"
  shows "block g 4096 \<inter> block f 4096 = {}"
proof -
  have "f \<in> block f 4096" by simp
  then have "f \<in> U" using assms(3) by blast
  then have "block f 4096 \<inter> U \<noteq> {}" using \<open>f \<in> block f 4096\<close> by blast
  then have "g \<noteq> f" using vm_okD(4) [OF assms(1,2)] assms(4,5) soleD by blast
  then show ?thesis using aligned_apart vm_okD(1) [OF assms(1,2)] vm_okD(1) [OF assms(1,4)] by blast
qed

text \<open>A frame the allocator has not handed out is mapped nowhere.\<close>

lemma vm_ok_fresh:
  assumes "vm_ok U n V" and "V q = Some (g, fl')" and "block f 4096 \<subseteq> U" and "n \<le> f" and "4096 dvd f"
  shows "block g 4096 \<inter> block f 4096 = {}"
proof -
  have "f \<in> U" using assms(3) by auto
  then have "g \<noteq> f" using vm_okD(4) [OF assms(1,2)] assms(4) by fastforce
  then show ?thesis using aligned_apart vm_okD(1) [OF assms(1,2)] assms(5) by blast
qed

lemma vm_ok_mono: "vm_ok U n V \<Longrightarrow> n \<le> n' \<Longrightarrow> vm_ok U n' V"
  unfolding vm_ok_def by (meson le_trans)

lemma vm_ok_del: "vm_ok U n V \<Longrightarrow> vm_ok U n (V(p := None))"
  unfolding vm_ok_def using sole_del by (simp add: fun_upd_apply) blast

lemma vm_ok_map_fresh:
  assumes "vm_ok U n V" and "block f 4096 \<subseteq> U" and "n \<le> f" and "4096 dvd f" and "f + 4096 \<le> n'"
    and "PRESENT \<in> fl"
  shows "vm_ok U n' (V(p \<mapsto> (f, fl)))"
proof -
  have other: "g \<noteq> f" if "V q = Some (g, fl')" for q g fl'
  proof
    assume "g = f"
    moreover have "f \<in> block f 4096" by simp
    ultimately show False using vm_ok_fresh [OF assms(1) that assms(2-4)] by blast
  qed
  have "n \<le> n'" using assms(3,5) by simp
  note base = vm_ok_mono [OF assms(1) this]
  show ?thesis unfolding vm_ok_def
  proof (intro allI impI)
    fix q g fl' assume q: "(V(p \<mapsto> (f, fl))) q = Some (g, fl')"
    show "4096 dvd g \<and> PRESENT \<in> fl' \<and> (BIT_9 \<in> fl' \<longrightarrow> block g 4096 \<subseteq> U)
     \<and> (block g 4096 \<inter> U = {} \<or> block g 4096 \<subseteq> U \<and> g + 4096 \<le> n' \<and> sole (V(p \<mapsto> (f, fl))) q g)"
    proof (cases "q = p")
      case True
      with q have "g = f" "fl' = fl" by auto
      with True assms(2,4,5,6) other sole_upd_same [of V f p fl] show ?thesis by blast
    next
      case False
      with q have "V q = Some (g, fl')" by simp
      from vm_okD [OF base this] other [OF this] sole_upd [of V q g f p fl] show ?thesis by blast
    qed
  qed
qed

lemma vm_ok_map_image:
  assumes "vm_ok U n V" and "block f 4096 \<inter> U = {}" and "4096 dvd f" and "PRESENT \<in> fl" and "BIT_9 \<notin> fl"
  shows "vm_ok U n (V(p \<mapsto> (f, fl)))"
proof -
  have "f \<in> block f 4096" by simp
  then have nf: "\<not> block f 4096 \<subseteq> U" using assms(2) by blast
  show ?thesis unfolding vm_ok_def
  proof (intro allI impI)
    fix q g fl' assume q: "(V(p \<mapsto> (f, fl))) q = Some (g, fl')"
    show "4096 dvd g \<and> PRESENT \<in> fl' \<and> (BIT_9 \<in> fl' \<longrightarrow> block g 4096 \<subseteq> U)
     \<and> (block g 4096 \<inter> U = {} \<or> block g 4096 \<subseteq> U \<and> g + 4096 \<le> n \<and> sole (V(p \<mapsto> (f, fl))) q g)"
    proof (cases "q = p")
      case True
      with q assms(2-5) show ?thesis by auto
    next
      case False
      with q have "V q = Some (g, fl')" by simp
      moreover have "f \<noteq> g" if "block g 4096 \<subseteq> U" using that nf by blast
      ultimately show ?thesis using vm_okD [OF assms(1), of q g fl'] sole_upd [of V q g f p fl] by blast
    qed
  qed
qed

lemma vm_ok_flags:
  assumes "vm_ok U n V" and "V p = Some (f, fl)" and "PRESENT \<in> fl'" and "BIT_9 \<in> fl' \<longrightarrow> BIT_9 \<in> fl"
  shows "vm_ok U n (V(p \<mapsto> (f, fl')))"
  unfolding vm_ok_def
proof (intro allI impI)
  fix q g fl'' assume q: "(V(p \<mapsto> (f, fl'))) q = Some (g, fl'')"
  then obtain fl0 where "V q = Some (g, fl0)" "BIT_9 \<in> fl'' \<longrightarrow> BIT_9 \<in> fl0" "PRESENT \<in> fl''"
    using assms vm_okD(2) [OF assms(1)] by (cases "q = p") auto
  with vm_okD [OF assms(1) this(1)] sole_flags [of V q g p f fl fl'] assms(2)
  show "4096 dvd g \<and> PRESENT \<in> fl'' \<and> (BIT_9 \<in> fl'' \<longrightarrow> block g 4096 \<subseteq> U)
     \<and> (block g 4096 \<inter> U = {} \<or> block g 4096 \<subseteq> U \<and> g + 4096 \<le> n \<and> sole (V(p \<mapsto> (f, fl'))) q g)"
    by blast
qed

subsection \<open>Reading after an update\<close>

lemma vread_mem:
  assumes "\<And>f fl. V (page_of v) = Some (f, fl) \<Longrightarrow> mem' (f + v mod 4096) = mem (f + v mod 4096)"
  shows "vread V mem' v = vread V mem v"
  using assms by (auto simp: vread_def split: option.splits)

lemma vread_outside:
  assumes "\<And>a. a \<notin> block f 4096 \<Longrightarrow> mem' a = mem a"
    and "\<And>q g fl. V q = Some (g, fl) \<Longrightarrow> block g 4096 \<inter> block f 4096 = {}"
  shows "vread V mem' v = vread V mem v"
proof (rule vread_mem)
  fix g fl assume "V (page_of v) = Some (g, fl)"
  then have "block g 4096 \<inter> block f 4096 = {}" by (rule assms(2))
  moreover have "g + v mod 4096 \<in> block g 4096" by simp
  ultimately show "mem' (g + v mod 4096) = mem (g + v mod 4096)" using assms(1) by blast
qed

text \<open>A private copy of a page shows the same bytes.\<close>

lemma vread_copy:
  assumes "vm_ok U n V" and "V p = Some (f, fl)" and "block g 4096 \<subseteq> U" and "n \<le> g" and "4096 dvd g"
  shows "vread (V(p \<mapsto> (g, fl'))) (copy_bytes f g 4096 mem) v = vread V mem v"
proof (cases "page_of v = p")
  case True
  then show ?thesis using assms(2) by (simp add: vread_def copy_bytes_def)
next
  case False
  have "vread V (copy_bytes f g 4096 mem) v = vread V mem v"
    by (rule vread_outside [of g]) (use vm_ok_fresh [OF assms(1) _ assms(3-5)] in \<open>auto simp: copy_bytes_def\<close>)
  with False show ?thesis by (simp add: vread_def)
qed

text \<open>Writes into an owned frame change exactly the bytes of its page.\<close>

lemma vread_store:
  assumes "vm_ok U n V" and "V p = Some (f, fl)" and "block f 4096 \<subseteq> U" and "4096 dvd p"
    and "o' + length bs \<le> 4096"
  shows "vread V (store_bytes (f + o') bs mem) v
     = (if p + o' \<le> v \<and> v < p + o' + length bs then Some (bs ! (v - (p + o'))) else vread V mem v)"
proof (cases "page_of v = p")
  case True
  then have "v = p + v mod 4096" using page_of_le(3) [of v] by simp
  moreover from this have "v - (p + o') = v mod 4096 - o'" "p + o' \<le> v \<longleftrightarrow> o' \<le> v mod 4096"
    "v < p + o' + length bs \<longleftrightarrow> v mod 4096 < o' + length bs" by arith+
  ultimately show ?thesis using True assms(2) by (simp add: vread_def store_bytes_def)
next
  case False
  then have out: "\<not> (p + o' \<le> v \<and> v < p + o' + length bs)" using page_of_eq [OF assms(4), of v] assms(5) by auto
  have "vread V (store_bytes (f + o') bs mem) v = vread V mem v"
  proof (rule vread_mem)
    fix g fl' assume g: "V (page_of v) = Some (g, fl')"
    have "block g 4096 \<inter> block f 4096 = {}" by (rule vm_ok_owned [OF assms(1-3) g False])
    moreover have "g + v mod 4096 \<in> block g 4096" by simp
    ultimately have "g + v mod 4096 \<notin> block f 4096" by blast
    then show "store_bytes (f + o') bs mem (g + v mod 4096) = mem (g + v mod 4096)"
      using assms(5) by (auto simp: store_bytes_def)
  qed
  then show ?thesis by (simp only: out if_False)
qed

lemma write_bytes_store: "write_bytes a c n mem = store_bytes a (replicate n c) mem"
  by (intro ext) (auto simp: write_bytes_def store_bytes_def)

lemma vread_flags:
  "V p = Some (f, fl) \<Longrightarrow> vread (V(p \<mapsto> (f, fl'))) mem v = vread V mem v"
  by (auto simp: vread_def)

subsection \<open>Writing part of a page\<close>

text \<open>The part of \<open>buf\<close> (which starts at \<open>addr\<close> and ends at \<open>last\<close>) that falls into \<open>page\<close>, and where
  in the frame it goes.\<close>

definition write_page_part :: "nat \<Rightarrow> 8 word list \<Rightarrow> nat \<Rightarrow> nat \<Rightarrow> nat \<Rightarrow> memory \<Rightarrow> memory run" where
  "write_page_part addr buf last_addr page frame mem =
     (let start_copy = max addr page; end_copy = min last_addr (page + 4095) in
      and_then (sub64 start_copy page) (\<lambda>start_offset_in_frame.
      and_then (sub64 end_copy page) (\<lambda>end_offset_in_frame.
      and_then (sub64 end_offset_in_frame start_offset_in_frame) (\<lambda>d.
        let copy_len = d + 1; start_offset_in_buf = start_copy - addr in
        if start_offset_in_buf + copy_len \<le> length buf
        then Inr (store_bytes (frame + start_offset_in_frame)
                    (take copy_len (drop start_offset_in_buf buf)) mem)
        else Inl OutOfBounds))))"

lemma write_page_part_eq:
  assumes "write_page_part addr buf last_addr page frame mem = Inr mem'" and "last_addr + 1 = addr + length buf"
  shows "\<exists>o' bs. mem' = store_bytes (frame + o') bs mem \<and> o' + length bs \<le> 4096
     \<and> (\<forall>v. page + o' \<le> v \<and> v < page + o' + length bs \<longleftrightarrow>
          page \<le> v \<and> v < page + 4096 \<and> addr \<le> v \<and> v < addr + length buf)
     \<and> (\<forall>v. page + o' \<le> v \<and> v < page + o' + length bs \<longrightarrow> bs ! (v - (page + o')) = buf ! (v - addr))"
proof -
  define lo hi bs where "lo = max addr page" and "hi = min last_addr (page + 4095)"
    and "bs = take (hi - lo + 1) (drop (lo - addr) buf)"
  from assms(1) have le: "lo \<le> hi" and mem': "mem' = store_bytes (frame + (lo - page)) bs mem"
    by (auto simp: write_page_part_def run_simps Let_def lo_def hi_def bs_def split: if_splits)
  have lo: "page \<le> lo" "addr \<le> lo" and hi: "hi \<le> page + 4095" "hi < addr + length buf"
    using assms(2) by (auto simp: lo_def hi_def)
  have len: "length bs = hi - lo + 1" using le lo hi by (simp add: bs_def)
  have pg: "page + (lo - page) = lo" using lo(1) by simp
  have iff: "lo \<le> v \<and> v < lo + length bs \<longleftrightarrow> page \<le> v \<and> v < page + 4096 \<and> addr \<le> v \<and> v < addr + length buf" for v
    unfolding len using le assms(2) by (auto simp: lo_def hi_def)
  have nth: "bs ! (v - lo) = buf ! (v - addr)" if "lo \<le> v \<and> v < lo + length bs" for v
  proof -
    from that len have "v - lo < hi - lo + 1" by linarith
    then have "bs ! (v - lo) = drop (lo - addr) buf ! (v - lo)" unfolding bs_def by (rule nth_take)
    also have "\<dots> = buf ! (lo - addr + (v - lo))" by (rule nth_drop) (use le lo hi in linarith)
    also have "lo - addr + (v - lo) = v - addr" using that lo(2) by linarith
    finally show ?thesis .
  qed
  have "lo - page + length bs \<le> 4096" unfolding len using le hi(1) lo(1) by linarith
  moreover have "\<forall>v. lo \<le> v \<and> v < lo + length bs \<longrightarrow> bs ! (v - lo) = buf ! (v - addr)" using nth by blast
  moreover note mem' allI [OF iff]
  ultimately show ?thesis
    by (intro exI [of _ "lo - page"] exI [of _ bs]) (unfold pg, intro conjI)
qed

subsection \<open>Writes to a flat memory\<close>

fun overlay :: "(nat \<times> 8 word list) list \<Rightarrow> nat \<Rightarrow> 8 word option" where
  "overlay [] v = None"
| "overlay ((a, bs) # ws) v =
     (case overlay ws v of
        Some b \<Rightarrow> Some b
      | None \<Rightarrow> if a \<le> v \<and> v < a + length bs then Some (bs ! (v - a)) else None)"

definition overlaid :: "(nat \<times> 8 word list) list \<Rightarrow> (nat \<Rightarrow> 8 word option) \<Rightarrow> nat \<Rightarrow> 8 word option" where
  "overlaid ws base v = (case overlay ws v of Some b \<Rightarrow> Some b | None \<Rightarrow> base v)"

lemma overlay_append: "overlay (ws @ ws') v = (case overlay ws' v of Some b \<Rightarrow> Some b | None \<Rightarrow> overlay ws v)"
  by (induction ws) (auto split: option.splits)

lemma overlaid_append: "overlaid (ws @ ws') base v = overlaid ws' (overlaid ws base) v"
  by (simp add: overlaid_def overlay_append split: option.splits)

lemma overlaid_Nil [simp]: "overlaid [] base v = base v"
  by (simp add: overlaid_def)

lemma overlaid_cong: "base v = base' v \<Longrightarrow> overlaid ws base v = overlaid ws base' v"
  by (simp add: overlaid_def split: option.splits)

lemma overlaid_out: "overlay ws v = None \<Longrightarrow> overlaid (ws @ ws') base v = overlaid ws' base v"
  by (simp add: overlaid_def overlay_append split: option.splits)

subsection \<open>Segments\<close>

text \<open>The addresses computed for every program header before its type is looked at.\<close>

record segment =
  sg_start :: nat
  sg_mem_end :: nat
  sg_file_end :: nat
  sg_first_frame :: nat
  sg_last_frame :: nat
  sg_start_page :: nat
  sg_end_page :: nat

lemma seg_flags_simps [simp]: "PRESENT \<in> seg_flags ph" "BIT_9 \<notin> seg_flags ph" "seg_flags ph - {BIT_9} = seg_flags ph"
  by (auto simp: seg_flags_def)

text \<open>A segment and its bytes lie at the same offset in their pages; so do their ends.\<close>

lemma page_window:
  assumes "S mod 4096 = B mod 4096" and "(S + n) mod 4096 \<noteq> 0"
  shows "page_of (S + n) - page_of S = page_of (B + n - 1) - page_of B" and "page_of B \<le> page_of (B + n - 1)"
    and "page_of S \<le> page_of (S + n)"
proof -
  have "S + n = page_of S + (S mod 4096 + n)" "B + n = page_of B + (S mod 4096 + n)"
    using page_of_le(3) [of S] page_of_le(3) [of B] assms(1) by linarith+
  then have e: "page_of (S + n) = page_of S + page_of (S mod 4096 + n)"
    "page_of (B + n) = page_of B + page_of (S mod 4096 + n)" by (metis page_of_base page_of_dvd)+
  have "(B + n) mod 4096 \<noteq> 0" using assms by (metis mod_add_cong)
  from page_of_pred [OF this] e show "page_of (S + n) - page_of S = page_of (B + n - 1) - page_of B"
    and "page_of B \<le> page_of (B + n - 1)" and "page_of S \<le> page_of (S + n)" by simp_all
qed

lemma range_steps:
  assumes "4096 dvd (first::nat)" and "4096 dvd l" and "f \<in> set (range_list 4096 first l)"
  obtains j where "f = first + 4096 * j" "first + 4096 * j \<le> l"
proof -
  from assms(3) set_range_list [OF _ assms(1,2)] have f: "first \<le> f" "f \<le> l" "4096 dvd f" by auto
  with assms(1) have "4096 dvd f - first" by simp
  then obtain j where "f - first = 4096 * j" by (elim dvdE)
  with f show thesis by (intro that [of j]) auto
qed

text \<open>Addresses in a page of a GNU\_RELRO segment.\<close>

definition relro_seg :: "nat \<Rightarrow> nat \<Rightarrow> program_header \<Rightarrow> nat \<Rightarrow> bool" where
  "relro_seg defined start ph v \<longleftrightarrow>
     ph_memsz ph \<noteq> 0 \<and> ph_kind ph = PtGnuRelro
     \<and> page_of (start + (ph_vaddr ph - defined)) \<le> page_of v
     \<and> page_of v \<le> page_of (start + (ph_vaddr ph - defined) + ph_memsz ph - 1)"

definition in_relro :: "nat \<Rightarrow> nat \<Rightarrow> program_header list \<Rightarrow> nat \<Rightarrow> bool" where
  "in_relro defined start phs v \<longleftrightarrow> (\<exists>ph\<in>set phs. relro_seg defined start ph v)"

lemma read_rela_cong:
  assumes "\<And>k. k < 24 \<Longrightarrow> mem (a + k) = mem' (a + k)"
  shows "read_rela mem a = read_rela mem' a"
proof -
  have "read64 mem (a + d) = read64 mem' (a + d)" if "d \<le> 16" for d
  proof -
    have "map (\<lambda>k. mem (a + d + k)) [0 ..< 8] = map (\<lambda>k. mem' (a + d + k)) [0 ..< 8]"
      by (rule map_cong) (use that assms [of "d + _"] in \<open>auto simp: add.assoc\<close>)
    then show ?thesis unfolding read64_def by (rule arg_cong)
  qed
  from this [of 0] this [of 8] this [of 16] show ?thesis by (simp add: read_rela_def)
qed

lemma read_rela_write:
  "b + 24 \<le> a \<or> a + n \<le> b \<Longrightarrow> read_rela (write_bytes a c n mem) b = read_rela mem b"
  "b + 24 \<le> a \<or> a + n \<le> b \<Longrightarrow> read_rela (copy_bytes s a n mem) b = read_rela mem b"
  by (rule read_rela_cong, auto simp: write_bytes_def copy_bytes_def)+

lemma upt8: "[0 ..< 8] = [0, 1, 2, 3, 4, 5, 6, 7 :: nat]"
  by (simp add: upt_rec)

text \<open>What the loader assumes of an image and its place in memory.\<close>

definition image_ok :: "nat \<Rightarrow> nat \<Rightarrow> nat \<Rightarrow> nat \<Rightarrow> program_header list \<Rightarrow> bool" where
  "image_ok kaddr klen defined start phs \<longleftrightarrow>
     (\<forall>ph\<in>set phs. (ph_kind ph = PtLoad \<longrightarrow>
          (kaddr + ph_offset ph) mod 4096 = (start + (ph_vaddr ph - defined)) mod 4096
          \<and> ph_offset ph + ph_filesz ph \<le> klen
          \<and> start + (ph_vaddr ph - defined) + ph_memsz ph + 4096 \<le> two64)
        \<and> (\<forall>ptr n. rela_table (ph_data ph) = Inr (Some (ptr, n)) \<longrightarrow> ptr - defined + n * 24 \<le> klen))"

definition seg_byte :: "memory \<Rightarrow> nat \<Rightarrow> program_header \<Rightarrow> nat \<Rightarrow> 8 word" where
  "seg_byte mem kaddr ph k = (if k < ph_filesz ph then mem (kaddr + ph_offset ph + k) else 0)"

end
