(* ===== verification/Boot_Elf.thy ===== *)
theory Boot_Elf
  imports Boot_Maps Virtual_Memory
begin

section \<open>Loading the kernel image (bootloader-efi/src/kernel.rs)\<close>

text \<open>
  The bootloader maps the LOAD segments of the kernel image in place, from the start of slot
  511, gives pages that need private contents (the end of a segment that runs into its
  \<open>.bss\<close>, and pages that relocations write to) a copy in a fresh frame, and returns the entry
  point.  The theory models the loader over the tracked table, the frame allocator and
  physical memory.  The flag \<open>BIT_9\<close> marks pages that already have a private frame.
\<close>

subsection \<open>State\<close>

record 'm load_state =
  ld_tm :: "'m tracked_mapper"
  ld_al :: boot_frame_allocator
  ld_mem :: memory

definition ld_map_to ::
  "'m boot_env \<Rightarrow> string \<Rightarrow> pt_flags \<Rightarrow> nat \<Rightarrow> nat \<Rightarrow> 'm load_state \<Rightarrow> 'm load_state run" where
  "ld_map_to E msg fl page frame st =
     and_then (boot_map_to E msg fl page frame (ld_tm st, ld_al st)) (\<lambda>(tm, al).
       Inr (st\<lparr>ld_tm := tm, ld_al := al\<rparr>))"

definition ld_alloc :: "'m boot_env \<Rightarrow> 'm load_state \<Rightarrow> (nat option \<times> 'm load_state) run" where
  "ld_alloc E st =
     and_then (boot_allocate_frame (be_x E) (be_tag E) (ld_al st)) (\<lambda>(r, al).
       Inr (r, st\<lparr>ld_al := al\<rparr>))"

subsection \<open>Copying a page into a private frame\<close>

definition copy_page_and_remap ::
  "'m boot_env \<Rightarrow> nat \<Rightarrow> 'm load_state \<Rightarrow> (nat option \<times> 'm load_state) run" where
  "copy_page_and_remap E page st =
     (case translate (be_m E) (tm_inner (ld_tm st)) page of
        Mapped (Size4KiB curr_frame) flags \<Rightarrow>
          if BIT_9 \<in> flags then Inr (Some curr_frame, st)
          else
            and_then (ld_alloc E st) (\<lambda>(r, st1).
              case r of
                None \<Rightarrow> Inr (None, st1)
              | Some new_frame \<Rightarrow>
                  let st2 = st1\<lparr>ld_mem := copy_bytes curr_frame new_frame 4096 (ld_mem st1)\<rparr>;
                      (u, m) = unmap (be_m E) (tm_inner (ld_tm st2)) page
                  in and_then (or_panic_result u ''failed to unmap last page of fs of segment'') (\<lambda>_.
                     let st3 = st2\<lparr>ld_tm := (ld_tm st2)\<lparr>tm_inner := m\<rparr>\<rparr> in
                     and_then (ld_map_to E ''failed to remap last page of fs of segment.''
                                 (flags \<union> {BIT_9}) page new_frame st3) (\<lambda>st4.
                       Inr (Some new_frame, st4))))
      | _ \<Rightarrow> Inr (None, st))"

subsection \<open>Writing to virtual memory\<close>

fun write_pages ::
  "'m boot_env \<Rightarrow> nat \<Rightarrow> 8 word list \<Rightarrow> nat \<Rightarrow> nat list \<Rightarrow> 'm load_state \<Rightarrow> 'm load_state run" where
  "write_pages E addr buf last_addr [] st = Inr st"
| "write_pages E addr buf last_addr (page # pages) st =
     and_then (copy_page_and_remap E page st) (\<lambda>(r, st1).
     and_then (or_panic r ''failed to remap the page of the LOAD segnemt the addr points to'') (\<lambda>frame.
     and_then (write_page_part addr buf last_addr page frame (ld_mem st1)) (\<lambda>mem.
       write_pages E addr buf last_addr pages (st1\<lparr>ld_mem := mem\<rparr>))))"

definition copy_pages_and_write ::
  "'m boot_env \<Rightarrow> nat \<Rightarrow> 8 word list \<Rightarrow> 'm load_state \<Rightarrow> 'm load_state run" where
  "copy_pages_and_write E addr buf st =
     and_then (sub64 (length buf) 1) (\<lambda>n.
     and_then (or_panic (VirtAddr_forward (be_x E) addr n)
                 ''the end address should be in the virtual address space'') (\<lambda>last_addr.
       write_pages E addr buf last_addr
         (range_list 4096 (page_containing (be_x E) addr) (page_containing (be_x E) last_addr)) st))"

subsection \<open>Changing flags\<close>

fun update_page_flag ::
  "'m boot_env \<Rightarrow> nat list \<Rightarrow> pt_flags \<Rightarrow> 'm load_state \<Rightarrow> 'm load_state run" where
  "update_page_flag E [] keep st = Inr st"
| "update_page_flag E (page # pages) keep st =
     (case translate (be_m E) (tm_inner (ld_tm st)) page of
        Mapped _ flags \<Rightarrow>
          let (u, m) = update_flags (be_m E) (tm_inner (ld_tm st)) page (flags \<inter> keep) in
          and_then (or_panic_result u ''unwrap on Err'') (\<lambda>_.
            update_page_flag E pages keep (st\<lparr>ld_tm := (ld_tm st)\<lparr>tm_inner := m\<rparr>\<rparr>))
      | NotMapped \<Rightarrow> Inl (Panicked ''page is not mapped while parsing segment GNURELTRO''))"

subsection \<open>A LOAD segment\<close>

fun map_file_frames ::
  "'m boot_env \<Rightarrow> pt_flags \<Rightarrow> nat \<Rightarrow> nat \<Rightarrow> nat list \<Rightarrow> 'm load_state \<Rightarrow> 'm load_state run" where
  "map_file_frames E fl start_page first [] st = Inr st"
| "map_file_frames E fl start_page first (frame # frames) st =
     and_then (VirtAddr_add (be_x E) start_page (4096 * ((frame - first) div 4096))) (\<lambda>page.
     and_then (ld_map_to E ''failed to map kernel segment to kernel pml4 table.'' fl page frame st) (\<lambda>st'.
       map_file_frames E fl start_page first frames st'))"

fun map_bss_pages :: "'m boot_env \<Rightarrow> pt_flags \<Rightarrow> nat list \<Rightarrow> 'm load_state \<Rightarrow> 'm load_state run" where
  "map_bss_pages E fl [] st = Inr st"
| "map_bss_pages E fl (page # pages) st =
     and_then (ld_alloc E st) (\<lambda>(r, st1).
     and_then (or_panic r ''failed to allocate new phys frame for bss segment.'') (\<lambda>frame.
     and_then (ld_map_to E ''failed to map bss page to kernel pml4 table'' fl page frame
                 (st1\<lparr>ld_mem := write_bytes frame 0 4096 (ld_mem st1)\<rparr>)) (\<lambda>st2.
       map_bss_pages E fl pages st2)))"

text \<open>The first, partly used page of the \<open>.bss\<close> part: a private copy whose tail is cleared.\<close>

definition clear_bss_head :: "'m boot_env \<Rightarrow> nat \<Rightarrow> 'm load_state \<Rightarrow> 'm load_state run" where
  "clear_bss_head E bss_start st =
     (let off = bss_start mod 4096 in
      if off = 0 then Inr st
      else
        and_then (VirtAddr_sub (be_x E) bss_start 1) (\<lambda>a.
        and_then (copy_page_and_remap E (page_containing (be_x E) a) st) (\<lambda>(r, st1).
        and_then (or_panic r ''failed to remap the page of of fs end LOAD segment.'') (\<lambda>frame.
          Inr (st1\<lparr>ld_mem := write_bytes (frame + off) 0 (4096 - off) (ld_mem st1)\<rparr>)))))"

definition load_segment ::
  "'m boot_env \<Rightarrow> segment \<Rightarrow> program_header \<Rightarrow> 'm load_state \<Rightarrow> 'm load_state run" where
  "load_segment E sg ph st =
     and_then (map_file_frames E (seg_flags ph) (sg_start_page sg) (sg_first_frame sg)
                 (range_list 4096 (sg_first_frame sg) (sg_last_frame sg)) st) (\<lambda>st1.
       if ph_memsz ph \<le> ph_filesz ph then Inr st1
       else
         and_then (clear_bss_head E (sg_file_end sg) st1) (\<lambda>st2.
         and_then (addr_align_up (be_x E) (sg_file_end sg) 4096) (\<lambda>up.
         and_then (VirtAddr_new (be_x E) up) (\<lambda>bss_start.
         and_then (VirtAddr_sub (be_x E) (sg_mem_end sg) 1) (\<lambda>l.
           map_bss_pages E (seg_flags ph)
             (range_list 4096 (page_containing (be_x E) bss_start) (page_containing (be_x E) l)) st2)))))"

subsection \<open>Relocations\<close>

text \<open>Entry \<open>idx\<close> of the table: its place in the image is bounds-checked at its first byte; the
  image lies in memory at \<open>kaddr\<close> and has \<open>klen\<close> bytes.\<close>

definition apply_rela ::
  "'m boot_env \<Rightarrow> nat \<Rightarrow> nat \<Rightarrow> nat \<Rightarrow> nat \<Rightarrow> nat \<Rightarrow> nat \<Rightarrow> 'm load_state \<Rightarrow> 'm load_state run" where
  "apply_rela E kaddr klen defined_start start_virt ptr idx st =
     and_then (sub64 ptr defined_start) (\<lambda>o1.
     and_then (mul64 idx 24) (\<lambda>o2.
     and_then (add64 o1 o2) (\<lambda>i.
     and_then (if i < klen then Inr () else Inl OutOfBounds) (\<lambda>_.
       let r = read_rela (ld_mem st) (kaddr + i) in
       if rela_symbol r \<noteq> 0 then Inl (Panicked ''relocation using symbol table is not supported'')
       else if rela_type r \<noteq> 8 then Inl (Panicked ''reallocation type is not supported'')
       else
         and_then (sub64 (rela_offset r) defined_start) (\<lambda>d1.
         and_then (VirtAddr_add (be_x E) start_virt d1) (\<lambda>offset.
         and_then (sub64 (rela_addend r) defined_start) (\<lambda>d2.
         and_then (VirtAddr_add (be_x E) start_virt d2) (\<lambda>attend.
           copy_pages_and_write E offset (le_bytes 8 attend) st))))))))"

fun apply_relas ::
  "'m boot_env \<Rightarrow> nat \<Rightarrow> nat \<Rightarrow> nat \<Rightarrow> nat \<Rightarrow> nat \<Rightarrow> nat list \<Rightarrow> 'm load_state \<Rightarrow> 'm load_state run" where
  "apply_relas E kaddr klen defined_start start_virt ptr [] st = Inr st"
| "apply_relas E kaddr klen defined_start start_virt ptr (i # is) st =
     and_then (apply_rela E kaddr klen defined_start start_virt ptr i st) (\<lambda>st'.
       apply_relas E kaddr klen defined_start start_virt ptr is st')"

definition load_dynamic ::
  "'m boot_env \<Rightarrow> nat \<Rightarrow> nat \<Rightarrow> nat \<Rightarrow> nat \<Rightarrow> program_header \<Rightarrow> 'm load_state \<Rightarrow> 'm load_state run" where
  "load_dynamic E kaddr klen defined_start start_virt ph st =
     and_then (rela_table (ph_data ph)) (\<lambda>t.
       case t of
         None \<Rightarrow> Inr st
       | Some (ptr, n) \<Rightarrow> apply_relas E kaddr klen defined_start start_virt ptr [0 ..< n] st)"

subsection \<open>All segments\<close>

definition prepare_segment ::
  "'m boot_env \<Rightarrow> nat \<Rightarrow> nat \<Rightarrow> nat \<Rightarrow> program_header \<Rightarrow> segment run" where
  "prepare_segment E kaddr defined_start start_virt ph =
     and_then (PhysAddr_add (be_x E) kaddr (ph_offset ph)) (\<lambda>bytes.
     and_then (sub64 (ph_vaddr ph) defined_start) (\<lambda>d.
     and_then (VirtAddr_add (be_x E) start_virt d) (\<lambda>start.
     and_then (VirtAddr_add (be_x E) start (ph_memsz ph)) (\<lambda>mem_end.
     and_then (VirtAddr_add (be_x E) start (ph_filesz ph)) (\<lambda>file_end.
     and_then (PhysAddr_add (be_x E) bytes (ph_filesz ph)) (\<lambda>e.
     and_then (PhysAddr_sub (be_x E) e 1) (\<lambda>bytes_last.
     and_then (VirtAddr_sub (be_x E) mem_end 1) (\<lambda>last_addr.
       Inr \<lparr>sg_start = start, sg_mem_end = mem_end, sg_file_end = file_end,
            sg_first_frame = frame_containing (be_x E) bytes,
            sg_last_frame = frame_containing (be_x E) bytes_last,
            sg_start_page = page_containing (be_x E) start,
            sg_end_page = page_containing (be_x E) last_addr\<rparr>))))))))"

definition load_header ::
  "'m boot_env \<Rightarrow> nat \<Rightarrow> nat \<Rightarrow> nat \<Rightarrow> nat \<Rightarrow> program_header \<Rightarrow> tls_template option
     \<Rightarrow> 'm load_state \<Rightarrow> (tls_template option \<times> 'm load_state) run" where
  "load_header E kaddr klen defined_start start_virt ph tls st =
     (if ph_memsz ph = 0 then Inr (tls, st)
      else
        and_then (prepare_segment E kaddr defined_start start_virt ph) (\<lambda>sg.
        and_then (mark_range_as_used (be_x E) (ld_tm st) (sg_start sg) (sg_mem_end sg)) (\<lambda>(_, tm1).
          let st1 = st\<lparr>ld_tm := tm1\<rparr> in
          case ph_kind ph of
            PtLoad \<Rightarrow> and_then (load_segment E sg ph st1) (\<lambda>st2. Inr (tls, st2))
          | PtDynamic \<Rightarrow>
              and_then (load_dynamic E kaddr klen defined_start start_virt ph st1) (\<lambda>st2. Inr (tls, st2))
          | PtGnuRelro \<Rightarrow>
              and_then (update_page_flag E (range_list 4096 (sg_start_page sg) (sg_end_page sg))
                          (- {WRITABLE}) st1) (\<lambda>st2. Inr (tls, st2))
          | PtTls \<Rightarrow>
              Inr (Some \<lparr>tls_start_virt_addr = sg_start sg, tls_mem_size = ph_memsz ph,
                         tls_file_size = ph_filesz ph\<rparr>, st1)
          | _ \<Rightarrow> Inr (tls, st1))))"

fun load_segments ::
  "'m boot_env \<Rightarrow> nat \<Rightarrow> nat \<Rightarrow> nat \<Rightarrow> nat \<Rightarrow> program_header list \<Rightarrow> tls_template option
     \<Rightarrow> 'm load_state \<Rightarrow> (tls_template option \<times> 'm load_state) run" where
  "load_segments E kaddr klen defined_start start_virt [] tls st = Inr (tls, st)"
| "load_segments E kaddr klen defined_start start_virt (ph # phs) tls st =
     and_then (load_header E kaddr klen defined_start start_virt ph tls st) (\<lambda>(tls', st').
       load_segments E kaddr klen defined_start start_virt phs tls' st')"

text \<open>The second pass takes the mark of private pages away again.\<close>

fun unmark_private ::
  "'m boot_env \<Rightarrow> nat \<Rightarrow> nat \<Rightarrow> program_header list \<Rightarrow> 'm load_state \<Rightarrow> 'm load_state run" where
  "unmark_private E defined_start start_virt [] st = Inr st"
| "unmark_private E defined_start start_virt (ph # phs) st =
     (if ph_memsz ph = 0 \<or> ph_kind ph \<noteq> PtLoad then unmark_private E defined_start start_virt phs st
      else
        and_then (sub64 (ph_vaddr ph) defined_start) (\<lambda>d.
        and_then (VirtAddr_add (be_x E) start_virt d) (\<lambda>start.
        and_then (VirtAddr_add (be_x E) start (ph_memsz ph)) (\<lambda>mem_end.
        and_then (VirtAddr_sub (be_x E) mem_end 1) (\<lambda>last_addr.
        and_then (update_page_flag E (range_list 4096 (page_containing (be_x E) start)
                    (page_containing (be_x E) last_addr)) (- {BIT_9}) st) (\<lambda>st1.
          unmark_private E defined_start start_virt phs st1))))))"

record load_kernel =
  kernel_entry :: nat
  lk_virt_space_offset :: int
  lk_tls_template :: "tls_template option"

definition load_kernel_to_virt_mem ::
  "'m boot_env \<Rightarrow> (memory \<Rightarrow> nat \<Rightarrow> nat \<Rightarrow> elf_file option) \<Rightarrow> nat \<Rightarrow> nat \<Rightarrow> 'm load_state
     \<Rightarrow> (load_kernel \<times> 'm load_state) run" where
  "load_kernel_to_virt_mem E parse kaddr klen st =
     and_then (or_panic (parse (ld_mem st) kaddr klen) ''failed to parse kernel elf'') (\<lambda>f.
     and_then (if 0 < klen then Inr () else Inl OutOfBounds) (\<lambda>_.
     and_then (PhysAddr_new (be_x E) kaddr) (\<lambda>kbytes.
     and_then (sanity_checks f) (\<lambda>_.
     and_then (elf_range f) (\<lambda>(defined_start, space_size).
     and_then (take_slot E ''cannot get available pml4 entry, maybe it run out'' KERNEL_BYTES_P4
                 space_size (ld_tm st)) (\<lambda>(i, tm1).
       let start_virt = page_from_indices_1gib (be_x E) i 0 in
       and_then (load_segments E kbytes klen defined_start start_virt (elf_phs f) None
                   (st\<lparr>ld_tm := tm1\<rparr>)) (\<lambda>(tls, st1).
       and_then (unmark_private E defined_start start_virt (elf_phs f) st1) (\<lambda>st2.
       and_then (sub64 (elf_entry f) defined_start) (\<lambda>d.
       and_then (VirtAddr_add (be_x E) start_virt d) (\<lambda>entry.
         Inr (\<lparr>kernel_entry = entry, lk_virt_space_offset = int start_virt - int defined_start,
               lk_tls_template = tls\<rparr>, st2)))))))))))"

end
