(* ===== verification/Boot_Elf_Proofs.thy ===== *)
theory Boot_Elf_Proofs
  imports Boot_Elf
begin

section \<open>What the kernel image loader leaves in virtual memory\<close>

text \<open>
  The lemmas on the loader of \<open>Boot_Elf\<close>.  The observations are \<open>ld_read\<close>, the byte at a virtual
  address, and \<open>ld_prot\<close>, the flags of its page without the loader's own mark \<open>BIT_9\<close>.  Writes
  through \<open>copy_pages_and_write\<close> refine writes to a flat byte memory; a LOAD segment shows the bytes
  of the file followed by zeros; relocations add their eight bytes; and the whole loader puts
  every LOAD segment into slot 511 and leaves everything below that slot alone.
\<close>

subsection \<open>Observations and the step relation\<close>

definition ld_read ::
  "('m \<Rightarrow> nat \<Rightarrow> (nat \<times> pt_flags) option) \<Rightarrow> 'm load_state \<Rightarrow> nat \<Rightarrow> 8 word option" where
  "ld_read view st v = vread (view (tm_inner (ld_tm st))) (ld_mem st) v"

definition ld_prot ::
  "('m \<Rightarrow> nat \<Rightarrow> (nat \<times> pt_flags) option) \<Rightarrow> 'm load_state \<Rightarrow> nat \<Rightarrow> pt_flags option" where
  "ld_prot view st v = map_option (\<lambda>fl. fl - {BIT_9}) (vflags (view (tm_inner (ld_tm st))) v)"

definition ld_ok :: "('m \<Rightarrow> nat \<Rightarrow> (nat \<times> pt_flags) option) \<Rightarrow> 'm load_state \<Rightarrow> bool" where
  "ld_ok view st \<longleftrightarrow> bf_wf (ld_al st)
     \<and> vm_ok (usable_bytes (ld_al st)) (bf_next_frame (ld_al st)) (view (tm_inner (ld_tm st)))"

text \<open>A part of the load keeps the invariant, takes frames only from the allocator, changes nothing
  but the table inside the tracked mapper, and leaves memory the allocator does not own alone.\<close>

definition ld_step ::
  "'m boot_env \<Rightarrow> ('m \<Rightarrow> nat \<Rightarrow> (nat \<times> pt_flags) option) \<Rightarrow> 'm load_state \<Rightarrow> 'm load_state \<Rightarrow> bool" where
  "ld_step E view st st' \<longleftrightarrow>
     ld_ok view st' \<and> alloc_reach (be_alloc E) (ld_al st) (ld_al st')
     \<and> usable_bytes (ld_al st') = usable_bytes (ld_al st)
     \<and> (\<exists>t. ld_tm st' = (ld_tm st)\<lparr>tm_inner := t\<rparr>)
     \<and> (\<forall>a. a \<notin> usable_bytes (ld_al st) \<longrightarrow> ld_mem st' a = ld_mem st a)"

lemma ld_step_refl: "ld_ok view st \<Longrightarrow> ld_step E view st st"
  unfolding ld_step_def by (auto intro: reach_refl exI [of _ "tm_inner (ld_tm st)"])

lemma ld_step_trans:
  assumes "ld_step E view st st'" and "ld_step E view st' st''"
  shows "ld_step E view st st''"
proof -
  have "alloc_reach (be_alloc E) (ld_al st) (ld_al st'')"
    using assms alloc_reach_trans unfolding ld_step_def by metis
  with assms show ?thesis by (auto simp: ld_step_def)
qed

lemma ld_step_ok: "ld_step E view st st' \<Longrightarrow> ld_ok view st'"
  by (simp add: ld_step_def)

text \<open>Bytes and flags of pages that are mapped already stay.\<close>

definition ld_keep ::
  "('m \<Rightarrow> nat \<Rightarrow> (nat \<times> pt_flags) option) \<Rightarrow> 'm load_state \<Rightarrow> 'm load_state \<Rightarrow> bool" where
  "ld_keep view st st' \<longleftrightarrow> (\<forall>v. ld_prot view st v \<noteq> None \<longrightarrow>
     ld_read view st' v = ld_read view st v \<and> ld_prot view st' v = ld_prot view st v)"

lemma ld_keep_trans: "ld_keep view st st' \<Longrightarrow> ld_keep view st' st'' \<Longrightarrow> ld_keep view st st''"
  unfolding ld_keep_def by simp

lemma ld_prot_None: "ld_prot view st v = None \<longleftrightarrow> view (tm_inner (ld_tm st)) (page_of v) = None"
  by (simp add: ld_prot_def vflags_def)

lemma ld_keepI:
  assumes "\<And>p. view (tm_inner (ld_tm st)) p \<noteq> None \<Longrightarrow>
      view (tm_inner (ld_tm st')) p = view (tm_inner (ld_tm st)) p"
    and "\<And>p f fl o'. view (tm_inner (ld_tm st)) p = Some (f, fl) \<Longrightarrow> o' < 4096 \<Longrightarrow>
      ld_mem st' (f + o') = ld_mem st (f + o')"
  shows "ld_keep view st st'"
  unfolding ld_keep_def ld_prot_None
proof (intro allI impI conjI)
  fix v assume v: "view (tm_inner (ld_tm st)) (page_of v) \<noteq> None"
  then show "ld_prot view st' v = ld_prot view st v" using assms(1) by (simp add: ld_prot_def vflags_def)
  from v obtain f fl where f: "view (tm_inner (ld_tm st)) (page_of v) = Some (f, fl)" by auto
  with assms(1) v have "view (tm_inner (ld_tm st')) (page_of v) = Some (f, fl)" by simp
  with f assms(2) [OF f, of "v mod 4096"] show "ld_read view st' v = ld_read view st v"
    by (simp add: ld_read_def vread_def)
qed

text \<open>What a LOAD segment shows at its addresses: the bytes of the file from \<open>B\<close> on, then zeros.\<close>

definition seg_shows ::
  "('m \<Rightarrow> nat \<Rightarrow> (nat \<times> pt_flags) option) \<Rightarrow> 'm load_state \<Rightarrow> nat \<Rightarrow> nat \<Rightarrow> program_header \<Rightarrow> memory \<Rightarrow> bool" where
  "seg_shows view st S B ph mem \<longleftrightarrow>
     (\<forall>k<ph_memsz ph. ld_read view st (S + k) = Some (if k < ph_filesz ph then mem (B + k) else 0)
        \<and> ld_prot view st (S + k) = Some (seg_flags ph))"

context boot_maps
begin

lemma usable_reach: "alloc_reach (be_alloc E) al al' \<Longrightarrow> bf_wf al \<Longrightarrow> usable_bytes al' = usable_bytes al"
  using boot_reach by (simp add: usable_bytes_def)

lemma alloc_one: "be_alloc E al = Inr (r, al') \<Longrightarrow> alloc_reach (be_alloc E) al al'"
  by (rule reach_step, rule reach_refl)

subsection \<open>A private copy of a page\<close>

lemma copy_page_mapped:
  assumes "copy_page_and_remap E p st = Inr (Some g, st')"
  shows "\<exists>f fl. view (tm_inner (ld_tm st)) p = Some (f, fl)"
proof (rule ccontr)
  assume "\<not> ?thesis"
  then have "view (tm_inner (ld_tm st)) p = None" by (cases "view (tm_inner (ld_tm st)) p") auto
  with mapper_laws.translate_none [OF m] assms show False
    by (auto simp: copy_page_and_remap_def split: translate_result.splits mapped_frame.splits)
qed

lemma copy_page_new:
  assumes "copy_page_and_remap E p st = Inr (Some g, st')" and "ld_ok view st"
    and "view (tm_inner (ld_tm st)) p = Some (f, fl)" and "BIT_9 \<notin> fl"
  obtains al1 where "be_alloc E (ld_al st) = Inr (Some g, al1)" "alloc_reach (be_alloc E) al1 (ld_al st')"
    "view (tm_inner (ld_tm st')) = (view (tm_inner (ld_tm st)))(p \<mapsto> (g, fl \<union> {BIT_9}))"
    "ld_mem st' = copy_bytes f g 4096 (ld_mem st)" "\<exists>t. ld_tm st' = (ld_tm st)\<lparr>tm_inner := t\<rparr>"
proof -
  have tr: "translate (be_m E) (tm_inner (ld_tm st)) p = Mapped (Size4KiB f) fl"
    by (rule mapper_laws.translate_ok [OF m assms(3)])
  obtain m1 where un: "unmap (be_m E) (tm_inner (ld_tm st)) p = (Inr f, m1)"
    and v1: "view m1 = (view (tm_inner (ld_tm st)))(p := None)"
    using mapper_laws.unmap_ok [OF m assms(3)] by blast
  from assms(1) assms(4) tr un obtain al1 tm2 al2 where al: "be_alloc E (ld_al st) = Inr (Some g, al1)"
    and step: "boot_map_to E ''failed to remap last page of fs of segment.'' (fl \<union> {BIT_9}) p g
      ((ld_tm st)\<lparr>tm_inner := m1\<rparr>, al1) = Inr (tm2, al2)"
    and st': "st' = st\<lparr>ld_al := al2, ld_mem := copy_bytes f g 4096 (ld_mem st), ld_tm := tm2\<rparr>"
    by (auto simp: copy_page_and_remap_def ld_alloc_def ld_map_to_def run_simps Let_def split: option.splits)
  have "PRESENT \<in> fl" by (rule vm_okD(2) [OF conjunct2 [OF assms(2) [unfolded ld_ok_def]] assms(3)])
  then have "PRESENT \<in> fl \<union> {BIT_9}" by simp
  note one = boot_map_to_ok [OF step this]
  have "tm2 = (ld_tm st)\<lparr>tm_inner := tm_inner tm2\<rparr>"
    using one by (cases "ld_tm st") (metis tracked_mapper.update_convs(1))
  then have "\<exists>t. ld_tm st' = (ld_tm st)\<lparr>tm_inner := t\<rparr>" using st' by auto
  from that [OF al _ _ _ this] one v1 st' show thesis by simp
qed

lemma copy_page_ok:
  assumes "copy_page_and_remap E p st = Inr (Some g, st')" and "ld_ok view st"
  shows "\<exists>f fl. view (tm_inner (ld_tm st)) p = Some (f, fl)
     \<and> view (tm_inner (ld_tm st')) = (view (tm_inner (ld_tm st)))(p \<mapsto> (g, fl \<union> {BIT_9}))
     \<and> block g 4096 \<subseteq> usable_bytes (ld_al st) \<and> ld_step E view st st'
     \<and> (\<forall>v. ld_read view st' v = ld_read view st v)"
proof -
  let ?V = "view (tm_inner (ld_tm st))" and ?U = "usable_bytes (ld_al st)" and ?n = "bf_next_frame (ld_al st)"
  from copy_page_mapped [OF assms(1)] obtain f fl where f: "?V p = Some (f, fl)" by blast
  have wf: "bf_wf (ld_al st)" and vm: "vm_ok ?U ?n ?V" using assms(2) by (auto simp: ld_ok_def)
  show ?thesis
  proof (cases "BIT_9 \<in> fl")
    case True
    with assms(1) mapper_laws.translate_ok [OF m f] have "g = f" "st' = st"
      by (auto simp: copy_page_and_remap_def)
    moreover have "?V(p \<mapsto> (f, fl \<union> {BIT_9})) = ?V" using True f by (auto simp: fun_eq_iff)
    ultimately show ?thesis using f True vm_okD(3) [OF vm f] ld_step_refl [OF assms(2)] by auto
  next
    case False
    from copy_page_new [OF assms f False] obtain al1 where new: "be_alloc E (ld_al st) = Inr (Some g, al1)"
      "alloc_reach (be_alloc E) al1 (ld_al st')"
      "view (tm_inner (ld_tm st')) = ?V(p \<mapsto> (g, fl \<union> {BIT_9}))"
      "ld_mem st' = copy_bytes f g 4096 (ld_mem st)" "\<exists>t. ld_tm st' = (ld_tm st)\<lparr>tm_inner := t\<rparr>"
      by blast
    have "bf_post (ld_al st) (Some g) al1" by (rule boot_allocate_frame_post [OF x wf new(1)])
    then have g: "bf_wf al1" "bf_next_frame al1 = g + 4096" "?n \<le> g" "4096 dvd g" "block g 4096 \<subseteq> ?U"
      by (auto simp: bf_post_def)
    have r: "bf_wf (ld_al st')" "g + 4096 \<le> bf_next_frame (ld_al st')" using boot_reach [OF new(2) g(1)] g(2) by auto
    have reach: "alloc_reach (be_alloc E) (ld_al st) (ld_al st')"
      by (rule alloc_reach_trans [OF new(2) alloc_one [OF new(1)]])
    note U = usable_reach [OF reach wf]
    have "PRESENT \<in> fl \<union> {BIT_9}" using vm_okD(2) [OF vm f] by simp
    then have "ld_ok view st'" unfolding ld_ok_def U new(3)
      using vm_ok_map_fresh [OF vm g(5,3,4) r(2)] r(1) by blast
    moreover have "\<forall>a. a \<notin> ?U \<longrightarrow> ld_mem st' a = ld_mem st a" using g(5) by (auto simp: new(4) copy_bytes_def)
    ultimately have "ld_step E view st st'" using reach U new(5) by (simp add: ld_step_def)
    moreover have "\<forall>v. ld_read view st' v = ld_read view st v"
      using vread_copy [OF vm f g(5,3,4)] by (simp add: ld_read_def new)
    ultimately show ?thesis using f new(3) g(5) by blast
  qed
qed

subsection \<open>Writing bytes\<close>

lemma ld_store_ok:
  assumes "ld_ok view st" and "view (tm_inner (ld_tm st)) p = Some (g, fl)"
    and "block g 4096 \<subseteq> usable_bytes (ld_al st)" and "4096 dvd p" and "o' + length bs \<le> 4096"
  shows "ld_step E view st (st\<lparr>ld_mem := store_bytes (g + o') bs (ld_mem st)\<rparr>)
     \<and> (\<forall>v. ld_read view (st\<lparr>ld_mem := store_bytes (g + o') bs (ld_mem st)\<rparr>) v
          = (if p + o' \<le> v \<and> v < p + o' + length bs then Some (bs ! (v - (p + o'))) else ld_read view st v))"
proof
  have "store_bytes (g + o') bs (ld_mem st) a = ld_mem st a" if "a \<notin> usable_bytes (ld_al st)" for a
  proof -
    have "a \<notin> block g 4096" using that assms(3) by blast
    then show ?thesis using assms(5) by (auto simp: store_bytes_def)
  qed
  then show "ld_step E view st (st\<lparr>ld_mem := store_bytes (g + o') bs (ld_mem st)\<rparr>)"
    using ld_step_refl [OF assms(1), of E] assms(1) unfolding ld_step_def ld_ok_def by simp
  have "vm_ok (usable_bytes (ld_al st)) (bf_next_frame (ld_al st)) (view (tm_inner (ld_tm st)))"
    using assms(1) by (simp add: ld_ok_def)
  from vread_store [OF this assms(2-5)]
  show "\<forall>v. ld_read view (st\<lparr>ld_mem := store_bytes (g + o') bs (ld_mem st)\<rparr>) v
      = (if p + o' \<le> v \<and> v < p + o' + length bs then Some (bs ! (v - (p + o'))) else ld_read view st v)"
    unfolding ld_read_def by simp
qed

lemma ld_prot_upd:
  assumes "view (tm_inner (ld_tm st)) p = Some (f, fl)"
    and "view (tm_inner (ld_tm st')) = (view (tm_inner (ld_tm st)))(p \<mapsto> (g, fl \<union> {BIT_9}))"
  shows "ld_prot view st' v = ld_prot view st v"
  using assms by (simp add: ld_prot_def vflags_def)

lemma write_page_ok:
  assumes "copy_page_and_remap E page st = Inr (Some frame, st1)" and "ld_ok view st" and "4096 dvd page"
    and "write_page_part addr buf last_addr page frame (ld_mem st1) = Inr mem"
    and "last_addr + 1 = addr + length buf"
  shows "ld_step E view st (st1\<lparr>ld_mem := mem\<rparr>)
     \<and> (\<forall>v. ld_read view (st1\<lparr>ld_mem := mem\<rparr>) v
          = (if page_of v = page \<and> addr \<le> v \<and> v < addr + length buf then Some (buf ! (v - addr)) else ld_read view st v))
     \<and> (\<forall>v. ld_prot view (st1\<lparr>ld_mem := mem\<rparr>) v = ld_prot view st v)"
proof -
  from copy_page_ok [OF assms(1,2)] obtain f fl where cp: "view (tm_inner (ld_tm st)) page = Some (f, fl)"
    "view (tm_inner (ld_tm st1)) = (view (tm_inner (ld_tm st)))(page \<mapsto> (frame, fl \<union> {BIT_9}))"
    "block frame 4096 \<subseteq> usable_bytes (ld_al st)" "ld_step E view st st1"
    "\<forall>v. ld_read view st1 v = ld_read view st v" by blast
  from write_page_part_eq [OF assms(4,5)] obtain o' bs where w: "mem = store_bytes (frame + o') bs (ld_mem st1)"
    "o' + length bs \<le> 4096"
    and iff: "\<And>v. page + o' \<le> v \<and> v < page + o' + length bs \<longleftrightarrow>
          page \<le> v \<and> v < page + 4096 \<and> addr \<le> v \<and> v < addr + length buf"
    and nth: "\<And>v. page + o' \<le> v \<and> v < page + o' + length bs \<Longrightarrow> bs ! (v - (page + o')) = buf ! (v - addr)"
    by blast
  have U: "usable_bytes (ld_al st1) = usable_bytes (ld_al st)" using cp(4) by (simp add: ld_step_def)
  have "view (tm_inner (ld_tm st1)) page = Some (frame, fl \<union> {BIT_9})" using cp(2) by simp
  from ld_store_ok [OF ld_step_ok [OF cp(4)] this cp(3) [folded U] assms(3) w(2)]
  have sto: "ld_step E view st1 (st1\<lparr>ld_mem := mem\<rparr>)"
    "\<And>v. ld_read view (st1\<lparr>ld_mem := mem\<rparr>) v
      = (if page + o' \<le> v \<and> v < page + o' + length bs then Some (bs ! (v - (page + o'))) else ld_read view st1 v)"
    unfolding w(1) by blast+
  have "ld_prot view (st1\<lparr>ld_mem := mem\<rparr>) v = ld_prot view st v" for v
    by (rule ld_prot_upd [OF cp(1)]) (simp add: cp(2))
  moreover have "ld_read view (st1\<lparr>ld_mem := mem\<rparr>) v
      = (if page_of v = page \<and> addr \<le> v \<and> v < addr + length buf then Some (buf ! (v - addr)) else ld_read view st v)" for v
    using sto(2) [of v] iff [of v] nth [of v] cp(5) page_of_eq [OF assms(3), of v] by simp
  ultimately show ?thesis using ld_step_trans [OF cp(4) sto(1)] by blast
qed

lemma write_pages_ok:
  assumes "write_pages E addr buf last_addr pages st = Inr st'" and "ld_ok view st"
    and "\<forall>p\<in>set pages. 4096 dvd p" and "last_addr + 1 = addr + length buf"
  shows "ld_step E view st st'
     \<and> (\<forall>v. ld_read view st' v
          = (if page_of v \<in> set pages \<and> addr \<le> v \<and> v < addr + length buf then Some (buf ! (v - addr)) else ld_read view st v))
     \<and> (\<forall>v. ld_prot view st' v = ld_prot view st v)"
  using assms(1-3)
proof (induction pages arbitrary: st)
  case Nil
  then show ?case by (simp add: ld_step_refl)
next
  case (Cons page pages)
  from Cons.prems(1) obtain frame st1 mem where cp: "copy_page_and_remap E page st = Inr (Some frame, st1)"
    and w: "write_page_part addr buf last_addr page frame (ld_mem st1) = Inr mem"
    and rest: "write_pages E addr buf last_addr pages (st1\<lparr>ld_mem := mem\<rparr>) = Inr st'"
    by (auto simp: run_simps)
  have "4096 dvd page" using Cons.prems(3) by simp
  note one = write_page_ok [OF cp Cons.prems(2) this w assms(4)]
  have ok: "ld_ok view (st1\<lparr>ld_mem := mem\<rparr>)" using one ld_step_ok by blast
  have IH: "ld_step E view (st1\<lparr>ld_mem := mem\<rparr>) st'
     \<and> (\<forall>v. ld_read view st' v
          = (if page_of v \<in> set pages \<and> addr \<le> v \<and> v < addr + length buf then Some (buf ! (v - addr))
             else ld_read view (st1\<lparr>ld_mem := mem\<rparr>) v))
     \<and> (\<forall>v. ld_prot view st' v = ld_prot view (st1\<lparr>ld_mem := mem\<rparr>) v)"
    by (rule Cons.IH [OF rest ok]) (use Cons.prems(3) in simp)
  have "ld_step E view st st'" by (rule ld_step_trans) (use one IH in blast)+
  moreover have "\<forall>v. ld_prot view st' v = ld_prot view st v" using one IH by metis
  ultimately show ?case using one IH by simp
qed

lemma page_range:
  "set (range_list 4096 (page_containing (be_x E) a) (page_containing (be_x E) b))
     = {p. page_of a \<le> p \<and> p \<le> page_of b \<and> 4096 dvd p}"
  using set_range_list [of 4096 "page_of a" "page_of b"]
  by (simp add: x86_laws.page_containing_eq [OF x] page_of_def [symmetric])

text \<open>Writing through the page table is writing to a flat memory.\<close>

lemma copy_pages_and_write_ok:
  assumes "copy_pages_and_write E addr buf st = Inr st'" and "ld_ok view st" and "18446603336221196288 \<le> addr"
  shows "ld_step E view st st'
     \<and> (\<forall>v. ld_read view st' v = (if addr \<le> v \<and> v < addr + length buf then Some (buf ! (v - addr)) else ld_read view st v))
     \<and> (\<forall>v. ld_prot view st' v = ld_prot view st v)"
proof -
  from assms(1) obtain l where buf: "1 \<le> length buf" and fw: "VirtAddr_forward (be_x E) addr (length buf - 1) = Some l"
    and loop: "write_pages E addr buf l
         (range_list 4096 (page_containing (be_x E) addr) (page_containing (be_x E) l)) st = Inr st'"
    by (auto simp: copy_pages_and_write_def run_simps)
  have l: "l + 1 = addr + length buf" using x86_laws.VirtAddr_forward_high [OF x assms(3) fw] buf by simp
  have w: "ld_step E view st st'
     \<and> (\<forall>v. ld_read view st' v
          = (if page_of v \<in> {p. page_of addr \<le> p \<and> p \<le> page_of l \<and> 4096 dvd p} \<and> addr \<le> v \<and> v < addr + length buf
             then Some (buf ! (v - addr)) else ld_read view st v))
     \<and> (\<forall>v. ld_prot view st' v = ld_prot view st v)"
    using write_pages_ok [OF loop assms(2) _ l] unfolding page_range by blast
  have "page_of v \<in> {p. page_of addr \<le> p \<and> p \<le> page_of l \<and> 4096 dvd p}"
    if "addr \<le> v \<and> v < addr + length buf" for v
    using that l page_of_mono [of addr v] page_of_mono [of v l] by simp
  with w show ?thesis by (metis (no_types, lifting))
qed

subsection \<open>Changing flags\<close>

lemma update_page_flag_ok:
  assumes "update_page_flag E pages keep st = Inr st'" and "ld_ok view st" and "PRESENT \<in> keep"
  shows "(\<forall>p\<in>set pages. view (tm_inner (ld_tm st)) p \<noteq> None) \<and> ld_step E view st st' \<and> (\<forall>v. ld_read view st' v = ld_read view st v)
     \<and> (\<forall>v. vflags (view (tm_inner (ld_tm st'))) v
          = map_option (\<lambda>fl. if page_of v \<in> set pages then fl \<inter> keep else fl) (vflags (view (tm_inner (ld_tm st))) v))"
  using assms(1,2)
proof (induction pages arbitrary: st)
  case Nil
  then show ?case by (simp add: ld_step_refl option.map_ident)
next
  case (Cons p pages)
  let ?V = "view (tm_inner (ld_tm st))"
  have "?V p \<noteq> None"
  proof
    assume "?V p = None"
    from mapper_laws.update_flags_none [OF m this] Cons.prems(1) show False
      by (auto simp: run_simps split: translate_result.splits prod.splits)
  qed
  then obtain f fl where f: "?V p = Some (f, fl)" by (cases "?V p") auto
  have vm: "vm_ok (usable_bytes (ld_al st)) (bf_next_frame (ld_al st)) ?V"
    using Cons.prems(2) by (simp add: ld_ok_def)
  have pr: "PRESENT \<in> fl \<inter> keep" using vm_okD(2) [OF vm f] assms(3) by simp
  from mapper_laws.update_flags_ok [OF m f this] obtain m' where
    up: "update_flags (be_m E) (tm_inner (ld_tm st)) p (fl \<inter> keep) = (Inr (), m')"
    and m': "view m' = ?V(p \<mapsto> (f, fl \<inter> keep))" by blast
  define st1 where "st1 = st\<lparr>ld_tm := (ld_tm st)\<lparr>tm_inner := m'\<rparr>\<rparr>"
  have rest: "update_page_flag E pages keep st1 = Inr st'"
    using Cons.prems(1) up mapper_laws.translate_ok [OF m f] by (simp add: st1_def)
  have ok: "ld_ok view st1"
    using Cons.prems(2) vm_ok_flags [OF vm f pr] by (simp add: ld_ok_def st1_def m')
  have st: "ld_step E view st st1"
    using ok by (auto simp: ld_step_def st1_def intro: reach_refl)
  have rd: "ld_read view st1 v = ld_read view st v" for v
    using vread_flags [of ?V p f fl] f by (simp add: ld_read_def st1_def m')
  have fl1: "vflags (view (tm_inner (ld_tm st1))) v
      = map_option (\<lambda>fl. if page_of v = p then fl \<inter> keep else fl) (vflags ?V v)" for v
    using f by (simp add: vflags_def st1_def m' option.map_ident)
  note IH = Cons.IH [OF rest ok]
  show ?case
  proof (intro conjI allI ballI)
    have "?V q \<noteq> None" if "view (tm_inner (ld_tm st1)) q \<noteq> None" for q
      using that f by (cases "q = p") (simp_all add: st1_def m')
    with IH f show "?V q \<noteq> None" if "q \<in> set (p # pages)" for q using that by auto
    show "ld_step E view st st'" using ld_step_trans [OF st] IH by blast
    show "ld_read view st' v = ld_read view st v" for v using IH rd by simp
    have e: "vflags (view (tm_inner (ld_tm st'))) v = map_option (\<lambda>fl. if page_of v \<in> set pages then fl \<inter> keep else fl)
        (map_option (\<lambda>fl. if page_of v = p then fl \<inter> keep else fl) (vflags ?V v))" for v
      using IH fl1 by simp
    show "vflags (view (tm_inner (ld_tm st'))) v
        = map_option (\<lambda>fl. if page_of v \<in> set (p # pages) then fl \<inter> keep else fl) (vflags ?V v)" for v
      unfolding e by (cases "vflags ?V v"; cases "page_of v = p"; simp add: Int_assoc)
  qed
qed

subsection \<open>The file part of a segment\<close>

lemma map_file_frames_eq:
  "map_file_frames E fl start first frames st =
     and_then (map_offset E ''failed to map kernel segment to kernel pml4 table.'' fl start first frames
                 (ld_tm st, ld_al st)) (\<lambda>(tm, al). Inr (st\<lparr>ld_tm := tm, ld_al := al\<rparr>))"
proof (induction frames arbitrary: st)
  case (Cons f frames)
  let ?a = "VirtAddr_add (be_x E) start (4096 * ((f - first) div 4096))"
  show ?case
  proof (cases ?a)
    case (Inr page)
    let ?b = "boot_map_to E ''failed to map kernel segment to kernel pml4 table.'' fl page f (ld_tm st, ld_al st)"
    show ?thesis using Inr Cons.IH
      by (cases ?b) (auto simp: ld_map_to_def split: prod.splits)
  qed simp
qed simp

lemma vm_ok_images:
  assumes "vm_ok U n V" and "\<And>p. V' p = V p \<or> (\<exists>f. V' p = Some (f, fl) \<and> 4096 dvd f \<and> block f 4096 \<inter> U = {})"
    and "PRESENT \<in> fl" and "BIT_9 \<notin> fl"
  shows "vm_ok U n V'"
  unfolding vm_ok_def
proof (intro allI impI)
  fix p f fl' assume p: "V' p = Some (f, fl')"
  have out: "\<not> block g 4096 \<subseteq> U" if "block g 4096 \<inter> U = {}" for g
  proof -
    have "g \<in> block g 4096" by simp
    with that show ?thesis by blast
  qed
  have "sole V' p f" if "sole V p f" "block f 4096 \<subseteq> U"
    unfolding sole_def
  proof (intro allI impI)
    fix q g fl'' assume q: "V' q = Some (g, fl'')" "q \<noteq> p"
    from assms(2) [of q] show "g \<noteq> f"
    proof
      assume "V' q = V q"
      with q soleD [OF that(1), of q g fl''] show ?thesis by simp
    next
      assume "\<exists>f. V' q = Some (f, fl) \<and> 4096 dvd f \<and> block f 4096 \<inter> U = {}"
      with q out that(2) show ?thesis by auto
    qed
  qed
  moreover from assms(2) [of p]
  have "4096 dvd f \<and> PRESENT \<in> fl' \<and> (BIT_9 \<in> fl' \<longrightarrow> block f 4096 \<subseteq> U)
     \<and> (block f 4096 \<inter> U = {} \<or> block f 4096 \<subseteq> U \<and> f + 4096 \<le> n \<and> sole V p f)"
  proof
    assume "V' p = V p"
    with p have "V p = Some (f, fl')" by simp
    from vm_okD [OF assms(1) this] show ?thesis by blast
  next
    assume "\<exists>f. V' p = Some (f, fl) \<and> 4096 dvd f \<and> block f 4096 \<inter> U = {}"
    with p have "fl' = fl" "4096 dvd f" "block f 4096 \<inter> U = {}" by auto
    with assms(3,4) show ?thesis by blast
  qed
  ultimately show "4096 dvd f \<and> PRESENT \<in> fl' \<and> (BIT_9 \<in> fl' \<longrightarrow> block f 4096 \<subseteq> U)
     \<and> (block f 4096 \<inter> U = {} \<or> block f 4096 \<subseteq> U \<and> f + 4096 \<le> n \<and> sole V' p f)" by blast
qed

lemma map_offset_high:
  assumes "map_offset E msg fl start first frames st = Inr r" and "18446603336221196288 \<le> start"
  shows "\<forall>f\<in>set frames. canonical (start + 4096 * ((f - first) div 4096))"
  using assms(1)
proof (induction frames arbitrary: st)
  case (Cons f frames)
  from Cons.prems have "start + 4096 * ((f - first) div 4096) < two64"
    by (auto simp: run_simps x86_laws.VirtAddr_add_high [OF x assms(2)])
  with assms(2) have "canonical (start + 4096 * ((f - first) div 4096))" by (simp add: canonical_def)
  with Cons show ?case by (auto simp: run_simps)
qed simp

lemma map_offset_unmapped:
  assumes "map_offset E msg fl start first frames (tm, al) = Inr r" and "PRESENT \<in> fl"
    and "18446603336221196288 \<le> start"
  shows "\<forall>f\<in>set frames. view (tm_inner tm) (start + 4096 * ((f - first) div 4096)) = None"
  using assms(1)
proof (induction frames arbitrary: tm al)
  case (Cons f frames)
  from Cons.prems obtain tm1 al1 where
    step: "boot_map_to E msg fl (start + 4096 * ((f - first) div 4096)) f (tm, al) = Inr (tm1, al1)"
    and rest: "map_offset E msg fl start first frames (tm1, al1) = Inr r"
    by (auto simp: run_simps x86_laws.VirtAddr_add_high [OF x assms(3)])
  from boot_map_to_ok [OF step assms(2)] Cons.IH [OF rest] show ?case
    by (simp add: fun_upd_apply) (metis option.distinct(1))
qed simp

text \<open>The frames from \<open>first\<close> to \<open>l\<close> appear from page \<open>P\<close> on.\<close>

lemma map_file_ok:
  assumes "map_file_frames E fl P first (range_list 4096 first l) st = Inr st'" and "ld_ok view st"
    and "PRESENT \<in> fl" and "BIT_9 \<notin> fl" and "18446603336221196288 \<le> P"
    and "4096 dvd P" and "4096 dvd first" and "4096 dvd l"
    and "\<And>a. first \<le> a \<Longrightarrow> a < l + 4096 \<Longrightarrow> a \<notin> usable_bytes (ld_al st)"
  shows "ld_step E view st st' \<and> ld_keep view st st'
     \<and> (\<forall>x. first + x < l + 4096 \<longrightarrow> ld_read view st' (P + x) = Some (ld_mem st (first + x))
          \<and> ld_prot view st' (P + x) = Some fl \<and> ld_prot view st (P + x) = None)
     \<and> ld_mem st' = ld_mem st"
proof -
  let ?V = "view (tm_inner (ld_tm st))" and ?V' = "view (tm_inner (ld_tm st'))"
  let ?fs = "range_list 4096 first l"
  from assms(1) obtain tm' al' where off: "map_offset E ''failed to map kernel segment to kernel pml4 table.'' fl P first
      ?fs (ld_tm st, ld_al st) = Inr (tm', al')" and st': "st' = st\<lparr>ld_tm := tm', ld_al := al'\<rparr>"
    by (auto simp: map_file_frames_eq run_simps)
  have tm': "ld_tm st' = tm'" "ld_al st' = al'" "ld_mem st' = ld_mem st" using st' by simp_all
  have ok: "\<forall>f\<in>set ?fs. ?V' (P + 4096 * ((f - first) div 4096)) = Some (f, fl)"
    "\<forall>p. p \<notin> (\<lambda>f. P + 4096 * ((f - first) div 4096)) ` set ?fs \<longrightarrow> ?V' p = ?V p"
    "\<forall>p. ?V p \<noteq> None \<longrightarrow> ?V' p = ?V p" "\<exists>t. ld_tm st' = (ld_tm st)\<lparr>tm_inner := t\<rparr>"
    and reach: "alloc_reach (be_alloc E) (ld_al st) (ld_al st')"
    using map_offset_ok [OF off assms(3) map_offset_high [OF off assms(5)]] unfolding tm' by blast+
  have wf: "bf_wf (ld_al st)" and vm: "vm_ok (usable_bytes (ld_al st)) (bf_next_frame (ld_al st)) ?V"
    using assms(2) by (auto simp: ld_ok_def)
  note r = boot_reach [OF reach wf] and U = usable_reach [OF reach wf]
  have new: "\<exists>f. ?V' p = Some (f, fl) \<and> 4096 dvd f \<and> block f 4096 \<inter> usable_bytes (ld_al st) = {}"
    if diff: "?V' p \<noteq> ?V p" for p
  proof -
    from diff ok(2) have "p \<in> (\<lambda>f. P + 4096 * ((f - first) div 4096)) ` set ?fs" by blast
    then obtain f where f: "f \<in> set ?fs" "p = P + 4096 * ((f - first) div 4096)" by blast
    then obtain j where j: "f = first + 4096 * j" "first + 4096 * j \<le> l"
      using range_steps [OF assms(7,8)] by metis
    have "block f 4096 \<inter> usable_bytes (ld_al st) = {}" using assms(9) j by fastforce
    moreover have "4096 dvd f" using j assms(7) by simp
    ultimately show ?thesis using ok(1) f by blast
  qed
  have vm': "vm_ok (usable_bytes (ld_al st)) (bf_next_frame (ld_al st)) ?V'"
    by (rule vm_ok_images [OF vm _ assms(3,4)]) (use new in blast)
  have "ld_ok view st'" using vm_ok_mono [OF vm'] r unfolding ld_ok_def U by blast
  then have step: "ld_step E view st st'" using reach U ok(4) tm'(3) unfolding ld_step_def by simp
  have keep: "ld_keep view st st'" by (rule ld_keepI) (use ok(3) tm'(3) in simp_all)
  have "ld_read view st' (P + y) = Some (ld_mem st (first + y)) \<and> ld_prot view st' (P + y) = Some fl
      \<and> ld_prot view st (P + y) = None" if y: "first + y < l + 4096" for y
  proof -
    let ?f = "first + page_of y"
    have d: "4096 dvd ?f" using assms(7) by simp
    have "?f < l + 4096" using y page_of_le(1) [of y] by linarith
    then have "?f \<le> l" using page_dvd_step [OF d assms(8)] by blast
    then have mem: "?f \<in> set ?fs" using set_range_list [OF _ assms(7,8)] d by simp
    have e: "P + 4096 * ((?f - first) div 4096) = P + page_of y" by simp
    have pg: "page_of (P + y) = P + page_of y" and md: "(P + y) mod 4096 = y mod 4096"
      using page_of_base [OF assms(6)] assms(6) by (auto elim!: dvdE)
    have v1: "?V' (P + page_of y) = Some (?f, fl)" using bspec [OF ok(1) mem] unfolding e .
    have v0: "?V (P + page_of y) = None" using bspec [OF map_offset_unmapped [OF off assms(3,5)] mem] unfolding e .
    have a: "?f + y mod 4096 = first + y" using page_of_le(3) [of y] by simp
    have "fl - {BIT_9} = fl" using assms(4) by simp
    then show ?thesis using v0 v1 by (simp add: ld_read_def ld_prot_def vread_def vflags_def pg md tm'(3) a)
  qed
  then show ?thesis using step keep tm'(3) by blast
qed

subsection \<open>The \<open>.bss\<close> part of a segment\<close>

lemma map_bss_page:
  assumes "ld_alloc E st = Inr (Some f, st1)" and "ld_ok view st" and "PRESENT \<in> fl" and "4096 dvd p"
    and "ld_map_to E msg fl p f (st1\<lparr>ld_mem := write_bytes f 0 4096 (ld_mem st1)\<rparr>) = Inr st2"
  shows "ld_step E view st st2 \<and> ld_keep view st st2
     \<and> (\<forall>v. page_of v = p \<longrightarrow> ld_read view st2 v = Some 0 \<and> ld_prot view st2 v = Some (fl - {BIT_9})
          \<and> ld_prot view st v = None)"
proof -
  let ?V = "view (tm_inner (ld_tm st))" and ?U = "usable_bytes (ld_al st)" and ?n = "bf_next_frame (ld_al st)"
  have wf: "bf_wf (ld_al st)" and vm: "vm_ok ?U ?n ?V" using assms(2) by (auto simp: ld_ok_def)
  from assms(1) obtain al1 where al: "be_alloc E (ld_al st) = Inr (Some f, al1)" and st1: "st1 = st\<lparr>ld_al := al1\<rparr>"
    by (auto simp: ld_alloc_def run_simps)
  from assms(5) obtain tm2 al2 where step: "boot_map_to E msg fl p f (ld_tm st, al1) = Inr (tm2, al2)"
    and st2: "st2 = st\<lparr>ld_tm := tm2, ld_al := al2, ld_mem := write_bytes f 0 4096 (ld_mem st)\<rparr>"
    by (auto simp: ld_map_to_def run_simps st1)
  have eq: "ld_tm st2 = tm2" "ld_al st2 = al2" "ld_mem st2 = write_bytes f 0 4096 (ld_mem st)" using st2 by simp_all
  have one: "?V p = None" "view (tm_inner tm2) = ?V(p \<mapsto> (f, fl))"
    "\<exists>t. ld_tm st2 = (ld_tm st)\<lparr>tm_inner := t\<rparr>" "alloc_reach (be_alloc E) al1 al2"
    using boot_map_to_ok [OF step assms(3)] unfolding eq by blast+
  have "bf_post (ld_al st) (Some f) al1" by (rule boot_allocate_frame_post [OF x wf al])
  then have f: "bf_wf al1" "bf_next_frame al1 = f + 4096" "?n \<le> f" "4096 dvd f" "block f 4096 \<subseteq> ?U"
    by (auto simp: bf_post_def)
  have r: "bf_wf al2" "f + 4096 \<le> bf_next_frame al2" using boot_reach [OF one(4) f(1)] f(2) by auto
  have reach: "alloc_reach (be_alloc E) (ld_al st) al2" by (rule alloc_reach_trans [OF one(4) alloc_one [OF al]])
  note U = usable_reach [OF reach wf]
  have "ld_ok view st2" unfolding ld_ok_def eq U one(2)
    using vm_ok_map_fresh [OF vm f(5,3,4) r(2) assms(3)] r(1) by blast
  moreover have "\<forall>a. a \<notin> ?U \<longrightarrow> ld_mem st2 a = ld_mem st a" using f(5) by (auto simp: eq write_bytes_def)
  ultimately have "ld_step E view st st2" using reach U one(3) unfolding ld_step_def eq by blast
  moreover have "ld_keep view st st2"
  proof (rule ld_keepI)
    fix q assume "?V q \<noteq> None"
    with one(1) have "q \<noteq> p" by auto
    then show "view (tm_inner (ld_tm st2)) q = ?V q" by (simp add: eq one(2))
  next
    fix q g fl' o' assume q: "?V q = Some (g, fl')" "o' < (4096::nat)"
    have "g + o' \<in> block g 4096" using q(2) by simp
    then have "g + o' \<notin> block f 4096" using vm_ok_fresh [OF vm q(1) f(5,3,4)] by blast
    then show "ld_mem st2 (g + o') = ld_mem st (g + o')" by (auto simp: eq write_bytes_def)
  qed
  ultimately show ?thesis using one(1,2)
    by (auto simp: ld_read_def ld_prot_def vread_def vflags_def eq write_bytes_def)
qed

lemma map_bss_pages_ok:
  assumes "map_bss_pages E fl pages st = Inr st'" and "ld_ok view st" and "PRESENT \<in> fl"
    and "\<forall>p\<in>set pages. 4096 dvd p"
  shows "ld_step E view st st' \<and> ld_keep view st st'
     \<and> (\<forall>v. page_of v \<in> set pages \<longrightarrow> ld_read view st' v = Some 0 \<and> ld_prot view st' v = Some (fl - {BIT_9})
          \<and> ld_prot view st v = None)"
  using assms(1,2,4)
proof (induction pages arbitrary: st)
  case Nil
  then show ?case by (simp add: ld_step_refl ld_keep_def)
next
  case (Cons p pages)
  from Cons.prems(1) obtain f st1 st2 where al: "ld_alloc E st = Inr (Some f, st1)"
    and mp: "ld_map_to E ''failed to map bss page to kernel pml4 table'' fl p f
      (st1\<lparr>ld_mem := write_bytes f 0 4096 (ld_mem st1)\<rparr>) = Inr st2"
    and rest: "map_bss_pages E fl pages st2 = Inr st'"
    by (auto simp: run_simps)
  have p: "4096 dvd p" "\<forall>p\<in>set pages. 4096 dvd p" using Cons.prems(3) by simp_all
  note one = map_bss_page [OF al Cons.prems(2) assms(3) p(1) mp]
  have "ld_ok view st2" using one ld_step_ok by blast
  note IH = Cons.IH [OF rest this p(2)]
  have "ld_step E view st st'" using one IH ld_step_trans by blast
  moreover have "ld_keep view st st'" using one IH ld_keep_trans by blast
  moreover have "ld_read view st' v = Some 0 \<and> ld_prot view st' v = Some (fl - {BIT_9}) \<and> ld_prot view st v = None"
    if "page_of v \<in> set (p # pages)" for v
  proof (cases "page_of v = p")
    case True
    with one IH show ?thesis unfolding ld_keep_def by simp
  next
    case False
    with that IH one show ?thesis unfolding ld_keep_def by (metis set_ConsD)
  qed
  ultimately show ?case by blast
qed

lemma clear_bss_head_ok:
  assumes "clear_bss_head E b st = Inr st'" and "ld_ok view st" and "18446603336221196288 < b" and "b < two64"
  shows "ld_step E view st st' \<and> (\<forall>v. ld_prot view st' v = ld_prot view st v)
     \<and> (\<forall>v. ld_read view st' v = (if b mod 4096 \<noteq> 0 \<and> b \<le> v \<and> v < page_of b + 4096 then Some 0 else ld_read view st v))"
proof (cases "b mod 4096 = 0")
  case True
  with assms(1) have "st' = st" by (simp add: clear_bss_head_def)
  with True show ?thesis using ld_step_refl [OF assms(2)] by simp
next
  case False
  let ?o = "b mod 4096"
  have pg: "page_containing (be_x E) (b - 1) = page_of b"
    using page_of_pred [OF False] by (simp add: x86_laws.page_containing_eq [OF x] page_of_def [symmetric])
  from assms(1) False obtain f st1 where cp: "copy_page_and_remap E (page_of b) st = Inr (Some f, st1)"
    and st': "st' = st1\<lparr>ld_mem := write_bytes (f + ?o) 0 (4096 - ?o) (ld_mem st1)\<rparr>"
    by (auto simp: clear_bss_head_def run_simps Let_def x86_laws.VirtAddr_sub_high [OF x assms(3,4), unfolded One_nat_def]
        pg [unfolded One_nat_def])
  from copy_page_ok [OF cp assms(2)] obtain g fl where c: "view (tm_inner (ld_tm st)) (page_of b) = Some (g, fl)"
    "view (tm_inner (ld_tm st1)) = (view (tm_inner (ld_tm st)))(page_of b \<mapsto> (f, fl \<union> {BIT_9}))"
    "block f 4096 \<subseteq> usable_bytes (ld_al st)" "ld_step E view st st1"
    "\<forall>v. ld_read view st1 v = ld_read view st v" by blast
  have U: "usable_bytes (ld_al st1) = usable_bytes (ld_al st)" using c(4) by (simp add: ld_step_def)
  have "view (tm_inner (ld_tm st1)) (page_of b) = Some (f, fl \<union> {BIT_9})" using c(2) by simp
  from ld_store_ok [OF ld_step_ok [OF c(4)] this c(3) [folded U] page_of_dvd, of ?o "replicate (4096 - ?o) 0"]
  have sto: "ld_step E view st1 st'"
    "\<And>v. ld_read view st' v = (if page_of b + ?o \<le> v \<and> v < page_of b + ?o + (4096 - ?o)
        then Some (replicate (4096 - ?o) 0 ! (v - (page_of b + ?o))) else ld_read view st1 v)"
    by (simp_all add: st' write_bytes_store)
  have b: "page_of b + ?o = b" "b + (4096 - ?o) = page_of b + 4096"
    using page_of_le [of b] by simp_all
  have "ld_read view st' v = (if b \<le> v \<and> v < page_of b + 4096 then Some 0 else ld_read view st v)" for v
  proof -
    have "v - b < 4096 - ?o" if "b \<le> v" "v < page_of b + 4096" using that b(2) by linarith
    then show ?thesis using sto(2) [of v] c(5) unfolding b by simp
  qed
  moreover have "ld_prot view st' v = ld_prot view st v" for v
    by (rule ld_prot_upd [OF c(1)]) (simp add: c(2) st')
  ultimately show ?thesis using ld_step_trans [OF c(4) sto(1)] False by simp
qed

subsection \<open>A LOAD segment\<close>

lemma page_containing_page_of: "page_containing (be_x E) a = page_of a" "frame_containing (be_x E) a = page_of a"
  by (simp_all add: x86_laws.page_containing_eq [OF x] x86_laws.frame_containing_eq [OF x] page_of_def)

lemma prepare_segment_eq:
  assumes "prepare_segment E kaddr defined start ph = Inr sg" and "18446603336221196288 \<le> start"
    and "ph_memsz ph \<noteq> 0"
  defines "S \<equiv> start + (ph_vaddr ph - defined)" and "B \<equiv> kaddr + ph_offset ph"
  shows "defined \<le> ph_vaddr ph" and "S + ph_memsz ph < two64" and "S + ph_filesz ph < two64"
    and "1 \<le> B + ph_filesz ph"
    and "sg = \<lparr>sg_start = S, sg_mem_end = S + ph_memsz ph, sg_file_end = S + ph_filesz ph,
       sg_first_frame = page_of B, sg_last_frame = page_of (B + ph_filesz ph - 1),
       sg_start_page = page_of S, sg_end_page = page_of (S + ph_memsz ph - 1)\<rparr>"
proof -
  note add = x86_laws.VirtAddr_add_high [OF x]
  have S: "18446603336221196288 \<le> S" using assms(2) by (simp add: S_def)
  from assms(1) have d: "defined \<le> ph_vaddr ph" "S < two64"
    by (auto simp: prepare_segment_def run_simps add [OF assms(2)] S_def)
  from assms(1) d have m: "S + ph_memsz ph < two64" "S + ph_filesz ph < two64"
    by (auto simp: prepare_segment_def run_simps add [OF assms(2)] add [OF S] S_def [symmetric])
  have l: "VirtAddr_sub (be_x E) (S + ph_memsz ph) 1 = Inr (S + ph_memsz ph - 1)"
    by (rule x86_laws.VirtAddr_sub_high [OF x]) (use S assms(3) m in auto)
  from assms(1) d m l show "1 \<le> B + ph_filesz ph" and "sg = \<lparr>sg_start = S, sg_mem_end = S + ph_memsz ph,
       sg_file_end = S + ph_filesz ph, sg_first_frame = page_of B, sg_last_frame = page_of (B + ph_filesz ph - 1),
       sg_start_page = page_of S, sg_end_page = page_of (S + ph_memsz ph - 1)\<rparr>"
    by (auto simp: prepare_segment_def run_simps add [OF assms(2)] add [OF S] S_def [symmetric] B_def
        page_containing_page_of x86_laws.PhysAddr_add_eq_Inr [OF x] x86_laws.PhysAddr_sub_eq_Inr [OF x])
  show "defined \<le> ph_vaddr ph" "S + ph_memsz ph < two64" "S + ph_filesz ph < two64" using d m by auto
qed

lemma load_segment_file:
  assumes "map_file_frames E (seg_flags ph) (page_of S) (page_of B) (range_list 4096 (page_of B) (page_of (B + n - 1))) st
      = Inr st'" and "ld_ok view st" and "18446603336221196288 \<le> page_of S" and "S mod 4096 = B mod 4096"
    and "1 \<le> B + n" and "\<And>a. page_of B \<le> a \<Longrightarrow> a < page_of (B + n - 1) + 4096 \<Longrightarrow> a \<notin> usable_bytes (ld_al st)"
  shows "ld_step E view st st' \<and> ld_keep view st st'
     \<and> (\<forall>k. B + k < page_of (B + n - 1) + 4096 \<longrightarrow> ld_read view st' (S + k) = Some (ld_mem st (B + k))
          \<and> ld_prot view st' (S + k) = Some (seg_flags ph))
     \<and> (\<forall>v. page_of S \<le> v \<and> v - page_of S < page_of (B + n - 1) + 4096 - page_of B \<longrightarrow> ld_prot view st v = None)
     \<and> ld_mem st' = ld_mem st"
proof -
  let ?l = "page_of (B + n - 1)"
  have ok: "ld_step E view st st' \<and> ld_keep view st st'
     \<and> (\<forall>x. page_of B + x < ?l + 4096 \<longrightarrow> ld_read view st' (page_of S + x) = Some (ld_mem st (page_of B + x))
          \<and> ld_prot view st' (page_of S + x) = Some (seg_flags ph) \<and> ld_prot view st (page_of S + x) = None)
     \<and> ld_mem st' = ld_mem st"
    by (rule map_file_ok [OF assms(1,2)]) (use assms(3,6) in simp_all)
  have e: "page_of B + (B mod 4096 + k) = B + k" "page_of S + (B mod 4096 + k) = S + k" for k
    using page_of_le(3) [of B] page_of_le(3) [of S] assms(4) by linarith+
  have "ld_read view st' (S + k) = Some (ld_mem st (B + k)) \<and> ld_prot view st' (S + k) = Some (seg_flags ph)"
    if "B + k < ?l + 4096" for k
    using ok that e [of k] by (metis (no_types))
  moreover have "ld_prot view st v = None"
    if "page_of S \<le> v" "v - page_of S < ?l + 4096 - page_of B" for v
  proof -
    have "page_of B + (v - page_of S) < ?l + 4096" using that by linarith
    moreover have "page_of S + (v - page_of S) = v" using that(1) by simp
    ultimately show ?thesis using ok by metis
  qed
  ultimately show ?thesis using ok by blast
qed

lemma load_segment_bss:
  assumes head: "clear_bss_head E (S + n) st1 = Inr st2"
    and bss: "map_bss_pages E (seg_flags ph) (range_list 4096 (page_containing (be_x E) (page_of (S + n + 4095)))
        (page_containing (be_x E) (S + ph_memsz ph - 1))) st2 = Inr st'"
    and ok: "ld_ok view st1" and S: "18446603336221196288 < S + n" "S + n < two64"
    and k: "n \<le> k" "k < ph_memsz ph"
    and prot: "(S + n) mod 4096 \<noteq> 0 \<Longrightarrow> S + k < page_of (S + n) + 4096 \<Longrightarrow> ld_prot view st1 (S + k) = Some (seg_flags ph)"
  shows "ld_read view st' (S + k) = Some 0 \<and> ld_prot view st' (S + k) = Some (seg_flags ph)
     \<and> ((S + n) mod 4096 \<noteq> 0 \<and> S + k < page_of (S + n) + 4096 \<or> ld_prot view st1 (S + k) = None)"
proof -
  note h = clear_bss_head_ok [OF head ok S]
  then have "ld_ok view st2" using ld_step_ok by blast
  then have b: "ld_keep view st2 st'"
    "page_of v \<in> {p. page_of (page_of (S + n + 4095)) \<le> p \<and> p \<le> page_of (S + ph_memsz ph - 1) \<and> 4096 dvd p} \<Longrightarrow>
       ld_read view st' v = Some 0 \<and> ld_prot view st' v = Some (seg_flags ph) \<and> ld_prot view st2 v = None" for v
    using map_bss_pages_ok [OF bss] unfolding page_range by auto
  show ?thesis
  proof (cases "(S + n) mod 4096 \<noteq> 0 \<and> S + k < page_of (S + n) + 4096")
    case True
    then have "ld_prot view st2 (S + k) = Some (seg_flags ph)" "ld_read view st2 (S + k) = Some 0"
      using h prot k(1) by auto
    with b(1) True show ?thesis by (simp add: ld_keep_def)
  next
    case False
    have "page_of (S + n + 4095) \<le> S + k"
      using False page_of_up(3,4) [of "S + n"] k(1) by (cases "(S + n) mod 4096 = 0") simp_all
    then have "page_of (page_of (S + n + 4095)) \<le> page_of (S + k)" by (rule page_of_mono)
    moreover have "page_of (S + k) \<le> page_of (S + ph_memsz ph - 1)" by (rule page_of_mono) (use k(2) in simp)
    ultimately have "ld_read view st' (S + k) = Some 0 \<and> ld_prot view st' (S + k) = Some (seg_flags ph)
        \<and> ld_prot view st2 (S + k) = None" by (intro b(2)) simp
    with h show ?thesis by simp
  qed
qed

lemma clear_bss_head_keep:
  assumes "clear_bss_head E (S + n) st1 = Inr st2" and "ld_ok view st1"
    and "18446603336221196288 < S + n" and "S + n < two64" and "S mod 4096 = B mod 4096"
    and "ld_keep view st st1" and "1 \<le> B + n"
    and "\<forall>v. page_of S \<le> v \<and> v - page_of S < page_of (B + n - 1) + 4096 - page_of B \<longrightarrow> ld_prot view st v = None"
  shows "ld_keep view st st2"
  unfolding ld_keep_def
proof (intro allI impI)
  note h = clear_bss_head_ok [OF assms(1-4)]
  fix v assume v: "ld_prot view st v \<noteq> None"
  have out: "\<not> ((S + n) mod 4096 \<noteq> 0 \<and> S + n \<le> v \<and> v < page_of (S + n) + 4096)"
  proof
    assume a: "(S + n) mod 4096 \<noteq> 0 \<and> S + n \<le> v \<and> v < page_of (S + n) + 4096"
    then have "page_of S \<le> v" "v - page_of S < page_of (B + n - 1) + 4096 - page_of B"
      using page_window [OF assms(5) conjunct1 [OF a]] page_of_le(1) [of S] by linarith+
    then have "ld_prot view st v = None" using assms(8) by (elim allE [of _ v]) (elim impE, simp_all)
    with v show False by simp
  qed
  have "ld_read view st2 v = ld_read view st1 v"
    using conjunct2 [OF conjunct2 [OF h], rule_format, of v] by (simp only: out if_False)
  then show "ld_read view st2 v = ld_read view st v \<and> ld_prot view st2 v = ld_prot view st v"
    using h assms(6) v unfolding ld_keep_def by simp
qed

lemma load_segment_ok:
  assumes "load_segment E sg ph st = Inr st'" and "ld_ok view st"
    and "18446603336221196288 < page_of S" and "S + ph_memsz ph + 4096 \<le> two64" and "S + ph_filesz ph < two64"
    and cong: "S mod 4096 = B mod 4096" and "1 \<le> B + ph_filesz ph"
    and "\<And>a. page_of B \<le> a \<Longrightarrow> a < page_of (B + ph_filesz ph - 1) + 4096 \<Longrightarrow> a \<notin> usable_bytes (ld_al st)"
    and sg: "sg = \<lparr>sg_start = S, sg_mem_end = S + ph_memsz ph, sg_file_end = S + ph_filesz ph,
       sg_first_frame = page_of B, sg_last_frame = page_of (B + ph_filesz ph - 1),
       sg_start_page = page_of S, sg_end_page = page_of (S + ph_memsz ph - 1)\<rparr>"
  shows "ld_step E view st st' \<and> ld_keep view st st' \<and> seg_shows view st' S B ph (ld_mem st)
     \<and> (\<forall>k<ph_memsz ph. ld_prot view st (S + k) = None)"
proof -
  let ?n = "ph_filesz ph" and ?l = "page_of (B + ph_filesz ph - 1)"
  from assms(1) obtain st1 where mapped: "map_file_frames E (seg_flags ph) (page_of S) (page_of B)
      (range_list 4096 (page_of B) ?l) st = Inr st1"
    and rest: "(if ph_memsz ph \<le> ?n then Inr st1 else
         and_then (clear_bss_head E (S + ?n) st1) (\<lambda>st2.
         and_then (addr_align_up (be_x E) (S + ?n) 4096) (\<lambda>up.
         and_then (VirtAddr_new (be_x E) up) (\<lambda>bss_start.
         and_then (VirtAddr_sub (be_x E) (S + ph_memsz ph) 1) (\<lambda>l.
           map_bss_pages E (seg_flags ph)
             (range_list 4096 (page_containing (be_x E) bss_start) (page_containing (be_x E) l)) st2))))) = Inr st'"
    using and_then_eq_Inr [THEN iffD1, OF assms(1) [unfolded load_segment_def sg segment.select_convs]] by blast
  have hi: "18446603336221196288 \<le> page_of S" using assms(3) by simp
  note f = load_segment_file [OF mapped assms(2) hi cong assms(7,8)]
  have new: "ld_prot view st (S + k) = None" if "B + k < ?l + 4096" for k
  proof -
    have "page_of S \<le> S + k" "S + k - page_of S < ?l + 4096 - page_of B"
      using that page_of_le(1,3) [of S] page_of_le(1,3) [of B] cong by linarith+
    then show ?thesis using f by blast
  qed
  have inside: "B + k < ?l + 4096" if "k < ?n" for k using that page_of_le(2) [of "B + ?n - 1"] by linarith
  show ?thesis
  proof (cases "ph_memsz ph \<le> ?n")
    case True
    with rest have "st' = st1" by simp
    with True f inside new show ?thesis by (auto simp: seg_shows_def)
  next
    case False
    have b1: "S + ?n + 4095 < two64" and b2: "18446603336221196288 \<le> S" "S + ph_memsz ph < two64" "?n < ph_memsz ph"
      using False assms(3,4) page_of_le(1) [of S] by linarith+
    have up: "addr_align_up (be_x E) (S + ?n) 4096 = Inr (page_of (S + ?n + 4095))"
      using x86_laws.addr_align_up_ok [OF x b1] by (simp add: page_of_def)
    have nw: "VirtAddr_new (be_x E) (page_of (S + ?n + 4095)) = Inr (page_of (S + ?n + 4095))"
      by (rule x86_laws.VirtAddr_new_high [OF x]) (use b1 b2 page_of_up(1) [of "S + ?n"] page_of_le(1) [of "S + ?n + 4095"] in linarith)+
    have l: "VirtAddr_sub (be_x E) (S + ph_memsz ph) 1 = Inr (S + ph_memsz ph - 1)"
      by (rule x86_laws.VirtAddr_sub_high [OF x]) (use b2 in linarith)+
    from rest False have "and_then (clear_bss_head E (S + ?n) st1) (\<lambda>st2. map_bss_pages E (seg_flags ph)
        (range_list 4096 (page_containing (be_x E) (page_of (S + ?n + 4095)))
          (page_containing (be_x E) (S + ph_memsz ph - 1))) st2) = Inr st'"
      by (simp only: if_False up nw l and_then_Inr)
    then obtain st2 where head: "clear_bss_head E (S + ?n) st1 = Inr st2"
      and bss: "map_bss_pages E (seg_flags ph) (range_list 4096 (page_containing (be_x E) (page_of (S + ?n + 4095)))
        (page_containing (be_x E) (S + ph_memsz ph - 1))) st2 = Inr st'"
      unfolding and_then_eq_Inr by blast
    have S: "18446603336221196288 < S + ?n" "S + ?n < two64" using assms(3,5) page_of_le(1) [of S] by linarith+
    have ok1: "ld_ok view st1" using f ld_step_ok by blast
    note h = clear_bss_head_ok [OF head ok1 S]
    then have ok2: "ld_ok view st2" using ld_step_ok by blast
    have b: "ld_step E view st2 st'" "ld_keep view st2 st'"
      using map_bss_pages_ok [OF bss ok2] unfolding page_range by auto
    have "ld_keep view st st2" by (rule clear_bss_head_keep [OF head ok1 S cong _ assms(7)]) (use f in blast)+
    then have keep: "ld_keep view st st'" using b(2) ld_keep_trans by blast
    have lo: "ld_read view st' (S + k) = Some (ld_mem st (B + k)) \<and> ld_prot view st' (S + k) = Some (seg_flags ph)"
      if "k < ?n" for k
    proof -
      have "ld_read view st2 (S + k) = Some (ld_mem st (B + k)) \<and> ld_prot view st2 (S + k) = Some (seg_flags ph)"
        using f h inside [OF that] that by simp
      with b(2) show ?thesis by (simp add: ld_keep_def)
    qed
    have low: "B + k < ?l + 4096" if "(S + ?n) mod 4096 \<noteq> 0" "S + k < page_of (S + ?n) + 4096" for k
      using page_window [OF cong that(1)] that(2) page_of_le(1,3) [of S] page_of_le(1,3) [of B] cong by linarith
    have hi: "ld_read view st' (S + k) = Some 0 \<and> ld_prot view st' (S + k) = Some (seg_flags ph)
        \<and> ld_prot view st (S + k) = None" if "?n \<le> k" "k < ph_memsz ph" for k
    proof -
      have "ld_read view st' (S + k) = Some 0 \<and> ld_prot view st' (S + k) = Some (seg_flags ph)
         \<and> ((S + ?n) mod 4096 \<noteq> 0 \<and> S + k < page_of (S + ?n) + 4096 \<or> ld_prot view st1 (S + k) = None)"
        by (rule load_segment_bss [OF head bss ok1 S that]) (use f low in blast)
      then show ?thesis using low [of k] new [of k] f unfolding ld_keep_def by metis
    qed
    have "seg_shows view st' S B ph (ld_mem st)" using lo hi by (auto simp: seg_shows_def not_less)
    moreover have "\<forall>k<ph_memsz ph. ld_prot view st (S + k) = None" using new inside hi not_less by metis
    moreover have "ld_step E view st st'" using f h b(1) ld_step_trans by blast
    ultimately show ?thesis using keep by blast
  qed
qed

end

end
