(* ===== verification/Boot_Load.thy ===== *)
theory Boot_Load
  imports Boot_Elf_Proofs
begin

section \<open>The loaded kernel image\<close>

text \<open>
  The specification of the whole loader and the proof that \<open>load_kernel_to_virt_mem\<close> meets it.  The
  relocations of a file are a list of writes to a flat memory (\<open>load_writes\<close>), read from the image
  as it was before the load; \<open>overlaid\<close> puts such writes over the bytes of the segments.  After a
  load that returns, every byte of every LOAD segment is the byte of the file, or zero behind its
  file part, with the relocations over it, its page has the flags of the segment without
  \<open>WRITABLE\<close> in the read-only-after-relocation range, and exactly slot 511 has been taken.
\<close>

subsection \<open>The relocations of a file\<close>

definition rela_write :: "memory \<Rightarrow> nat \<Rightarrow> nat \<Rightarrow> nat \<Rightarrow> nat \<Rightarrow> nat \<Rightarrow> nat \<times> 8 word list" where
  "rela_write mem kaddr defined start ptr i =
     (let r = read_rela mem (kaddr + (ptr - defined + i * 24))
      in (start + (rela_offset r - defined), le_bytes 8 (start + (rela_addend r - defined))))"

definition dyn_writes :: "memory \<Rightarrow> nat \<Rightarrow> nat \<Rightarrow> nat \<Rightarrow> program_header \<Rightarrow> (nat \<times> 8 word list) list" where
  "dyn_writes mem kaddr defined start ph =
     (case rela_table (ph_data ph) of
        Inr (Some (ptr, n)) \<Rightarrow> map (rela_write mem kaddr defined start ptr) [0 ..< n]
      | _ \<Rightarrow> [])"

fun load_writes :: "memory \<Rightarrow> nat \<Rightarrow> nat \<Rightarrow> nat \<Rightarrow> program_header list \<Rightarrow> (nat \<times> 8 word list) list" where
  "load_writes mem kaddr defined start [] = []"
| "load_writes mem kaddr defined start (ph # phs) =
     (if ph_memsz ph \<noteq> 0 \<and> ph_kind ph = PtDynamic then dyn_writes mem kaddr defined start ph else [])
     @ load_writes mem kaddr defined start phs"

subsection \<open>One relocation table\<close>

context boot_maps
begin

lemma apply_rela_ok:
  assumes "apply_rela E kaddr klen defined start ptr i st = Inr st'" and "ld_ok view st"
    and "18446603336221196288 \<le> start"
  shows "ld_step E view st st'
     \<and> (\<forall>v. ld_read view st' v = overlaid [rela_write (ld_mem st) kaddr defined start ptr i] (ld_read view st) v)
     \<and> (\<forall>v. ld_prot view st' v = ld_prot view st v)"
proof -
  let ?r = "read_rela (ld_mem st) (kaddr + (ptr - defined + i * 24))"
  from assms(1) have w: "copy_pages_and_write E (start + (rela_offset ?r - defined))
      (le_bytes 8 (start + (rela_addend ?r - defined))) st = Inr st'"
    by (auto simp: apply_rela_def run_simps Let_def x86_laws.VirtAddr_add_high [OF x assms(3)] split: if_splits)
  have "18446603336221196288 \<le> start + (rela_offset ?r - defined)" using assms(3) by simp
  from copy_pages_and_write_ok [OF w assms(2) this] show ?thesis
    by (simp add: overlaid_def rela_write_def Let_def)
qed

lemma apply_relas_ok:
  assumes "apply_relas E kaddr klen defined start ptr is st = Inr st'" and "ld_ok view st"
    and "18446603336221196288 \<le> start" and "\<And>a. a \<notin> usable_bytes (ld_al st) \<Longrightarrow> ld_mem st a = mem a"
    and "\<And>i a. i \<in> set is \<Longrightarrow> kaddr + (ptr - defined + i * 24) \<le> a \<Longrightarrow> a < kaddr + (ptr - defined + i * 24) + 24
      \<Longrightarrow> a \<notin> usable_bytes (ld_al st)"
  shows "ld_step E view st st'
     \<and> (\<forall>v. ld_read view st' v = overlaid (map (rela_write mem kaddr defined start ptr) is) (ld_read view st) v)
     \<and> (\<forall>v. ld_prot view st' v = ld_prot view st v)"
  using assms(1,2,4,5)
proof (induction "is" arbitrary: st)
  case Nil
  then show ?case by (simp add: ld_step_refl)
next
  case (Cons i "is")
  from Cons.prems(1) obtain st1 where step: "apply_rela E kaddr klen defined start ptr i st = Inr st1"
    and rest: "apply_relas E kaddr klen defined start ptr is st1 = Inr st'" by (auto simp: run_simps)
  note one = apply_rela_ok [OF step Cons.prems(2) assms(3)]
  have s1: "ld_step E view st st1" using one by blast
  have U: "usable_bytes (ld_al st1) = usable_bytes (ld_al st)" using s1 by (simp add: ld_step_def)
  have m1: "\<And>a. a \<notin> usable_bytes (ld_al st1) \<Longrightarrow> ld_mem st1 a = mem a"
    using s1 Cons.prems(3) by (simp add: ld_step_def)
  have IH: "ld_step E view st1 st'
     \<and> (\<forall>v. ld_read view st' v = overlaid (map (rela_write mem kaddr defined start ptr) is) (ld_read view st1) v)
     \<and> (\<forall>v. ld_prot view st' v = ld_prot view st1 v)"
    by (rule Cons.IH [OF rest ld_step_ok [OF s1] m1]) (use Cons.prems(4) U in auto)
  have "rela_write (ld_mem st) kaddr defined start ptr i = rela_write mem kaddr defined start ptr i"
  proof -
    have "read_rela (ld_mem st) (kaddr + (ptr - defined + i * 24)) = read_rela mem (kaddr + (ptr - defined + i * 24))"
      by (rule read_rela_cong, rule Cons.prems(3), rule Cons.prems(4) [of i]) simp_all
    then show ?thesis by (simp add: rela_write_def)
  qed
  then have rd: "ld_read view st1 = overlaid [rela_write mem kaddr defined start ptr i] (ld_read view st)"
    using one by (intro ext) simp
  have "ld_read view st' v = overlaid (map (rela_write mem kaddr defined start ptr) (i # is)) (ld_read view st) v" for v
    using IH overlaid_append [of "[rela_write mem kaddr defined start ptr i]" "map (rela_write mem kaddr defined start ptr) is"]
    by (simp add: rd)
  moreover have "ld_step E view st st'" using s1 IH ld_step_trans by blast
  ultimately show ?case using one IH by simp
qed

subsection \<open>Marking the range of a segment\<close>

text \<open>Inside slot 511 every address has index 511, and a slot that is taken is not marked again.\<close>

lemma high_index:
  assumes "p4_base 511 \<le> a" and "a < two64"
  shows "p4_index (be_x E) (page_containing (be_x E) a) = 511"
proof -
  have "p4_base 511 \<le> page_of a" using page_of_mono [OF assms(1)] p4_base_dvd [of 511] by simp
  moreover have "page_of a < two64" using assms(2) page_of_le(1) [of a] by linarith
  ultimately have "page_of a div 549755813888 = 33554431" by (simp add: p4_base_def div_nat_eqI)
  then show ?thesis by (simp add: page_containing_page_of x86_laws.p4_index_eq [OF x])
qed

lemma mark_range_taken:
  assumes "tm_wf tm" and "tm_level tm = LevelFour" and "511 \<notin> free_slots tm"
    and "p4_base 511 \<le> a" and "a < e" and "e < two64"
  shows "mark_range_as_used (be_x E) tm a e = Inr (None, tm)"
proof -
  have "p4_base 511 = 18446743523953737728" by (simp add: p4_base_def)
  then have "VirtAddr_sub (be_x E) e 1 = Inr (e - 1)"
    by (intro x86_laws.VirtAddr_sub_high [OF x]) (use assms in linarith)+
  moreover have "p4_index (be_x E) (page_containing (be_x E) a) = 511"
    "p4_index (be_x E) (page_containing (be_x E) (e - 1)) = 511"
    by (rule high_index; use assms in linarith)+
  moreover have "mark_as_used (be_x E) tm 511 = Inr (None, tm)" by (rule mark_as_used_taken) (use assms in simp_all)
  ultimately show ?thesis using assms(2)
    by (simp add: mark_range_as_used_def level_index_def Let_def)
qed

subsection \<open>All segments\<close>

lemma load_dynamic_ok:
  assumes "load_dynamic E kaddr klen defined start ph st = Inr st'" and "ld_ok view st"
    and "18446603336221196288 \<le> start" and "\<And>a. a \<notin> usable_bytes (ld_al st) \<Longrightarrow> ld_mem st a = mem a"
    and "\<And>a. kaddr \<le> a \<Longrightarrow> a < kaddr + klen \<Longrightarrow> a \<notin> usable_bytes (ld_al st)"
    and "\<And>ptr n. rela_table (ph_data ph) = Inr (Some (ptr, n)) \<Longrightarrow> ptr - defined + n * 24 \<le> klen"
  shows "ld_step E view st st'
     \<and> (\<forall>v. ld_read view st' v = overlaid (dyn_writes mem kaddr defined start ph) (ld_read view st) v)
     \<and> (\<forall>v. ld_prot view st' v = ld_prot view st v)"
proof -
  from assms(1) obtain t where t: "rela_table (ph_data ph) = Inr t"
    and run: "(case t of None \<Rightarrow> Inr st
       | Some (ptr, n) \<Rightarrow> apply_relas E kaddr klen defined start ptr [0 ..< n] st) = Inr st'"
    by (auto simp: load_dynamic_def and_then_eq_Inr)
  show ?thesis
  proof (cases t)
    case None
    with run t assms(2) show ?thesis by (simp add: dyn_writes_def ld_step_refl)
  next
    case (Some pn)
    obtain ptr n where pn: "pn = (ptr, n)" by fastforce
    with run Some have loop: "apply_relas E kaddr klen defined start ptr [0 ..< n] st = Inr st'" by simp
    have sz: "ptr - defined + n * 24 \<le> klen" using assms(6) t Some pn by simp
    have "a \<notin> usable_bytes (ld_al st)" if "i \<in> set [0 ..< n]" "kaddr + (ptr - defined + i * 24) \<le> a"
      "a < kaddr + (ptr - defined + i * 24) + 24" for i a
    proof (rule assms(5))
      have "i * 24 + 24 \<le> n * 24" using that(1) by simp
      then show "a < kaddr + klen" using that(3) sz by linarith
      show "kaddr \<le> a" using that(2) by linarith
    qed
    from apply_relas_ok [OF loop assms(2-4) this] t Some pn show ?thesis by (simp add: dyn_writes_def)
  qed
qed

end

text \<open>The state of a load: the invariant, the image as it was, and slot 511 taken.\<close>

definition ld_at ::
  "('m \<Rightarrow> nat \<Rightarrow> (nat \<times> pt_flags) option) \<Rightarrow> memory \<Rightarrow> nat \<Rightarrow> nat \<Rightarrow> 'm load_state \<Rightarrow> bool" where
  "ld_at view mem kaddr klen st \<longleftrightarrow>
     ld_ok view st \<and> (\<forall>a. a \<notin> usable_bytes (ld_al st) \<longrightarrow> ld_mem st a = mem a)
     \<and> (\<forall>a. page_of kaddr \<le> a \<and> a < page_of (kaddr + klen - 1) + 4096 \<longrightarrow> a \<notin> usable_bytes (ld_al st))
     \<and> 1 \<le> klen \<and> tm_wf (ld_tm st) \<and> tm_level (ld_tm st) = LevelFour \<and> 511 \<notin> free_slots (ld_tm st)"

lemma ld_at_step: "ld_at view mem kaddr klen st \<Longrightarrow> ld_step E view st st' \<Longrightarrow> ld_at view mem kaddr klen st'"
  by (auto simp: ld_at_def ld_step_def)

text \<open>What one header does to the addresses that are mapped already, and which addresses it maps.\<close>

definition ph_effect ::
  "('m \<Rightarrow> nat \<Rightarrow> (nat \<times> pt_flags) option) \<Rightarrow> (nat \<times> 8 word list) list \<Rightarrow> (nat \<Rightarrow> bool) \<Rightarrow> 'm load_state \<Rightarrow> 'm load_state \<Rightarrow> bool" where
  "ph_effect view ws R st st' \<longleftrightarrow>
     (\<forall>v. ld_prot view st v \<noteq> None \<longrightarrow> ld_read view st' v = overlaid ws (ld_read view st) v
        \<and> ld_prot view st' v = map_option (\<lambda>fl. if R v then fl - {WRITABLE} else fl) (ld_prot view st v))
     \<and> (\<forall>v. overlay ws v \<noteq> None \<or> R v \<longrightarrow> ld_prot view st v \<noteq> None)"

context boot_maps
begin

lemma base_high: "18446603336221196288 < p4_base 511" "4096 dvd p4_base 511"
  using p4_base_dvd by (simp_all add: p4_base_def)

lemma ph_effect_same: "st' = st \<Longrightarrow> ph_effect view [] (\<lambda>_. False) st st'"
  by (simp add: ph_effect_def option.map_ident)

lemma load_header_load:
  assumes "load_segment E sg ph st = Inr st'" and "ld_at view mem kaddr klen st"
    and "image_ok kaddr klen defined (p4_base 511) [ph]" and "ph_kind ph = PtLoad" and "ph_memsz ph \<noteq> 0"
    and prep: "prepare_segment E kaddr defined (p4_base 511) ph = Inr sg"
  defines "S \<equiv> p4_base 511 + (ph_vaddr ph - defined)"
  shows "ld_step E view st st' \<and> ph_effect view [] (\<lambda>_. False) st st'
     \<and> (\<forall>k<ph_memsz ph. ld_prot view st (S + k) = None \<and> ld_read view st' (S + k) = Some (seg_byte mem kaddr ph k)
          \<and> ld_prot view st' (S + k) = Some (seg_flags ph))"
proof -
  let ?B = "kaddr + ph_offset ph"
  have hi: "18446603336221196288 \<le> p4_base 511" using base_high by simp
  note sg = prepare_segment_eq [OF prep hi assms(5), folded S_def]
  have im: "?B mod 4096 = S mod 4096" "ph_offset ph + ph_filesz ph \<le> klen" "S + ph_memsz ph + 4096 \<le> two64"
    using assms(3,4) unfolding image_ok_def S_def by auto
  have at: "ld_ok view st" "1 \<le> klen" "\<And>a. a \<notin> usable_bytes (ld_al st) \<Longrightarrow> ld_mem st a = mem a"
    "\<And>a. page_of kaddr \<le> a \<Longrightarrow> a < page_of (kaddr + klen - 1) + 4096 \<Longrightarrow> a \<notin> usable_bytes (ld_al st)"
    using assms(2) unfolding ld_at_def by blast+
  have "page_of (p4_base 511) \<le> page_of S" by (rule page_of_mono) (simp add: S_def)
  then have pS: "18446603336221196288 < page_of S" using base_high by simp
  have out: "a \<notin> usable_bytes (ld_al st)" if "page_of ?B \<le> a" "a < page_of (?B + ph_filesz ph - 1) + 4096" for a
  proof (rule at(4))
    show "page_of kaddr \<le> a" using that(1) page_of_mono [of kaddr ?B] by linarith
    have "page_of (?B + ph_filesz ph - 1) \<le> page_of (kaddr + klen - 1)" by (rule page_of_mono) (use im(2) in linarith)
    with that(2) show "a < page_of (kaddr + klen - 1) + 4096" by linarith
  qed
  note ld = load_segment_ok [OF assms(1) at(1) pS im(3) sg(3) im(1) [symmetric] sg(4) out sg(5)]
  have "ld_mem st (?B + k) = mem (?B + k)" if "k < ph_filesz ph" for k
  proof (rule at(3), rule out)
    show "page_of ?B \<le> ?B + k" using page_of_le(1) [of ?B] by linarith
    show "?B + k < page_of (?B + ph_filesz ph - 1) + 4096" using that page_of_le(2) [of "?B + ph_filesz ph - 1"] by linarith
  qed
  then have "\<forall>k<ph_memsz ph. ld_read view st' (S + k) = Some (seg_byte mem kaddr ph k)
      \<and> ld_prot view st' (S + k) = Some (seg_flags ph)"
    using ld by (simp add: seg_shows_def seg_byte_def)
  moreover have "ph_effect view [] (\<lambda>_. False) st st'"
    using ld by (simp add: ph_effect_def ld_keep_def option.map_ident)
  ultimately show ?thesis using ld by blast
qed

lemma load_header_dynamic:
  assumes "load_dynamic E kaddr klen defined (p4_base 511) ph st = Inr st'" and "ld_at view mem kaddr klen st"
    and "image_ok kaddr klen defined (p4_base 511) [ph]"
  shows "ld_step E view st st' \<and> ph_effect view (dyn_writes mem kaddr defined (p4_base 511) ph) (\<lambda>_. False) st st'"
proof -
  have hi: "18446603336221196288 \<le> p4_base 511" using base_high by simp
  have at: "ld_ok view st" "\<And>a. a \<notin> usable_bytes (ld_al st) \<Longrightarrow> ld_mem st a = mem a"
    "\<And>a. page_of kaddr \<le> a \<Longrightarrow> a < page_of (kaddr + klen - 1) + 4096 \<Longrightarrow> a \<notin> usable_bytes (ld_al st)"
    using assms(2) unfolding ld_at_def by blast+
  have img: "a \<notin> usable_bytes (ld_al st)" if "kaddr \<le> a" "a < kaddr + klen" for a
    by (rule at(3)) (use that page_of_le(1) [of kaddr] page_of_le(2) [of "kaddr + klen - 1"] in linarith)+
  have tab: "ptr - defined + n * 24 \<le> klen" if "rela_table (ph_data ph) = Inr (Some (ptr, n))" for ptr n
    using assms(3) that unfolding image_ok_def by simp
  have ok: "ld_step E view st st'
     \<and> (\<forall>v. ld_read view st' v = overlaid (dyn_writes mem kaddr defined (p4_base 511) ph) (ld_read view st) v)
     \<and> (\<forall>v. ld_prot view st' v = ld_prot view st v)"
    by (rule load_dynamic_ok [OF assms(1) at(1) hi at(2) img tab])
  have "ld_prot view st v \<noteq> None" if "overlay (dyn_writes mem kaddr defined (p4_base 511) ph) v \<noteq> None" for v
  proof -
    from that ok have "ld_read view st' v \<noteq> None" by (auto simp: overlaid_def)
    then have "ld_prot view st' v \<noteq> None" by (auto simp: ld_read_def vread_def ld_prot_None split: option.splits)
    with ok show ?thesis by simp
  qed
  with ok show ?thesis by (simp add: ph_effect_def option.map_ident)
qed

lemma load_header_relro:
  assumes "update_page_flag E (range_list 4096 (page_containing (be_x E) a) (page_containing (be_x E) b)) (- {WRITABLE}) st = Inr st'"
    and "ld_ok view st"
  shows "ld_step E view st st' \<and> ph_effect view [] (\<lambda>v. page_of a \<le> page_of v \<and> page_of v \<le> page_of b) st st'"
proof -
  note ok = update_page_flag_ok [OF assms, unfolded page_range]
  have "ld_prot view st' v = map_option (\<lambda>fl. if page_of a \<le> page_of v \<and> page_of v \<le> page_of b then fl - {WRITABLE} else fl)
      (ld_prot view st v)" for v
    using ok by (cases "vflags (view (tm_inner (ld_tm st))) v") (auto simp: ld_prot_def)
  moreover have "ld_prot view st v \<noteq> None" if "page_of a \<le> page_of v \<and> page_of v \<le> page_of b" for v
    using ok that by (simp add: ld_prot_None)
  ultimately show ?thesis using ok by (simp add: ph_effect_def)
qed

lemma load_header_ok:
  assumes "load_header E kaddr klen defined (p4_base 511) ph tls st = Inr (tls', st')"
    and "ld_at view mem kaddr klen st" and "image_ok kaddr klen defined (p4_base 511) [ph]"
  defines "S \<equiv> p4_base 511 + (ph_vaddr ph - defined)"
  shows "ld_step E view st st'
     \<and> ph_effect view (load_writes mem kaddr defined (p4_base 511) [ph]) (relro_seg defined (p4_base 511) ph) st st'
     \<and> (ph_kind ph = PtLoad \<longrightarrow> (\<forall>k<ph_memsz ph. ld_prot view st (S + k) = None
          \<and> ld_read view st' (S + k) = Some (seg_byte mem kaddr ph k) \<and> ld_prot view st' (S + k) = Some (seg_flags ph)))"
proof (cases "ph_memsz ph = 0")
  case True
  have "relro_seg defined (p4_base 511) ph = (\<lambda>_. False)" using True by (simp add: relro_seg_def fun_eq_iff)
  moreover have "st' = st" using assms(1) True by (simp add: load_header_def)
  ultimately show ?thesis using True assms(2) ph_effect_same [of st st] by (simp add: ld_at_def ld_step_refl)
next
  case False
  have hi: "18446603336221196288 \<le> p4_base 511" using base_high by simp
  from assms(1) False obtain sg r tm1 where prep: "prepare_segment E kaddr defined (p4_base 511) ph = Inr sg"
    and mark: "mark_range_as_used (be_x E) (ld_tm st) (sg_start sg) (sg_mem_end sg) = Inr (r, tm1)"
    by (auto simp: load_header_def and_then_eq_Inr)
  note sg = prepare_segment_eq [OF prep hi False, folded S_def]
  have "mark_range_as_used (be_x E) (ld_tm st) (sg_start sg) (sg_mem_end sg) = Inr (None, ld_tm st)"
    by (rule mark_range_taken) (use assms(2) sg False in \<open>auto simp: ld_at_def S_def\<close>)
  then have "tm1 = ld_tm st" using mark by simp
  then have st1: "st\<lparr>ld_tm := tm1\<rparr> = st" by simp
  have run: "(case ph_kind ph of
            PtLoad \<Rightarrow> and_then (load_segment E sg ph st) (\<lambda>st2. Inr (tls, st2))
          | PtDynamic \<Rightarrow> and_then (load_dynamic E kaddr klen defined (p4_base 511) ph st) (\<lambda>st2. Inr (tls, st2))
          | PtGnuRelro \<Rightarrow>
              and_then (update_page_flag E (range_list 4096 (sg_start_page sg) (sg_end_page sg))
                          (- {WRITABLE}) st) (\<lambda>st2. Inr (tls, st2))
          | PtTls \<Rightarrow> Inr (Some \<lparr>tls_start_virt_addr = sg_start sg, tls_mem_size = ph_memsz ph,
                         tls_file_size = ph_filesz ph\<rparr>, st)
          | _ \<Rightarrow> Inr (tls, st)) = Inr (tls', st')"
    using assms(1) False by (simp add: load_header_def prep mark st1)
  have ok: "ld_ok view st" using assms(2) by (simp add: ld_at_def)
  have R: "relro_seg defined (p4_base 511) ph = (\<lambda>v. ph_kind ph = PtGnuRelro \<and> page_of S \<le> page_of v
      \<and> page_of v \<le> page_of (S + ph_memsz ph - 1))" using False by (simp add: relro_seg_def S_def fun_eq_iff)
  show ?thesis
  proof (cases "ph_kind ph")
    case PtLoad
    with run have "load_segment E sg ph st = Inr st'" by (auto simp: run_simps)
    from load_header_load [OF this assms(2,3) PtLoad False prep] show ?thesis using PtLoad R by (simp add: S_def)
  next
    case PtDynamic
    with run have "load_dynamic E kaddr klen defined (p4_base 511) ph st = Inr st'" by (auto simp: run_simps)
    from load_header_dynamic [OF this assms(2,3)] show ?thesis using PtDynamic R False by simp
  next
    case PtGnuRelro
    with run have "update_page_flag E (range_list 4096 (page_containing (be_x E) S)
        (page_containing (be_x E) (S + ph_memsz ph - 1))) (- {WRITABLE}) st = Inr st'"
      by (auto simp: run_simps sg(5) page_containing_page_of)
    from load_header_relro [OF this ok] show ?thesis using PtGnuRelro R by simp
  qed (use run R ok ph_effect_same [of st st] in \<open>auto simp: ld_step_refl\<close>)
qed

text \<open>All headers together.\<close>

lemma load_segments_ok:
  assumes "load_segments E kaddr klen defined (p4_base 511) phs tls st = Inr (tls', st')"
    and "ld_at view mem kaddr klen st" and "image_ok kaddr klen defined (p4_base 511) phs"
  defines "ws \<equiv> load_writes mem kaddr defined (p4_base 511)" and "R \<equiv> in_relro defined (p4_base 511)"
    and "at ph k \<equiv> p4_base 511 + (ph_vaddr ph - defined) + k"
  shows "ld_step E view st st'
     \<and> (\<forall>v. ld_prot view st v \<noteq> None \<longrightarrow> ld_read view st' v = overlaid (ws phs) (ld_read view st) v
          \<and> ld_prot view st' v = map_option (\<lambda>fl. if R phs v then fl - {WRITABLE} else fl) (ld_prot view st v))
     \<and> (\<forall>ph\<in>set phs. ph_kind ph = PtLoad \<longrightarrow> (\<forall>k<ph_memsz ph.
          ld_prot view st (at ph k) = None
          \<and> ld_read view st' (at ph k) = overlaid (ws phs) (\<lambda>_. Some (seg_byte mem kaddr ph k)) (at ph k)
          \<and> ld_prot view st' (at ph k) = Some (if R phs (at ph k) then seg_flags ph - {WRITABLE} else seg_flags ph)))"
  using assms(1-3)
proof (induction phs arbitrary: tls st)
  case Nil
  then show ?case by (auto simp: ld_at_def ld_step_refl ws_def R_def in_relro_def option.map_ident)
next
  case (Cons ph phs)
  from Cons.prems(1) obtain tls1 st1 where head: "load_header E kaddr klen defined (p4_base 511) ph tls st = Inr (tls1, st1)"
    and rest: "load_segments E kaddr klen defined (p4_base 511) phs tls1 st1 = Inr (tls', st')"
    by (auto simp: run_simps)
  have im: "image_ok kaddr klen defined (p4_base 511) [ph]" "image_ok kaddr klen defined (p4_base 511) phs"
    using Cons.prems(3) by (auto simp: image_ok_def)
  define wh where "wh = ws [ph]"
  define Rh where "Rh = relro_seg defined (p4_base 511) ph"
  have h: "ld_step E view st st1" "ph_effect view wh Rh st st1"
    "ph_kind ph = PtLoad \<Longrightarrow> k < ph_memsz ph \<Longrightarrow> ld_prot view st (at ph k) = None
        \<and> ld_read view st1 (at ph k) = Some (seg_byte mem kaddr ph k) \<and> ld_prot view st1 (at ph k) = Some (seg_flags ph)" for k
    using load_header_ok [OF head Cons.prems(2) im(1)] unfolding wh_def ws_def Rh_def at_def by blast+
  note IH = Cons.IH [OF rest ld_at_step [OF Cons.prems(2) h(1)] im(2)]
  have ws: "ws (ph # phs) = wh @ ws phs" and R: "R (ph # phs) v \<longleftrightarrow> Rh v \<or> R phs v" for v
    by (auto simp: ws_def wh_def R_def Rh_def in_relro_def)
  have eff: "ld_prot view st v \<noteq> None \<Longrightarrow> ld_read view st1 v = overlaid wh (ld_read view st) v
      \<and> ld_prot view st1 v = map_option (\<lambda>fl. if Rh v then fl - {WRITABLE} else fl) (ld_prot view st v)"
    "overlay wh v \<noteq> None \<or> Rh v \<Longrightarrow> ld_prot view st v \<noteq> None" for v
    using h(2) unfolding ph_effect_def by blast+
  have old: "ld_read view st' v = overlaid (ws (ph # phs)) (ld_read view st) v
      \<and> ld_prot view st' v = map_option (\<lambda>fl. if R (ph # phs) v then fl - {WRITABLE} else fl) (ld_prot view st v)"
    if v: "ld_prot view st v \<noteq> None" for v
  proof -
    have v1: "ld_prot view st1 v \<noteq> None" using eff(1) v by simp
    have "overlaid (ws phs) (ld_read view st1) v = overlaid (ws phs) (overlaid wh (ld_read view st)) v"
      by (rule overlaid_cong) (use eff(1) [OF v] in simp)
    moreover have "ld_prot view st' v = map_option (\<lambda>fl. if R (ph # phs) v then fl - {WRITABLE} else fl) (ld_prot view st v)"
      using IH v1 eff(1) [OF v] v by (auto simp: R)
    ultimately show ?thesis using IH v1 by (simp add: ws overlaid_append)
  qed
  have new: "ld_prot view st (at ph' k) = None
      \<and> ld_read view st' (at ph' k) = overlaid (ws (ph # phs)) (\<lambda>_. Some (seg_byte mem kaddr ph' k)) (at ph' k)
      \<and> ld_prot view st' (at ph' k) = Some (if R (ph # phs) (at ph' k) then seg_flags ph' - {WRITABLE} else seg_flags ph')"
    if ph': "ph' \<in> set (ph # phs)" "ph_kind ph' = PtLoad" "k < ph_memsz ph'" for ph' k
  proof -
    let ?v = "at ph' k"
    have key: "ld_prot view st ?v = None
      \<and> ld_read view st' ?v = overlaid (ws phs) (\<lambda>_. Some (seg_byte mem kaddr ph' k)) ?v
      \<and> ld_prot view st' ?v = Some (if R phs ?v then seg_flags ph' - {WRITABLE} else seg_flags ph')"
    proof (cases "ph' \<in> set phs")
      case True
      with IH ph' have b: "ld_prot view st1 ?v = None"
        "ld_read view st' ?v = overlaid (ws phs) (\<lambda>_. Some (seg_byte mem kaddr ph' k)) ?v"
        "ld_prot view st' ?v = Some (if R phs ?v then seg_flags ph' - {WRITABLE} else seg_flags ph')" by blast+
      moreover have "ld_prot view st ?v = None" using b(1) eff(1) [of ?v] by (cases "ld_prot view st ?v") auto
      ultimately show ?thesis by blast
    next
      case False
      with ph' have hd: "ld_prot view st ?v = None" "ld_read view st1 ?v = Some (seg_byte mem kaddr ph' k)"
        "ld_prot view st1 ?v = Some (seg_flags ph')" using h(3) by auto
      then have "overlaid (ws phs) (ld_read view st1) ?v = overlaid (ws phs) (\<lambda>_. Some (seg_byte mem kaddr ph' k)) ?v"
        by (intro overlaid_cong) simp
      with IH hd show ?thesis by simp
    qed
    then have "overlay wh ?v = None" "\<not> Rh ?v" using eff(2) by blast+
    with key show ?thesis by (simp add: ws R overlaid_out)
  qed
  have "ld_step E view st st'" using h(1) IH ld_step_trans by blast
  with old new show ?case by blast
qed

subsection \<open>The second pass\<close>

lemma unmark_private_ok:
  assumes "unmark_private E defined (p4_base 511) phs st = Inr st'" and "ld_ok view st"
  shows "ld_step E view st st' \<and> (\<forall>v. ld_read view st' v = ld_read view st v \<and> ld_prot view st' v = ld_prot view st v)
     \<and> (\<forall>v fl. vflags (view (tm_inner (ld_tm st))) v = Some fl \<longrightarrow> BIT_9 \<notin> fl \<longrightarrow>
          vflags (view (tm_inner (ld_tm st'))) v = Some fl)
     \<and> (\<forall>ph\<in>set phs. ph_kind ph = PtLoad \<longrightarrow> (\<forall>k<ph_memsz ph.
          vflags (view (tm_inner (ld_tm st'))) (p4_base 511 + (ph_vaddr ph - defined) + k)
            = ld_prot view st (p4_base 511 + (ph_vaddr ph - defined) + k)))"
  using assms
proof (induction phs arbitrary: st)
  case Nil
  then show ?case by (simp add: ld_step_refl)
next
  case (Cons ph phs)
  show ?case
  proof (cases "ph_memsz ph = 0 \<or> ph_kind ph \<noteq> PtLoad")
    case True
    with Cons show ?thesis by auto
  next
    case False
    let ?S = "p4_base 511 + (ph_vaddr ph - defined)"
    have hi: "18446603336221196288 \<le> p4_base 511" "18446603336221196288 \<le> ?S" using base_high by simp_all
    note add = x86_laws.VirtAddr_add_high [OF x hi(1)] x86_laws.VirtAddr_add_high [OF x hi(2)]
    from Cons.prems(1) False have lt: "?S + ph_memsz ph < two64" by (auto simp: run_simps add)
    have l: "VirtAddr_sub (be_x E) (?S + ph_memsz ph) 1 = Inr (?S + ph_memsz ph - 1)"
      by (rule x86_laws.VirtAddr_sub_high [OF x]) (use base_high lt False in linarith)+
    from Cons.prems(1) False obtain st1 where up: "update_page_flag E (range_list 4096 (page_containing (be_x E) ?S)
        (page_containing (be_x E) (?S + ph_memsz ph - 1))) (- {BIT_9}) st = Inr st1"
      and rest: "unmark_private E defined (p4_base 511) phs st1 = Inr st'"
      by (auto simp: run_simps add l [unfolded One_nat_def])
    let ?in = "\<lambda>v. page_of ?S \<le> page_of v \<and> page_of v \<le> page_of (?S + ph_memsz ph - 1)"
    note U = update_page_flag_ok [OF up Cons.prems(2), unfolded page_range, simplified]
    have u: "ld_step E view st st1" "ld_read view st1 v = ld_read view st v" "vflags (view (tm_inner (ld_tm st1))) v
        = map_option (\<lambda>fl. if ?in v then fl - {BIT_9} else fl) (vflags (view (tm_inner (ld_tm st))) v)" for v
      using U by (simp, simp, cases "vflags (view (tm_inner (ld_tm st))) v", auto)
    have prot: "ld_prot view st1 v = ld_prot view st v" for v
      unfolding ld_prot_def u(3) by (cases "vflags (view (tm_inner (ld_tm st))) v") auto
    note IH = Cons.IH [OF rest ld_step_ok [OF u(1)]]
    have mine: "vflags (view (tm_inner (ld_tm st'))) (?S + k) = ld_prot view st (?S + k)" if "k < ph_memsz ph" for k
    proof (cases "vflags (view (tm_inner (ld_tm st))) (?S + k)")
      case None
      then have "ld_prot view st (?S + k) = None" by (simp add: ld_prot_def)
      then have "ld_prot view st' (?S + k) = None" using IH prot by simp
      with \<open>ld_prot view st (?S + k) = None\<close> show ?thesis by (simp add: ld_prot_def)
    next
      case (Some fl)
      have "?in (?S + k)" using page_of_mono [of ?S "?S + k"] page_of_mono [of "?S + k" "?S + ph_memsz ph - 1"] that by simp
      with Some u(3) have "vflags (view (tm_inner (ld_tm st1))) (?S + k) = Some (fl - {BIT_9})" by simp
      with IH Some show ?thesis by (simp add: ld_prot_def)
    qed
    have "ld_step E view st st'" using u(1) IH ld_step_trans by blast
    moreover have "vflags (view (tm_inner (ld_tm st'))) v = Some fl"
      if "vflags (view (tm_inner (ld_tm st))) v = Some fl" "BIT_9 \<notin> fl" for v fl
      using IH u(3) [of v] that by simp
    ultimately show ?thesis using IH mine u(2) prot by simp
  qed
qed

end

subsection \<open>The whole loader\<close>

fun last_tls :: "nat \<Rightarrow> nat \<Rightarrow> program_header list \<Rightarrow> tls_template option \<Rightarrow> tls_template option" where
  "last_tls defined start [] tls = tls"
| "last_tls defined start (ph # phs) tls =
     last_tls defined start phs
       (if ph_memsz ph \<noteq> 0 \<and> ph_kind ph = PtTls
        then Some \<lparr>tls_start_virt_addr = start + (ph_vaddr ph - defined), tls_mem_size = ph_memsz ph,
                   tls_file_size = ph_filesz ph\<rparr>
        else tls)"

definition kernel_image_ok :: "nat \<Rightarrow> nat \<Rightarrow> elf_file \<Rightarrow> nat \<Rightarrow> nat \<Rightarrow> bool" where
  "kernel_image_ok kaddr klen f d n \<longleftrightarrow>
     0 < n \<and> n + 4096 \<le> 549755813888
     \<and> (\<forall>ph\<in>set (elf_phs f). (ph_kind ph = PtLoad \<longrightarrow>
            (kaddr + ph_offset ph) mod 4096 = (ph_vaddr ph - d) mod 4096 \<and> ph_offset ph + ph_filesz ph \<le> klen)
          \<and> (\<forall>ptr m. rela_table (ph_data ph) = Inr (Some (ptr, m)) \<longrightarrow> ptr - d + m * 24 \<le> klen))"

lemma image_ok_base:
  assumes "kernel_image_ok kaddr klen f d n" and "elf_range f = Inr (d, n)"
  shows "image_ok kaddr klen d (p4_base 511) (elf_phs f)"
proof -
  have md: "(p4_base 511 + a) mod 4096 = a mod 4096" for a using p4_base_dvd [of 511] by (auto elim!: dvdE)
  have "p4_base 511 + (ph_vaddr ph - d) + ph_memsz ph + 4096 \<le> two64"
    if "ph \<in> set (elf_phs f)" "ph_kind ph = PtLoad" for ph
  proof -
    have "n + 4096 \<le> 549755813888" using assms(1) by (simp add: kernel_image_ok_def)
    moreover have "p4_base 511 = 18446743523953737728" by (simp add: p4_base_def)
    ultimately show ?thesis using elf_range_ok [OF assms(2) that] by linarith
  qed
  with assms(1) show ?thesis by (simp add: image_ok_def kernel_image_ok_def md)
qed

lemma overlay_low: "\<forall>w\<in>set ws. b \<le> fst w \<Longrightarrow> v < b \<Longrightarrow> overlay ws v = None"
  by (induction ws) auto

lemma load_writes_high: "w \<in> set (load_writes mem kaddr d start phs) \<Longrightarrow> start \<le> fst w"
  by (induction phs)
     (auto simp: dyn_writes_def rela_write_def Let_def split: if_splits sum.splits option.splits)

lemma in_relro_high:
  assumes "in_relro d start phs v" and "4096 dvd start"
  shows "start \<le> v"
proof -
  from assms(1) obtain ph :: program_header where "page_of (start + (ph_vaddr ph - d)) \<le> page_of v"
    unfolding in_relro_def relro_seg_def by blast
  then show ?thesis using page_of_mono [of start "start + (ph_vaddr ph - d)"] page_of_le(1) [of v] assms(2) by simp
qed

context boot_maps
begin

lemma load_segments_tls:
  assumes "load_segments E kaddr klen defined (p4_base 511) phs tls st = Inr (tls', st')"
  shows "tls' = last_tls defined (p4_base 511) phs tls"
  using assms
proof (induction phs arbitrary: tls st)
  case (Cons ph phs)
  have hi: "18446603336221196288 \<le> p4_base 511" using base_high by simp
  from Cons.prems obtain tls1 st1 where head: "load_header E kaddr klen defined (p4_base 511) ph tls st = Inr (tls1, st1)"
    and rest: "load_segments E kaddr klen defined (p4_base 511) phs tls1 st1 = Inr (tls', st')"
    by (auto simp: run_simps)
  have "tls1 = last_tls defined (p4_base 511) [ph] tls"
  proof (cases "ph_memsz ph = 0")
    case True
    with head show ?thesis by (simp add: load_header_def)
  next
    case False
    from head False obtain sg where prep: "prepare_segment E kaddr defined (p4_base 511) ph = Inr sg"
      by (auto simp: load_header_def and_then_eq_Inr)
    have "sg_start sg = p4_base 511 + (ph_vaddr ph - defined)" using prepare_segment_eq(5) [OF prep hi False] by simp
    with head False show ?thesis
      by (cases "ph_kind ph") (auto simp: load_header_def prep and_then_eq_Inr Let_def)
  qed
  with Cons.IH [OF rest] show ?case by simp
qed simp

lemma load_kernel_parts:
  assumes "load_kernel_to_virt_mem E parse kaddr klen st = Inr (lk, st')" and "parse (ld_mem st) kaddr klen = Some f"
  obtains d n tm1 tls st1 where "elf_range f = Inr (d, n)" "0 < klen"
    "take_slot E ''cannot get available pml4 entry, maybe it run out'' 511 n (ld_tm st) = Inr (511, tm1)"
    "load_segments E kaddr klen d (p4_base 511) (elf_phs f) None (st\<lparr>ld_tm := tm1\<rparr>) = Inr (tls, st1)"
    "unmark_private E d (p4_base 511) (elf_phs f) st1 = Inr st'"
    "lk = \<lparr>kernel_entry = p4_base 511 + (elf_entry f - d),
       lk_virt_space_offset = int (p4_base 511) - int d, lk_tls_template = tls\<rparr>"
proof -
  have hi: "18446603336221196288 \<le> p4_base 511" using base_high by simp
  from assms obtain d n i tm1 where 1: "elf_range f = Inr (d, n)" "0 < klen" "kaddr < max_phys"
    and slot: "take_slot E ''cannot get available pml4 entry, maybe it run out'' KERNEL_BYTES_P4 n (ld_tm st) = Inr (i, tm1)"
    by (auto simp: load_kernel_to_virt_mem_def run_simps Let_def x86_laws.PhysAddr_new_eq_Inr [OF x] split: if_splits)
  have i: "i = 511" using slot
    by (auto simp: take_slot_def run_simps p4_slots x86_laws.PageTableIndex_new_eq_Inr [OF x])
  have b: "page_from_indices_1gib (be_x E) 511 0 = p4_base 511"
    by (simp add: x86_laws.page_from_indices_1gib_eq [OF x])
  from assms 1 slot i obtain tls st1 where
    2: "load_segments E kaddr klen d (p4_base 511) (elf_phs f) None (st\<lparr>ld_tm := tm1\<rparr>) = Inr (tls, st1)"
    "unmark_private E d (p4_base 511) (elf_phs f) st1 = Inr st'"
    "lk = \<lparr>kernel_entry = p4_base 511 + (elf_entry f - d),
       lk_virt_space_offset = int (p4_base 511) - int d, lk_tls_template = tls\<rparr>"
    by (auto simp: load_kernel_to_virt_mem_def run_simps Let_def x86_laws.PhysAddr_new_ok [OF x]
        x86_laws.VirtAddr_add_high [OF x hi] b split: if_splits)
  from slot i have "take_slot E ''cannot get available pml4 entry, maybe it run out'' 511 n (ld_tm st) = Inr (511, tm1)"
    by (simp add: p4_slots)
  from that [OF 1(1,2) this 2] show thesis .
qed

end

subsection \<open>The result of a load\<close>

lemma load_kernel_ok:
  assumes "boot_maps E view" and "ld_ok view st" and "tm_wf (ld_tm st)" and "tm_level (ld_tm st) = LevelFour"
    and "parse (ld_mem st) kaddr klen = Some f" and "elf_range f = Inr (d, n)" and "kernel_image_ok kaddr klen f d n"
    and "\<forall>a. page_of kaddr \<le> a \<and> a < page_of (kaddr + klen - 1) + 4096 \<longrightarrow> a \<notin> usable_bytes (ld_al st)"
    and "load_kernel_to_virt_mem E parse kaddr klen st = Inr (lk, st')"
  shows "lk = \<lparr>kernel_entry = p4_base 511 + (elf_entry f - d), lk_virt_space_offset = int (p4_base 511) - int d,
             lk_tls_template = last_tls d (p4_base 511) (elf_phs f) None\<rparr>
     \<and> free_slots (ld_tm st') = free_slots (ld_tm st) - {511}
     \<and> (\<forall>ph\<in>set (elf_phs f). ph_kind ph = PtLoad \<longrightarrow> (\<forall>k<ph_memsz ph.
          let v = p4_base 511 + (ph_vaddr ph - d) + k in
          ld_read view st' v = overlaid (load_writes (ld_mem st) kaddr d (p4_base 511) (elf_phs f))
                                 (\<lambda>_. Some (seg_byte (ld_mem st) kaddr ph k)) v
          \<and> vflags (view (tm_inner (ld_tm st'))) v
              = Some (if in_relro d (p4_base 511) (elf_phs f) v then seg_flags ph - {WRITABLE} else seg_flags ph)))
     \<and> (\<forall>v<p4_base 511. ld_prot view st v \<noteq> None \<longrightarrow>
          ld_read view st' v = ld_read view st v \<and> ld_prot view st' v = ld_prot view st v)
     \<and> alloc_reach (be_alloc E) (ld_al st) (ld_al st') \<and> ld_ok view st'
     \<and> tm_wf (ld_tm st') \<and> tm_level (ld_tm st') = LevelFour"
proof -
  note B = assms(1)
  obtain d' n' tm1 tls st1 where p: "elf_range f = Inr (d', n')" "0 < klen"
    "take_slot E ''cannot get available pml4 entry, maybe it run out'' 511 n' (ld_tm st) = Inr (511, tm1)"
    "load_segments E kaddr klen d' (p4_base 511) (elf_phs f) None (st\<lparr>ld_tm := tm1\<rparr>) = Inr (tls, st1)"
    "unmark_private E d' (p4_base 511) (elf_phs f) st1 = Inr st'"
    "lk = \<lparr>kernel_entry = p4_base 511 + (elf_entry f - d'),
       lk_virt_space_offset = int (p4_base 511) - int d', lk_tls_template = tls\<rparr>"
    by (rule boot_maps.load_kernel_parts [OF B assms(9,5)])
  have dn: "d' = d" "n' = n" using p(1) assms(6) by simp_all
  note klen = p(2) and slot = p(3) [unfolded dn] and segs = p(4) [unfolded dn] and unm = p(5) [unfolded dn]
    and lk = p(6) [unfolded dn]
  have "0 < n" "n \<le> 549755813888" using assms(7) by (auto simp: kernel_image_ok_def)
  then have mk: "marked {511} (ld_tm st) tm1" using boot_maps.take_slot_ok [OF B slot assms(3,4)] by blast
  have tm1: "tm_inner tm1 = tm_inner (ld_tm st)" "tm_wf tm1" "tm_level tm1 = tm_level (ld_tm st)"
    "free_slots tm1 = free_slots (ld_tm st) - {511}"
    using mk by (simp_all add: marked_def)
  define st0 where "st0 = st\<lparr>ld_tm := tm1\<rparr>"
  have obs: "ld_read view st0 = ld_read view st" "ld_prot view st0 = ld_prot view st" "ld_al st0 = ld_al st"
    "ld_mem st0 = ld_mem st" "ld_tm st0 = tm1"
    using tm1(1) by (simp_all add: st0_def ld_read_def ld_prot_def fun_eq_iff)
  have at: "ld_at view (ld_mem st) kaddr klen st0"
    using assms(2,4,8) tm1 klen unfolding ld_at_def ld_ok_def obs by simp
  note L = boot_maps.load_segments_ok [OF B segs [folded st0_def] at image_ok_base [OF assms(7,6)], unfolded obs(1,2)]
  have s1: "ld_step E view st0 st1" using L by blast
  note U = boot_maps.unmark_private_ok [OF B unm ld_step_ok [OF s1]]
  have s2: "ld_step E view st0 st'" using ld_step_trans [OF s1] U by blast
  then have "free_slots (ld_tm st') = free_slots tm1" by (auto simp: ld_step_def obs(5))
  then have free: "free_slots (ld_tm st') = free_slots (ld_tm st) - {511}" using tm1(4) by simp
  have low: "ld_read view st' v = ld_read view st v \<and> ld_prot view st' v = ld_prot view st v"
    if v: "v < p4_base 511" "ld_prot view st v \<noteq> None" for v
  proof -
    have "\<not> in_relro d (p4_base 511) (elf_phs f) v" using in_relro_high [OF _ p4_base_dvd] v(1) by (meson not_le)
    moreover have "overlay (load_writes (ld_mem st) kaddr d (p4_base 511) (elf_phs f)) v = None"
      by (rule overlay_low [OF _ v(1)]) (use load_writes_high in blast)
    ultimately show ?thesis using L U v(2) by (simp add: overlaid_def option.map_ident)
  qed
  have rest: "alloc_reach (be_alloc E) (ld_al st) (ld_al st') \<and> ld_ok view st'
     \<and> tm_wf (ld_tm st') \<and> tm_level (ld_tm st') = LevelFour"
    using s2 tm1 assms(4) by (auto simp: ld_step_def obs)
  have "tls = last_tls d (p4_base 511) (elf_phs f) None" by (rule boot_maps.load_segments_tls [OF B segs])
  then show ?thesis using lk free low L U rest unfolding Let_def by simp
qed

subsection \<open>Properties\<close>

text \<open>C3. \<open>load_kernel_to_virt_mem\<close>: when the loader returns, every byte of every LOAD segment of the
  image is visible at its place in slot 511 as the byte of the file, or as zero in the part the
  file does not provide, except where a relocation of the image put the eight bytes of a
  relocated address; its page carries the access rights of the segment, without the right to
  write inside the read-only-after-relocation range and without the loader's own mark.  The
  returned entry point, offset and thread-local template are those of the file moved to slot 511;
  exactly slot 511 has been taken; and whatever was mapped below that slot is unchanged.\<close>

theorem kernel_image_loaded:
  assumes "boot_maps E view" and "ld_ok view st" and "tm_wf (ld_tm st)" and "tm_level (ld_tm st) = LevelFour"
    and "parse (ld_mem st) kaddr klen = Some f" and "elf_range f = Inr (d, n)" and "kernel_image_ok kaddr klen f d n"
    and "\<forall>a. page_of kaddr \<le> a \<and> a < page_of (kaddr + klen - 1) + 4096 \<longrightarrow> a \<notin> usable_bytes (ld_al st)"
    and "load_kernel_to_virt_mem E parse kaddr klen st = Inr (lk, st')"
  shows "lk = \<lparr>kernel_entry = p4_base 511 + (elf_entry f - d), lk_virt_space_offset = int (p4_base 511) - int d,
             lk_tls_template = last_tls d (p4_base 511) (elf_phs f) None\<rparr>
     \<and> free_slots (ld_tm st') = free_slots (ld_tm st) - {511}
     \<and> (\<forall>ph\<in>set (elf_phs f). ph_kind ph = PtLoad \<longrightarrow> (\<forall>k<ph_memsz ph.
          let v = p4_base 511 + (ph_vaddr ph - d) + k in
          ld_read view st' v = overlaid (load_writes (ld_mem st) kaddr d (p4_base 511) (elf_phs f))
                                 (\<lambda>_. Some (seg_byte (ld_mem st) kaddr ph k)) v
          \<and> vflags (view (tm_inner (ld_tm st'))) v
              = Some (if in_relro d (p4_base 511) (elf_phs f) v then seg_flags ph - {WRITABLE} else seg_flags ph)))
     \<and> (\<forall>v<p4_base 511. ld_prot view st v \<noteq> None \<longrightarrow>
          ld_read view st' v = ld_read view st v \<and> ld_prot view st' v = ld_prot view st v)"
  using load_kernel_ok [OF assms] by blast

text \<open>A small image at 8 MiB: one writable LOAD segment with a \<open>.bss\<close> part, a DYNAMIC segment with one
  relocation, and a GNU\_RELRO segment over the second page.\<close>

definition loader_map :: "memory_descriptor list" where
  "loader_map = [\<lparr>md_ty = CONVENTIONAL, phys_start = 0x100000, page_count = 0x400\<rparr>]"

definition sample_phs :: "program_header list" where
  "sample_phs =
     [\<lparr>ph_type = Some PtLoad, ph_sane = True, ph_offset = 0, ph_vaddr = 0, ph_filesz = 0x200, ph_memsz = 0x1200,
       ph_execute = False, ph_write = True, ph_data = SegmentOther\<rparr>,
      \<lparr>ph_type = Some PtDynamic, ph_sane = True, ph_offset = 0x100, ph_vaddr = 0x100, ph_filesz = 0x30, ph_memsz = 0x30,
       ph_execute = False, ph_write = True,
       ph_data = Dynamic64 [\<lparr>dyn_tag = Some TagRela, dyn_val = Some 0x180\<rparr>, \<lparr>dyn_tag = Some TagRelaSize, dyn_val = Some 24\<rparr>,
         \<lparr>dyn_tag = Some TagRelaEnt, dyn_val = Some 24\<rparr>]\<rparr>,
      \<lparr>ph_type = Some PtGnuRelro, ph_sane = True, ph_offset = 0x100, ph_vaddr = 0x1000, ph_filesz = 0x30, ph_memsz = 0x30,
       ph_execute = False, ph_write = True, ph_data = SegmentOther\<rparr>]"

definition sample_elf :: elf_file where
  "sample_elf = \<lparr>elf_type = SharedObject, elf_sane = True, elf_entry = 0x40, elf_phs = sample_phs\<rparr>"

definition sample_mem :: memory where
  "sample_mem = (\<lambda>a. if a = 0x800040 then 0xC3 else if a = 0x800180 \<or> a = 0x800188 then 8
     else if a = 0x800190 then 0x40 else 0)"

definition sample_load :: "(nat \<Rightarrow> (nat \<times> pt_flags) option) load_state" where
  "sample_load = \<lparr>ld_tm = slots_below 512, ld_al = new_starting_at 0x100000 loader_map, ld_mem = sample_mem\<rparr>"

definition sample_parse :: "memory \<Rightarrow> nat \<Rightarrow> nat \<Rightarrow> elf_file option" where
  "sample_parse mem a n = Some sample_elf"

lemma sample_rela: "read_rela sample_mem 0x800180 = \<lparr>rela_offset = 8, rela_info = 8, rela_addend = 0x40\<rparr>"
  by (simp add: read_rela_def read64_def sample_mem_def upt8)

lemmas load_eval = model_env_eval x86_model_eval canonical_def p4_base_def page_of_def map_mapper_eval range_list_def
  boot_map_to_def ld_map_to_def ld_alloc_def boot_allocate_frame_def allocate_frame_from_descriptor_def
  new_starting_at_def md_start_def md_len_def md_kind_def Let_def loader_map_def seg_flags_def ph_kind_def

lemma sample_load_segments:
  assumes "tm_inner tm = Map.empty" and "tm_wf tm" and "tm_level tm = LevelFour" and "511 \<notin> free_slots tm"
  shows "\<exists>st1 st2. load_segments model_env 0x800000 0x1000 0 (p4_base 511) sample_phs None
       (sample_load\<lparr>ld_tm := tm\<rparr>) = Inr (None, st1)
     \<and> unmark_private model_env 0 (p4_base 511) sample_phs st1 = Inr st2"
proof -
  have mk: "mark_range_as_used x86_model (tm\<lparr>tm_inner := m\<rparr>) a e = Inr (None, tm\<lparr>tm_inner := m\<rparr>)"
    if "18446743523953737728 \<le> a" "a < e" "e < two64" for m a e
    using bootm.mark_range_taken [of "tm\<lparr>tm_inner := m\<rparr>" a e] assms that
    by (simp add: model_env_eval p4_base_def)
  have "tm = tm\<lparr>tm_inner := Map.empty\<rparr>" using assms(1) by simp
  then have st: "sample_load\<lparr>ld_tm := tm\<rparr> = \<lparr>ld_tm = tm\<lparr>tm_inner := Map.empty\<rparr>,
      ld_al = new_starting_at 0x100000 loader_map, ld_mem = sample_mem\<rparr>" by (simp add: sample_load_def)
  show ?thesis unfolding st
    by (simp add: load_header_def prepare_segment_def sample_phs_def load_segment_def clear_bss_head_def
        copy_page_and_remap_def load_eval mk load_dynamic_def rela_table_def apply_rela_def sample_rela read_rela_write
        rela_symbol_def rela_type_def copy_pages_and_write_def write_page_part_def)
qed

lemma sample_range: "elf_range sample_elf = Inr (0, 0x1200)"
  by (simp add: elf_range_def sample_elf_def sample_phs_def)

lemma sample_load_run:
  "\<exists>lk st'. load_kernel_to_virt_mem model_env sample_parse 0x800000 0x1000 sample_load = Inr (lk, st')"
proof -
  have tm: "ld_tm sample_load = slots_below 512" by (simp add: sample_load_def)
  obtain tm1 where slot: "take_slot model_env ''cannot get available pml4 entry, maybe it run out'' 511 0x1200
      (slots_below 512) = Inr (511, tm1)" and mk: "marked {511} (slots_below 512) tm1"
    using bootm.take_slot_returns [where tm = "slots_below 512" and sz = "0x1200" and i = 511] slots_below_wf [of 512]
    by auto
  have i: "tm_inner (slots_below 512) = Map.empty" by (simp add: slots_below_def)
  have l: "tm_level (slots_below 512) = LevelFour" by (rule slots_below_wf(4)) simp_all
  have "tm_inner tm1 = Map.empty" "tm_wf tm1" "tm_level tm1 = LevelFour" "511 \<notin> free_slots tm1"
    using mk unfolding marked_def i l by simp_all
  from sample_load_segments [OF this] obtain st1 st2 where
    "load_segments model_env 0x800000 0x1000 0 (p4_base 511) sample_phs None (sample_load\<lparr>ld_tm := tm1\<rparr>) = Inr (None, st1)"
    "unmark_private model_env 0 (p4_base 511) sample_phs st1 = Inr st2" by blast
  moreover have "sanity_checks sample_elf = Inr ()" by (simp add: sanity_checks_def sample_elf_def sample_phs_def)
  moreover have "canonical (p4_base 511 + 0x40)" by (simp add: canonical_def p4_base_def)
  ultimately show ?thesis using slot sample_range
    by (simp add: load_kernel_to_virt_mem_def sample_parse_def tm p4_slots model_env_eval x86_model_eval Let_def)
       (simp add: sample_elf_def)
qed

lemma sample_image_ok: "kernel_image_ok 0x800000 0x1000 sample_elf 0 0x1200"
  by (simp add: kernel_image_ok_def sample_elf_def sample_phs_def ph_kind_def rela_table_def)

theorem kernel_image_loaded_witness:
  "\<exists>lk st'. load_kernel_to_virt_mem model_env sample_parse 0x800000 0x1000 sample_load = Inr (lk, st')
     \<and> kernel_entry lk = p4_base 511 + 0x40
     \<and> ld_read (\<lambda>m. m) st' (p4_base 511 + 0x1100) = overlaid (load_writes sample_mem 0x800000 0 (p4_base 511) sample_phs)
         (\<lambda>_. Some 0) (p4_base 511 + 0x1100)"
proof -
  obtain lk st' where run: "load_kernel_to_virt_mem model_env sample_parse 0x800000 0x1000 sample_load = Inr (lk, st')"
    using sample_load_run by blast
  have al: "ld_al sample_load = new_starting_at 0x100000 loader_map" "ld_mem sample_load = sample_mem"
    "ld_tm sample_load = slots_below 512" by (simp_all add: sample_load_def)
  have "bf_wf (new_starting_at 0x100000 loader_map)" by (rule new_starting_at_wf) (simp_all add: loader_map_def)
  then have ok: "ld_ok (\<lambda>m. m) sample_load" by (simp add: ld_ok_def vm_ok_def al slots_below_def)
  have us: "\<forall>a. page_of 0x800000 \<le> a \<and> a < page_of (0x800000 + 0x1000 - 1) + 4096 \<longrightarrow> a \<notin> usable_bytes (ld_al sample_load)"
    by (auto simp: al usable_bytes_def new_starting_at_def loader_map_def md_bytes_def md_limit_def page_of_def)
  have parse: "sample_parse (ld_mem sample_load) 0x800000 0x1000 = Some sample_elf" by (simp add: sample_parse_def)
  have "tm_wf (ld_tm sample_load)" "tm_level (ld_tm sample_load) = LevelFour"
    using slots_below_wf [of 512] by (simp_all add: al)
  note K = kernel_image_loaded [OF bootm.boot_maps_axioms ok this parse sample_range sample_image_ok us run]
  have ph: "sample_phs ! 0 \<in> set (elf_phs sample_elf)" "ph_kind (sample_phs ! 0) = PtLoad" "0x1100 < ph_memsz (sample_phs ! 0)"
    and seg: "ph_vaddr (sample_phs ! 0) = 0" "seg_byte (ld_mem sample_load) 0x800000 (sample_phs ! 0) 0x1100 = 0"
    by (simp_all add: sample_elf_def sample_phs_def ph_kind_def seg_byte_def)
  have "let v = p4_base 511 + (ph_vaddr (sample_phs ! 0) - 0) + 0x1100 in
      ld_read (\<lambda>m. m) st' v = overlaid (load_writes (ld_mem sample_load) 0x800000 0 (p4_base 511) (elf_phs sample_elf))
          (\<lambda>_. Some (seg_byte (ld_mem sample_load) 0x800000 (sample_phs ! 0) 0x1100)) v"
    using K ph unfolding Let_def by blast
  then have "ld_read (\<lambda>m. m) st' (p4_base 511 + 0x1100) =
      overlaid (load_writes sample_mem 0x800000 0 (p4_base 511) sample_phs) (\<lambda>_. Some 0) (p4_base 511 + 0x1100)"
    unfolding Let_def seg by (simp add: al sample_elf_def)
  moreover have "kernel_entry lk = p4_base 511 + 0x40" using conjunct1 [OF K] by (simp add: sample_elf_def)
  ultimately show ?thesis using run by blast
qed

text \<open>C31. \<open>copy_pages_and_write\<close>: writing a buffer at a virtual address in the upper half, page by page and
  with private copies of the pages, is a write to a flat memory: afterwards exactly the bytes
  from that address on are those of the buffer, every other virtual byte and every page's access
  rights are as before, and physical memory that the frame allocator does not own is untouched.\<close>

theorem virtual_write_flat:
  assumes "boot_maps E view" and "ld_ok view st" and "18446603336221196288 \<le> addr"
    and "copy_pages_and_write E addr buf st = Inr st'"
  shows "(\<forall>v. ld_read view st' v = overlaid [(addr, buf)] (ld_read view st) v)
     \<and> (\<forall>v. ld_prot view st' v = ld_prot view st v) \<and> ld_ok view st'
     \<and> (\<forall>a. a \<notin> usable_bytes (ld_al st) \<longrightarrow> ld_mem st' a = ld_mem st a)"
  using boot_maps.copy_pages_and_write_ok [OF assms(1,4,2,3)] by (simp add: overlaid_def ld_step_def)

text \<open>A two-byte write across a page boundary, onto two pages that share one frame of an image.\<close>

definition shared_load :: "(nat \<Rightarrow> (nat \<times> pt_flags) option) load_state" where
  "shared_load = \<lparr>ld_tm = (slots_below 511)\<lparr>tm_inner := [p4_base 511 \<mapsto> (0x800000, {PRESENT}),
       p4_base 511 + 0x1000 \<mapsto> (0x800000, {PRESENT})]\<rparr>,
     ld_al = new_starting_at 0x100000 loader_map, ld_mem = sample_mem\<rparr>"

theorem virtual_write_flat_witness:
  "\<exists>st'. copy_pages_and_write model_env (p4_base 511 + 0xFFF) [1, 2] shared_load = Inr st'
     \<and> ld_read (\<lambda>m. m) st' (p4_base 511 + 0x1000) = Some 2 \<and> ld_read (\<lambda>m. m) st' (p4_base 511 + 0xFFF) = Some 1
     \<and> ld_read (\<lambda>m. m) st' (p4_base 511) = ld_read (\<lambda>m. m) shared_load (p4_base 511)"
proof -
  obtain st' where run: "copy_pages_and_write model_env (p4_base 511 + 0xFFF) [1, 2] shared_load = Inr st'"
    by (simp add: shared_load_def copy_pages_and_write_def write_page_part_def copy_page_and_remap_def load_eval)
  have "block 0x800000 4096 \<inter> usable_bytes (new_starting_at 0x100000 loader_map) = {}"
    by (auto simp: usable_bytes_def new_starting_at_def loader_map_def md_bytes_def md_limit_def)
  moreover have "bf_wf (new_starting_at 0x100000 loader_map)" by (rule new_starting_at_wf) (simp_all add: loader_map_def)
  ultimately have "ld_ok (\<lambda>m. m) shared_load"
    by (auto simp: ld_ok_def vm_ok_def shared_load_def split: if_splits)
  moreover have "18446603336221196288 \<le> p4_base 511 + 0xFFF" by (simp add: p4_base_def)
  ultimately show ?thesis
    using virtual_write_flat [OF bootm.boot_maps_axioms _ _ run] run by (auto simp: overlaid_def)
qed

end
