(* ===== verification/Boot_Main.thy ===== *)
theory Boot_Main
  imports Boot_Load
begin

section \<open>The bootloader after the exit from the boot services (bootloader-efi/src/main.rs)\<close>

text \<open>
  The second half of \<open>efi_main\<close>: with the memory map in hand and the kernel and bootstrap images in
  memory, the bootloader builds the kernel's page table, loads the kernel, maps everything the
  kernel needs, lists the memory the kernel must not use, and jumps.  The theory models that
  sequence as one function of its inputs, and \<open>construct_unsafe_phys_mem_region_map\<close>.  It shows
  which virtual addresses the kernel receives, that the list of unavailable regions holds what it
  should, that without a framebuffer the sequence never reaches the kernel, and that the region
  recorded for the bootstrap image ignores the length of that image.
\<close>

subsection \<open>Regions the kernel must not use\<close>

record framebuffer =
  fb_ptr :: nat
  fb_len :: nat
  fb_width :: nat
  fb_height :: nat
  fb_stride :: nat

type_synonym region_array = "memory_region list \<times> nat"

definition write_region :: "memory_region \<Rightarrow> region_array \<Rightarrow> region_array run" where
  "write_region r st =
     (case st of (regions, curr_idx) \<Rightarrow>
       and_then (store regions curr_idx r) (\<lambda>regions'. Inr (regions', curr_idx + 1)))"

fun reserve_descriptors :: "x86 \<Rightarrow> memory_descriptor list \<Rightarrow> region_array \<Rightarrow> region_array run" where
  "reserve_descriptors X [] st = Inr st"
| "reserve_descriptors X (rg # rgs) st =
     (if \<not> usable_after_bootloader_exit rg then
        and_then (md_start X rg) (\<lambda>s.
        and_then (mul64 (page_count rg) 4096) (\<lambda>n.
        and_then (write_region \<lparr>mr_start = s, mr_length = n, mr_kind = Bootloader\<rparr> st) (\<lambda>st'.
          reserve_descriptors X rgs st')))
      else reserve_descriptors X rgs st)"

fun reserve_io_apics :: "madt_io_apic list \<Rightarrow> region_array \<Rightarrow> region_array run" where
  "reserve_io_apics [] st = Inr st"
| "reserve_io_apics (a # as) st =
     and_then (write_region \<lparr>mr_start = unat (ioapic_address a), mr_length = 4096, mr_kind = Bootloader\<rparr> st) (\<lambda>st'.
       reserve_io_apics as st')"

text \<open>\<open>uninit\<close> stands for the contents of the uninitialised array; the images are given by address
  and length.\<close>

definition construct_unsafe_phys_mem_region_map ::
  "x86 \<Rightarrow> memory_region list \<Rightarrow> memory_descriptor list \<Rightarrow> boot_frame_allocator \<Rightarrow> framebuffer option
     \<Rightarrow> nat \<Rightarrow> nat \<Rightarrow> nat \<Rightarrow> nat \<Rightarrow> nat \<Rightarrow> madt_io_apic list \<Rightarrow> nat \<Rightarrow> nat \<Rightarrow> region_array run" where
  "construct_unsafe_phys_mem_region_map X uninit memory_map al fb kernel_addr kernel_len bootstrap_addr bs_len
       lapic_base io_apics gdt kernel_page_table =
     and_then (reserve_descriptors X memory_map (uninit, 0)) (\<lambda>st1.
     and_then (allocated_region al) (\<lambda>r.
     and_then (write_region r st1) (\<lambda>st2.
     and_then (case fb of
                 None \<Rightarrow> Inr st2
               | Some f \<Rightarrow> write_region \<lparr>mr_start = fb_ptr f, mr_length = fb_len f, mr_kind = Bootloader\<rparr> st2) (\<lambda>st3.
     and_then (if 0 < kernel_len then Inr () else Inl OutOfBounds) (\<lambda>_.
     and_then (write_region \<lparr>mr_start = kernel_addr, mr_length = kernel_len, mr_kind = Bootloader\<rparr> st3) (\<lambda>st4.
     and_then (if 0 < bs_len then Inr () else Inl OutOfBounds) (\<lambda>_.
     and_then (write_region \<lparr>mr_start = bootstrap_addr, mr_length = kernel_len, mr_kind = Bootloader\<rparr> st4) (\<lambda>st5.
     and_then (write_region \<lparr>mr_start = lapic_base, mr_length = 4096, mr_kind = Bootloader\<rparr> st5) (\<lambda>st6.
     and_then (reserve_io_apics io_apics st6) (\<lambda>st7.
     and_then (write_region \<lparr>mr_start = gdt, mr_length = 4096, mr_kind = Bootloader\<rparr> st7) (\<lambda>st8.
       write_region \<lparr>mr_start = kernel_page_table, mr_length = 4096, mr_kind = Bootloader\<rparr> st8)))))))))))"

subsection \<open>The sequence\<close>

record boot_inputs =
  in_memory_map :: "memory_descriptor list"
  in_framebuffer :: "framebuffer option"
  in_kernel_addr :: nat
  in_kernel_len :: nat
  in_bootstrap_addr :: nat
  in_bootstrap_len :: nat
  in_acpi :: acpi_settings
  in_uninit :: "memory_region list"
  in_arg_addr :: nat                   \<comment> \<open>where the argument structure lies, and its size\<close>
  in_arg_len :: nat
  in_mem :: memory

text \<open>What is passed to \<open>context_switch\<close>, and the state at that moment.\<close>

record 'm handoff =
  ho_pml4 :: nat
  ho_stack_top :: nat
  ho_entry :: nat
  ho_arg_addr :: nat
  ho_arg :: kernel_arg
  ho_tm :: "'m tracked_mapper"
  ho_al :: boot_frame_allocator
  ho_mem :: memory

definition map_framebuffer_opt ::
  "'m boot_env \<Rightarrow> framebuffer option \<Rightarrow> 'm boot_state \<Rightarrow> (nat option \<times> 'm boot_state) run" where
  "map_framebuffer_opt E fb st =
     (case fb of
        None \<Rightarrow> Inr (None, st)
      | Some f \<Rightarrow> and_then (map_framebuffer E (fb_ptr f) (fb_len f) st) (\<lambda>(v, st'). Inr (Some v, st')))"

definition fb_field :: "framebuffer option \<Rightarrow> (framebuffer \<Rightarrow> nat) \<Rightarrow> nat" where
  "fb_field fb g = (case fb of None \<Rightarrow> 0 | Some f \<Rightarrow> g f)"

definition tls_default :: tls_template where
  "tls_default = \<lparr>tls_start_virt_addr = 0, tls_mem_size = 0, tls_file_size = 0\<rparr>"

definition boot_kernel ::
  "'m boot_env \<Rightarrow> (memory_descriptor list \<Rightarrow> memory_descriptor list)
     \<Rightarrow> (memory \<Rightarrow> nat \<Rightarrow> nat \<Rightarrow> elf_file option) \<Rightarrow> boot_inputs \<Rightarrow> 'm handoff run" where
  "boot_kernel E srt parse inp =
     (let mm = srt (in_memory_map inp); kernel_stack_size = 4096 * 128; fb = in_framebuffer inp in
      and_then (boot_frames_new (be_x E) mm) (\<lambda>al0.
      and_then (map_boot_stage_page_table E al0) (\<lambda>(_, al1).
      and_then (VirtAddr_new (be_x E) 0) (\<lambda>offs.
      and_then (create_page_table E offs al1) (\<lambda>(pml4, st2).
      and_then (max_phys_addr (be_x E) (snd st2)) (\<lambda>mx.
      and_then (map_physics_memory E mx st2) (\<lambda>(phys_virt, st3).
      and_then (load_kernel_to_virt_mem E parse (in_kernel_addr inp) (in_kernel_len inp)
                  \<lparr>ld_tm = fst st3, ld_al = snd st3, ld_mem = in_mem inp\<rparr>) (\<lambda>(lk, ld).
      and_then (map_bootstrap E (in_bootstrap_addr inp) (in_bootstrap_len inp) (ld_tm ld, ld_al ld)) (\<lambda>(bs_virt, st4).
      and_then (init_gdt_frame E st4) (\<lambda>(gdt, st5).
      and_then (alloc_and_map_kernel_stack E kernel_stack_size st5) (\<lambda>(stack, st6).
      and_then (VirtAddr_add (be_x E) stack kernel_stack_size) (\<lambda>stack_end.
      and_then (map_framebuffer_opt E fb st6) (\<lambda>(fb_virt, st7).
      and_then (if io_apic_count (in_acpi inp) \<le> length (io_apic (in_acpi inp))
                then Inr (take (io_apic_count (in_acpi inp)) (io_apic (in_acpi inp))) else Inl OutOfBounds) (\<lambda>io_apics.
      and_then (construct_unsafe_phys_mem_region_map (be_x E) (in_uninit inp) mm (snd st7) fb
                  (in_kernel_addr inp) (in_kernel_len inp) (in_bootstrap_addr inp) (in_bootstrap_len inp)
                  (local_apic_base (in_acpi inp)) io_apics gdt pml4) (\<lambda>(regions, n).
      and_then (max_phys_addr (be_x E) (snd st7)) (\<lambda>mx'.
        let stack_top = addr_align_down (be_x E) stack_end 16;
            arg = \<lparr>kernel_virt_space_offset = lk_virt_space_offset lk, gdt_start_addr = gdt,
                   kernel_pml4_start_addr = pml4, acpi = in_acpi inp, stack_top_addr = stack_top,
                   stack_size = kernel_stack_size,
                   framebuffer_addr = (case fb_virt of None \<Rightarrow> 0 | Some v \<Rightarrow> v),
                   framebuffer_len = fb_field fb fb_len, framebuffer_width = fb_field fb fb_width,
                   framebuffer_height = fb_field fb fb_height, framebuffer_stride = fb_field fb fb_stride,
                   phys_mem_mapped_addr = phys_virt, phys_mem_size = mx',
                   unav_phys_mem_regions = regions, unav_phys_mem_regions_len = n,
                   bootstrap_base = bs_virt, bootstrap_len = in_bootstrap_len inp,
                   arg_tls_template = (case lk_tls_template lk of None \<Rightarrow> tls_default | Some t \<Rightarrow> t)\<rparr>
        in and_then (map_kernel_arg E (in_arg_addr inp) (in_arg_len inp) arg st7) (\<lambda>(arg_virt, arg', st8).
             Inr \<lparr>ho_pml4 = pml4, ho_stack_top = stack_top, ho_entry = kernel_entry lk, ho_arg_addr = arg_virt,
                  ho_arg = arg', ho_tm = fst st8, ho_al = snd st8, ho_mem = ld_mem ld\<rparr>)))))))))))))))))"

subsection \<open>The recorded regions\<close>

definition recorded :: "region_array \<Rightarrow> memory_region list" where
  "recorded st = take (snd st) (fst st)"

definition extends :: "region_array \<Rightarrow> memory_region list \<Rightarrow> region_array \<Rightarrow> bool" where
  "extends st rs st' \<longleftrightarrow> recorded st' = recorded st @ rs \<and> length (fst st') = length (fst st)
     \<and> snd st' = snd st + length rs"

lemma extends_refl [simp]: "extends st [] st"
  by (simp add: extends_def)

lemma extends_trans: "extends st rs st' \<Longrightarrow> extends st' rs' st'' \<Longrightarrow> extends st (rs @ rs') st''"
  by (simp add: extends_def)

lemma write_region_ok: "write_region r st = Inr st' \<Longrightarrow> extends st [r] st'"
  by (cases st) (auto simp: write_region_def run_simps extends_def recorded_def take_Suc_conv_app_nth)

definition descriptor_region :: "memory_descriptor \<Rightarrow> memory_region" where
  "descriptor_region d = \<lparr>mr_start = phys_start d, mr_length = page_count d * 4096, mr_kind = Bootloader\<rparr>"

definition page_region :: "nat \<Rightarrow> memory_region" where
  "page_region a = \<lparr>mr_start = a, mr_length = 4096, mr_kind = Bootloader\<rparr>"

lemma reserve_descriptors_ok:
  assumes "x86_laws X" and "reserve_descriptors X ds st = Inr st'"
  shows "extends st (map descriptor_region (filter (\<lambda>d. \<not> usable_after_bootloader_exit d) ds)) st'"
  using assms(2)
proof (induction ds arbitrary: st)
  case (Cons d ds)
  show ?case
  proof (cases "usable_after_bootloader_exit d")
    case False
    with Cons.prems obtain st1 where w: "write_region (descriptor_region d) st = Inr st1"
      and rest: "reserve_descriptors X ds st1 = Inr st'"
      by (auto simp: run_simps md_start_def x86_laws.PhysAddr_new_eq_Inr [OF assms(1)] descriptor_region_def)
    from extends_trans [OF write_region_ok [OF w] Cons.IH [OF rest]] False show ?thesis by simp
  qed (use Cons in simp)
qed simp

lemma reserve_io_apics_ok:
  "reserve_io_apics as st = Inr st' \<Longrightarrow> extends st (map (\<lambda>a. page_region (unat (ioapic_address a))) as) st'"
proof (induction "as" arbitrary: st)
  case (Cons a "as")
  from Cons.prems obtain st1 where w: "write_region (page_region (unat (ioapic_address a))) st = Inr st1"
    and rest: "reserve_io_apics as st1 = Inr st'" by (auto simp: run_simps page_region_def)
  from extends_trans [OF write_region_ok [OF w] Cons.IH [OF rest]] show ?case by simp
qed simp

text \<open>The list the function builds, in its order.\<close>

definition reserved_regions ::
  "memory_descriptor list \<Rightarrow> memory_region \<Rightarrow> framebuffer option \<Rightarrow> nat \<Rightarrow> nat \<Rightarrow> nat \<Rightarrow> nat \<Rightarrow> madt_io_apic list
     \<Rightarrow> nat \<Rightarrow> nat \<Rightarrow> memory_region list" where
  "reserved_regions mm r fb kaddr klen bs_addr lapic ioas gdt pt =
     map descriptor_region (filter (\<lambda>d. \<not> usable_after_bootloader_exit d) mm) @ [r]
     @ (case fb of None \<Rightarrow> [] | Some f \<Rightarrow> [\<lparr>mr_start = fb_ptr f, mr_length = fb_len f, mr_kind = Bootloader\<rparr>])
     @ [\<lparr>mr_start = kaddr, mr_length = klen, mr_kind = Bootloader\<rparr>,
        \<lparr>mr_start = bs_addr, mr_length = klen, mr_kind = Bootloader\<rparr>, page_region lapic]
     @ map (\<lambda>a. page_region (unat (ioapic_address a))) ioas @ [page_region gdt, page_region pt]"

lemma construct_regions_ok:
  assumes "x86_laws X" and "construct_unsafe_phys_mem_region_map X uninit mm al fb kaddr klen bs_addr bs_len
      lapic ioas gdt pt = Inr (rs, n)"
  shows "\<exists>r. allocated_region al = Inr r \<and> take n rs = reserved_regions mm r fb kaddr klen bs_addr lapic ioas gdt pt
     \<and> length rs = length uninit \<and> n \<le> length rs"
proof -
  from assms(2) obtain st1 r st2 st3 st4 st5 st6 st7 st8 where
    1: "reserve_descriptors X mm (uninit, 0) = Inr st1" and r: "allocated_region al = Inr r"
    and w: "write_region r st1 = Inr st2"
      "(case fb of None \<Rightarrow> Inr st2
        | Some f \<Rightarrow> write_region \<lparr>mr_start = fb_ptr f, mr_length = fb_len f, mr_kind = Bootloader\<rparr> st2) = Inr st3"
      "write_region \<lparr>mr_start = kaddr, mr_length = klen, mr_kind = Bootloader\<rparr> st3 = Inr st4"
      "write_region \<lparr>mr_start = bs_addr, mr_length = klen, mr_kind = Bootloader\<rparr> st4 = Inr st5"
      "write_region (page_region lapic) st5 = Inr st6"
    and io: "reserve_io_apics ioas st6 = Inr st7"
    and w': "write_region (page_region gdt) st7 = Inr st8" "write_region (page_region pt) st8 = Inr (rs, n)"
    by (auto simp: construct_unsafe_phys_mem_region_map_def and_then_eq_Inr page_region_def split: if_splits)
  have fb: "extends st2 (case fb of None \<Rightarrow> [] | Some f \<Rightarrow> [\<lparr>mr_start = fb_ptr f, mr_length = fb_len f, mr_kind = Bootloader\<rparr>]) st3"
    using w(2) write_region_ok by (auto split: option.splits)
  have "extends (uninit, 0) (reserved_regions mm r fb kaddr klen bs_addr lapic ioas gdt pt) (rs, n)"
    using extends_trans [OF extends_trans [OF extends_trans [OF extends_trans [OF extends_trans [OF extends_trans
      [OF extends_trans [OF extends_trans [OF reserve_descriptors_ok [OF assms(1) 1] write_region_ok [OF w(1)]] fb]
        write_region_ok [OF w(3)]] write_region_ok [OF w(4)]] write_region_ok [OF w(5)]] reserve_io_apics_ok [OF io]]
        write_region_ok [OF w'(1)]] write_region_ok [OF w'(2)]]
    by (simp add: reserved_regions_def)
  moreover have "n \<le> length rs" using w'(2) by (cases st8) (auto simp: write_region_def run_simps)
  ultimately show ?thesis using r by (auto simp: extends_def recorded_def)
qed

subsection \<open>The stages\<close>

text \<open>What is mapped stays mapped the same way.\<close>

definition keeps :: "(nat \<Rightarrow> (nat \<times> pt_flags) option) \<Rightarrow> (nat \<Rightarrow> (nat \<times> pt_flags) option) \<Rightarrow> bool" where
  "keeps V V' \<longleftrightarrow> (\<forall>p. V p \<noteq> None \<longrightarrow> V' p = V p)"

lemma keeps_trans: "keeps V V' \<Longrightarrow> keeps V' V'' \<Longrightarrow> keeps V V''"
  unfolding keeps_def by metis

lemma keepsD: "keeps V V' \<Longrightarrow> V p \<noteq> None \<Longrightarrow> V' p = V p"
  unfolding keeps_def by blast

lemma keeps_vread:
  assumes "keeps V V'" and "vread V mem v \<noteq> None"
  shows "vread V' mem v = vread V mem v \<and> vflags V' v = vflags V v"
proof -
  have "V (page_of v) \<noteq> None" using assms(2) by (cases "V (page_of v)") (simp_all add: vread_def)
  from keepsD [OF assms(1) this] show ?thesis by (simp add: vread_def vflags_def)
qed

lemma keeps_translates: "keeps V V' \<Longrightarrow> translates V fl v a \<Longrightarrow> translates V' fl v a"
  unfolding translates_def by (metis keepsD option.distinct(1))

text \<open>The slots taken one after the other, from the top.\<close>

lemma Max_lessThan_Suc: "Max {..<Suc n} = n"
proof (rule Max_eqI)
  show "y \<le> n" if "y \<in> {..<Suc n}" for y using that unfolding lessThan_iff less_Suc_eq_le .
qed (simp_all only: finite_lessThan lessThan_iff lessI)

lemma slot_taken_top:
  assumes "slot_taken i tm tm'" and "free_slots tm = {..<Suc n}"
  shows "i = n \<and> free_slots tm' = {..<n}"
proof -
  have "i = n" "free_slots tm' = {..<Suc n} - {i}" using assms by (simp_all add: slot_taken_def Max_lessThan_Suc)
  moreover have "{..<Suc n} - {n} = {..<n}" by (simp add: lessThan_Suc)
  ultimately show ?thesis by simp
qed

definition same_but_regions :: "kernel_arg \<Rightarrow> kernel_arg \<Rightarrow> bool" where
  "same_but_regions arg arg' \<longleftrightarrow>
     (\<exists>rs n. arg' = arg\<lparr>unav_phys_mem_regions := rs, unav_phys_mem_regions_len := n\<rparr>)"

lemma arg_regions_only:
  assumes "push_region r1 arg = Inr arg1" and "push_region r2 arg1 = Inr arg2" and "sort_regions arg2 = Inr arg'"
  shows "same_but_regions arg arg'"
proof -
  obtain rs1 n1 where "arg1 = arg\<lparr>unav_phys_mem_regions := rs1, unav_phys_mem_regions_len := n1\<rparr>"
    using assms(1) by (auto simp: push_region_def run_simps)
  moreover obtain rs2 n2 where "arg2 = arg1\<lparr>unav_phys_mem_regions := rs2, unav_phys_mem_regions_len := n2\<rparr>"
    using assms(2) by (auto simp: push_region_def run_simps)
  moreover obtain rs3 where "arg' = arg2\<lparr>unav_phys_mem_regions := rs3\<rparr>"
    using assms(3) by (auto simp: sort_regions_def Let_def split: if_splits)
  ultimately have "arg' = arg\<lparr>unav_phys_mem_regions := rs3, unav_phys_mem_regions_len := n2\<rparr>" by simp
  then show ?thesis unfolding same_but_regions_def by blast
qed

context boot_maps
begin

lemma map_gib_frames_ok:
  assumes "map_gib_frames E p frames (tm, al) = Inr (tm', al')"
  shows "view (tm_inner tm') = view (tm_inner tm) \<and> (\<exists>t. tm' = tm\<lparr>tm_inner := t\<rparr>) \<and> alloc_reach (be_alloc E) al al'"
  using assms
proof (induction frames arbitrary: tm al)
  case Nil
  then show ?case by (auto intro: reach_refl exI [of _ "tm_inner tm"])
next
  case (Cons f frames)
  from Cons.prems obtain v m1 al1 where step: "map_to_1gib (be_m E) (be_alloc E) (tm_inner tm) al
      (page_1gib (be_x E) v) f {PRESENT, WRITABLE} = Inr (Inr (), m1, al1)"
    and rest: "map_gib_frames E p frames (tm\<lparr>tm_inner := m1\<rparr>, al1) = Inr (tm', al')"
    by (auto simp: run_simps)
  have "alloc_reach (be_alloc E) al al'"
    using alloc_reach_trans mapper_laws.map_to_1gib_reach [OF m step] Cons.IH [OF rest] by metis
  moreover have "view (tm_inner tm') = view (tm_inner tm)"
    using mapper_laws.map_to_1gib_view [OF m step] Cons.IH [OF rest] by simp
  moreover have "\<exists>t. tm' = tm\<lparr>tm_inner := t\<rparr>" using Cons.IH [OF rest] by auto
  ultimately show ?case by blast
qed

lemma map_physics_memory_ok:
  assumes "map_physics_memory E mx (tm, al) = Inr (v, tm', al')" and "tm_wf tm" and "free_slots tm \<noteq> {}"
  shows "v = 0 \<and> view (tm_inner tm') = view (tm_inner tm) \<and> tm_wf tm' \<and> tm_level tm' = tm_level tm
     \<and> free_slots tm' = insert 0 (free_slots tm) \<and> alloc_reach (be_alloc E) al al'"
proof -
  obtain tm1 where un: "mark_as_unused tm 0 = Inr tm1" "tm_wf tm1" "free_slots tm1 = insert 0 (free_slots tm)"
    using mark_as_unused_correct [OF assms(2), of 0] assms(3) by auto
  have same: "tm_inner tm1 = tm_inner tm" "tm_level tm1 = tm_level tm"
    using un(1) by (auto simp: mark_as_unused_def run_simps Let_def split: if_splits)
  have v0: "page_from_indices_1gib (be_x E) 0 0 = 0" by (simp add: x86_laws.page_from_indices_1gib_eq [OF x] p4_base_def)
  from assms(1) un(1) v0 obtain frames where loop: "map_gib_frames E 0 frames (tm1, al) = Inr (tm', al')" and v: "v = 0"
    by (auto simp: map_physics_memory_def run_simps Let_def p4_slots x86_laws.PageTableIndex_new_ok [OF x])
  from map_gib_frames_ok [OF loop] obtain t where "tm' = tm1\<lparr>tm_inner := t\<rparr>" "alloc_reach (be_alloc E) al al'"
    "view (tm_inner tm') = view (tm_inner tm1)" by blast
  then show ?thesis using un(2,3) same v by simp
qed

end

text \<open>The kernel image in an address space: bytes and access rights of every LOAD segment, in slot 511.\<close>

definition image_shown ::
  "(nat \<Rightarrow> (nat \<times> pt_flags) option) \<Rightarrow> memory \<Rightarrow> memory \<Rightarrow> nat \<Rightarrow> nat \<Rightarrow> elf_file \<Rightarrow> bool" where
  "image_shown V mem mem0 kaddr d f \<longleftrightarrow>
     (\<forall>ph\<in>set (elf_phs f). ph_kind ph = PtLoad \<longrightarrow> (\<forall>k<ph_memsz ph.
        let v = p4_base 511 + (ph_vaddr ph - d) + k in
        vread V mem v = overlaid (load_writes mem0 kaddr d (p4_base 511) (elf_phs f))
                          (\<lambda>_. Some (seg_byte mem0 kaddr ph k)) v
        \<and> vflags V v = Some (if in_relro d (p4_base 511) (elf_phs f) v then seg_flags ph - {WRITABLE} else seg_flags ph)))"

lemma image_shown_keeps:
  assumes "image_shown V mem mem0 kaddr d f" and "keeps V V'"
  shows "image_shown V' mem mem0 kaddr d f"
proof -
  have kept: "vread V' mem v = vread V mem v \<and> vflags V' v = vflags V v"
    if "vread V mem v = overlaid ws (\<lambda>_. Some b) v" for v ws b
    by (rule keeps_vread [OF assms(2)]) (use that in \<open>simp add: overlaid_def split: option.splits\<close>)
  from assms(1) show ?thesis unfolding image_shown_def Let_def using kept by fastforce
qed

definition boot_inputs_ok ::
  "(memory_descriptor list \<Rightarrow> memory_descriptor list) \<Rightarrow> (memory \<Rightarrow> nat \<Rightarrow> nat \<Rightarrow> elf_file option)
     \<Rightarrow> boot_inputs \<Rightarrow> elf_file \<Rightarrow> nat \<Rightarrow> nat \<Rightarrow> bool" where
  "boot_inputs_ok srt parse inp f d n \<longleftrightarrow>
     (\<forall>e\<in>set (srt (in_memory_map inp)). 4096 dvd phys_start e)
     \<and> parse (in_mem inp) (in_kernel_addr inp) (in_kernel_len inp) = Some f \<and> elf_range f = Inr (d, n)
     \<and> kernel_image_ok (in_kernel_addr inp) (in_kernel_len inp) f d n
     \<and> (\<forall>e\<in>set (srt (in_memory_map inp)). md_ty e = CONVENTIONAL \<longrightarrow>
          md_bytes e \<inter> {page_of (in_kernel_addr inp) ..< page_of (in_kernel_addr inp + in_kernel_len inp - 1) + 4096} = {})
     \<and> in_bootstrap_len inp + 4096 \<le> 549755813888 \<and> fb_field (in_framebuffer inp) fb_len + 4096 \<le> 549755813888
     \<and> 0 < in_arg_len inp \<and> in_arg_len inp + 4096 \<le> 549755813888"

context boot_maps
begin

text \<open>Up to the jump into the loader: an empty table with every slot free.\<close>

lemma boot_tables:
  assumes "boot_frames_new (be_x E) mm = Inr al0" and "\<forall>e\<in>set mm. 4096 dvd phys_start e"
    and "map_boot_stage_page_table E al0 = Inr (bt, al1)" and "create_page_table E offs al1 = Inr (pml4, st2)"
    and "map_physics_memory E mx st2 = Inr (v, tm3, al3)"
  shows "v = 0 \<and> view (tm_inner tm3) = Map.empty \<and> tm_wf tm3 \<and> tm_level tm3 = LevelFour \<and> free_slots tm3 = {..<512}
     \<and> alloc_reach (be_alloc E) al0 al3 \<and> bf_wf al0 \<and> bf_start_phys_addr al0 = 0x100000 \<and> bf_original al0 = mm"
proof -
  have al0: "al0 = new_starting_at 0x100000 mm"
    using assms(1) by (auto simp: boot_frames_new_def run_simps x86_laws.PhysAddr_new_eq_Inr [OF x]
        x86_laws.frame_containing_eq [OF x])
  have wf0: "bf_wf al0" unfolding al0 by (rule new_starting_at_wf) (use assms(2) in simp_all)
  from assms(3) have r1: "alloc_reach (be_alloc E) al0 al1"
    by (auto simp: map_boot_stage_page_table_def run_simps intro: alloc_one)
  from assms(4) obtain frame al2 where al: "be_alloc E al1 = Inr (Some frame, al2)"
    and st2: "st2 = (tracked_new (be_new_table E frame) LevelFour, al2)"
    by (auto simp: create_page_table_def run_simps)
  have r2: "alloc_reach (be_alloc E) al0 al2" by (rule alloc_reach_trans [OF alloc_one [OF al] r1])
  let ?tm = "tracked_new (be_new_table E frame) LevelFour"
  have tn: "tm_inner ?tm = be_new_table E frame" "tm_level ?tm = LevelFour" by (simp_all add: tracked_new_def)
  have ne: "free_slots ?tm \<noteq> {}" unfolding tracked_new_free by (simp add: lessThan_empty_iff)
  note p = map_physics_memory_ok [OF assms(5) [unfolded st2] tracked_new_wf ne, unfolded tn new_table tracked_new_free]
  have "insert 0 {..<512} = {..<512::nat}" by (simp add: insert_absorb)
  moreover have "alloc_reach (be_alloc E) al0 al3" by (rule alloc_reach_trans [OF _ r2]) (use p in blast)
  moreover have "bf_start_phys_addr al0 = 0x100000" "bf_original al0 = mm" by (simp_all add: al0 new_starting_at_def)
  ultimately show ?thesis using wf0 p by simp
qed

lemma boot_kernel_parts:
  assumes "boot_kernel E srt parse inp = Inr h"
  obtains al0 bt al1 pml4 st2 mx tm3 al3 v lk ld bs_virt tm4 al4 gdt tm5 al5 stack tm6 al6 stack_end fbv tm7 al7 rs n arg arg' tm8 al8 argv
  where "boot_frames_new (be_x E) (srt (in_memory_map inp)) = Inr al0" "map_boot_stage_page_table E al0 = Inr (bt, al1)"
    "create_page_table E 0 al1 = Inr (pml4, st2)" "map_physics_memory E mx st2 = Inr (v, tm3, al3)"
    "load_kernel_to_virt_mem E parse (in_kernel_addr inp) (in_kernel_len inp)
       \<lparr>ld_tm = tm3, ld_al = al3, ld_mem = in_mem inp\<rparr> = Inr (lk, ld)"
    "map_bootstrap E (in_bootstrap_addr inp) (in_bootstrap_len inp) (ld_tm ld, ld_al ld) = Inr (bs_virt, tm4, al4)"
    "init_gdt_frame E (tm4, al4) = Inr (gdt, tm5, al5)"
    "alloc_and_map_kernel_stack E (524288) (tm5, al5) = Inr (stack, tm6, al6)"
    "VirtAddr_add (be_x E) stack (524288) = Inr stack_end"
    "map_framebuffer_opt E (in_framebuffer inp) (tm6, al6) = Inr (fbv, tm7, al7)"
    "construct_unsafe_phys_mem_region_map (be_x E) (in_uninit inp) (srt (in_memory_map inp)) al7 (in_framebuffer inp)
       (in_kernel_addr inp) (in_kernel_len inp) (in_bootstrap_addr inp) (in_bootstrap_len inp)
       (local_apic_base (in_acpi inp)) (take (io_apic_count (in_acpi inp)) (io_apic (in_acpi inp))) gdt pml4 = Inr (rs, n)"
    "map_kernel_arg E (in_arg_addr inp) (in_arg_len inp) arg (tm7, al7) = Inr (argv, arg', tm8, al8)"
    "unav_phys_mem_regions arg = rs" "unav_phys_mem_regions_len arg = n" "bootstrap_base arg = bs_virt"
    "stack_top_addr arg = addr_align_down (be_x E) stack_end 16"
    "framebuffer_addr arg = (case fbv of None \<Rightarrow> 0 | Some v \<Rightarrow> v)" "phys_mem_mapped_addr arg = v"
    "gdt_start_addr arg = gdt"
    "h = \<lparr>ho_pml4 = pml4, ho_stack_top = addr_align_down (be_x E) stack_end 16, ho_entry = kernel_entry lk,
       ho_arg_addr = argv, ho_arg = arg', ho_tm = tm8, ho_al = al8, ho_mem = ld_mem ld\<rparr>"
proof -
  have v0: "VirtAddr_new (be_x E) 0 = Inr 0" by (rule x86_laws.VirtAddr_new_ok [OF x]) (simp add: canonical_def)
  from assms show thesis
    unfolding boot_kernel_def Let_def v0 and_then_Inr and_then_eq_Inr
    apply (elim exE conjE)
    apply (clarsimp split: prod.splits if_splits simp: and_then_eq_Inr simp del: One_nat_def)
    apply (rule that)
    apply (assumption | simp)+
    done
qed

text \<open>From the loader to the kernel stack: slots 511, 510 and 509.\<close>

lemma boot_to_stack:
  assumes "boot_inputs_ok srt parse inp f d n"
    and "boot_frames_new (be_x E) (srt (in_memory_map inp)) = Inr al0" "map_boot_stage_page_table E al0 = Inr (bt, al1)"
    "create_page_table E 0 al1 = Inr (pml4, st2)" "map_physics_memory E mx st2 = Inr (v, tm3, al3)"
    "load_kernel_to_virt_mem E parse (in_kernel_addr inp) (in_kernel_len inp)
       \<lparr>ld_tm = tm3, ld_al = al3, ld_mem = in_mem inp\<rparr> = Inr (lk, ld)"
    "map_bootstrap E (in_bootstrap_addr inp) (in_bootstrap_len inp) (ld_tm ld, ld_al ld) = Inr (bs_virt, tm4, al4)"
    "init_gdt_frame E (tm4, al4) = Inr (gdt, tm5, al5)"
    "alloc_and_map_kernel_stack E 524288 (tm5, al5) = Inr (stack, tm6, al6)"
  shows "v = 0 \<and> kernel_entry lk = p4_base 511 + (elf_entry f - d)
     \<and> bs_virt = p4_base 510 + in_bootstrap_addr inp mod 4096 \<and> stack = p4_base 509 + 4096
     \<and> image_shown (view (tm_inner tm6)) (ld_mem ld) (in_mem inp) (in_kernel_addr inp) d f
     \<and> (\<forall>k<in_bootstrap_len inp. translates (view (tm_inner tm6)) {PRESENT} (bs_virt + k) (in_bootstrap_addr inp + k))
     \<and> free_slots tm6 = {..<509} \<and> tm_wf tm6 \<and> tm_level tm6 = LevelFour
     \<and> alloc_reach (be_alloc E) al0 al6 \<and> bf_wf al0 \<and> bf_start_phys_addr al0 = 0x100000
     \<and> bf_original al0 = srt (in_memory_map inp)"
proof -
  let ?ld = "\<lparr>ld_tm = tm3, ld_al = al3, ld_mem = in_mem inp\<rparr>"
  note inp = assms(1) [unfolded boot_inputs_ok_def]
  have "\<forall>e\<in>set (srt (in_memory_map inp)). 4096 dvd phys_start e" using inp by blast
  note T = boot_tables [OF assms(2) this assms(3-5)]
  have al3: "bf_wf al3" "bf_original al3 = srt (in_memory_map inp)" using T boot_reach by auto
  have wf: "ld_ok view ?ld" using T al3 by (simp add: ld_ok_def vm_ok_def)
  have image: "\<forall>a. page_of (in_kernel_addr inp) \<le> a \<and> a < page_of (in_kernel_addr inp + in_kernel_len inp - 1) + 4096
      \<longrightarrow> a \<notin> usable_bytes (ld_al ?ld)"
    using inp al3(2) by (fastforce simp: usable_bytes_def disjoint_iff)
  have pre: "tm_wf (ld_tm ?ld)" "tm_level (ld_tm ?ld) = LevelFour" "parse (ld_mem ?ld) (in_kernel_addr inp) (in_kernel_len inp) = Some f"
    "elf_range f = Inr (d, n)" "kernel_image_ok (in_kernel_addr inp) (in_kernel_len inp) f d n" using T inp by simp_all
  note K = load_kernel_ok [OF boot_maps_axioms wf pre image assms(6)]
  have k: "tm_wf (ld_tm ld)" "tm_level (ld_tm ld) = LevelFour" "alloc_reach (be_alloc E) al3 (ld_al ld)"
    "free_slots (ld_tm ld) = {..<512} - {511}" "kernel_entry lk = p4_base 511 + (elf_entry f - d)"
    using K T by simp_all
  have k511: "free_slots (ld_tm ld) = {..<Suc 510}" unfolding k(4) by (rule set_eqI) auto
  have shown: "image_shown (view (tm_inner (ld_tm ld))) (ld_mem ld) (in_mem inp) (in_kernel_addr inp) d f"
    using K unfolding image_shown_def ld_read_def by simp
  have bl: "in_bootstrap_len inp + 4096 \<le> 549755813888" using inp by blast
  note B = map_bootstrap_ok [OF assms(7) k(1,2) bl]
  have b: "slot_taken 510 (ld_tm ld) tm4" "alloc_reach (be_alloc E) (ld_al ld) al4" "keeps (view (tm_inner (ld_tm ld))) (view (tm_inner tm4))"
    using B unfolding keeps_def by blast+
  have f4: "free_slots tm4 = {..<Suc 509}" "tm_wf tm4" "tm_level tm4 = LevelFour"
    using slot_taken_top [OF b(1) k511] b(1) k(2) by (simp_all add: slot_taken_def)
  have g: "tm5 = tm4" "alloc_reach (be_alloc E) al4 al5"
    using assms(8) by (auto simp: init_gdt_frame_def run_simps intro: alloc_one)
  have r05: "alloc_reach (be_alloc E) al0 al5" using T k(3) b(2) g(2) alloc_reach_trans by metis
  have wf5: "bf_wf al5" using boot_reach [OF r05] T by blast
  note S = kernel_stack_ok [OF assms(9) [unfolded g(1)] f4(2,3) wf5]
  have s: "slot_taken 509 tm4 tm6" "alloc_reach (be_alloc E) al5 al6" "keeps (view (tm_inner tm4)) (view (tm_inner tm6))"
    "stack = p4_base 509 + 4096" using S unfolding keeps_def by simp_all
  have "free_slots tm6 = {..<509}" "tm_wf tm6" "tm_level tm6 = LevelFour"
    using slot_taken_top [OF s(1) f4(1)] s(1) f4(3) by (simp_all add: slot_taken_def)
  moreover have "alloc_reach (be_alloc E) al0 al6" by (rule alloc_reach_trans [OF s(2) r05])
  moreover have "image_shown (view (tm_inner tm6)) (ld_mem ld) (in_mem inp) (in_kernel_addr inp) d f"
    by (rule image_shown_keeps [OF shown keeps_trans [OF b(3) s(3)]])
  moreover have "\<forall>k<in_bootstrap_len inp. translates (view (tm_inner tm6)) {PRESENT} (bs_virt + k) (in_bootstrap_addr inp + k)"
    using B keeps_translates [OF s(3)] by blast
  ultimately show ?thesis using T B s(4) k(5) by simp
qed

text \<open>The whole sequence.\<close>

lemma boot_kernel_ok:
  assumes "boot_inputs_ok srt parse inp f d n" and "boot_kernel E srt parse inp = Inr h"
  obtains fb r0 r where "in_framebuffer inp = Some fb" and "phys_mem_mapped_addr (ho_arg h) = 0"
    and "ho_entry h = p4_base 511 + (elf_entry f - d)"
    and "bootstrap_base (ho_arg h) = p4_base 510 + in_bootstrap_addr inp mod 4096"
    and "ho_stack_top h = p4_base 509 + 4096 + 524288" and "stack_top_addr (ho_arg h) = ho_stack_top h"
    and "framebuffer_addr (ho_arg h) = p4_base 508 + fb_ptr fb mod 4096"
    and "ho_arg_addr h = p4_base 507 + in_arg_addr inp mod 4096"
    and "image_shown (view (tm_inner (ho_tm h))) (ho_mem h) (in_mem inp) (in_kernel_addr inp) d f"
    and "\<forall>k<in_bootstrap_len inp. translates (view (tm_inner (ho_tm h))) {PRESENT}
           (bootstrap_base (ho_arg h) + k) (in_bootstrap_addr inp + k)"
    and "\<forall>k<fb_len fb. translates (view (tm_inner (ho_tm h))) {PRESENT, WRITABLE}
           (framebuffer_addr (ho_arg h) + k) (fb_ptr fb + k)"
    and "\<forall>k<in_arg_len inp. translates (view (tm_inner (ho_tm h))) {PRESENT} (ho_arg_addr h + k) (in_arg_addr inp + k)"
    and "allocated_region (ho_al h) = Inr r" and "sorted (map mr_start (live_regions (ho_arg h)))"
    and "set (live_regions (ho_arg h)) = {\<lparr>mr_start = in_arg_addr inp, mr_length = in_arg_len inp, mr_kind = Bootloader\<rparr>, r}
           \<union> set (reserved_regions (srt (in_memory_map inp)) r0 (Some fb) (in_kernel_addr inp) (in_kernel_len inp)
                (in_bootstrap_addr inp) (local_apic_base (in_acpi inp))
                (take (io_apic_count (in_acpi inp)) (io_apic (in_acpi inp))) (gdt_start_addr (ho_arg h)) (ho_pml4 h))"
    and "bf_wf (ho_al h)" and "bf_start_phys_addr (ho_al h) = 0x100000"
    and "bf_original (ho_al h) = srt (in_memory_map inp)"
proof (rule boot_kernel_parts [OF assms(2)], goal_cases)
  case (1 al0 bt al1 pml4 st2 mx tm3 al3 v lk ld bs_virt tm4 al4 gdt tm5 al5 stack tm6 al6 stack_end fbv tm7 al7 rs n' arg arg' tm8 al8 argv)
  note inp = assms(1) [unfolded boot_inputs_ok_def]
  note S = boot_to_stack [OF assms(1) 1(2-9)]
  have f6: "free_slots tm6 = {..<Suc 508}" "tm_wf tm6" "tm_level tm6 = LevelFour" using S by simp_all
  have alen: "0 < in_arg_len inp" "in_arg_len inp + 4096 \<le> 549755813888" using inp by blast+
  have fb_some: "in_framebuffer inp \<noteq> None"
  proof
    assume "in_framebuffer inp = None"
    then have t7: "tm7 = tm6" using 1(11) by (simp add: map_framebuffer_opt_def)
    have "slot_taken 507 tm6 tm8" using map_kernel_arg_ok [OF 1(13) [unfolded t7] f6(2,3) alen] by blast
    from slot_taken_top [OF this f6(1)] show False by simp
  qed
  then obtain fb where fb: "in_framebuffer inp = Some fb" by blast
  obtain w where w: "map_framebuffer E (fb_ptr fb) (fb_len fb) (tm6, al6) = Inr (w, tm7, al7)" and fbv: "fbv = Some w"
    using 1(11) by (auto simp: map_framebuffer_opt_def fb run_simps)
  have flen: "fb_len fb + 4096 \<le> 549755813888" using inp by (simp add: fb fb_field_def)
  note F = map_framebuffer_ok [OF w f6(2,3) flen]
  have st7: "slot_taken 508 tm6 tm7" using F by blast
  have f7: "tm_wf tm7" "tm_level tm7 = LevelFour" using st7 f6(3) by (simp_all add: slot_taken_def)
  note A = map_kernel_arg_ok [OF 1(13) f7 alen]
  obtain r arg1 arg2 where reg: "allocated_region al8 = Inr r"
    "push_region \<lparr>mr_start = in_arg_addr inp, mr_length = in_arg_len inp, mr_kind = Bootloader\<rparr> arg = Inr arg1"
    "push_region r arg1 = Inr arg2" "sort_regions arg2 = Inr arg'" using A by blast
  have k67: "keeps (view (tm_inner tm6)) (view (tm_inner tm7))" and k78: "keeps (view (tm_inner tm7)) (view (tm_inner tm8))"
    using F A unfolding keeps_def by blast+
  have k68: "keeps (view (tm_inner tm6)) (view (tm_inner tm8))" by (rule keeps_trans [OF k67 k78])
  obtain rs1 n1 where arg': "arg' = arg\<lparr>unav_phys_mem_regions := rs1, unav_phys_mem_regions_len := n1\<rparr>"
    using arg_regions_only [OF reg(2-4)] unfolding same_but_regions_def by blast
  obtain r0 where r0: "take n' rs = reserved_regions (srt (in_memory_map inp)) r0 (Some fb) (in_kernel_addr inp) (in_kernel_len inp)
      (in_bootstrap_addr inp) (local_apic_base (in_acpi inp)) (take (io_apic_count (in_acpi inp)) (io_apic (in_acpi inp))) gdt pml4"
    using construct_regions_ok [OF x 1(12)] fb by auto
  note R = regions_recorded [OF reg(2-4)]
  have live: "live_regions arg = take n' rs" by (simp add: live_regions_def 1)
  have reach: "alloc_reach (be_alloc E) al0 al8" using S F A alloc_reach_trans by metis
  have wfs: "bf_wf al0" "bf_start_phys_addr al0 = 0x100000" "bf_original al0 = srt (in_memory_map inp)" using S by simp_all
  have se: "stack_end = p4_base 509 + 4096 + 524288"
    using 1(10) S x86_laws.VirtAddr_add_ok [OF x, of "p4_base 509 + 4096" 524288] by (simp add: canonical_def p4_base_def)
  have top: "addr_align_down (be_x E) stack_end 16 = p4_base 509 + 4096 + 524288"
    by (simp add: se x86_laws.addr_align_down_eq [OF x] p4_base_def)
  note h = 1(21) arg' 1(14-20)
  have bs: "bs_virt = p4_base 510 + in_bootstrap_addr inp mod 4096" "kernel_entry lk = p4_base 511 + (elf_entry f - d)" "v = 0"
    and w': "w = p4_base 508 + fb_ptr fb mod 4096" and argv: "argv = p4_base 507 + in_arg_addr inp mod 4096"
    using S F A by blast+
  have "\<forall>k<in_bootstrap_len inp. translates (view (tm_inner tm6)) {PRESENT} (bs_virt + k) (in_bootstrap_addr inp + k)"
    and "\<forall>k<fb_len fb. translates (view (tm_inner tm7)) {PRESENT, WRITABLE} (w + k) (fb_ptr fb + k)"
    and a8: "\<forall>k<in_arg_len inp. translates (view (tm_inner tm8)) {PRESENT} (argv + k) (in_arg_addr inp + k)"
    and i6: "image_shown (view (tm_inner tm6)) (ld_mem ld) (in_mem inp) (in_kernel_addr inp) d f"
    using S F A by blast+
  then have t8: "\<forall>k<in_bootstrap_len inp. translates (view (tm_inner tm8)) {PRESENT} (bs_virt + k) (in_bootstrap_addr inp + k)"
    "\<forall>k<fb_len fb. translates (view (tm_inner tm8)) {PRESENT, WRITABLE} (w + k) (fb_ptr fb + k)"
    using keeps_translates [OF k68] keeps_translates [OF k78] by blast+
  show thesis
  proof (rule 1(1) [of fb r r0])
    show "image_shown (view (tm_inner (ho_tm h))) (ho_mem h) (in_mem inp) (in_kernel_addr inp) d f"
      using image_shown_keeps [OF i6 k68] by (simp add: h)
  qed (use R live r0 boot_reach [OF reach wfs(1)] wfs reg(1) fb bs w' argv a8 t8 in \<open>simp_all add: h top fbv\<close>)
qed

end

end
