(* ===== verification/Boot_Run.thy ===== *)
theory Boot_Run
  imports Boot_Main
begin

section \<open>What the kernel receives\<close>

text \<open>
  The properties of the bootloader's whole sequence: the layout it leaves, the regions it reports,
  and the two ways in which that sequence is sensitive to its inputs.  The first part builds a
  concrete machine on which the sequence runs to the end: memory from 1 MiB, the small kernel
  image of the loader, a bootstrap image, a framebuffer and the argument structure.
\<close>

subsection \<open>A machine\<close>

definition boot_map :: "memory_descriptor list" where
  "boot_map = [\<lparr>md_ty = CONVENTIONAL, phys_start = 0x100000, page_count = 0x400\<rparr>,
               \<lparr>md_ty = CONVENTIONAL, phys_start = 0x100000000, page_count = 0x1000\<rparr>]"

text \<open>The allocator once it has taken its first frame from the first descriptor.\<close>

definition warm :: "nat \<Rightarrow> boot_frame_allocator" where
  "warm nf = \<lparr>bf_original = boot_map, bf_memory_map = [\<lparr>md_ty = CONVENTIONAL, phys_start = 0x100000000, page_count = 0x1000\<rparr>], bf_start_phys_addr = 0x100000,
     bf_current_descriptor = Some \<lparr>md_ty = CONVENTIONAL, phys_start = 0x100000, page_count = 0x400\<rparr>, bf_next_frame = nf\<rparr>"

lemma warm_alloc:
  assumes "0x100000 \<le> nf" and "nf \<le> 0x4FF000"
  shows "boot_allocate_frame x86_model tag (warm nf) = Inr (Some nf, warm (nf + 4096))"
  using assms by (simp add: boot_allocate_frame_def warm_def allocate_frame_from_descriptor_def md_start_def
      md_len_def x86_model_eval Let_def)

lemma cold_alloc:
  "boot_allocate_frame x86_model (be_tag model_env) (new_starting_at 0x100000 boot_map) = Inr (Some 0x100000, warm 0x101000)"
  by (simp add: boot_allocate_frame_def warm_def allocate_frame_from_descriptor_def md_start_def
      md_len_def x86_model_eval Let_def new_starting_at_def boot_map_def md_kind_def)

text \<open>The slots below \<open>n\<close> are free, and nothing is mapped there.\<close>

definition free_below :: "nat \<Rightarrow> (nat \<Rightarrow> (nat \<times> pt_flags) option) tracked_mapper \<Rightarrow> bool" where
  "free_below n tm \<longleftrightarrow> tm_wf tm \<and> tm_level tm = LevelFour \<and> free_slots tm = {..<n}
     \<and> (\<forall>p<p4_base n. tm_inner tm p = None)"

lemma free_below_take:
  assumes "free_below (Suc n) tm" and "0 < sz" and "sz \<le> 549755813888" and "256 \<le> n"
  shows "\<exists>tm1. take_slot model_env msg n sz tm = Inr (n, tm1) \<and> tm_wf tm1 \<and> tm_level tm1 = LevelFour
    \<and> free_slots tm1 = {..<n} \<and> (\<forall>p<p4_base n + 549755813888. tm_inner tm1 p = None)"
proof -
  have "free_slots tm \<noteq> {}" "Max (free_slots tm) = n" using assms(1) Max_lessThan_Suc by (auto simp: free_below_def)
  then obtain tm1 where "take_slot model_env msg n sz tm = Inr (n, tm1)" "marked {n} tm tm1"
    using bootm.take_slot_returns [of tm sz n msg] assms by (auto simp: free_below_def)
  moreover have "p4_base (Suc n) = p4_base n + 549755813888" using assms(4) by (simp add: p4_base_def)
  moreover have "{..<Suc n} - {n} = {..<n}" by (simp add: lessThan_Suc)
  ultimately show ?thesis using assms(1) by (simp add: marked_def free_below_def)
qed

text \<open>A region that lies in one page.\<close>

lemma one_page_map:
  assumes "tm_wf tm1" and "tm_level tm1 = LevelFour" and "free_slots tm1 = {..<n}"
    and "\<forall>p<p4_base n + 549755813888. tm_inner tm1 p = None"
  shows "boot_map_to model_env msg fl (p4_base n) f (tm1, al) = Inr (tm1\<lparr>tm_inner := (tm_inner tm1)(p4_base n \<mapsto> (f, fl))\<rparr>, al)"
    and "free_below n (tm1\<lparr>tm_inner := (tm_inner tm1)(p4_base n \<mapsto> (f, fl))\<rparr>)"
  using assms by (simp_all add: boot_map_to_def model_env_eval map_mapper_eval free_below_def)

lemma warm_load_segments:
  assumes "tm_inner tm = Map.empty" and "tm_wf tm" and "tm_level tm = LevelFour" and "511 \<notin> free_slots tm"
  shows "\<exists>st1 st2. load_segments model_env 0x800000 0x1000 0 (p4_base 511) sample_phs None
       \<lparr>ld_tm = tm, ld_al = warm 0x102000, ld_mem = sample_mem\<rparr> = Inr (None, st1)
     \<and> unmark_private model_env 0 (p4_base 511) sample_phs st1 = Inr st2
     \<and> (\<forall>p<p4_base 511. tm_inner (ld_tm st2) p = None) \<and> (\<exists>n. ld_al st2 = warm n \<and> 0x102000 \<le> n \<and> n \<le> 0x110000)"
proof -
  have mk: "mark_range_as_used x86_model (tm\<lparr>tm_inner := m\<rparr>) a e = Inr (None, tm\<lparr>tm_inner := m\<rparr>)"
    if "18446743523953737728 \<le> a" "a < e" "e < two64" for m a e
    using bootm.mark_range_taken [of "tm\<lparr>tm_inner := m\<rparr>" a e] assms that
    by (simp add: model_env_eval p4_base_def)
  have "tm = tm\<lparr>tm_inner := Map.empty\<rparr>" using assms(1) by simp
  then have st: "\<lparr>ld_tm = tm, ld_al = warm 0x102000, ld_mem = sample_mem\<rparr> =
      \<lparr>ld_tm = tm\<lparr>tm_inner := Map.empty\<rparr>, ld_al = warm 0x102000, ld_mem = sample_mem\<rparr>" by simp
  show ?thesis unfolding st
    by (simp add: load_header_def prepare_segment_def sample_phs_def load_segment_def clear_bss_head_def
        copy_page_and_remap_def load_eval warm_def mk load_dynamic_def rela_table_def apply_rela_def sample_rela read_rela_write
        rela_symbol_def rela_type_def copy_pages_and_write_def write_page_part_def)
qed

lemma warm_load:
  assumes "free_below 512 tm" and "tm_inner tm = Map.empty"
  shows "\<exists>lk ld nf. load_kernel_to_virt_mem model_env sample_parse 0x800000 0x1000
       \<lparr>ld_tm = tm, ld_al = warm 0x102000, ld_mem = sample_mem\<rparr> = Inr (lk, ld)
     \<and> (\<forall>p<p4_base 511. tm_inner (ld_tm ld) p = None) \<and> ld_al ld = warm nf \<and> 0x102000 \<le> nf \<and> nf \<le> 0x110000"
proof -
  have tm: "free_below (Suc 511) tm" using assms(1) by simp
  obtain tm1 where slot: "take_slot model_env ''cannot get available pml4 entry, maybe it run out'' 511 0x1200 tm = Inr (511, tm1)"
    and mk: "marked {511} tm tm1"
    using bootm.take_slot_returns [of tm "0x1200" 511 "''cannot get available pml4 entry, maybe it run out''"] tm Max_lessThan_Suc [of 511]
    by (auto simp: free_below_def lessThan_empty_iff)
  have "tm_inner tm1 = Map.empty" "tm_wf tm1" "tm_level tm1 = LevelFour" "511 \<notin> free_slots tm1"
    using mk assms unfolding marked_def free_below_def by simp_all
  from warm_load_segments [OF this] obtain st1 st2 nf where
    "load_segments model_env 0x800000 0x1000 0 (p4_base 511) sample_phs None
       \<lparr>ld_tm = tm1, ld_al = warm 0x102000, ld_mem = sample_mem\<rparr> = Inr (None, st1)"
    "unmark_private model_env 0 (p4_base 511) sample_phs st1 = Inr st2"
    "\<forall>p<p4_base 511. tm_inner (ld_tm st2) p = None" "ld_al st2 = warm nf" "0x102000 \<le> nf" "nf \<le> 0x110000" by blast
  moreover have "sanity_checks sample_elf = Inr ()" by (simp add: sanity_checks_def sample_elf_def sample_phs_def)
  moreover have "canonical (p4_base 511 + 0x40)" by (simp add: canonical_def p4_base_def)
  ultimately show ?thesis using slot sample_range
    by (simp add: load_kernel_to_virt_mem_def sample_parse_def p4_slots model_env_eval x86_model_eval Let_def)
       (auto simp: sample_elf_def)
qed

lemma warm_bootstrap:
  assumes "free_below 511 tm"
  shows "\<exists>v tm'. map_bootstrap model_env 0x900000 0x100 (tm, al) = Inr (v, tm', al) \<and> free_below 510 tm'"
proof -
  have "free_below (Suc 510) tm" using assms by simp
  from free_below_take [OF this, of "0x100" "''failed to get available pml4 entry for KernelArg, maybe it run out''"] obtain tm1 where slot: "take_slot model_env ''failed to get available pml4 entry for KernelArg, maybe it run out''
      510 0x100 tm = Inr (510, tm1)" and t: "tm_wf tm1" "tm_level tm1 = LevelFour" "free_slots tm1 = {..<510}"
      "\<forall>p<p4_base 510 + 549755813888. tm_inner tm1 p = None"
    by auto
  have sp: "page_containing x86_model (page_from_indices_1gib x86_model 510 0) = p4_base 510"
    using bootm.start_page [of 510] by (simp add: model_env_eval)
  have can: "canonical (p4_base 510)" using canonical_slot [of 510 0] by simp
  show ?thesis using slot sp can one_page_map [OF t]
    by (simp add: map_bootstrap_def p4_slots Let_def model_env_eval)
       (simp add: x86_model_eval model_env_eval range_list_def)
qed

lemma warm_framebuffer:
  assumes "free_below 509 tm"
  shows "\<exists>v tm'. map_framebuffer model_env 0xA0000000 0x1000 (tm, al) = Inr (v, tm', al) \<and> free_below 508 tm'"
proof -
  have "free_below (Suc 508) tm" using assms by simp
  from free_below_take [OF this, of "0x1000" "''failed to get available pml4 entry for framebuffer, maybe it run out''"] obtain tm1 where slot: "take_slot model_env ''failed to get available pml4 entry for framebuffer, maybe it run out''
      508 0x1000 tm = Inr (508, tm1)" and t: "tm_wf tm1" "tm_level tm1 = LevelFour" "free_slots tm1 = {..<508}"
      "\<forall>p<p4_base 508 + 549755813888. tm_inner tm1 p = None"
    by auto
  have sp: "page_containing x86_model (page_from_indices_1gib x86_model 508 0) = p4_base 508"
    using bootm.start_page [of 508] by (simp add: model_env_eval)
  have can: "canonical (p4_base 508)" using canonical_slot [of 508 0] by simp
  show ?thesis using slot sp can one_page_map [OF t]
    by (simp add: map_framebuffer_def p4_slots Let_def model_env_eval)
       (simp add: x86_model_eval model_env_eval range_list_def)
qed

lemma warm_arg:
  assumes "free_below 508 tm" and "length (unav_phys_mem_regions arg) = 512"
    and "unav_phys_mem_regions_len arg \<le> 500" and "0x100000 \<le> nf"
  shows "\<exists>v arg' tm'. map_kernel_arg model_env 0x5010 0x100 arg (tm, warm nf) = Inr (v, arg', tm', warm nf)
     \<and> unav_phys_mem_regions_len arg' \<le> length (unav_phys_mem_regions arg')
     \<and> length (live_regions arg') \<le> 502 \<and> phys_mem_size arg' = phys_mem_size arg
     \<and> sorted (map mr_start (live_regions arg'))
     \<and> set (live_regions arg') = {\<lparr>mr_start = 0x5010, mr_length = 0x100, mr_kind = Bootloader\<rparr>,
          \<lparr>mr_start = 0x100000, mr_length = nf - 0x100000, mr_kind = Bootloader\<rparr>} \<union> set (live_regions arg)"
proof -
  have "free_below (Suc 507) tm" using assms by simp
  from free_below_take [OF this, of "0x100" "''failed to get available pml4 entry for KernelArg, maybe it run out''"] obtain tm1 where slot: "take_slot model_env ''failed to get available pml4 entry for KernelArg, maybe it run out''
      507 0x100 tm = Inr (507, tm1)" and t: "tm_wf tm1" "tm_level tm1 = LevelFour" "free_slots tm1 = {..<507}"
      "\<forall>p<p4_base 507 + 549755813888. tm_inner tm1 p = None"
    by auto
  have sp: "page_containing x86_model (page_from_indices_1gib x86_model 507 0) = p4_base 507"
    using bootm.start_page [of 507] by (simp add: model_env_eval)
  have can: "canonical (p4_base 507)" "canonical (p4_base 507 + 16)"
    using canonical_slot [of 507 0] canonical_slot [of 507 16] by simp_all
  have "\<exists>v arg' tm'. map_kernel_arg model_env 0x5010 0x100 arg (tm, warm nf) = Inr (v, arg', tm', warm nf)"
    using slot sp can one_page_map [OF t] assms
    by (simp add: map_kernel_arg_def p4_slots Let_def model_env_eval)
       (simp add: x86_model_eval model_env_eval range_list_def push_region_def sort_regions_def allocated_region_def warm_def store_def Let_def)
  then obtain v arg' tm' where run: "map_kernel_arg model_env 0x5010 0x100 arg (tm, warm nf) = Inr (v, arg', tm', warm nf)" by blast
  have wf: "tm_wf tm" "tm_level tm = LevelFour" using assms(1) by (simp_all add: free_below_def)
  obtain r arg1 arg2 where reg: "allocated_region (warm nf) = Inr r"
    "push_region \<lparr>mr_start = 0x5010, mr_length = 0x100, mr_kind = Bootloader\<rparr> arg = Inr arg1"
    "push_region r arg1 = Inr arg2" "sort_regions arg2 = Inr arg'"
    using bootm.map_kernel_arg_ok [OF run wf] by auto
  have r: "r = \<lparr>mr_start = 0x100000, mr_length = nf - 0x100000, mr_kind = Bootloader\<rparr>"
    using reg(1) by (simp add: allocated_region_def warm_def run_simps)
  note P = push_region_live [OF reg(2)] push_region_live [OF reg(3)]
  have n: "unav_phys_mem_regions_len arg2 = unav_phys_mem_regions_len arg + 2" "length (unav_phys_mem_regions arg2) = 512"
    using reg(2,3) P assms(2) by (auto simp: push_region_def run_simps)
  have pm: "phys_mem_size arg' = phys_mem_size arg"
    using arg_regions_only [OF reg(2-4)] by (auto simp: same_but_regions_def)
  have len: "unav_phys_mem_regions_len arg' \<le> length (unav_phys_mem_regions arg')" "length (live_regions arg') \<le> 502"
    using reg(4) n assms(3) by (auto simp: sort_regions_def Let_def live_regions_def split: if_splits)
  note R = regions_recorded [OF reg(2-4)]
  show ?thesis
    by (intro exI conjI, rule run, rule len(1), rule len(2), rule pm, rule conjunct1 [OF R])
       (simp add: conjunct2 [OF R] r)
qed

text \<open>The stack: as many frames as there are pages.\<close>

lemma warm_new_frames:
  assumes "\<forall>p\<in>set pages. tm_inner tm p = None" and "distinct pages" and "0x100000 \<le> nf"
    and "nf + 4096 * length pages \<le> 0x500000"
  shows "\<exists>m. map_new_frames model_env fl pages (tm, warm nf) = Inr (tm\<lparr>tm_inner := m\<rparr>, warm (nf + 4096 * length pages))
     \<and> (\<forall>p. p \<notin> set pages \<longrightarrow> m p = tm_inner tm p)"
  using assms
proof (induction pages arbitrary: tm nf)
  case Nil
  then show ?case by (auto intro: exI [of _ "tm_inner tm"])
next
  case (Cons p pages)
  let ?tm = "tm\<lparr>tm_inner := (tm_inner tm)(p \<mapsto> (nf, fl))\<rparr>"
  have "\<exists>m. map_new_frames model_env fl pages (?tm, warm (nf + 4096))
      = Inr (?tm\<lparr>tm_inner := m\<rparr>, warm (nf + 4096 + 4096 * length pages)) \<and> (\<forall>q. q \<notin> set pages \<longrightarrow> m q = tm_inner ?tm q)"
    by (rule Cons.IH) (use Cons.prems in auto)
  then obtain m where m: "map_new_frames model_env fl pages (?tm, warm (nf + 4096))
      = Inr (tm\<lparr>tm_inner := m\<rparr>, warm (nf + 4096 + 4096 * length pages))" "\<forall>q. q \<notin> set pages \<longrightarrow> m q = tm_inner ?tm q" by auto
  have "nf \<le> 0x4FF000" using Cons.prems(4) by simp
  note al = warm_alloc [OF Cons.prems(3) this]
  have p: "tm_inner tm p = None" using Cons.prems(1) by simp
  show ?case using m p Cons.prems(2)
    by (auto simp: al model_env_eval boot_map_to_def map_mapper_eval add.assoc intro!: exI [of _ m])
qed

lemma warm_stack:
  assumes "free_below 510 tm" and "0x100000 \<le> nf" and "nf \<le> 0x200000"
  shows "\<exists>tm' nf'. alloc_and_map_kernel_stack model_env 524288 (tm, warm nf) = Inr (p4_base 509 + 4096, tm', warm nf')
     \<and> free_below 509 tm' \<and> 0x100000 \<le> nf' \<and> nf' \<le> 0x300000"
proof -
  let ?b = "p4_base 509"
  have b: "?b = 18446742424442109952" by (simp add: p4_base_def)
  have "free_below (Suc 509) tm" using assms by simp
  from free_below_take [OF this, of 528384 "''failed to get available pml4 entry for kernel stack, maybe it run out''"]
  obtain tm1 where slot: "take_slot model_env ''failed to get available pml4 entry for kernel stack, maybe it run out''
      509 528384 tm = Inr (509, tm1)" and t: "tm_wf tm1" "tm_level tm1 = LevelFour" "free_slots tm1 = {..<509}"
      "\<forall>p<?b + 549755813888. tm_inner tm1 p = None" by auto
  define pages where "pages = range_list 4096 ?b (?b + 524288)"
  have len: "length pages = 129" by (simp add: pages_def length_range_list)
  have set: "p \<in> set pages \<Longrightarrow> ?b \<le> p \<and> p < ?b + 549755813888" for p
    by (auto simp: pages_def range_list_def)
  have d: "distinct pages" by (simp add: pages_def distinct_range_list)
  obtain m where m: "map_new_frames model_env {PRESENT, WRITABLE} pages (tm1, warm nf) = Inr (tm1\<lparr>tm_inner := m\<rparr>, warm (nf + 528384))"
      "\<forall>p. p \<notin> set pages \<longrightarrow> m p = tm_inner tm1 p"
    using warm_new_frames [of pages tm1 nf "{PRESENT, WRITABLE}"] d len t(4) set assms by auto
  have "m p = None" if "p < ?b" for p
  proof -
    have "p \<notin> set pages" using set [of p] that by auto
    then show ?thesis using m(2) t(4) that by simp
  qed
  then have free: "free_below 509 (tm1\<lparr>tm_inner := m\<rparr>)" using t(1-3) by (simp add: free_below_def)
  have sp: "page_containing x86_model (page_from_indices_1gib x86_model 509 0) = ?b"
    using bootm.start_page [of 509] by (simp add: model_env_eval)
  have e: "VirtAddr_add x86_model ?b 528384 = Inr (?b + 528384)" "VirtAddr_sub x86_model (?b + 528384) 1 = Inr (?b + 528383)"
    "page_containing x86_model (?b + 528383) = ?b + 524288" "VirtAddr_add x86_model ?b 4096 = Inr (?b + 4096)"
    by (simp_all add: b x86_model_eval canonical_def)
  show ?thesis using slot sp e m(1) free assms(2,3)
    unfolding pages_def by (simp add: alloc_and_map_kernel_stack_def p4_slots Let_def model_env_eval)
      (rule exI [of _ "nf + 528384"], simp)
qed

definition sample_inputs :: boot_inputs where
  "sample_inputs = \<lparr>in_memory_map = boot_map,
     in_framebuffer = Some \<lparr>fb_ptr = 0xA0000000, fb_len = 0x1000, fb_width = 32, fb_height = 32, fb_stride = 32\<rparr>,
     in_kernel_addr = 0x800000, in_kernel_len = 0x1000, in_bootstrap_addr = 0x900000, in_bootstrap_len = 0x100,
     in_acpi = acpi_settings_default\<lparr>local_apic_base := 0xFEE00000\<rparr>, in_uninit = replicate 512 memory_region_empty,
     in_arg_addr = 0x5010, in_arg_len = 0x100, in_mem = sample_mem\<rparr>"

lemma write_region_returns: "n < length rs \<Longrightarrow> write_region r (rs, n) = Inr (rs[n := r], Suc n)"
  by (simp add: write_region_def store_def)

lemma sample_regions:
  assumes "0x100000 \<le> nf"
  shows "\<exists>rs. construct_unsafe_phys_mem_region_map x86_model (replicate 512 memory_region_empty) boot_map (warm nf)
       (in_framebuffer sample_inputs) 0x800000 0x1000 0x900000 0x100 l [] g p = Inr (rs, 7) \<and> length rs = 512"
  using assms
  by (simp add: construct_unsafe_phys_mem_region_map_def boot_map_def usable_after_bootloader_exit_def
      allocated_region_def warm_def write_region_returns sample_inputs_def)

lemma sample_tables:
  "\<exists>tm. boot_frames_new x86_model boot_map = Inr (new_starting_at 0x100000 boot_map)
     \<and> map_boot_stage_page_table model_env (new_starting_at 0x100000 boot_map) = Inr (0x100000, warm 0x101000)
     \<and> create_page_table model_env 0 (warm 0x101000) = Inr (0x101000, tracked_new Map.empty LevelFour, warm 0x102000)
     \<and> max_phys_addr x86_model (warm n) = Inr 0x101000000
     \<and> map_physics_memory model_env 0x101000000 (tracked_new Map.empty LevelFour, warm 0x102000) = Inr (0, tm, warm 0x102000)
     \<and> free_below 512 tm \<and> tm_inner tm = Map.empty"
proof -
  let ?t = "tracked_new Map.empty LevelFour :: (nat \<Rightarrow> (nat \<times> pt_flags) option) tracked_mapper"
  have bn: "boot_frames_new x86_model boot_map = Inr (new_starting_at 0x100000 boot_map)"
    by (simp add: boot_frames_new_def x86_model_eval)
  have va: "VirtAddr_add x86_model 0 0x100000 = Inr 0x100000" "VirtAddr_add x86_model 0 0x101000 = Inr 0x101000"
    by (simp_all add: x86_model_eval canonical_def)
  have bt: "map_boot_stage_page_table model_env (new_starting_at 0x100000 boot_map) = Inr (0x100000, warm 0x101000)"
    using va cold_alloc by (simp add: map_boot_stage_page_table_def model_env_eval)
  have ct: "create_page_table model_env 0 (warm 0x101000) = Inr (0x101000, ?t, warm 0x102000)"
    using va warm_alloc [of "0x101000" "be_tag model_env"] by (simp add: create_page_table_def model_env_eval)
  have mx: "max_phys_addr x86_model (warm n) = Inr 0x101000000"
    by (simp add: max_phys_addr_def warm_def boot_map_def md_end_def md_start_def md_len_def x86_model_eval max_def)
  have ne: "free_slots ?t \<noteq> {}" unfolding tracked_new_free by (simp add: lessThan_empty_iff)
  obtain tm where un: "mark_as_unused ?t 0 = Inr tm" using mark_as_unused_correct [OF tracked_new_wf [of Map.empty LevelFour], of 0] ne by auto
  have in0: "tm_inner tm = Map.empty"
    using un by (auto simp: mark_as_unused_def run_simps Let_def tracked_new_def split: if_splits)
  have "tm = tm\<lparr>tm_inner := Map.empty\<rparr>" using in0 by simp
  then have pm: "map_physics_memory model_env 0x101000000 (?t, warm 0x102000) = Inr (0, tm, warm 0x102000)"
    using un in0 by (simp add: map_physics_memory_def p4_slots model_env_eval x86_model_eval Let_def range_list_def
        map_mapper_eval canonical_def p4_base_def upt_rec)
  note P = bootm.map_physics_memory_ok [OF pm tracked_new_wf ne]
  have "insert 0 {..<512} = {..<512::nat}" by (simp add: insert_absorb)
  then have "free_below 512 tm" using P in0 unfolding tracked_new_free by (simp add: free_below_def tracked_new_def)
  with bn bt ct mx pm in0 show ?thesis by blast
qed

lemma warm_wf: "bf_wf (warm 0x102000)"
proof -
  have "bf_wf (new_starting_at 0x100000 boot_map)" by (rule new_starting_at_wf) (simp_all add: boot_map_def)
  moreover have "alloc_reach (be_alloc model_env) (new_starting_at 0x100000 boot_map) (warm 0x102000)"
    by (rule reach_step [OF bootm.alloc_one])
       (use cold_alloc warm_alloc [of "0x101000" "be_tag model_env"] in \<open>simp_all add: model_env_eval\<close>)
  ultimately show ?thesis using bootm.boot_reach by blast
qed

lemma sample_kernel_place:
  "page_of 0x800000 \<le> a \<and> a < page_of (0x800000 + 0x1000 - 1) + 4096 \<Longrightarrow> d \<in> set boot_map \<Longrightarrow> a \<notin> md_bytes d"
  by (auto simp: boot_map_def md_bytes_def md_limit_def page_of_def)

lemma sample_loaded:
  assumes "free_below 512 tm" and "tm_inner tm = Map.empty"
  shows "\<exists>lk ld nf. load_kernel_to_virt_mem model_env sample_parse 0x800000 0x1000
       \<lparr>ld_tm = tm, ld_al = warm 0x102000, ld_mem = sample_mem\<rparr> = Inr (lk, ld)
     \<and> free_below 511 (ld_tm ld) \<and> ld_al ld = warm nf \<and> 0x102000 \<le> nf \<and> nf \<le> 0x110000"
proof -
  let ?st = "\<lparr>ld_tm = tm, ld_al = warm 0x102000, ld_mem = sample_mem\<rparr>"
  obtain lk ld nf where L: "load_kernel_to_virt_mem model_env sample_parse 0x800000 0x1000 ?st = Inr (lk, ld)"
     "\<forall>p<p4_base 511. tm_inner (ld_tm ld) p = None" "ld_al ld = warm nf" "0x102000 \<le> nf" "nf \<le> 0x110000"
    using warm_load [OF assms] by blast
  have ok: "ld_ok (\<lambda>m. m) ?st" using warm_wf assms(2) by (simp add: ld_ok_def vm_ok_def)
  have t: "tm_wf (ld_tm ?st)" "tm_level (ld_tm ?st) = LevelFour" using assms(1) by (simp_all add: free_below_def)
  have parse: "sample_parse (ld_mem ?st) 0x800000 0x1000 = Some sample_elf" by (simp add: sample_parse_def)
  have us: "\<forall>a. page_of 0x800000 \<le> a \<and> a < page_of (0x800000 + 0x1000 - 1) + 4096 \<longrightarrow> a \<notin> usable_bytes (ld_al ?st)"
    using sample_kernel_place by (fastforce simp: usable_bytes_def warm_def)
  note K = load_kernel_ok [OF bootm.boot_maps_axioms ok t parse sample_range sample_image_ok us L(1)]
  have "{..<512} - {511} = {..<511::nat}" by (rule set_eqI) auto
  then have "free_below 511 (ld_tm ld)" using K L(2) assms(1) by (simp add: free_below_def)
  with L show ?thesis by blast
qed

lemma and_then_returns:
  "\<exists>r. x = Inr r \<and> P (fst (snd r)) \<Longrightarrow> (\<And>r. P (fst (snd r)) \<Longrightarrow> \<exists>h. f r = Inr h \<and> Q h) \<Longrightarrow> \<exists>h. and_then x f = Inr h \<and> Q h"
  by auto

lemma sample_boot_run:
  "\<exists>h. boot_kernel model_env (\<lambda>m. m) sample_parse sample_inputs = Inr h
     \<and> unav_phys_mem_regions_len (ho_arg h) \<le> length (unav_phys_mem_regions (ho_arg h))
     \<and> length (live_regions (ho_arg h)) \<le> 502 \<and> phys_mem_size (ho_arg h) = 0x101000000
     \<and> (\<forall>r\<in>set (live_regions (ho_arg h)). mr_start r + mr_length r \<le> 0xFEE01000)"
proof -
  obtain tm3 where T: "boot_frames_new x86_model boot_map = Inr (new_starting_at 0x100000 boot_map)"
    "map_boot_stage_page_table model_env (new_starting_at 0x100000 boot_map) = Inr (0x100000, warm 0x101000)"
    "create_page_table model_env 0 (warm 0x101000) = Inr (0x101000, tracked_new Map.empty LevelFour, warm 0x102000)"
    "\<And>n. max_phys_addr x86_model (warm n) = Inr 0x101000000"
    "map_physics_memory model_env 0x101000000 (tracked_new Map.empty LevelFour, warm 0x102000) = Inr (0, tm3, warm 0x102000)"
    "free_below 512 tm3" "tm_inner tm3 = Map.empty" using sample_tables by metis
  obtain lk ld nf where L: "load_kernel_to_virt_mem model_env sample_parse 0x800000 0x1000
       \<lparr>ld_tm = tm3, ld_al = warm 0x102000, ld_mem = sample_mem\<rparr> = Inr (lk, ld)"
     "free_below 511 (ld_tm ld)" "ld_al ld = warm nf" "0x102000 \<le> nf" "nf \<le> 0x110000"
    using sample_loaded [OF T(6,7)] by blast
  obtain v4 tm4 where B: "map_bootstrap model_env 0x900000 0x100 (ld_tm ld, ld_al ld) = Inr (v4, tm4, ld_al ld)" "free_below 510 tm4"
    using warm_bootstrap [OF L(2)] by blast
  have G: "init_gdt_frame model_env (tm4, warm nf) = Inr (nf, tm4, warm (nf + 4096))"
    using warm_alloc [of nf "be_tag model_env"] L(4,5) by (simp add: init_gdt_frame_def model_env_eval)
  obtain tm6 nf' where S: "alloc_and_map_kernel_stack model_env 524288 (tm4, warm (nf + 4096)) = Inr (p4_base 509 + 4096, tm6, warm nf')"
     "free_below 509 tm6" "0x100000 \<le> nf'" "nf' \<le> 0x300000" using warm_stack [OF B(2), of "nf + 4096"] L(4,5) by auto
  have se: "VirtAddr_add x86_model (p4_base 509 + 4096) 524288 = Inr (p4_base 509 + 528384)"
    by (simp add: x86_model_eval canonical_def p4_base_def)
  obtain v7 tm7 where F: "map_framebuffer model_env 0xA0000000 0x1000 (tm6, warm nf') = Inr (v7, tm7, warm nf')" "free_below 508 tm7"
    using warm_framebuffer [OF S(2)] by blast
  obtain rs where R: "construct_unsafe_phys_mem_region_map x86_model (replicate 512 memory_region_empty) boot_map (warm nf')
       (in_framebuffer sample_inputs) 0x800000 0x1000 0x900000 0x100 0xFEE00000 [] nf 0x101000 = Inr (rs, 7)" "length rs = 512"
    using sample_regions [OF S(3)] by blast
  have taken: "take 7 rs = reserved_regions boot_map \<lparr>mr_start = 0x100000, mr_length = nf' - 0x100000, mr_kind = Bootloader\<rparr>
      (in_framebuffer sample_inputs) 0x800000 0x1000 0x900000 0xFEE00000 [] nf 0x101000"
    using construct_regions_ok [OF x86m.x86_laws_axioms R(1)] by (auto simp: allocated_region_def warm_def run_simps)
  have low: "\<forall>r\<in>set (take 7 rs). mr_start r + mr_length r \<le> 0xFEE01000"
    using S(3,4) L(4,5) unfolding taken by (simp add: reserved_regions_def page_region_def boot_map_def
        usable_after_bootloader_exit_def sample_inputs_def)
  have A: "\<exists>r. map_kernel_arg model_env 0x5010 0x100 arg (tm7, warm nf') = Inr r
      \<and> (\<lambda>arg'. unav_phys_mem_regions_len arg' \<le> length (unav_phys_mem_regions arg') \<and> length (live_regions arg') \<le> 502
           \<and> phys_mem_size arg' = phys_mem_size arg \<and> (\<forall>r\<in>set (live_regions arg'). mr_start r + mr_length r \<le> 0xFEE01000)) (fst (snd r))"
    if "unav_phys_mem_regions arg = rs" "unav_phys_mem_regions_len arg = 7" for arg
  proof -
    have "live_regions arg = take 7 rs" by (simp add: live_regions_def that)
    with warm_arg [OF F(2), of arg nf'] that R(2) S(3,4) low show ?thesis by auto
  qed
  have v0: "VirtAddr_new x86_model 0 = Inr 0" by (simp add: x86_model_eval canonical_def)
  have ac: "io_apic_count acpi_settings_default = 0" by (simp add: acpi_settings_default_def)
  show ?thesis
    apply (simp add: boot_kernel_def Let_def sample_inputs_def ac)
    apply (simp add: T model_env_eval v0 L B [unfolded L] G S se map_framebuffer_opt_def F R [unfolded sample_inputs_def, simplified])
    apply (rule and_then_returns [OF A])
      apply simp
     apply simp
    subgoal for r by (cases r) simp
    done
qed

lemma sample_inputs_ok: "boot_inputs_ok (\<lambda>m. m) sample_parse sample_inputs sample_elf 0 0x1200"
proof -
  have "md_bytes e \<inter> {page_of 0x800000 ..< page_of (0x800000 + 0x1000 - 1) + 4096} = {}" if "e \<in> set boot_map" for e
    using sample_kernel_place that by (fastforce simp: disjoint_iff)
  then show ?thesis using sample_range sample_image_ok
    by (simp add: boot_inputs_ok_def sample_inputs_def sample_parse_def fb_field_def) (simp add: boot_map_def)
qed

subsection \<open>Properties\<close>





text \<open>Without a framebuffer the bootloader never reaches the kernel: the argument structure would get
  slot 508 instead of 507, and the assertion on the slot stops it.\<close>

theorem boot_needs_framebuffer:
  assumes "boot_maps E view" and "boot_inputs_ok srt parse inp f d n" and "in_framebuffer inp = None"
  shows "boot_kernel E srt parse inp \<noteq> Inr h"
proof
  assume "boot_kernel E srt parse inp = Inr h"
  from boot_maps.boot_kernel_ok [OF assms(1,2) this] assms(3) show False by simp
qed

theorem boot_needs_framebuffer_witness:
  "boot_kernel model_env (\<lambda>m. m) sample_parse (sample_inputs\<lparr>in_framebuffer := None\<rparr>) \<notin> range Inr"
proof -
  have "boot_inputs_ok (\<lambda>m. m) sample_parse (sample_inputs\<lparr>in_framebuffer := None\<rparr>) sample_elf 0 0x1200"
    using sample_inputs_ok by (simp add: boot_inputs_ok_def fb_field_def)
  from boot_needs_framebuffer [OF bootm.boot_maps_axioms this] show ?thesis by auto
qed

end
