(* ===== verification/Machine.thy ===== *)
theory Machine
  imports Prelude
begin

unbundle bit_operations_syntax

section \<open>The processor, as far as the kernel's assembly code uses it\<close>

text \<open>
  The interrupt entries, the system call entry and the context switch of the kernel are written in
  assembly.  This theory gives the instructions they use a meaning: sixteen registers, the
  segment base registers, byte-addressed memory with 64-bit accesses in little-endian order, and
  addresses that wrap around at \<open>2\<^sup>6\<^sup>4\<close>.  Of the status flags only the zero flag is kept apart; the
  arithmetic flags inside \<open>rflags\<close> are not tracked, because the code never reads \<open>rflags\<close> after
  arithmetic: it is reloaded first (\<open>iretq\<close>, \<open>sysretq\<close>, \<open>popfq\<close>) or saved before any arithmetic
  (\<open>pushfq\<close> in the context switch).
\<close>

subsection \<open>Memory\<close>

type_synonym word64 = "64 word"
type_synonym byte_mem = "word64 \<Rightarrow> 8 word"

definition byte_of :: "word64 \<Rightarrow> nat \<Rightarrow> 8 word" where
  "byte_of v i = ucast (drop_bit (8 * i) v)"

definition store64 :: "byte_mem \<Rightarrow> word64 \<Rightarrow> word64 \<Rightarrow> byte_mem" where
  "store64 m a v = (\<lambda>x. if x - a < 8 then byte_of v (unat (x - a)) else m x)"

definition load64 :: "byte_mem \<Rightarrow> word64 \<Rightarrow> word64" where
  "load64 m a =
     ucast (m a) OR push_bit 8 (ucast (m (a + 1))) OR push_bit 16 (ucast (m (a + 2)))
     OR push_bit 24 (ucast (m (a + 3))) OR push_bit 32 (ucast (m (a + 4)))
     OR push_bit 40 (ucast (m (a + 5))) OR push_bit 48 (ucast (m (a + 6)))
     OR push_bit 56 (ucast (m (a + 7)))"

text \<open>Two accesses of eight bytes that do not touch each other.\<close>

definition apart :: "word64 \<Rightarrow> word64 \<Rightarrow> bool" where
  "apart a b \<longleftrightarrow> 8 \<le> a - b \<and> 8 \<le> b - a"

lemma byte_of_bit: "n < 8 \<Longrightarrow> i < 8 \<Longrightarrow> bit (byte_of v i) n \<longleftrightarrow> bit v (8 * i + n)"
  by (simp add: byte_of_def bit_simps)

lemma load_store_same [simp]: "load64 (store64 m a v) a = v"
proof (rule bit_word_eqI)
  fix n assume "n < LENGTH(64)"
  then have n: "n < 64" by simp
  consider "n < 8" | "8 \<le> n" "n < 16" | "16 \<le> n" "n < 24" | "24 \<le> n" "n < 32" | "32 \<le> n" "n < 40"
    | "40 \<le> n" "n < 48" | "48 \<le> n" "n < 56" | "56 \<le> n" using n by linarith
  then show "bit (load64 (store64 m a v) a) n = bit v n"
    by cases (use n in \<open>simp_all add: load64_def store64_def bit_simps byte_of_def less_diff_conv2\<close>)
qed

lemma apart_byte:
  assumes "apart a b" and "i < 8"
  shows "\<not> b + i - a < 8"
proof -
  define d where "d = b - a"
  have d: "8 \<le> d" "8 \<le> - d" using assms(1) by (simp_all add: apart_def d_def)
  then have "d \<noteq> 0" by auto
  have "unat (- d) = 18446744073709551616 - unat d" 
    using \<open>d \<noteq> 0\<close> unat_sub_if_size [of 0 d] by (simp add: word_size unat_eq_zero split: if_splits)
  then have "8 \<le> unat d" "unat d \<le> 18446744073709551608" using d by (simp_all add: word_le_nat_alt)
  moreover have "unat i < 8" using assms(2) by (simp add: word_less_nat_alt)
  ultimately have "unat (d + i) = unat d + unat i" by (simp add: unat_word_ariths)
  then have "8 \<le> d + i" using \<open>8 \<le> unat d\<close> by (simp add: word_le_nat_alt)
  moreover have e: "b + i - a = d + i" by (simp add: d_def)
  ultimately show ?thesis unfolding e by (simp only: not_less)
qed

lemma load_store_apart [simp]:
  assumes "apart a b"
  shows "load64 (store64 m a v) b = load64 m b"
proof -
  have "store64 m a v (b + i) = m (b + i)" if "i < 8" for i
    using apart_byte [OF assms that] by (simp add: store64_def)
  from this [of 0] this [of 1] this [of 2] this [of 3] this [of 4] this [of 5] this [of 6] this [of 7]
  show ?thesis by (simp add: load64_def)
qed

text \<open>Offsets from one base address: apartness is decided by computing.\<close>

lemma apart_offsets [simp]:
  "apart (s + a) (s + b) \<longleftrightarrow> apart a b" "apart (s - a) (s - b) \<longleftrightarrow> apart b a"
  "apart (s + a) (s - b) \<longleftrightarrow> apart (a + b) 0" "apart (s - a) (s + b) \<longleftrightarrow> apart 0 (a + b)"
  "apart s (s + b) \<longleftrightarrow> apart 0 b" "apart (s + a) s \<longleftrightarrow> apart a 0"
  "apart s (s - b) \<longleftrightarrow> apart b 0" "apart (s - a) s \<longleftrightarrow> apart 0 a"
  "apart (a + s) (b + s) \<longleftrightarrow> apart a b" "apart (a + s) (s - b) \<longleftrightarrow> apart (a + b) 0" "apart (s - a) (b + s) \<longleftrightarrow> apart 0 (a + b)"
  "apart s (b + s) \<longleftrightarrow> apart 0 b" "apart (a + s) s \<longleftrightarrow> apart a 0"
  "apart (a + s) (s + b) \<longleftrightarrow> apart a b" "apart (s + a) (b + s) \<longleftrightarrow> apart a b"
  by (simp_all add: apart_def algebra_simps)

lemma apart_numeral [simp]:
  "apart (numeral k) (numeral l) \<longleftrightarrow> 8 \<le> (numeral k - numeral l :: word64) \<and> 8 \<le> (numeral l - numeral k :: word64)"
  "apart 0 (numeral l) \<longleftrightarrow> 8 \<le> (- numeral l :: word64) \<and> 8 \<le> (numeral l :: word64)"
  "apart (numeral k) 0 \<longleftrightarrow> 8 \<le> (numeral k :: word64) \<and> 8 \<le> (- numeral k :: word64)"
  by (simp_all add: apart_def)

lemma load_store_simps [simp]:
  "apart b a \<Longrightarrow> load64 (store64 m a v) b = load64 m b"
  by (rule load_store_apart) (simp add: apart_def)

subsection \<open>Registers and instructions\<close>

datatype reg = RAX | RCX | RDX | RBX | RSP | RBP | RSI | RDI | R8 | R9 | R10 | R11 | R12 | R13 | R14 | R15

record cpu =
  regs :: "reg \<Rightarrow> word64"
  c_rip :: word64
  c_cs :: word64
  c_rflags :: word64
  c_ss :: word64
  zf :: bool
  gs_base :: word64
  kernel_gs_base :: word64
  fs_base :: word64
  gdt_base :: word64
  gdt_limit :: "16 word"
  star :: word64                \<comment> \<open>\<open>IA32_STAR\<close>\<close>
  fmask :: word64               \<comment> \<open>\<open>IA32_FMASK\<close>\<close>
  mem :: byte_mem

definition set_reg :: "reg \<Rightarrow> word64 \<Rightarrow> cpu \<Rightarrow> cpu" where
  "set_reg r v c = c\<lparr>regs := (regs c)(r := v)\<rparr>"

definition push :: "word64 \<Rightarrow> cpu \<Rightarrow> cpu" where
  "push v c = set_reg RSP (regs c RSP - 8) (c\<lparr>mem := store64 (mem c) (regs c RSP - 8) v\<rparr>)"

text \<open>\<open>pop reg\<close>: the stack pointer is advanced before the register is written, so that \<open>pop rsp\<close> leaves the
  loaded value in it.\<close>

definition pop :: "reg \<Rightarrow> cpu \<Rightarrow> cpu" where
  "pop r c = set_reg r (load64 (mem c) (regs c RSP)) (set_reg RSP (8 + regs c RSP) c)"

definition read_msr :: "word64 \<Rightarrow> cpu \<Rightarrow> word64" where
  "read_msr n c = (if n = 0xC0000100 then fs_base c else if n = 0xC0000101 then gs_base c
     else if n = 0xC0000102 then kernel_gs_base c else if n = 0xC0000081 then star c
     else if n = 0xC0000084 then fmask c else 0)"

definition write_msr :: "word64 \<Rightarrow> word64 \<Rightarrow> cpu \<Rightarrow> cpu" where
  "write_msr n v c = (if n = 0xC0000100 then c\<lparr>fs_base := v\<rparr> else if n = 0xC0000101 then c\<lparr>gs_base := v\<rparr>
     else if n = 0xC0000102 then c\<lparr>kernel_gs_base := v\<rparr> else if n = 0xC0000081 then c\<lparr>star := v\<rparr>
     else if n = 0xC0000084 then c\<lparr>fmask := v\<rparr> else c)"

text \<open>The instructions, with the jumps of the code as structured skips: \<open>Jz_over p\<close> is \<open>jz 1f; p; 1:\<close>, and
  \<open>Jnz p q\<close> is \<open>jnz 1f; p\<close> with \<open>q\<close> at the label.  A call of Rust code is a function on states, applied after
  the return address has been pushed; its result is the state after the return.\<close>

datatype instr =
    Push reg
  | Pop reg
  | PushImm word64
  | PushMem reg word64
  | PopMem reg word64
  | PushGs word64
  | Mov reg reg
  | MovImm reg word64
  | Load reg reg word64
  | Store reg word64 reg
  | StoreLow32 reg word64 reg
  | LoadGs reg word64
  | StoreGs word64 reg
  | AddImm reg word64
  | SubImm reg word64
  | Shl reg nat
  | Shr reg nat
  | Sar reg nat
  | Mov32 reg reg
  | Or reg reg
  | Xor reg reg
  | TestMem reg word64 word64
  | TestByte reg word64 "8 word"
  | TestBl
  | Cmp reg reg
  | SeteBl
  | Swapgs
  | Sgdt reg word64
  | Rdmsr
  | Wrmsr
  | Cld
  | Pushfq
  | Popfq
  | Call word64 "cpu \<Rightarrow> cpu"
  | Jz_over "instr list"
  | Jnz_over "instr list"
  | Jnz "instr list" "instr list"
  | Iretq
  | Sysretq

fun exec :: "instr \<Rightarrow> cpu \<Rightarrow> cpu" and exec_all :: "instr list \<Rightarrow> cpu \<Rightarrow> cpu" where
  "exec (Push r) c = push (regs c r) c"
| "exec (Pop r) c = pop r c"
| "exec (PushImm v) c = push v c"
| "exec (PushMem r off) c = push (load64 (mem c) (off + regs c r)) c"
| "exec (PopMem r off) c =
     set_reg RSP (8 + regs c RSP) (c\<lparr>mem := store64 (mem c) (off + regs c r) (load64 (mem c) (regs c RSP))\<rparr>)"
| "exec (PushGs off) c = push (load64 (mem c) (off + gs_base c)) c"
| "exec (Mov d s) c = set_reg d (regs c s) c"
| "exec (MovImm d v) c = set_reg d v c"
| "exec (Load d b off) c = set_reg d (load64 (mem c) (off + regs c b)) c"
| "exec (Store b off s) c = c\<lparr>mem := store64 (mem c) (off + regs c b) (regs c s)\<rparr>"
| "exec (StoreLow32 b off s) c =
     c\<lparr>mem := store64 (mem c) (off + regs c b)
        ((load64 (mem c) (off + regs c b) AND NOT (mask 32)) OR (regs c s AND mask 32))\<rparr>"
| "exec (LoadGs d off) c = set_reg d (load64 (mem c) (off + gs_base c)) c"
| "exec (StoreGs off s) c = c\<lparr>mem := store64 (mem c) (off + gs_base c) (regs c s)\<rparr>"
| "exec (AddImm r v) c = set_reg r (regs c r + v) c"
| "exec (SubImm r v) c = set_reg r (regs c r - v) c"
| "exec (Shl r n) c = set_reg r (push_bit n (regs c r)) c"
| "exec (Shr r n) c = set_reg r (drop_bit n (regs c r)) c"
| "exec (Sar r n) c = set_reg r (signed_drop_bit n (regs c r)) c"
| "exec (Mov32 d s) c = set_reg d (regs c s AND mask 32) c"
| "exec (Or d s) c = set_reg d (regs c d OR regs c s) c"
| "exec (Xor d s) c = set_reg d (regs c d XOR regs c s) c"
| "exec (TestMem b off v) c = c\<lparr>zf := (load64 (mem c) (off + regs c b) AND v = 0)\<rparr>"
| "exec (TestByte b off v) c = c\<lparr>zf := (mem c (off + regs c b) AND v = 0)\<rparr>"
| "exec TestBl c = c\<lparr>zf := (regs c RBX AND mask 8 = 0)\<rparr>"
| "exec (Cmp a b) c = c\<lparr>zf := (regs c a = regs c b)\<rparr>"
| "exec SeteBl c = set_reg RBX ((regs c RBX AND NOT (mask 8)) OR (if zf c then 1 else 0)) c"
| "exec Swapgs c = c\<lparr>gs_base := kernel_gs_base c, kernel_gs_base := gs_base c\<rparr>"
| "exec (Sgdt b off) c =
     (let a = off + regs c b;
          m = (mem c)(a := ucast (gdt_limit c), a + 1 := ucast (drop_bit 8 (gdt_limit c)))
      in c\<lparr>mem := store64 m (a + 2) (gdt_base c)\<rparr>)"
| "exec Rdmsr c =
     (let v = read_msr (regs c RCX AND mask 32) c
      in set_reg RAX (v AND mask 32) (set_reg RDX (drop_bit 32 v) c))"
| "exec Wrmsr c =
     write_msr (regs c RCX AND mask 32) (push_bit 32 (regs c RDX) OR (regs c RAX AND mask 32)) c"
| "exec Cld c = c\<lparr>c_rflags := unset_bit 10 (c_rflags c)\<rparr>"
| "exec Pushfq c = push (c_rflags c) c"
| "exec Popfq c = c\<lparr>regs := (regs c)(RSP := 8 + regs c RSP), c_rflags := load64 (mem c) (regs c RSP)\<rparr>"
| "exec (Call ra f) c = f (push ra c)"
| "exec (Jz_over p) c = (if zf c then c else exec_all p c)"
| "exec (Jnz_over p) c = (if \<not> zf c then c else exec_all p c)"
| "exec (Jnz p q) c = (if \<not> zf c then exec_all q c else exec_all p c)"
| "exec Iretq c =
     (let a = regs c RSP; m = mem c
      in c\<lparr>c_rip := load64 m a, c_cs := load64 m (8 + a), c_rflags := load64 m (16 + a),
           regs := (regs c)(RSP := load64 m (24 + a)), c_ss := load64 m (32 + a)\<rparr>)"
| "exec Sysretq c =
     c\<lparr>c_rip := regs c RCX, c_rflags := (regs c R11 AND 0x3C7FD7) OR 2,
       c_cs := ((drop_bit 48 (star c) + 16) OR 3), c_ss := ((drop_bit 48 (star c) + 8) OR 3)\<rparr>"
| "exec_all [] c = c"
| "exec_all (i # is) c = exec_all is (exec i c)"

lemma exec_all_append: "exec_all (p @ q) c = exec_all q (exec_all p c)"
  by (induction p arbitrary: c) simp_all

text \<open>What the processor does by itself: it takes an interrupt, with or without an error code, on the
  stack \<open>sp\<close>, and it executes the \<open>syscall\<close> instruction.\<close>

definition take_interrupt :: "word64 \<Rightarrow> word64 \<Rightarrow> word64 \<Rightarrow> cpu \<Rightarrow> cpu" where
  "take_interrupt sp handler kcs c =
     (let c1 = push (c_rip c) (push (c_cs c) (push (c_rflags c) (push (regs c RSP) (push (c_ss c) (set_reg RSP sp c)))))
      in c1\<lparr>c_rip := handler, c_cs := kcs, c_ss := 0, c_rflags := unset_bit 9 (c_rflags c)\<rparr>)"

definition take_exception :: "word64 \<Rightarrow> word64 \<Rightarrow> word64 \<Rightarrow> word64 \<Rightarrow> cpu \<Rightarrow> cpu" where
  "take_exception sp handler kcs code c = push code (take_interrupt sp handler kcs c)"

definition syscall_insn :: "word64 \<Rightarrow> cpu \<Rightarrow> cpu" where
  "syscall_insn lstar c =
     (set_reg RCX (c_rip c) (set_reg R11 (c_rflags c) c))
       \<lparr>c_rip := lstar, c_rflags := c_rflags c AND NOT (fmask c),
        c_cs := drop_bit 32 (star c) AND mask 16, c_ss := (drop_bit 32 (star c) AND mask 16) + 8\<rparr>"

end
