(* ===== verification/Vdso.thy ===== *)
theory Vdso
  imports Machine Prelude
begin

text \<open>The library every user program of the system is linked with (\<open>libvdso\<close>), and the first user program
  (\<open>bootstrap/src/main.rs\<close>): the error numbers and how a result travels through one register (\<open>error.rs\<close>),
  the signal numbers (\<open>flag.rs\<close>), the system call numbers (\<open>syscall_number.rs\<close>), the stubs that execute the
  \<open>syscall\<close> instruction (\<open>macro.rs\<close>), and \<open>syscall::write\<close>.  What the kernel does with a system call is an
  argument of the stubs; the kernel's own entry code is the theory of trap frames.\<close>

unbundle bit_operations_syntax

subsection \<open>Results in one register\<close>

record kerror =
  errno :: "32 word"

type_synonym kresult = "kerror + word64"

text \<open>\<open>-error.errno as usize\<close> negates the 32-bit number and extends its sign to 64 bits.\<close>

fun mux :: "kresult \<Rightarrow> word64" where
  "mux (Inr v) = v"
| "mux (Inl e) = scast (- errno e)"

definition demux :: "word64 \<Rightarrow> kresult" where
  "demux value = Inr value"

definition error_numbers :: "(string \<times> 32 word) list" where
  "error_numbers =
     [(''EPERM'', 1), (''ENOENT'', 2), (''ESRCH'', 3), (''EINTR'', 4), (''EIO'', 5),
      (''ENXIO'', 6), (''E2BIG'', 7), (''ENOEXEC'', 8), (''EBADF'', 9), (''ECHILD'', 10),
      (''EAGAIN'', 11), (''ENOMEM'', 12), (''EACCES'', 13), (''EFAULT'', 14), (''ENOTBLK'', 15),
      (''EBUSY'', 16), (''EEXIST'', 17), (''EXDEV'', 18), (''ENODEV'', 19), (''ENOTDIR'', 20),
      (''EISDIR'', 21), (''EINVAL'', 22), (''ENFILE'', 23), (''EMFILE'', 24), (''ENOTTY'', 25),
      (''ETXTBSY'', 26), (''EFBIG'', 27), (''ENOSPC'', 28), (''ESPIPE'', 29), (''EROFS'', 30),
      (''EMLINK'', 31), (''EPIPE'', 32), (''EDOM'', 33), (''ERANGE'', 34), (''EDEADLK'', 35),
      (''ENAMETOOLONG'', 36), (''ENOLCK'', 37), (''ENOSYS'', 38), (''ENOTEMPTY'', 39), (''ELOOP'', 40),
      (''EWOULDBLOCK'', 41), (''ENOMSG'', 42), (''EIDRM'', 43), (''ECHRNG'', 44), (''EL2NSYNC'', 45),
      (''EL3HLT'', 46), (''EL3RST'', 47), (''ELNRNG'', 48), (''EUNATCH'', 49), (''ENOCSI'', 50),
      (''EL2HLT'', 51), (''EBADE'', 52), (''EBADR'', 53), (''EXFULL'', 54), (''ENOANO'', 55),
      (''EBADRQC'', 56), (''EBADSLT'', 57), (''EDEADLOCK'', 58), (''EBFONT'', 59), (''ENOSTR'', 60),
      (''ENODATA'', 61), (''ETIME'', 62), (''ENOSR'', 63), (''ENONET'', 64), (''ENOPKG'', 65),
      (''EREMOTE'', 66), (''ENOLINK'', 67), (''EADV'', 68), (''ESRMNT'', 69), (''ECOMM'', 70),
      (''EPROTO'', 71), (''EMULTIHOP'', 72), (''EDOTDOT'', 73), (''EBADMSG'', 74), (''EOVERFLOW'', 75),
      (''ENOTUNIQ'', 76), (''EBADFD'', 77), (''EREMCHG'', 78), (''ELIBACC'', 79), (''ELIBBAD'', 80),
      (''ELIBSCN'', 81), (''ELIBMAX'', 82), (''ELIBEXEC'', 83), (''EILSEQ'', 84), (''ERESTART'', 85),
      (''ESTRPIPE'', 86), (''EUSERS'', 87), (''ENOTSOCK'', 88), (''EDESTADDRREQ'', 89), (''EMSGSIZE'', 90),
      (''EPROTOTYPE'', 91), (''ENOPROTOOPT'', 92), (''EPROTONOSUPPORT'', 93), (''ESOCKTNOSUPPORT'', 94), (''EOPNOTSUPP'', 95),
      (''EPFNOSUPPORT'', 96), (''EAFNOSUPPORT'', 97), (''EADDRINUSE'', 98), (''EADDRNOTAVAIL'', 99), (''ENETDOWN'', 100),
      (''ENETUNREACH'', 101), (''ENETRESET'', 102), (''ECONNABORTED'', 103), (''ECONNRESET'', 104), (''ENOBUFS'', 105),
      (''EISCONN'', 106), (''ENOTCONN'', 107), (''ESHUTDOWN'', 108), (''ETOOMANYREFS'', 109), (''ETIMEDOUT'', 110),
      (''ECONNREFUSED'', 111), (''EHOSTDOWN'', 112), (''EHOSTUNREACH'', 113), (''EALREADY'', 114), (''EINPROGRESS'', 115),
      (''ESTALE'', 116), (''EUCLEAN'', 117), (''ENOTNAM'', 118), (''ENAVAIL'', 119), (''EISNAM'', 120),
      (''EREMOTEIO'', 121), (''EDQUOT'', 122), (''ENOMEDIUM'', 123), (''EMEDIUMTYPE'', 124), (''ECANCELED'', 125),
      (''ENOKEY'', 126), (''EKEYEXPIRED'', 127), (''EKEYREVOKED'', 128), (''EKEYREJECTED'', 129), (''EOWNERDEAD'', 130),
      (''ENOTRECOVERABLE'', 131)]"

definition kerror_new :: "32 word \<Rightarrow> kerror" where
  "kerror_new n = \<lparr>errno = n\<rparr>"

definition EAGAIN :: "32 word" where
  "EAGAIN = 11"

definition ENOMEM :: "32 word" where
  "ENOMEM = 12"

definition signal_numbers :: "(string \<times> word64) list" where
  "signal_numbers =
     [(''SIGHUP'', 1), (''SIGINT'', 2), (''SIGQUIT'', 3), (''SIGILL'', 4), (''SIGTRAP'', 5),
      (''SIGABRT'', 6), (''SIGBUS'', 7), (''SIGFPE'', 8), (''SIGKILL'', 9), (''SIGUSR1'', 10),
      (''SIGSEGV'', 11), (''SIGUSR2'', 12), (''SIGPIPE'', 13), (''SIGALRM'', 14), (''SIGTERM'', 15),
      (''SIGSTKFLT'', 16), (''SIGCHLD'', 17), (''SIGCONT'', 18), (''SIGSTOP'', 19), (''SIGTSTP'', 20),
      (''SIGTTIN'', 21), (''SIGTTOU'', 22), (''SIGURG'', 23), (''SIGXCPU'', 24), (''SIGXFSZ'', 25),
      (''SIGVTALRM'', 26), (''SIGPROF'', 27), (''SIGWINCH'', 28), (''SIGIO'', 29), (''SIGPWR'', 30),
      (''SIGSYS'', 31)]"

subsection \<open>The numbers of the system calls\<close>

definition SYS_CLASS :: word64 where
  "SYS_CLASS = 0xF0000000"

definition SYS_CLASS_PATH :: word64 where
  "SYS_CLASS_PATH = 0x10000000"

definition SYS_CLASS_FILE :: word64 where
  "SYS_CLASS_FILE = 0x20000000"

definition SYS_ARG :: word64 where
  "SYS_ARG = 0x0F000000"

definition SYS_ARG_SLICE :: word64 where
  "SYS_ARG_SLICE = 0x01000000"

definition SYS_ARG_MSLICE :: word64 where
  "SYS_ARG_MSLICE = 0x02000000"

definition SYS_ARG_PATH :: word64 where
  "SYS_ARG_PATH = 0x03000000"

definition SYS_RET :: word64 where
  "SYS_RET = 0x00F00000"

definition SYS_RET_FILE :: word64 where
  "SYS_RET_FILE = 0x00100000"

definition syscall_numbers :: "(string \<times> word64) list" where
  "syscall_numbers =
     [(''SYS_LINK'', SYS_CLASS_PATH OR SYS_ARG_PATH OR 9), (''SYS_OPEN'', SYS_CLASS_PATH OR SYS_RET_FILE OR 5),
      (''SYS_RMDIR'', SYS_CLASS_PATH OR 84), (''SYS_UNLINK'', SYS_CLASS_PATH OR 10),
      (''SYS_CLOSE'', SYS_CLASS_FILE OR 6), (''SYS_DUP'', SYS_CLASS_FILE OR SYS_RET_FILE OR 41),
      (''SYS_DUP2'', SYS_CLASS_FILE OR SYS_RET_FILE OR 63), (''SYS_READ'', SYS_CLASS_FILE OR SYS_ARG_MSLICE OR 3),
      (''SYS_WRITE'', SYS_CLASS_FILE OR SYS_ARG_SLICE OR 4), (''SYS_LSEEK'', SYS_CLASS_FILE OR 19),
      (''SYS_FCHMOD'', SYS_CLASS_FILE OR 94), (''SYS_FCHOWN'', SYS_CLASS_FILE OR 207),
      (''SYS_FCNTL'', SYS_CLASS_FILE OR 55), (''SYS_FEVENT'', SYS_CLASS_FILE OR 927),
      (''SYS_SENDFD'', SYS_CLASS_FILE OR 34), (''SYS_FMAP_OLD'', SYS_CLASS_FILE OR SYS_ARG_SLICE OR 90),
      (''SYS_FMAP'', SYS_CLASS_FILE OR SYS_ARG_SLICE OR 900), (''SYS_FUNMAP_OLD'', SYS_CLASS_FILE OR 91),
      (''SYS_FUNMAP'', SYS_CLASS_FILE OR 92), (''SYS_MREMAP'', 155),
      (''SYS_FPATH'', SYS_CLASS_FILE OR SYS_ARG_MSLICE OR 928), (''SYS_FRENAME'', SYS_CLASS_FILE OR SYS_ARG_PATH OR 38),
      (''SYS_FSTAT'', SYS_CLASS_FILE OR SYS_ARG_MSLICE OR 28), (''SYS_FSTATVFS'', SYS_CLASS_FILE OR SYS_ARG_MSLICE OR 100),
      (''SYS_FSYNC'', SYS_CLASS_FILE OR 118), (''SYS_FTRUNCATE'', SYS_CLASS_FILE OR 93),
      (''SYS_FUTIMENS'', SYS_CLASS_FILE OR SYS_ARG_SLICE OR 320), (''KSMSG_MMAP'', SYS_CLASS_FILE OR 72),
      (''KSMSG_MSYNC'', SYS_CLASS_FILE OR 73), (''KSMSG_MUNMAP'', SYS_CLASS_FILE OR 74),
      (''KSMSG_MMAP_PREP'', SYS_CLASS_FILE OR 75), (''KSMSG_CANCEL'', SYS_CLASS_FILE OR 76),
      (''SYS_CLOCK_GETTIME'', 265), (''SYS_EXIT'', 1),
      (''SYS_FUTEX'', 240), (''SYS_GETEGID'', 202),
      (''SYS_GETENS'', 951), (''SYS_GETEUID'', 201),
      (''SYS_GETGID'', 200), (''SYS_GETNS'', 950),
      (''SYS_GETPID'', 20), (''SYS_GETPGID'', 132),
      (''SYS_GETPPID'', 64), (''SYS_GETUID'', 199),
      (''SYS_IOPL'', 110), (''SYS_KILL'', 37),
      (''SYS_MPROTECT'', 125), (''SYS_MKNS'', 984),
      (''SYS_NANOSLEEP'', 162), (''SYS_VIRTTOPHYS'', 949),
      (''SYS_SETPGID'', 57), (''SYS_SETREGID'', 204),
      (''SYS_SETRENS'', 952), (''SYS_SETREUID'', 203),
      (''SYS_SIGACTION'', 67), (''SYS_SIGPROCMASK'', 126),
      (''SYS_SIGRETURN'', 119), (''SYS_UMASK'', 60),
      (''SYS_WAITPID'', 7), (''SYS_YIELD'', 158)]"

definition SYS_WRITE :: word64 where
  "SYS_WRITE = SYS_CLASS_FILE OR SYS_ARG_SLICE OR 4"

subsection \<open>The stubs\<close>

text \<open>\<open>syscallN\<close>: the arguments go to the registers of the kernel's convention, the processor executes
  \<open>syscall\<close>, and the result is read back from \<open>rax\<close>.\<close>

definition syscall_regs :: "reg list" where
  "syscall_regs = [RAX, RDI, RSI, RDX, R10, R8]"

definition syscall_stub :: "(cpu \<Rightarrow> cpu) \<Rightarrow> word64 list \<Rightarrow> cpu \<Rightarrow> kresult \<times> cpu" where
  "syscall_stub kern args c =
     (let c' = kern (fold (\<lambda>(r, v). set_reg r v) (zip syscall_regs args) c)
      in (demux (regs c' RAX), c'))"

definition syscall0 :: "(cpu \<Rightarrow> cpu) \<Rightarrow> word64 \<Rightarrow> cpu \<Rightarrow> kresult \<times> cpu" where
  "syscall0 kern a = syscall_stub kern [a]"

definition syscall1 :: "(cpu \<Rightarrow> cpu) \<Rightarrow> word64 \<Rightarrow> word64 \<Rightarrow> cpu \<Rightarrow> kresult \<times> cpu" where
  "syscall1 kern a b = syscall_stub kern [a, b]"

definition syscall2 :: "(cpu \<Rightarrow> cpu) \<Rightarrow> word64 \<Rightarrow> word64 \<Rightarrow> word64 \<Rightarrow> cpu \<Rightarrow> kresult \<times> cpu" where
  "syscall2 kern a b c = syscall_stub kern [a, b, c]"

definition syscall3 :: "(cpu \<Rightarrow> cpu) \<Rightarrow> word64 \<Rightarrow> word64 \<Rightarrow> word64 \<Rightarrow> word64 \<Rightarrow> cpu \<Rightarrow> kresult \<times> cpu" where
  "syscall3 kern a b c d = syscall_stub kern [a, b, c, d]"

definition syscall4 :: "(cpu \<Rightarrow> cpu) \<Rightarrow> word64 \<Rightarrow> word64 \<Rightarrow> word64 \<Rightarrow> word64 \<Rightarrow> word64 \<Rightarrow> cpu \<Rightarrow> kresult \<times> cpu" where
  "syscall4 kern a b c d e = syscall_stub kern [a, b, c, d, e]"

definition syscall5 :: "(cpu \<Rightarrow> cpu) \<Rightarrow> word64 \<Rightarrow> word64 \<Rightarrow> word64 \<Rightarrow> word64 \<Rightarrow> word64 \<Rightarrow> word64 \<Rightarrow> cpu \<Rightarrow> kresult \<times> cpu" where
  "syscall5 kern a b c d e f = syscall_stub kern [a, b, c, d, e, f]"

definition vdso_write :: "(cpu \<Rightarrow> cpu) \<Rightarrow> word64 \<Rightarrow> word64 \<Rightarrow> word64 \<Rightarrow> cpu \<Rightarrow> kresult \<times> cpu" where
  "vdso_write kern fd ptr len = syscall3 kern SYS_WRITE fd ptr len"

text \<open>The first user program writes its greeting and then spins; its panic handler does the same with
  another text.  Both are given by the address and the length of the text.\<close>

definition bootstrap_start :: "(cpu \<Rightarrow> cpu) \<Rightarrow> word64 \<Rightarrow> cpu \<Rightarrow> cpu" where
  "bootstrap_start kern hello c = snd (vdso_write kern 1 hello 21 c)"

definition bootstrap_panic_handler :: "(cpu \<Rightarrow> cpu) \<Rightarrow> word64 \<Rightarrow> cpu \<Rightarrow> cpu" where
  "bootstrap_panic_handler kern panic_text c = snd (vdso_write kern 1 panic_text 5 c)"

subsection \<open>What survives the register\<close>

lemma errors_high: "list_all (\<lambda>(_, n). mux (Inl (kerror_new n)) \<ge> - 131) error_numbers"
  by code_simp

lemma errors_small: "list_all (\<lambda>(_, n). n \<le> 131) error_numbers"
  by code_simp

lemma scast_neg:
  fixes n :: "32 word"
  assumes "n \<le> 131"
  shows "(scast (- n) :: word64) = - ucast n"
proof -
  have b: "uint n \<le> 131" "0 \<le> uint n" using assms by (simp_all add: word_le_def)
  have self: "- 2147483648 \<le> k \<Longrightarrow> k < 2147483648 \<Longrightarrow> signed_take_bit (LENGTH(32) - Suc 0) k = k" for k :: int
    by (rule signed_take_bit_int_eq_self) simp_all
  have n: "sint n = uint n" unfolding sint_uint by (rule self) (use b in linarith)+
  have m: "signed_take_bit (LENGTH(32) - Suc 0) (- uint n) = - uint n" by (rule self) (use b in linarith)+
  have "sint (- n) = - uint n" using m unfolding sint_word_ariths n by simp
  then show ?thesis by (metis of_int_minus of_int_sint of_int_uint)
qed

lemma mux_error_inj:
  fixes m n :: "32 word"
  assumes "n \<le> 131" and "m \<le> 131" and "mux (Inl (kerror_new n)) = mux (Inl (kerror_new m))"
  shows "n = m"
proof -
  have "uint (ucast n :: word64) = uint (ucast m :: word64)"
    using assms by (simp add: kerror_new_def scast_neg)
  then show ?thesis
    using unsigned_less [of n, where ?'a = int] unsigned_less [of m, where ?'a = int]
    by (simp add: unsigned_ucast_eq take_bit_int_eq_self word_uint_eq_iff)
qed

lemma inj_on_Un_apart: "inj_on f A \<Longrightarrow> inj_on f B \<Longrightarrow> f ` A \<inter> f ` B = {} \<Longrightarrow> inj_on f (A \<union> B)"
  unfolding inj_on_Un by blast

text \<open>C40. Results and errors stay apart in the register: on the successful results below the last 131
  values of a machine word together with the errors of the table, \<open>mux\<close> is injective.\<close>
theorem mux_injective:
  "inj_on mux ({Inr v | v. v < - 131} \<union> (\<lambda>(_, n). Inl (kerror_new n)) ` set error_numbers)"
proof -
  let ?f = "\<lambda>e. Inl (kerror_new (snd e)) :: kresult"
  have small: "\<forall>e \<in> set error_numbers. snd e \<le> 131"
    using errors_small unfolding list_all_iff split_def .
  have "inj_on mux (?f ` set error_numbers)"
  proof (rule inj_onI)
    fix x y assume "x \<in> ?f ` set error_numbers" "y \<in> ?f ` set error_numbers" and eq: "mux x = mux y"
    then obtain d e where x: "d \<in> set error_numbers" "x = ?f d" and y: "e \<in> set error_numbers" "y = ?f e" by blast
    show "x = y"
      using mux_error_inj [OF bspec [OF small x(1)] bspec [OF small y(1)]] eq unfolding x(2) y(2) by simp
  qed
  moreover have "inj_on mux {Inr v | v. v < - 131}" by (auto simp: inj_on_def)
  moreover have "mux ` {Inr v | v. v < - 131} \<inter> mux ` ?f ` set error_numbers = {}"
  proof (rule equals0I)
    fix w assume "w \<in> mux ` {Inr v | v. v < - 131} \<inter> mux ` ?f ` set error_numbers"
    then obtain e v where v: "w = mux (Inr v)" "v < - 131" and e: "e \<in> set error_numbers" and w: "w = mux (?f e)" by blast
    have "\<forall>e \<in> set error_numbers. - 131 \<le> mux (?f e)"
      using errors_high unfolding list_all_iff split_def .
    from bspec [OF this e] v show False unfolding w [symmetric] by simp
  qed
  ultimately show ?thesis unfolding split_def by (intro inj_on_Un_apart)
qed


lemma syscall_number_values:
  "map snd syscall_numbers =
     [318767113, 269484037, 268435540, 268435466, 536870918, 537919529, 537919551, 570425347, 553648132, 536870931,
      536871006, 536871119, 536870967, 536871839, 536870946, 553648218, 553649028, 536871003, 536871004, 155,
      570426272, 587202598, 570425372, 570425444, 536871030, 536871005, 553648448, 536870984, 536870985, 536870986,
      536870987, 536870988, 265, 1, 240, 202, 951, 201, 200, 950,
      20, 132, 64, 199, 110, 37, 125, 984, 162, 949,
      57, 204, 952, 203, 67, 126, 119, 60, 7, 158]"
  by (simp add: syscall_numbers_def SYS_CLASS_PATH_def SYS_CLASS_FILE_def SYS_ARG_SLICE_def
    SYS_ARG_MSLICE_def SYS_ARG_PATH_def SYS_RET_FILE_def)

lemma distinct_mapD: "distinct (map f xs) \<Longrightarrow> distinct xs"
  by (simp add: distinct_map)

text \<open>The numbers of the system calls and of the messages to the kernel's schemes are pairwise
  different, and none of them uses a bit outside the fields of the class, of the arguments, of the return
  value and the ten bits of the call itself.\<close>
theorem syscall_numbers_wf:
  "distinct (map snd syscall_numbers)
   \<and> list_all (\<lambda>n. n AND NOT (SYS_CLASS OR SYS_ARG OR SYS_RET OR mask 10) = 0) (map snd syscall_numbers)"
proof
  have "distinct (map unat (map snd syscall_numbers))" unfolding syscall_number_values by simp
  then show "distinct (map snd syscall_numbers)" by (rule distinct_mapD)
  show "list_all (\<lambda>n. n AND NOT (SYS_CLASS OR SYS_ARG OR SYS_RET OR mask 10) = 0) (map snd syscall_numbers)"
    unfolding syscall_number_values
    by (simp add: SYS_CLASS_def SYS_ARG_def SYS_RET_def mask_eq_exp_minus_1)
qed

end
