(* ===== verification/Trap_Frames.thy ===== *)
theory Trap_Frames
  imports Vdso
begin

section \<open>Interrupt and system call entries (kernel/src/interrupt\_macro.rs, syscall.rs)\<close>

text \<open>
  The macros that generate the entry code of every interrupt handler, and the entry and exit of
  the \<open>syscall\<close> instruction, as programs of the processor model; and \<open>InterruptStack\<close>, the structure
  the Rust code sees where the entry code has pushed the registers.  The theory shows that what is
  pushed is exactly that structure, that a handler which keeps the calling convention returns to
  the interrupted state, that the code that swaps the GS base restores it, that a system call
  returns to its caller with only the documented registers changed, and that the address it
  returns to is canonical whatever the frame holds.
\<close>

subsection \<open>The frame\<close>

record preserved_registers =
  pr_r15 :: word64
  pr_r14 :: word64
  pr_r13 :: word64
  pr_r12 :: word64
  pr_rbp :: word64
  pr_rbx :: word64

record scratch_registers =
  sr_r11 :: word64
  sr_r10 :: word64
  sr_r9 :: word64
  sr_r8 :: word64
  sr_rsi :: word64
  sr_rdi :: word64
  sr_rdx :: word64
  sr_rcx :: word64
  sr_rax :: word64

record iret_registers =
  ir_rip :: word64
  ir_cs :: word64
  ir_rflags :: word64
  ir_rsp :: word64
  ir_ss :: word64

record interrupt_stack =
  preserved :: preserved_registers
  scratch :: scratch_registers
  iret :: iret_registers

text \<open>The layout (\<open>repr(C)\<close>): six, nine and five words, in the order of the fields.\<close>

definition read_frame :: "byte_mem \<Rightarrow> word64 \<Rightarrow> interrupt_stack" where
  "read_frame m a =
     \<lparr>preserved = \<lparr>pr_r15 = load64 m a, pr_r14 = load64 m (8 + a), pr_r13 = load64 m (16 + a),
        pr_r12 = load64 m (24 + a), pr_rbp = load64 m (32 + a), pr_rbx = load64 m (40 + a)\<rparr>,
      scratch = \<lparr>sr_r11 = load64 m (48 + a), sr_r10 = load64 m (56 + a), sr_r9 = load64 m (64 + a),
        sr_r8 = load64 m (72 + a), sr_rsi = load64 m (80 + a), sr_rdi = load64 m (88 + a),
        sr_rdx = load64 m (96 + a), sr_rcx = load64 m (104 + a), sr_rax = load64 m (112 + a)\<rparr>,
      iret = \<lparr>ir_rip = load64 m (120 + a), ir_cs = load64 m (128 + a), ir_rflags = load64 m (136 + a),
        ir_rsp = load64 m (144 + a), ir_ss = load64 m (152 + a)\<rparr>\<rparr>"

definition INT_REGS_SIZE :: word64 where
  "INT_REGS_SIZE = 160"

subsection \<open>The macros\<close>

definition push_scratch :: "instr list" where
  "push_scratch = [Push RCX, Push RDX, Push RDI, Push RSI, Push R8, Push R9, Push R10, Push R11]"

definition pop_scratch :: "instr list" where
  "pop_scratch = [Pop R11, Pop R10, Pop R9, Pop R8, Pop RSI, Pop RDI, Pop RDX, Pop RCX, Pop RAX]"

definition push_preserved :: "instr list" where
  "push_preserved = [Push RBX, Push RBP, Push R12, Push R13, Push R14, Push R15]"

definition pop_preserved :: "instr list" where
  "pop_preserved = [Pop R15, Pop R14, Pop R13, Pop R12, Pop RBP, Pop RBX]"

definition swapgs_iff_ring3_fast :: "instr list" where
  "swapgs_iff_ring3_fast = [TestMem RSP 8 3, Jz_over [Swapgs]]"

definition swapgs_iff_ring3_fast_errorcode :: "instr list" where
  "swapgs_iff_ring3_fast_errorcode = [TestMem RSP 16 3, Jz_over [Swapgs]]"

text \<open>\<open>off\<close> is the offset of the descriptor table in \<open>ProcessorControlRegion\<close>.\<close>

definition conditional_swapgs_paranoid :: "word64 \<Rightarrow> instr list" where
  "conditional_swapgs_paranoid off =
     [SubImm RSP 16, Sgdt RSP 6, Load RDI RSP 8, AddImm RSP 16, SubImm RDI off,
      MovImm RCX 0xC0000101, Rdmsr, Shl RDX 32, Or RDX RAX,
      Cmp RDX RDI, SeteBl, Jz_over [Swapgs]]"

definition conditional_swapgs_back_paranoid :: "instr list" where
  "conditional_swapgs_back_paranoid = [TestBl, Jnz_over [Swapgs]]"

definition interrupt_stack_entry ::
  "instr list \<Rightarrow> instr list \<Rightarrow> instr list \<Rightarrow> instr list \<Rightarrow> word64 \<Rightarrow> (cpu \<Rightarrow> cpu) \<Rightarrow> instr list" where
  "interrupt_stack_entry save1 save2 rstor2 rstor1 ra inner =
     [Cld] @ save1 @ [Push RAX] @ push_scratch @ push_preserved @ save2
     @ [Mov RDI RSP, Call ra inner] @ rstor2 @ pop_preserved @ pop_scratch @ rstor1 @ [Iretq]"

definition interrupt_stack_fast :: "word64 \<Rightarrow> (cpu \<Rightarrow> cpu) \<Rightarrow> instr list" where
  "interrupt_stack_fast ra inner = interrupt_stack_entry swapgs_iff_ring3_fast [] [] swapgs_iff_ring3_fast ra inner"

definition interrupt_stack_paranoid :: "word64 \<Rightarrow> word64 \<Rightarrow> (cpu \<Rightarrow> cpu) \<Rightarrow> instr list" where
  "interrupt_stack_paranoid off ra inner =
     interrupt_stack_entry [] (conditional_swapgs_paranoid off) conditional_swapgs_back_paranoid [] ra inner"

definition interrupt :: "word64 \<Rightarrow> (cpu \<Rightarrow> cpu) \<Rightarrow> instr list" where
  "interrupt ra inner =
     [Cld] @ swapgs_iff_ring3_fast @ [Push RAX] @ push_scratch @ [Call ra inner] @ pop_scratch
     @ swapgs_iff_ring3_fast @ [Iretq]"

definition interrupt_error :: "word64 \<Rightarrow> (cpu \<Rightarrow> cpu) \<Rightarrow> instr list" where
  "interrupt_error ra inner =
     [Cld] @ swapgs_iff_ring3_fast_errorcode @ push_scratch @ push_preserved
     @ [Load RSI RSP 112, Store RSP 112 RAX, Mov RDI RSP, Call ra inner]
     @ pop_preserved @ pop_scratch @ swapgs_iff_ring3_fast @ [Iretq]"

subsection \<open>The system call\<close>

text \<open>\<open>sp\<close> and \<open>ksp\<close> are the offsets of \<open>user_rsp_tmp\<close> and of the kernel stack pointer in the per-processor
  region; the selectors are those of entries 4 and 5 at privilege level 3.\<close>

definition ss_sel :: word64 where
  "ss_sel = (4 * 8) OR 3"

definition cs_sel :: word64 where
  "cs_sel = (5 * 8) OR 3"

definition syscall_entry :: "word64 \<Rightarrow> word64 \<Rightarrow> word64 \<Rightarrow> (cpu \<Rightarrow> cpu) \<Rightarrow> instr list" where
  "syscall_entry sp ksp ra inner =
     [Swapgs, StoreGs sp RSP, LoadGs RSP ksp, PushImm ss_sel, PushGs sp, Push R11, PushImm cs_sel, Push RCX, Push RAX]
     @ push_scratch @ push_preserved @ [Mov RDI RSP, Call ra inner]"

definition enter_usermode :: "instr list" where
  "enter_usermode =
     pop_preserved @ pop_scratch @ [Swapgs, TestByte RSP 17 1,
       Jnz [Pop RCX, Shl RCX 16, Sar RCX 16, AddImm RSP 8, Pop R11, Pop RSP, Sysretq]
           [Xor RCX RCX, Xor R11 R11, Iretq]]"

definition syscall_instruction :: "word64 \<Rightarrow> word64 \<Rightarrow> word64 \<Rightarrow> (cpu \<Rightarrow> cpu) \<Rightarrow> instr list" where
  "syscall_instruction sp ksp ra inner = syscall_entry sp ksp ra inner @ enter_usermode"

subsection \<open>Access to the frame\<close>

text \<open>\<open>InterruptStack::init\<close> with the selectors of the user segments, which the descriptor table
  provides (absent before its initialisation).\<close>

definition frame_init :: "word64 option \<Rightarrow> word64 option \<Rightarrow> interrupt_stack \<Rightarrow> interrupt_stack run" where
  "frame_init user_code user_data f =
     and_then (or_panic user_code ''failed to get user code segment sector'') (\<lambda>c.
     and_then (or_panic user_data ''failed to get user data segment sector'') (\<lambda>d.
       Inr (f\<lparr>iret := (iret f)\<lparr>ir_rflags := 0x200, ir_cs := c, ir_ss := d\<rparr>\<rparr>)))"

definition set_stack_pointer :: "word64 \<Rightarrow> interrupt_stack \<Rightarrow> interrupt_stack" where
  "set_stack_pointer v f = f\<lparr>iret := (iret f)\<lparr>ir_rsp := v\<rparr>\<rparr>"

definition stack_pointer :: "interrupt_stack \<Rightarrow> word64" where
  "stack_pointer f = ir_rsp (iret f)"

definition set_instr_pointer :: "word64 \<Rightarrow> interrupt_stack \<Rightarrow> interrupt_stack" where
  "set_instr_pointer v f = f\<lparr>iret := (iret f)\<lparr>ir_rip := v\<rparr>\<rparr>"

definition set_syscall_ret_reg :: "word64 \<Rightarrow> interrupt_stack \<Rightarrow> word64 \<times> interrupt_stack" where
  "set_syscall_ret_reg v f = (v, f\<lparr>scratch := (scratch f)\<lparr>sr_rax := v\<rparr>\<rparr>)"

text \<open>\<open>__inner_syscall_instruction\<close> on the frame and the flag \<open>inside_syscall\<close> of the processor's block: every
  system call succeeds with 0.\<close>

definition inner_syscall_instruction :: "interrupt_stack \<times> bool \<Rightarrow> interrupt_stack \<times> bool" where
  "inner_syscall_instruction st =
     (let (f, _) = st;
          inside = True;
          result = Inr 0;
          inside = False
      in (snd (set_syscall_ret_reg (mux result) f), inside))"

subsection \<open>Frames and registers\<close>

fun frame_regs :: "interrupt_stack \<Rightarrow> word64 \<Rightarrow> reg \<Rightarrow> word64" where
  "frame_regs f sp RAX = sr_rax (scratch f)"
| "frame_regs f sp RCX = sr_rcx (scratch f)"
| "frame_regs f sp RDX = sr_rdx (scratch f)"
| "frame_regs f sp RBX = pr_rbx (preserved f)"
| "frame_regs f sp RSP = sp"
| "frame_regs f sp RBP = pr_rbp (preserved f)"
| "frame_regs f sp RSI = sr_rsi (scratch f)"
| "frame_regs f sp RDI = sr_rdi (scratch f)"
| "frame_regs f sp R8 = sr_r8 (scratch f)"
| "frame_regs f sp R9 = sr_r9 (scratch f)"
| "frame_regs f sp R10 = sr_r10 (scratch f)"
| "frame_regs f sp R11 = sr_r11 (scratch f)"
| "frame_regs f sp R12 = pr_r12 (preserved f)"
| "frame_regs f sp R13 = pr_r13 (preserved f)"
| "frame_regs f sp R14 = pr_r14 (preserved f)"
| "frame_regs f sp R15 = pr_r15 (preserved f)"

text \<open>The frame that describes a processor state, and the states a frame describes.\<close>

definition frame_of :: "cpu \<Rightarrow> interrupt_stack" where
  "frame_of c =
     \<lparr>preserved = \<lparr>pr_r15 = regs c R15, pr_r14 = regs c R14, pr_r13 = regs c R13,
        pr_r12 = regs c R12, pr_rbp = regs c RBP, pr_rbx = regs c RBX\<rparr>,
      scratch = \<lparr>sr_r11 = regs c R11, sr_r10 = regs c R10, sr_r9 = regs c R9, sr_r8 = regs c R8,
        sr_rsi = regs c RSI, sr_rdi = regs c RDI, sr_rdx = regs c RDX, sr_rcx = regs c RCX, sr_rax = regs c RAX\<rparr>,
      iret = \<lparr>ir_rip = c_rip c, ir_cs = c_cs c, ir_rflags = c_rflags c, ir_rsp = regs c RSP, ir_ss = c_ss c\<rparr>\<rparr>"

definition same_point :: "cpu \<Rightarrow> cpu \<Rightarrow> bool" where
  "same_point c c' \<longleftrightarrow> regs c' = regs c \<and> c_rip c' = c_rip c \<and> c_cs c' = c_cs c \<and> c_rflags c' = c_rflags c \<and> c_ss c' = c_ss c"

lemma frame_of_point: "frame_of c = frame_of c' \<Longrightarrow> same_point c c'"
proof -
  assume a: "frame_of c = frame_of c'"
  have "regs c r = regs c' r" for r using a by (cases r) (simp_all add: frame_of_def)
  then show ?thesis using a by (auto simp: same_point_def frame_of_def)
qed

lemmas step_simps = push_def pop_def set_reg_def push_scratch_def pop_scratch_def push_preserved_def pop_preserved_def
  swapgs_iff_ring3_fast_def swapgs_iff_ring3_fast_errorcode_def exec_all_append

lemma restore_frame:
  "exec_all (pop_preserved @ pop_scratch) c = c\<lparr>regs := frame_regs (read_frame (mem c) (regs c RSP)) (120 + regs c RSP)\<rparr>"
proof (rule cpu.equality)
  show "regs (exec_all (pop_preserved @ pop_scratch) c)
      = regs (c\<lparr>regs := frame_regs (read_frame (mem c) (regs c RSP)) (120 + regs c RSP)\<rparr>)"
  proof
    fix r show "regs (exec_all (pop_preserved @ pop_scratch) c) r
        = regs (c\<lparr>regs := frame_regs (read_frame (mem c) (regs c RSP)) (120 + regs c RSP)\<rparr>) r"
      by (cases r) (simp_all add: step_simps read_frame_def)
  qed
qed (simp_all add: step_simps)

text \<open>What the entry code has built when it calls the handler: the registers of the interrupted state
  below the words the processor pushed.\<close>

definition save_all :: "instr list" where
  "save_all = push_scratch @ push_preserved"

lemma save_all_frame:
  assumes "regs c RSP = 112 + b" and "load64 (mem c) (112 + b) = ax"
  shows "regs (exec_all save_all c) = (regs c)(RSP := b)"
    and "read_frame (mem (exec_all save_all c)) b =
      \<lparr>preserved = preserved (frame_of c), scratch = (scratch (frame_of c))\<lparr>sr_rax := ax\<rparr>,
       iret = iret (read_frame (mem c) b)\<rparr>"
  using assms by (simp_all add: save_all_def step_simps read_frame_def frame_of_def fun_eq_iff)

lemma save_all_rest [simp]:
  "c_rip (exec_all save_all c) = c_rip c" "c_cs (exec_all save_all c) = c_cs c" "gs_base (exec_all save_all c) = gs_base c"
  "kernel_gs_base (exec_all save_all c) = kernel_gs_base c" "star (exec_all save_all c) = star c"
  "gdt_base (exec_all save_all c) = gdt_base c"
  by (simp_all add: save_all_def step_simps)

subsection \<open>Handlers\<close>

text \<open>What the Rust code of a handler promises to the assembly around it (the System V calling
  convention, and that it leaves the segment bases alone): called with the return address on the
  stack, it returns with the stack pointer behind it and the callee-saved registers unchanged.  The
  second promise is that it does not write to the \<open>n\<close> bytes of the stack above the return address.\<close>

definition sysv_call :: "(cpu \<Rightarrow> cpu) \<Rightarrow> bool" where
  "sysv_call f \<longleftrightarrow> (\<forall>c. regs (f c) RSP = 8 + regs c RSP \<and> regs (f c) RBX = regs c RBX \<and> regs (f c) RBP = regs c RBP
     \<and> regs (f c) R12 = regs c R12 \<and> regs (f c) R13 = regs c R13 \<and> regs (f c) R14 = regs c R14 \<and> regs (f c) R15 = regs c R15
     \<and> gs_base (f c) = gs_base c \<and> kernel_gs_base (f c) = kernel_gs_base c \<and> star (f c) = star c)"

definition agree :: "word64 \<Rightarrow> word64 \<Rightarrow> byte_mem \<Rightarrow> byte_mem \<Rightarrow> bool" where
  "agree a n m m' \<longleftrightarrow> (\<forall>x. x - a < n \<longrightarrow> m' x = m x)"

definition keeps_stack :: "word64 \<Rightarrow> (cpu \<Rightarrow> cpu) \<Rightarrow> bool" where
  "keeps_stack n f \<longleftrightarrow> (\<forall>c. agree (8 + regs c RSP) n (mem c) (mem (f c)))"

lemma load64_agree:
  assumes "agree a n m m'" and "8 \<le> n" and "k \<le> n - 8"
  shows "load64 m' (k + a) = load64 m (k + a)"
proof -
  have "m' (k + a + i) = m (k + a + i)" if "i < 8" for i
  proof -
    have "unat k + 8 \<le> unat n"
      using assms(2,3) by (simp add: word_le_nat_alt unat_sub)
    moreover have "unat i < 8" using that by (simp add: word_less_nat_alt)
    moreover have "unat n < 18446744073709551616" using unsigned_less [of n, where ?'a = nat] by simp
    ultimately have "unat (k + i) < unat n" by (simp add: unat_word_ariths)
    then have "k + i < n" by (simp add: word_less_nat_alt)
    moreover have "k + a + i - a = k + i" by simp
    ultimately show ?thesis using assms(1) unfolding agree_def by metis
  qed
  from this [of 0] this [of 1] this [of 2] this [of 3] this [of 4] this [of 5] this [of 6] this [of 7]
  show ?thesis by (simp add: load64_def)
qed

lemma sysv_callD:
  assumes "sysv_call f"
  shows "regs (f c) RSP = 8 + regs c RSP" "regs (f c) RBX = regs c RBX" "regs (f c) RBP = regs c RBP"
    "regs (f c) R12 = regs c R12" "regs (f c) R13 = regs c R13" "regs (f c) R14 = regs c R14" "regs (f c) R15 = regs c R15"
    "gs_base (f c) = gs_base c" "kernel_gs_base (f c) = kernel_gs_base c" "star (f c) = star c"
  using assms by (auto simp: sysv_call_def)

lemma pop_scratch_regs:
  "regs (exec_all pop_scratch c) =
     (regs c)(R11 := load64 (mem c) (regs c RSP), R10 := load64 (mem c) (8 + regs c RSP), R9 := load64 (mem c) (16 + regs c RSP),
       R8 := load64 (mem c) (24 + regs c RSP), RSI := load64 (mem c) (32 + regs c RSP), RDI := load64 (mem c) (40 + regs c RSP),
       RDX := load64 (mem c) (48 + regs c RSP), RCX := load64 (mem c) (56 + regs c RSP), RAX := load64 (mem c) (64 + regs c RSP),
       RSP := 72 + regs c RSP)"
  "mem (exec_all pop_scratch c) = mem c" "gs_base (exec_all pop_scratch c) = gs_base c"
  "kernel_gs_base (exec_all pop_scratch c) = kernel_gs_base c"
  by (simp_all add: step_simps fun_eq_iff)

text \<open>The frame of the processor, seen from the handler's side.\<close>

lemma taken:
  "regs (take_interrupt sp h kcs c) = (regs c)(RSP := sp - 40)"
  "load64 (mem (take_interrupt sp h kcs c)) (sp - 40) = c_rip c"
  "load64 (mem (take_interrupt sp h kcs c)) (sp - 32) = c_cs c"
  "load64 (mem (take_interrupt sp h kcs c)) (sp - 24) = c_rflags c"
  "load64 (mem (take_interrupt sp h kcs c)) (sp - 16) = regs c RSP"
  "load64 (mem (take_interrupt sp h kcs c)) (sp - 8) = c_ss c"
  "gs_base (take_interrupt sp h kcs c) = gs_base c" "kernel_gs_base (take_interrupt sp h kcs c) = kernel_gs_base c"
  by (simp_all add: take_interrupt_def step_simps Let_def fun_eq_iff)

definition from_user :: "cpu \<Rightarrow> bool" where
  "from_user c \<longleftrightarrow> c_cs c AND 3 \<noteq> 0"

lemma swapgs_fast:
  assumes "load64 (mem c) (8 + regs c RSP) = s"
  shows "exec_all swapgs_iff_ring3_fast c =
     (if s AND 3 = 0 then c\<lparr>zf := True\<rparr> else c\<lparr>zf := False, gs_base := kernel_gs_base c, kernel_gs_base := gs_base c\<rparr>)"
  using assms by (simp add: swapgs_iff_ring3_fast_def)

lemma push_rax_taken:
  assumes "regs c1 = (regs c)(RSP := sp - 40)" and "mem c1 = mem (take_interrupt sp h kcs c)"
  shows "regs (exec_all save_all (exec (Push RAX) c1)) = (regs c)(RSP := sp - 160)"
    and "read_frame (mem (exec_all save_all (exec (Push RAX) c1))) (sp - 160) = frame_of c"
proof -
  let ?c = "exec (Push RAX) c1"
  have r: "regs ?c = (regs c)(RSP := 112 + (sp - 160))" by (simp add: step_simps assms fun_eq_iff)
  have ax: "load64 (mem ?c) (112 + (sp - 160)) = regs c RAX" by (simp add: step_simps assms)
  have i: "iret (read_frame (mem ?c) (sp - 160)) = iret (frame_of c)"
    by (simp add: read_frame_def frame_of_def step_simps assms taken)
  show "regs (exec_all save_all ?c) = (regs c)(RSP := sp - 160)"
    using save_all_frame(1) [of ?c "sp - 160" "regs c RAX"] r ax by (simp add: fun_eq_iff)
  have "preserved (frame_of ?c) = preserved (frame_of c)" "(scratch (frame_of ?c))\<lparr>sr_rax := regs c RAX\<rparr> = scratch (frame_of c)"
    by (simp_all add: frame_of_def step_simps assms)
  then show "read_frame (mem (exec_all save_all ?c)) (sp - 160) = frame_of c"
    using save_all_frame(2) [of ?c "sp - 160" "regs c RAX"] r ax i by simp
qed

lemma leave_frame:
  assumes "regs s RSP = a" and "f = read_frame (mem s) a"
  defines "c' \<equiv> exec_all (pop_preserved @ pop_scratch @ swapgs_iff_ring3_fast @ [Iretq]) s"
  shows "frame_of c' = f"
    and "gs_base c' = (if ir_cs (iret f) AND 3 = 0 then gs_base s else kernel_gs_base s)"
    and "kernel_gs_base c' = (if ir_cs (iret f) AND 3 = 0 then kernel_gs_base s else gs_base s)"
proof -
  define s1 where "s1 = s\<lparr>regs := frame_regs f (120 + a)\<rparr>"
  have run: "c' = exec_all (swapgs_iff_ring3_fast @ [Iretq]) s1"
    using restore_frame [of s] assms(1,2) by (simp add: c'_def s1_def exec_all_append)
  have sg: "exec_all swapgs_iff_ring3_fast s1 = (if ir_cs (iret f) AND 3 = 0 then s1\<lparr>zf := True\<rparr>
      else s1\<lparr>zf := False, gs_base := kernel_gs_base s1, kernel_gs_base := gs_base s1\<rparr>)"
    by (rule swapgs_fast) (simp add: s1_def assms(2) read_frame_def)
  show "frame_of c' = f"
    unfolding run exec_all_append sg by (simp add: frame_of_def s1_def assms(2) read_frame_def Let_def)
  show "gs_base c' = (if ir_cs (iret f) AND 3 = 0 then gs_base s else kernel_gs_base s)"
    "kernel_gs_base c' = (if ir_cs (iret f) AND 3 = 0 then kernel_gs_base s else gs_base s)"
    unfolding run exec_all_append sg by (simp_all add: s1_def Let_def)
qed

lemma interrupt_error_frame:
  assumes "sysv_call inner"
  shows "\<exists>c0. regs c0 RDI = sp - 160 \<and> regs c0 RSI = code \<and> read_frame (mem c0) (sp - 160) = frame_of c
     \<and> gs_base c0 = (if from_user c then kernel_gs_base c else gs_base c)
     \<and> (let f = read_frame (mem (inner c0)) (sp - 160);
            c' = exec_all (interrupt_error ra inner) (take_exception sp h kcs code c)
        in frame_of c' = f
           \<and> ((ir_cs (iret f) AND 3 = 0) = (c_cs c AND 3 = 0) \<longrightarrow> gs_base c' = gs_base c \<and> kernel_gs_base c' = kernel_gs_base c))"
proof -
  let ?t = "take_interrupt sp h kcs c"
  define c1 where "c1 = exec_all swapgs_iff_ring3_fast_errorcode (exec Cld (take_exception sp h kcs code c))"
  have c1: "regs c1 = (regs c)(RSP := 112 + (sp - 160))" "mem c1 = store64 (mem ?t) (sp - 48) code"
    "gs_base c1 = (if from_user c then kernel_gs_base c else gs_base c)"
    "kernel_gs_base c1 = (if from_user c then gs_base c else kernel_gs_base c)"
    unfolding c1_def swapgs_iff_ring3_fast_errorcode_def
    by (simp_all add: take_exception_def push_def set_reg_def taken from_user_def fun_eq_iff)
  have ax: "load64 (mem c1) (112 + (sp - 160)) = code" by (simp add: c1)
  define s where "s = exec_all save_all c1"
  have "frame_of c1 = (frame_of c)\<lparr>iret := iret (frame_of c1)\<rparr>" by (simp add: frame_of_def c1)
  moreover have "iret (read_frame (mem c1) (sp - 160)) = iret (frame_of c)"
    by (simp add: read_frame_def frame_of_def c1 taken)
  moreover note save_all_frame [of c1 "sp - 160" code, OF _ ax, folded s_def]
  ultimately have S: "regs s = (regs c)(RSP := sp - 160)"
    "read_frame (mem s) (sp - 160) = (frame_of c)\<lparr>scratch := (scratch (frame_of c))\<lparr>sr_rax := code\<rparr>\<rparr>"
    using c1(1) by (simp_all add: fun_eq_iff frame_of_def)
  have g: "gs_base s = gs_base c1" "kernel_gs_base s = kernel_gs_base c1" by (simp_all add: s_def)
  have code: "load64 (mem s) (sp - 48) = code" using arg_cong [OF S(2), of "\<lambda>f. sr_rax (scratch f)"] by (simp add: read_frame_def)
  define c0 where "c0 = push ra (set_reg RDI (sp - 160) (exec (Store RSP 112 RAX) (exec (Load RSI RSP 112) s)))"
  have c0: "regs c0 RDI = sp - 160" "regs c0 RSI = code" "regs c0 RSP = sp - 168" "gs_base c0 = gs_base c1" "kernel_gs_base c0 = kernel_gs_base c1"
    by (simp_all add: c0_def step_simps S(1) g code)
  have fr: "read_frame (mem c0) (sp - 160) = frame_of c"
    using S(2) by (simp add: c0_def step_simps S(1) read_frame_def frame_of_def)
  have run: "exec_all (interrupt_error ra inner) (take_exception sp h kcs code c)
     = exec_all (pop_preserved @ pop_scratch @ swapgs_iff_ring3_fast @ [Iretq]) (inner c0)"
    by (simp add: interrupt_error_def exec_all_append c0_def s_def c1_def save_all_def set_reg_def
        S(1) [unfolded s_def save_all_def exec_all_append c1_def exec.simps])
  have sp: "regs (inner c0) RSP = sp - 160" using sysv_callD(1) [OF assms, of c0] c0(3) by simp
  note L = leave_frame [OF sp refl]
  show ?thesis
    by (intro exI [of _ c0] conjI) (simp_all add: c0 fr c1 run L sysv_callD [OF assms] Let_def from_user_def)
qed

lemma load64_byte:
  assumes "8 \<le> a - b"
  shows "load64 (m(a := x)) b = load64 m b"
proof -
  have "b + i \<noteq> a" if "i < 8" for i :: word64
  proof
    assume "b + i = a"
    then have "a - b = i" by auto
    with assms that show False by simp
  qed
  from this [of 0] this [of 1] this [of 2] this [of 3] this [of 4] this [of 5] this [of 6] this [of 7]
  show ?thesis by (simp add: load64_def)
qed

text \<open>The code that finds out by the descriptor table's address which of the two bases is the kernel's.\<close>

lemma gs_value: "push_bit 32 (drop_bit 32 v) OR (v AND mask 32) = (v :: word64)"
  by (rule bit_word_eqI) (auto simp: bit_simps)

lemma gs_base_msr: "(0xC0000101 :: word64) AND mask 32 = 0xC0000101"
  by (simp flip: take_bit_eq_mask)

lemma paranoid_entry:
  fixes s :: cpu
  assumes "regs s RSP = b" and "gdt_base s = P + off"
  defines "t \<equiv> exec_all (conditional_swapgs_paranoid off) s"
  shows "regs t RSP = b" and "read_frame (mem t) b = read_frame (mem s) b"
    and "(regs t RBX AND mask 8 = 0) = (gs_base s \<noteq> P)"
    and "gs_base t = (if gs_base s = P then gs_base s else kernel_gs_base s)"
    and "kernel_gs_base t = (if gs_base s = P then kernel_gs_base s else gs_base s)"
proof -
  have bl: "(w AND NOT (mask 8) OR 1) AND mask 8 \<noteq> (0 :: word64)" "(w AND NOT (mask 8)) AND mask 8 = (0 :: word64)" for w
  proof -
    have "bit ((w AND NOT (mask 8) OR 1) AND mask 8) 0" by (simp add: bit_simps)
    then show "(w AND NOT (mask 8) OR 1) AND mask 8 \<noteq> (0 :: word64)" by auto
    show "(w AND NOT (mask 8)) AND mask 8 = (0 :: word64)" by (rule bit_word_eqI) (auto simp: bit_simps)
  qed
  show "regs t RSP = b" "(regs t RBX AND mask 8 = 0) = (gs_base s \<noteq> P)"
    "gs_base t = (if gs_base s = P then gs_base s else kernel_gs_base s)"
    "kernel_gs_base t = (if gs_base s = P then kernel_gs_base s else gs_base s)"
    using assms(1,2) bl
    by (simp_all add: t_def conditional_swapgs_paranoid_def set_reg_def Let_def read_msr_def gs_base_msr gs_value)
  show "read_frame (mem t) b = read_frame (mem s) b"
    using assms(1,2)
    by (simp add: t_def conditional_swapgs_paranoid_def set_reg_def Let_def read_frame_def load64_byte)
qed

subsection \<open>The way back from a system call\<close>

definition canonical64 :: "word64 \<Rightarrow> bool" where
  "canonical64 v \<longleftrightarrow> drop_bit 47 v = 0 \<or> drop_bit 47 v = mask 17"

definition sext48 :: "word64 \<Rightarrow> word64" where
  "sext48 v = signed_drop_bit 16 (push_bit 16 v)"

lemma bit_sext48: "n < 64 \<Longrightarrow> bit (sext48 v) n \<longleftrightarrow> bit v (min n 47)"
  by (auto simp: sext48_def bit_simps min_def)

lemma sext48_canonical: "canonical64 (sext48 v)"
proof (cases "bit v 47")
  case True
  have "drop_bit 47 (sext48 v) = mask 17"
  proof (rule bit_word_eqI)
    fix n assume "n < LENGTH(64)"
    then show "bit (drop_bit 47 (sext48 v)) n = bit (mask 17 :: word64) n"
      using True bit_imp_le_length [of "sext48 v" "47 + n"]
      by (cases "n < 17") (auto simp: bit_simps bit_sext48)
  qed
  then show ?thesis by (simp add: canonical64_def)
next
  case False
  have "drop_bit 47 (sext48 v) = 0"
  proof (rule bit_word_eqI)
    fix n assume "n < LENGTH(64)"
    then show "bit (drop_bit 47 (sext48 v)) n = bit (0 :: word64) n"
      using False bit_imp_le_length [of "sext48 v" "47 + n"]
      by (cases "n < 17") (auto simp: bit_simps bit_sext48)
  qed
  then show ?thesis by (simp add: canonical64_def)
qed

lemma sext48_id:
  assumes "canonical64 v"
  shows "sext48 v = v"
proof (rule bit_word_eqI)
  fix n assume "n < LENGTH(64)"
  then have n: "n < 64" by simp
  have b: "bit v (47 + k) = bit (drop_bit 47 v) k" for k by (simp add: bit_simps)
  have "bit v n = bit v 47" if "47 \<le> n"
  proof -
    have n': "bit v n = bit (drop_bit 47 v) (n - 47)" and z: "bit v 47 = bit (drop_bit 47 v) 0"
      using b [of "n - 47"] b [of 0] that by (simp_all only: le_add_diff_inverse add_0_right)
    show ?thesis using assms n that unfolding canonical64_def n' z by (auto simp: bit_mask_iff)
  qed
  then show "bit (sext48 v) n = bit v n" using n by (simp add: bit_sext48 min_def)
qed

lemma trap_flag_byte: "(m (1 + a) AND 1 = 0) \<longleftrightarrow> \<not> bit (load64 m a) 8"
proof -
  have "bit (load64 m a) 8 = bit (m (1 + a)) 0"
    using bit_imp_le_length [of "m a" 8] by (auto simp: load64_def bit_simps add.commute)
  moreover have "(m (1 + a) AND 1 = 0) \<longleftrightarrow> \<not> bit (m (1 + a)) 0" by (simp add: and_one_eq bit_0 even_iff_mod_2_eq_zero)
  ultimately show ?thesis by simp
qed

lemma frame_regs_any: "NO_MATCH 0 a \<Longrightarrow> frame_regs f a = (frame_regs f 0)(RSP := a)"
proof
  fix x show "frame_regs f a x = ((frame_regs f 0)(RSP := a)) x" by (cases x) simp_all
qed

lemma enter_usermode_result:
  assumes "regs s RSP = a" and "f = read_frame (mem s) a"
  defines "c' \<equiv> exec_all enter_usermode s"
  shows "gs_base c' = kernel_gs_base s" and "kernel_gs_base c' = gs_base s"
    and "\<not> bit (ir_rflags (iret f)) 8 \<Longrightarrow>
       regs c' = (frame_regs f 0)(RSP := ir_rsp (iret f), RCX := sext48 (ir_rip (iret f)), R11 := ir_rflags (iret f))
       \<and> c_rip c' = sext48 (ir_rip (iret f)) \<and> c_rflags c' = (ir_rflags (iret f) AND 0x3C7FD7) OR 2
       \<and> c_cs c' = (drop_bit 48 (star s) + 16) OR 3 \<and> c_ss c' = (drop_bit 48 (star s) + 8) OR 3"
    and "bit (ir_rflags (iret f)) 8 \<Longrightarrow>
       frame_of c' = f\<lparr>scratch := (scratch f)\<lparr>sr_rcx := 0, sr_r11 := 0\<rparr>\<rparr>"
proof -
  define s1 where "s1 = s\<lparr>regs := frame_regs f (120 + a)\<rparr>"
  have run: "c' = exec_all (drop 15 enter_usermode) s1"
    using restore_frame [of s] assms(1,2) by (simp add: c'_def s1_def enter_usermode_def exec_all_append pop_preserved_def pop_scratch_def)
  have tf: "(mem s (137 + a) AND 1 = 0) \<longleftrightarrow> \<not> bit (ir_rflags (iret f)) 8"
    using trap_flag_byte [of "mem s" "136 + a"] by (simp add: assms(2) read_frame_def)
  have d: "drop 15 enter_usermode = [Swapgs, TestByte RSP 17 1,
       Jnz [Pop RCX, Shl RCX 16, Sar RCX 16, AddImm RSP 8, Pop R11, Pop RSP, Sysretq] [Xor RCX RCX, Xor R11 R11, Iretq]]"
    by (simp add: enter_usermode_def pop_preserved_def pop_scratch_def)
  show "gs_base c' = kernel_gs_base s" "kernel_gs_base c' = gs_base s"
    unfolding run d by (simp_all add: s1_def step_simps Let_def)
  { assume "\<not> bit (ir_rflags (iret f)) 8"
    then show "regs c' = (frame_regs f 0)(RSP := ir_rsp (iret f), RCX := sext48 (ir_rip (iret f)), R11 := ir_rflags (iret f))
       \<and> c_rip c' = sext48 (ir_rip (iret f)) \<and> c_rflags c' = (ir_rflags (iret f) AND 0x3C7FD7) OR 2
       \<and> c_cs c' = (drop_bit 48 (star s) + 16) OR 3 \<and> c_ss c' = (drop_bit 48 (star s) + 8) OR 3"
      unfolding run d using tf
      by (simp add: s1_def step_simps sext48_def frame_regs_any fun_upd_twist) (simp add: assms(2) read_frame_def frame_regs_any) }
  { assume "bit (ir_rflags (iret f)) 8"
    then show "frame_of c' = f\<lparr>scratch := (scratch f)\<lparr>sr_rcx := 0, sr_r11 := 0\<rparr>\<rparr>"
      unfolding run d using tf
      by (simp add: s1_def step_simps Let_def frame_of_def) (simp add: assms(2) read_frame_def) }
qed

subsection \<open>System calls\<close>

text \<open>The compiled function does to the frame it is given what the model does.\<close>

definition handles_syscall :: "(cpu \<Rightarrow> cpu) \<Rightarrow> bool" where
  "handles_syscall inner \<longleftrightarrow> (\<forall>c b. read_frame (mem (inner c)) (regs c RDI) =
     fst (inner_syscall_instruction (read_frame (mem c) (regs c RDI), b)))"

lemma syscall_entry_frame:
  assumes K: "K = load64 (mem c) (ksp + kernel_gs_base c)"
    and "apart (sp + kernel_gs_base c) (ksp + kernel_gs_base c)" and "apart (K - 8) (sp + kernel_gs_base c)"
    and s: "s = exec_all ([Swapgs, StoreGs sp RSP, LoadGs RSP ksp, PushImm ss_sel, PushGs sp, Push R11, PushImm cs_sel, Push RCX, Push RAX]
      @ save_all @ [Mov RDI RSP]) (syscall_insn lstar c)"
  shows "regs s = (regs c)(RSP := K - 160, RDI := K - 160, RCX := c_rip c, R11 := c_rflags c)"
    and "read_frame (mem s) (K - 160) =
      (frame_of c)\<lparr>scratch := (scratch (frame_of c))\<lparr>sr_rcx := c_rip c, sr_r11 := c_rflags c\<rparr>,
         iret := (iret (frame_of c))\<lparr>ir_cs := cs_sel, ir_ss := ss_sel\<rparr>\<rparr>"
    and "gs_base s = kernel_gs_base c" and "kernel_gs_base s = gs_base c" and "star s = star c"
proof -
  define s1 where "s1 = exec_all [Swapgs, StoreGs sp RSP, LoadGs RSP ksp, PushImm ss_sel, PushGs sp, Push R11, PushImm cs_sel, Push RCX, Push RAX]
     (syscall_insn lstar c)"
  have s: "s = exec (Mov RDI RSP) (exec_all save_all s1)" by (simp add: s s1_def exec_all_append)
  have s1: "regs s1 = (regs c)(RSP := 112 + (K - 160), RCX := c_rip c, R11 := c_rflags c)"
    and ax: "load64 (mem s1) (112 + (K - 160)) = regs c RAX"
    and i: "iret (read_frame (mem s1) (K - 160)) = (iret (frame_of c))\<lparr>ir_cs := cs_sel, ir_ss := ss_sel\<rparr>"
    and g: "gs_base s1 = kernel_gs_base c" "kernel_gs_base s1 = gs_base c" "star s1 = star c"
    unfolding s1_def using assms(2,3)
    by (simp_all add: syscall_insn_def step_simps K [symmetric] read_frame_def frame_of_def fun_eq_iff)
  note F = save_all_frame [of s1 "K - 160" "regs c RAX"]
  show "regs s = (regs c)(RSP := K - 160, RDI := K - 160, RCX := c_rip c, R11 := c_rflags c)"
    using F(1) s1 ax by (simp add: s step_simps fun_eq_iff)
  show "read_frame (mem s) (K - 160) =
      (frame_of c)\<lparr>scratch := (scratch (frame_of c))\<lparr>sr_rcx := c_rip c, sr_r11 := c_rflags c\<rparr>,
         iret := (iret (frame_of c))\<lparr>ir_cs := cs_sel, ir_ss := ss_sel\<rparr>\<rparr>"
    using F(2) s1 ax i by (simp add: s step_simps) (simp add: frame_of_def s1)
  show "gs_base s = kernel_gs_base c" "kernel_gs_base s = gs_base c" "star s = star c"
    using g by (simp_all add: s step_simps)
qed

lemma syscall_result:
  assumes "apart (sp + kernel_gs_base c) (ksp + kernel_gs_base c)"
    and "apart (load64 (mem c) (ksp + kernel_gs_base c) - 8) (sp + kernel_gs_base c)"
    and inner: "sysv_call inner" "handles_syscall inner"
    and tf: "\<not> bit (c_rflags c) 8"
    and c': "c' = exec_all (syscall_instruction sp ksp ra inner) (syscall_insn lstar c)"
  shows "regs c' = (regs c)(RAX := 0, RCX := sext48 (c_rip c), R11 := c_rflags c)"
    and "c_rip c' = sext48 (c_rip c)" and "c_rflags c' = (c_rflags c AND 0x3C7FD7) OR 2"
    and "gs_base c' = gs_base c" and "kernel_gs_base c' = kernel_gs_base c"
    and "c_cs c' = (drop_bit 48 (star c) + 16) OR 3" and "c_ss c' = (drop_bit 48 (star c) + 8) OR 3"
proof -
  define K where "K = load64 (mem c) (ksp + kernel_gs_base c)"
  define s where "s = exec_all ([Swapgs, StoreGs sp RSP, LoadGs RSP ksp, PushImm ss_sel, PushGs sp, Push R11, PushImm cs_sel, Push RCX, Push RAX]
      @ save_all @ [Mov RDI RSP]) (syscall_insn lstar c)"
  note S = syscall_entry_frame [OF K_def assms(1) assms(2) [folded K_def] s_def]
  define t where "t = inner (push ra s)"
  define f where "f = read_frame (mem t) (K - 160)"
  have run: "c' = exec_all enter_usermode t"
    by (simp add: c' t_def s_def syscall_instruction_def syscall_entry_def save_all_def exec_all_append)
  have sp: "regs (push ra s) RDI = K - 160" "regs (push ra s) RSP = K - 168"
    "read_frame (mem (push ra s)) (K - 160) = read_frame (mem s) (K - 160)"
    "gs_base (push ra s) = kernel_gs_base c" "kernel_gs_base (push ra s) = gs_base c" "star (push ra s) = star c"
    using S by (simp_all add: step_simps read_frame_def)
  have t: "regs t RSP = K - 160" "gs_base t = kernel_gs_base c" "kernel_gs_base t = gs_base c" "star t = star c"
    unfolding t_def by (simp_all add: sysv_callD [OF inner(1)] sp)
  have f: "f = (read_frame (mem s) (K - 160))\<lparr>scratch := (scratch (read_frame (mem s) (K - 160)))\<lparr>sr_rax := 0\<rparr>\<rparr>"
    unfolding f_def t_def using inner(2) [unfolded handles_syscall_def, rule_format, of "push ra s" False] sp
    by (simp add: inner_syscall_instruction_def set_syscall_ret_reg_def)
  have i: "ir_rip (iret f) = c_rip c" "ir_rflags (iret f) = c_rflags c" "ir_rsp (iret f) = regs c RSP"
    by (simp_all add: f S frame_of_def)
  have r: "(frame_regs f 0)(RSP := regs c RSP, RCX := a, R11 := b) = (regs c)(RAX := 0, RCX := a, R11 := b)" for a b
  proof
    fix x show "((frame_regs f 0)(RSP := regs c RSP, RCX := a, R11 := b)) x = ((regs c)(RAX := 0, RCX := a, R11 := b)) x"
      by (cases x) (simp_all add: f S frame_of_def)
  qed
  note E = enter_usermode_result [OF t(1) f_def, folded run]
  show "regs c' = (regs c)(RAX := 0, RCX := sext48 (c_rip c), R11 := c_rflags c)"
    "c_rip c' = sext48 (c_rip c)" "c_rflags c' = (c_rflags c AND 0x3C7FD7) OR 2"
    "c_cs c' = (drop_bit 48 (star c) + 16) OR 3" "c_ss c' = (drop_bit 48 (star c) + 8) OR 3"
    using E(3) tf by (simp_all add: i r t)
  show "gs_base c' = gs_base c" "kernel_gs_base c' = kernel_gs_base c" using E(1,2) by (simp_all add: t)
qed

subsection \<open>A processor and handlers to try the theorems on\<close>

definition return_only :: "cpu \<Rightarrow> cpu" where
  "return_only c = set_reg RSP (8 + regs c RSP) c"

definition store_zero :: "cpu \<Rightarrow> cpu" where
  "store_zero c = set_reg RSP (8 + regs c RSP) (c\<lparr>mem := store64 (mem c) (112 + regs c RDI) 0\<rparr>)"

definition user_cpu :: cpu where
  "user_cpu = \<lparr>regs = (\<lambda>_. 7)(RSP := 0x7FF000), c_rip = 0x400000, c_cs = 0x2B, c_rflags = 0x202, c_ss = 0x23, zf = False,
     gs_base = 0, kernel_gs_base = 0x1000, fs_base = 0, gdt_base = 0x1100, gdt_limit = 0, star = 0x1B000800000000, fmask = 0,
     mem = store64 (\<lambda>_. 0) 0x1040 0x9000\<rparr>"

lemma return_only_sysv: "sysv_call return_only"
  by (simp add: sysv_call_def return_only_def set_reg_def)

lemma return_only_keeps: "keeps_stack 112 return_only"
  by (simp add: keeps_stack_def agree_def return_only_def set_reg_def)

lemma store_zero_sysv: "sysv_call store_zero"
  by (simp add: sysv_call_def store_zero_def set_reg_def)

lemma store_zero_handles: "handles_syscall store_zero"
  by (simp add: handles_syscall_def store_zero_def set_reg_def read_frame_def inner_syscall_instruction_def set_syscall_ret_reg_def)

subsection \<open>Properties\<close>

text \<open>C4. An interrupt whose handler does not look at the frame (the \<open>interrupt!\<close> macro) is invisible to the
  interrupted program: for every handler that keeps the calling convention and the stack above its return
  address, all registers, the instruction pointer, the flags, the segments and both GS bases are what they
  were when the processor took the interrupt, in user mode and in kernel mode.\<close>
theorem interrupt_transparent:
  assumes "sysv_call inner" and "keeps_stack 112 inner"
  shows "let c' = exec_all (interrupt ra inner) (take_interrupt sp h kcs c) in
     same_point c c' \<and> gs_base c' = gs_base c \<and> kernel_gs_base c' = kernel_gs_base c"
proof -
  define c1 where "c1 = exec_all swapgs_iff_ring3_fast (exec Cld (take_interrupt sp h kcs c))"
  define c0 where "c0 = push ra (exec_all push_scratch (exec (Push RAX) c1))"
  have run: "exec_all (interrupt ra inner) (take_interrupt sp h kcs c)
     = exec_all (swapgs_iff_ring3_fast @ [Iretq]) (exec_all pop_scratch (inner c0))"
    by (simp add: interrupt_def exec_all_append c0_def c1_def)
  have c1: "regs c1 = (regs c)(RSP := sp - 40)" "mem c1 = mem (take_interrupt sp h kcs c)"
    "gs_base c1 = (if from_user c then kernel_gs_base c else gs_base c)"
    "kernel_gs_base c1 = (if from_user c then gs_base c else kernel_gs_base c)"
    unfolding c1_def by (simp_all add: swapgs_fast taken from_user_def)
  have c0: "regs c0 = (regs c)(RSP := sp - 120)" "gs_base c0 = gs_base c1" "kernel_gs_base c0 = kernel_gs_base c1"
    "load64 (mem c0) (sp - 112) = regs c R11" "load64 (mem c0) (sp - 104) = regs c R10" "load64 (mem c0) (sp - 96) = regs c R9"
    "load64 (mem c0) (sp - 88) = regs c R8" "load64 (mem c0) (sp - 80) = regs c RSI" "load64 (mem c0) (sp - 72) = regs c RDI"
    "load64 (mem c0) (sp - 64) = regs c RDX" "load64 (mem c0) (sp - 56) = regs c RCX" "load64 (mem c0) (sp - 48) = regs c RAX"
    "load64 (mem c0) (sp - 40) = c_rip c" "load64 (mem c0) (sp - 32) = c_cs c" "load64 (mem c0) (sp - 24) = c_rflags c"
    "load64 (mem c0) (sp - 16) = regs c RSP" "load64 (mem c0) (sp - 8) = c_ss c"
    unfolding c0_def by (simp_all add: step_simps c1 taken fun_eq_iff)
  have ag: "agree (sp - 112) 112 (mem c0) (mem (inner c0))"
    using assms(2) [unfolded keeps_stack_def, rule_format, of c0] by (simp add: c0(1))
  have keep: "load64 (mem (inner c0)) (k + (sp - 112)) = load64 (mem c0) (k + (sp - 112))" if "k \<le> 104" for k
    by (rule load64_agree [OF ag]) (use that in simp_all)
  note kept = keep [of 0, simplified] keep [of 8, simplified] keep [of 16, simplified] keep [of 24, simplified]
    keep [of 32, simplified] keep [of 40, simplified] keep [of 48, simplified] keep [of 56, simplified] keep [of 64, simplified]
    keep [of 72, simplified] keep [of 80, simplified] keep [of 88, simplified] keep [of 96, simplified] keep [of 104, simplified]
  define c3 where "c3 = exec_all pop_scratch (inner c0)"
  have c3: "regs c3 = (regs c)(RSP := sp - 40)"
  proof
    fix x show "regs c3 x = ((regs c)(RSP := sp - 40)) x"
      unfolding c3_def pop_scratch_regs by (cases x) (simp_all add: sysv_callD [OF assms(1)] c0 kept)
  qed
  have m3: "mem c3 = mem (inner c0)" and g3: "gs_base c3 = gs_base c1" "kernel_gs_base c3 = kernel_gs_base c1"
    by (simp_all add: c3_def pop_scratch_regs sysv_callD [OF assms(1)] c0)
  show ?thesis unfolding run c3_def [symmetric]
    by (simp add: exec_all_append swapgs_fast [of c3 "c_cs c"] c3 m3 kept c0 g3 c1 same_point_def Let_def from_user_def fun_eq_iff)
qed

theorem interrupt_transparent_witness:
  "sysv_call return_only \<and> keeps_stack 112 return_only \<and> from_user user_cpu
   \<and> (let c' = exec_all (interrupt 0x100 return_only) (take_interrupt 0x9000 0x200 8 user_cpu)
      in same_point user_cpu c' \<and> gs_base c' = gs_base user_cpu \<and> kernel_gs_base c' = kernel_gs_base user_cpu)"
  using interrupt_transparent [OF return_only_sysv return_only_keeps, where c = user_cpu and ra = "0x100" and sp = "0x9000" and h = "0x200" and kcs = 8]
  by (simp add: return_only_sysv return_only_keeps from_user_def user_cpu_def)

text \<open>C23. What the handlers of \<open>interrupt\_stack!\<close> see: at the address they are given lies an
  \<open>InterruptStack\<close> with exactly the registers of the interrupted program, they run with the kernel's GS
  base, and the program continues with the registers of the frame as the handler leaves it; the GS bases
  are as before when the handler does not move the frame across the privilege levels.\<close>
theorem interrupt_stack_frame:
  assumes "sysv_call inner"
  shows "\<exists>c0. regs c0 RDI = sp - 160 \<and> read_frame (mem c0) (sp - 160) = frame_of c
     \<and> gs_base c0 = (if from_user c then kernel_gs_base c else gs_base c)
     \<and> (let f = read_frame (mem (inner c0)) (sp - 160);
            c' = exec_all (interrupt_stack_fast ra inner) (take_interrupt sp h kcs c)
        in frame_of c' = f
           \<and> ((ir_cs (iret f) AND 3 = 0) = (c_cs c AND 3 = 0) \<longrightarrow> gs_base c' = gs_base c \<and> kernel_gs_base c' = kernel_gs_base c))"
proof -
  define c1 where "c1 = exec_all swapgs_iff_ring3_fast (exec Cld (take_interrupt sp h kcs c))"
  have c1: "regs c1 = (regs c)(RSP := sp - 40)" "mem c1 = mem (take_interrupt sp h kcs c)"
    "gs_base c1 = (if from_user c then kernel_gs_base c else gs_base c)"
    "kernel_gs_base c1 = (if from_user c then gs_base c else kernel_gs_base c)"
    unfolding c1_def by (simp_all add: swapgs_fast taken from_user_def)
  define s where "s = exec_all save_all (exec (Push RAX) c1)"
  note S = push_rax_taken [OF c1(1,2), folded s_def]
  have g: "gs_base s = gs_base c1" "kernel_gs_base s = kernel_gs_base c1" by (simp_all add: s_def step_simps)
  define c0 where "c0 = push ra (set_reg RDI (sp - 160) s)"
  have c0: "regs c0 RDI = sp - 160" "regs c0 RSP = sp - 168" "read_frame (mem c0) (sp - 160) = frame_of c"
    "gs_base c0 = gs_base c1" "kernel_gs_base c0 = kernel_gs_base c1"
    using S g by (simp_all add: c0_def step_simps read_frame_def)
  have run: "exec_all (interrupt_stack_fast ra inner) (take_interrupt sp h kcs c)
     = exec_all (pop_preserved @ pop_scratch @ swapgs_iff_ring3_fast @ [Iretq]) (inner c0)"
    by (simp add: interrupt_stack_fast_def interrupt_stack_entry_def exec_all_append c0_def s_def c1_def save_all_def
        S(1) [unfolded s_def save_all_def exec_all_append c1_def exec.simps])
  have sp: "regs (inner c0) RSP = sp - 160" using sysv_callD(1) [OF assms, of c0] c0(2) by simp
  note L = leave_frame [OF sp refl]
  show ?thesis
    by (intro exI [of _ c0] conjI) (simp_all add: c0 c1 run L sysv_callD [OF assms] Let_def from_user_def)
qed

theorem interrupt_stack_frame_witness:
  "sysv_call return_only
   \<and> (\<exists>c0. regs c0 RDI = 0x9000 - 160 \<and> read_frame (mem c0) (0x9000 - 160) = frame_of user_cpu
      \<and> gs_base c0 = (if from_user user_cpu then kernel_gs_base user_cpu else gs_base user_cpu)
      \<and> (let f = read_frame (mem (return_only c0)) (0x9000 - 160);
             c' = exec_all (interrupt_stack_fast 0x100 return_only) (take_interrupt 0x9000 0x200 8 user_cpu)
         in frame_of c' = f
            \<and> ((ir_cs (iret f) AND 3 = 0) = (c_cs user_cpu AND 3 = 0) \<longrightarrow>
                gs_base c' = gs_base user_cpu \<and> kernel_gs_base c' = kernel_gs_base user_cpu)))"
  using interrupt_stack_frame [OF return_only_sysv] return_only_sysv by blast

text \<open>C24. The handlers that may interrupt the kernel before it has swapped the GS base (\<open>@paranoid\<close>) find
  out themselves which base is the kernel's: whichever of the two registers holds the address of the
  processor's control region, the handler runs with that address and both registers are restored.\<close>
theorem paranoid_gs:
  assumes "sysv_call inner" and "gdt_base c = P + off" and "gs_base c = P \<or> kernel_gs_base c = P"
  shows "\<exists>c0. regs c0 RDI = sp - 160 \<and> read_frame (mem c0) (sp - 160) = frame_of c \<and> gs_base c0 = P
     \<and> (let c' = exec_all (interrupt_stack_paranoid off ra inner) (take_interrupt sp h kcs c)
        in frame_of c' = read_frame (mem (inner c0)) (sp - 160)
           \<and> gs_base c' = gs_base c \<and> kernel_gs_base c' = kernel_gs_base c)"
proof -
  define c1 where "c1 = exec Cld (take_interrupt sp h kcs c)"
  have c1: "regs c1 = (regs c)(RSP := sp - 40)" "mem c1 = mem (take_interrupt sp h kcs c)"
    by (simp_all add: c1_def taken)
  define s where "s = exec_all save_all (exec (Push RAX) c1)"
  note S = push_rax_taken [OF c1(1,2), folded s_def]
  have g: "gs_base s = gs_base c" "kernel_gs_base s = kernel_gs_base c" "gdt_base s = P + off"
    using assms(2) by (simp_all add: s_def c1_def step_simps taken) (simp add: take_interrupt_def step_simps Let_def)
  define t where "t = exec_all (conditional_swapgs_paranoid off) s"
  have rs: "regs s RSP = sp - 160" by (simp add: S)
  note T = paranoid_entry [OF rs g(3), folded t_def, unfolded g(1,2)]
  define c0 where "c0 = push ra (set_reg RDI (sp - 160) t)"
  have c0: "regs c0 RDI = sp - 160" "regs c0 RSP = sp - 168" "regs c0 RBX = regs t RBX" "gs_base c0 = gs_base t" "kernel_gs_base c0 = kernel_gs_base t"
    by (simp_all add: c0_def step_simps T(1))
  have fr: "read_frame (mem c0) (sp - 160) = frame_of c"
    using T(2) S(2) by (simp add: c0_def step_simps T(1) read_frame_def)
  have run: "exec_all (interrupt_stack_paranoid off ra inner) (take_interrupt sp h kcs c)
     = exec Iretq (exec_all (pop_preserved @ pop_scratch) (exec_all conditional_swapgs_back_paranoid (inner c0)))"
    using T(1) by (simp add: interrupt_stack_paranoid_def interrupt_stack_entry_def exec_all_append c0_def t_def s_def c1_def save_all_def)
  define u where "u = exec_all conditional_swapgs_back_paranoid (inner c0)"
  have u: "regs u = regs (inner c0)" "mem u = mem (inner c0)" "gs_base u = gs_base c" "kernel_gs_base u = kernel_gs_base c"
    using assms(3) T(3-5)
    by (auto simp: u_def conditional_swapgs_back_paranoid_def sysv_callD [OF assms(1)] c0)
  have "regs u RSP = sp - 160" using sysv_callD(1) [OF assms(1), of c0] c0(2) u(1) by simp
  then have "frame_of (exec Iretq (exec_all (pop_preserved @ pop_scratch) u)) = read_frame (mem u) (sp - 160)"
    unfolding restore_frame by (simp add: frame_of_def read_frame_def Let_def)
  moreover have "gs_base (exec Iretq (exec_all (pop_preserved @ pop_scratch) u)) = gs_base u"
    "kernel_gs_base (exec Iretq (exec_all (pop_preserved @ pop_scratch) u)) = kernel_gs_base u"
    unfolding restore_frame by (simp_all add: Let_def)
  moreover have "gs_base c0 = P" using assms(3) T(4) c0(4) by auto
  ultimately show ?thesis using c0(1) fr u run by (intro exI [of _ c0]) (simp add: Let_def u_def [symmetric])
qed

theorem paranoid_gs_witness:
  "sysv_call return_only \<and> gdt_base user_cpu = 0x1000 + 0x100 \<and> (gs_base user_cpu = 0x1000 \<or> kernel_gs_base user_cpu = 0x1000)
   \<and> (\<exists>c0. regs c0 RDI = 0x9000 - 160 \<and> read_frame (mem c0) (0x9000 - 160) = frame_of user_cpu \<and> gs_base c0 = 0x1000
      \<and> (let c' = exec_all (interrupt_stack_paranoid 0x100 0x100 return_only) (take_interrupt 0x9000 0x200 8 user_cpu)
         in frame_of c' = read_frame (mem (return_only c0)) (0x9000 - 160)
            \<and> gs_base c' = gs_base user_cpu \<and> kernel_gs_base c' = kernel_gs_base user_cpu))"
proof -
  have h: "gdt_base user_cpu = 0x1000 + 0x100" "gs_base user_cpu = 0x1000 \<or> kernel_gs_base user_cpu = 0x1000"
    by (simp_all add: user_cpu_def)
  show ?thesis using paranoid_gs [OF return_only_sysv h] return_only_sysv h by blast
qed

text \<open>C7. A system call returns to its caller: for every program point with a canonical instruction pointer
  and the trap flag clear, after \<open>syscall\<close>, the entry code, the kernel's function and \<open>sysretq\<close> the program
  continues behind its \<open>syscall\<close> instruction with its stack pointer and all registers but \<open>rax\<close> (the
  result), \<open>rcx\<close> and \<open>r11\<close> (the documented ones) unchanged, and the GS bases are swapped back.\<close>
theorem syscall_returns:
  assumes "apart (sp + kernel_gs_base c) (ksp + kernel_gs_base c)"
    and "apart (load64 (mem c) (ksp + kernel_gs_base c) - 8) (sp + kernel_gs_base c)"
    and "sysv_call inner" and "handles_syscall inner"
    and "\<not> bit (c_rflags c) 8" and "canonical64 (c_rip c)"
  shows "let c' = exec_all (syscall_instruction sp ksp ra inner) (syscall_insn lstar c)
     in regs c' = (regs c)(RAX := 0, RCX := c_rip c, R11 := c_rflags c) \<and> c_rip c' = c_rip c
        \<and> gs_base c' = gs_base c \<and> kernel_gs_base c' = kernel_gs_base c"
  using syscall_result [OF assms(1-5) refl] sext48_id [OF assms(6)] by (simp add: Let_def)

theorem syscall_returns_witness:
  "apart (0 + kernel_gs_base user_cpu) (0x40 + kernel_gs_base user_cpu)
   \<and> apart (load64 (mem user_cpu) (0x40 + kernel_gs_base user_cpu) - 8) (0 + kernel_gs_base user_cpu)
   \<and> sysv_call store_zero \<and> handles_syscall store_zero
   \<and> \<not> bit (c_rflags user_cpu) 8 \<and> canonical64 (c_rip user_cpu)
   \<and> (let c' = exec_all (syscall_instruction 0 0x40 0x100 store_zero) (syscall_insn 0x200 user_cpu)
      in regs c' = (regs user_cpu)(RAX := 0, RCX := c_rip user_cpu, R11 := c_rflags user_cpu) \<and> c_rip c' = c_rip user_cpu
        \<and> gs_base c' = gs_base user_cpu \<and> kernel_gs_base c' = kernel_gs_base user_cpu)"
proof -
  have h: "apart (0 + kernel_gs_base user_cpu) (0x40 + kernel_gs_base user_cpu)"
    "apart (load64 (mem user_cpu) (0x40 + kernel_gs_base user_cpu) - 8) (0 + kernel_gs_base user_cpu)"
    "\<not> bit (c_rflags user_cpu) 8" "canonical64 (c_rip user_cpu)"
    by (simp_all add: user_cpu_def apart_def canonical64_def bit_numeral_rec)
  show ?thesis
    using syscall_returns [OF h(1,2) store_zero_sysv store_zero_handles h(3,4), where ra = "0x100" and lstar = "0x200"] h
      store_zero_sysv store_zero_handles by blast
qed

text \<open>C25. Whatever a frame holds, the address \<open>sysretq\<close> jumps to is canonical: the sign extension in the
  exit path leaves no state in which the processor would fault in kernel mode on the user's stack.\<close>
theorem sysret_canonical:
  assumes "\<not> bit (ir_rflags (iret (read_frame (mem s) (regs s RSP)))) 8"
  shows "canonical64 (c_rip (exec_all enter_usermode s))"
  using enter_usermode_result(3) [OF refl refl assms] sext48_canonical by simp

theorem sysret_canonical_witness:
  "let s = user_cpu\<lparr>mem := store64 (\<lambda>_. 0) (120 + 0x7FF000) 0xBAAD8000DEADBEEF\<rparr>
   in \<not> bit (ir_rflags (iret (read_frame (mem s) (regs s RSP)))) 8
      \<and> \<not> canonical64 (ir_rip (iret (read_frame (mem s) (regs s RSP))))
      \<and> canonical64 (c_rip (exec_all enter_usermode s))"
proof -
  let ?s = "user_cpu\<lparr>mem := store64 (\<lambda>_. 0) (120 + 0x7FF000) 0xBAAD8000DEADBEEF\<rparr>"
  have h: "\<not> bit (ir_rflags (iret (read_frame (mem ?s) (regs ?s RSP)))) 8"
    by (simp add: user_cpu_def read_frame_def) (simp add: load64_def)
  moreover have "\<not> canonical64 (ir_rip (iret (read_frame (mem ?s) (regs ?s RSP))))"
    by (simp add: user_cpu_def read_frame_def canonical64_def mask_eq_exp_minus_1)
  ultimately show ?thesis using sysret_canonical [OF h] by (simp add: Let_def)
qed

text \<open>The user library on top of the kernel: \<open>write\<close> executed at a point with the trap flag clear returns
  \<open>Ok(0)\<close> for every descriptor and every buffer, whatever their values.\<close>
theorem write_returns_zero:
  assumes "apart (sp + kernel_gs_base c) (ksp + kernel_gs_base c)"
    and "apart (load64 (mem c) (ksp + kernel_gs_base c) - 8) (sp + kernel_gs_base c)"
    and "sysv_call inner" and "handles_syscall inner" and "\<not> bit (c_rflags c) 8"
  shows "fst (vdso_write (\<lambda>u. exec_all (syscall_instruction sp ksp ra inner) (syscall_insn lstar u)) fd ptr len c) = Inr 0"
proof -
  define u where "u = fold (\<lambda>(r, v). set_reg r v) (zip syscall_regs [SYS_WRITE, fd, ptr, len]) c"
  have u: "kernel_gs_base u = kernel_gs_base c" "mem u = mem c" "c_rflags u = c_rflags c"
    by (simp_all add: u_def syscall_regs_def set_reg_def)
  show ?thesis
    using syscall_result(1) [where c = u, OF _ _ assms(3,4) _ refl, of sp ksp ra lstar] assms(1,2,5)
    by (simp add: vdso_write_def syscall3_def syscall_stub_def demux_def u_def [symmetric] u)
qed

theorem write_returns_zero_witness:
  "apart (0 + kernel_gs_base user_cpu) (0x40 + kernel_gs_base user_cpu)
   \<and> apart (load64 (mem user_cpu) (0x40 + kernel_gs_base user_cpu) - 8) (0 + kernel_gs_base user_cpu)
   \<and> sysv_call store_zero \<and> handles_syscall store_zero \<and> \<not> bit (c_rflags user_cpu) 8
   \<and> fst (vdso_write (\<lambda>u. exec_all (syscall_instruction 0 0x40 0x100 store_zero) (syscall_insn 0x200 u)) 1 0x400100 21 user_cpu) = Inr 0"
proof -
  have h: "apart (0 + kernel_gs_base user_cpu) (0x40 + kernel_gs_base user_cpu)"
    "apart (load64 (mem user_cpu) (0x40 + kernel_gs_base user_cpu) - 8) (0 + kernel_gs_base user_cpu)"
    "\<not> bit (c_rflags user_cpu) 8"
    by (simp_all add: user_cpu_def apart_def bit_numeral_rec)
  show ?thesis
    using write_returns_zero [OF h(1,2) store_zero_sysv store_zero_handles h(3), where ra = "0x100" and lstar = "0x200"
      and fd = 1 and ptr = "0x400100" and len = 21] h
      store_zero_sysv store_zero_handles by blast
qed

end
