(* ===== verification/User_Space.thy ===== *)
theory User_Space
  imports Kernel_Frames Paging Shared_Args Vdso
begin

section \<open>User address spaces (kernel/src/mem/user\_addr\_space.rs, user\_buffer.rs, mod.rs)\<close>

text \<open>
  The address space of a user context: its page table, the frames that hold its tables and its
  buffers, and the buffers it hands out.  All page tables live in one memory \<open>'t\<close>, addressed by the
  frame of their top-level table, because address spaces share tables with the kernel: the functions
  of the \<open>x86_64\<close> crate that edit and walk them are a parameter, and the locale \<open>space_laws\<close> states
  what the code relies on (the translation of an address is determined by the entry of its slot in
  the top-level table and the tables below; mapping a page fills empty entries and leaves the others
  in place).  The bytes of physical memory are a function of the address, since kernel code reads
  and writes frames through the identity mapping.

  The theory shows what a buffer resolves to and that resolving ends, and two consequences of the
  slots the code uses: every address space shares slot 0 with the kernel and with every other address
  space, and small buffers overlap.
\<close>

subsection \<open>The parameter\<close>

record ('t, 's) space_ops =
  sp_map_to :: "'s frame_source \<Rightarrow> nat \<Rightarrow> 't \<Rightarrow> 's \<Rightarrow> nat \<Rightarrow> nat \<Rightarrow> pt_flags
     \<Rightarrow> ((map_to_error + unit) \<times> 't \<times> 's) run"
  sp_unmap :: "nat \<Rightarrow> 't \<Rightarrow> nat \<Rightarrow> (unit + nat) \<times> 't"
  sp_update_flags :: "nat \<Rightarrow> 't \<Rightarrow> nat \<Rightarrow> pt_flags \<Rightarrow> (unit + unit) \<times> 't"
  sp_translate :: "nat \<Rightarrow> 't \<Rightarrow> nat \<Rightarrow> translate_result"   \<comment> \<open>\<open>Translate::translate\<close>, at an address\<close>
  sp_translate_page :: "nat \<Rightarrow> 't \<Rightarrow> nat \<Rightarrow> unit + nat"     \<comment> \<open>\<open>Mapper::<Size4KiB>::translate_page\<close>\<close>
  sp_clear :: "nat \<Rightarrow> 't \<Rightarrow> 't"                              \<comment> \<open>\<open>ptr.write(PageTable::new())\<close>\<close>
  sp_copy_entry :: "nat \<Rightarrow> nat \<Rightarrow> nat \<Rightarrow> nat \<Rightarrow> 't \<Rightarrow> 't"     \<comment> \<open>\<open>dst[i] = src[j].clone()\<close>\<close>

subsection \<open>State\<close>

record user_buffer =
  ub_base :: nat
  ub_len :: nat

definition user_buffer_new :: "nat \<Rightarrow> nat \<Rightarrow> user_buffer" where
  "user_buffer_new b l = \<lparr>ub_base = b, ub_len = l\<rparr>"

record tracked_phys_frame =
  tf_frame :: nat
  tf_index :: nat

record user_addr_space =
  page_table :: nat
  pte_frames :: "nat list"
  tracked_large_buffers :: "nat list"
  tracked_medium_buffers :: "tracked_phys_frame list"
  medium_buffer_pointer :: nat
  tracked_small_buffers :: "tracked_phys_frame list"
  small_buffer_pointer :: nat
  consumed_page_count :: nat
  as_base_address :: nat

text \<open>The frame allocator, the page tables, the bytes of memory, the kernel's top-level table and the
  register CR3 of the processor that executes the code.\<close>

record 't kernel_mem =
  km_frames :: frame_globals
  km_tables :: 't
  km_bytes :: "nat \<Rightarrow> 8 word"
  KERNEL_PML4_PAGE_TABLE :: "nat option"
  km_cr3 :: nat

type_synonym pte_source = "nat list \<times> frame_globals"

record 't kernel_env =
  ke_x86 :: x86
  ke_space :: "('t, pte_source) space_ops"

subsection \<open>The kernel's own table (mem/mod.rs)\<close>

definition KERNEL_PHYS_ADDRSP_P4_INDEX :: nat where
  "KERNEL_PHYS_ADDRSP_P4_INDEX = 256"

definition set_kernel_pml4_page_table :: "'t kernel_env \<Rightarrow> nat \<Rightarrow> 't kernel_mem \<Rightarrow> 't kernel_mem run" where
  "set_kernel_pml4_page_table E addr k =
     (let k' = k\<lparr>km_tables := sp_copy_entry (ke_space E) addr KERNEL_PHYS_ADDRSP_P4_INDEX addr 0 (km_tables k),
                 KERNEL_PML4_PAGE_TABLE := Some addr\<rparr>
      in and_then (assert_run (addr = km_cr3 k')) (\<lambda>_. Inr k'))"

definition get_kernel_pml4_page_table_addr :: "'t kernel_mem \<Rightarrow> nat run" where
  "get_kernel_pml4_page_table_addr k =
     or_panic (KERNEL_PML4_PAGE_TABLE k) ''failed to get KERNEL_PML4_PAGE_TABLE, it is none''"

subsection \<open>Frames\<close>

definition km_frame_alloc :: "'t kernel_env \<Rightarrow> string \<Rightarrow> 't kernel_mem \<Rightarrow> (nat \<times> 't kernel_mem) run" where
  "km_frame_alloc E msg k =
     and_then (frame_alloc (ke_x86 E) (km_frames k)) (\<lambda>(r, g).
     and_then (or_panic r msg) (\<lambda>f. Inr (f, k\<lparr>km_frames := g\<rparr>)))"

text \<open>\<open>FrameAllocator::allocate_frame\<close>, the same for \<open>UserAddrSpace\<close> and \<open>TempAllocator\<close>: the frame is
  recorded among those that hold tables.\<close>

definition pte_allocate_frame :: "x86 \<Rightarrow> pte_source frame_source" where
  "pte_allocate_frame X s =
     and_then (frame_alloc X (snd s)) (\<lambda>(r, g).
     and_then (or_panic r ''failed to allocate new pte for addr space page table'') (\<lambda>f.
       Inr (Some f, fst s @ [f], g)))"

text \<open>\<open>map_to\<close> followed by \<open>or_panic\<close>, on the table with the given top-level frame.\<close>

definition km_map_to ::
  "'t kernel_env \<Rightarrow> string \<Rightarrow> nat \<Rightarrow> nat list \<Rightarrow> nat \<Rightarrow> nat \<Rightarrow> pt_flags \<Rightarrow> 't kernel_mem \<Rightarrow> (nat list \<times> 't kernel_mem) run" where
  "km_map_to E msg root ptes page frame flags k =
     and_then (sp_map_to (ke_space E) (pte_allocate_frame (ke_x86 E)) root (km_tables k) (ptes, km_frames k) page frame flags)
       (\<lambda>(r, t, ptes', g).
     and_then (or_panic_result r msg) (\<lambda>_. Inr (ptes', k\<lparr>km_tables := t, km_frames := g\<rparr>)))"

subsection \<open>Creation\<close>

definition user_flags :: pt_flags where
  "user_flags = {PRESENT, WRITABLE, USER_ACCESSIBLE}"

definition addrsp_new :: "'t kernel_env \<Rightarrow> nat \<Rightarrow> 't kernel_mem \<Rightarrow> (user_addr_space \<times> 't kernel_mem) run" where
  "addrsp_new E base k =
     and_then (assert_run (base mod PAGE_SIZE = 0)) (\<lambda>_.
     and_then (km_frame_alloc E ''failed to allocate new frame for user addr space page table'' k) (\<lambda>(pml4, k).
     let k = k\<lparr>km_tables := sp_clear (ke_space E) pml4 (km_tables k)\<rparr> in
     and_then (km_frame_alloc E ''failed to allocate new frame for user addr space page buffers'' k) (\<lambda>(small, k).
     and_then (km_frame_alloc E ''failed to allocate new frame for user addr space page buffers'' k) (\<lambda>(medium, k).
     and_then (VirtAddr_new (ke_x86 E) base) (\<lambda>va0.
     and_then (km_map_to E ''failed to map small tracked page.'' pml4 [] (page_containing (ke_x86 E) va0) small user_flags k)
       (\<lambda>(ptes, k).
     and_then (add64 base PAGE_SIZE) (\<lambda>b1.
     and_then (VirtAddr_new (ke_x86 E) b1) (\<lambda>va1.
     and_then (km_map_to E ''failed to map medium tracked page.'' pml4 ptes (page_containing (ke_x86 E) va1) medium user_flags k)
       (\<lambda>(ptes, k).
       Inr (\<lparr>page_table = pml4, pte_frames = ptes, tracked_large_buffers = [],
             tracked_medium_buffers = [\<lparr>tf_frame = medium, tf_index = 1\<rparr>], medium_buffer_pointer = 0,
             tracked_small_buffers = [\<lparr>tf_frame = small, tf_index = 0\<rparr>], small_buffer_pointer = 0,
             consumed_page_count = 2, as_base_address = base\<rparr>, k))))))))))"

definition kernel_slots :: "nat list" where
  "kernel_slots = [KERNEL_BYTES_P4, BOOTSTRAP_BYTES_P4, KERNEL_STACK_P4, FRAMEBUFFER_P4, PHYS_MEM_P4]"

definition setup_kernel :: "'t kernel_env \<Rightarrow> user_addr_space \<Rightarrow> 't kernel_mem \<Rightarrow> 't kernel_mem run" where
  "setup_kernel E a k =
     and_then (get_kernel_pml4_page_table_addr k) (\<lambda>kpt.
       Inr (k\<lparr>km_tables := fold (\<lambda>i. sp_copy_entry (ke_space E) (page_table a) i kpt i) kernel_slots (km_tables k)\<rparr>))"

definition rwlock_addrsp_new :: "'t kernel_env \<Rightarrow> nat \<Rightarrow> 't kernel_mem \<Rightarrow> (user_addr_space \<times> 't kernel_mem) run" where
  "rwlock_addrsp_new E base k =
     and_then (addrsp_new E base k) (\<lambda>(a, k).
     and_then (setup_kernel E a k) (\<lambda>k. Inr (a, k)))"

subsection \<open>Pages\<close>

text \<open>The search for a page that is not translated; nothing bounds it but the address range.\<close>

partial_function (option) next_page_loop :: "'t kernel_env \<Rightarrow> nat \<Rightarrow> nat \<Rightarrow> 't \<Rightarrow> nat \<Rightarrow> nat run option" where
  "next_page_loop E root base t n =
     (case and_then (mul64 n PAGE_SIZE) (\<lambda>off. and_then (add64 base off) (VirtAddr_new (ke_x86 E))) of
        Inl e \<Rightarrow> Some (Inl e)
      | Inr va \<Rightarrow>
          (case sp_translate (ke_space E) root t va of
             NotMapped \<Rightarrow> Some (Inr n)
           | Mapped _ _ \<Rightarrow>
               (case add64 n 1 of Inl e \<Rightarrow> Some (Inl e) | Inr n' \<Rightarrow> next_page_loop E root base t n')))"

definition next_page_unused :: "'t kernel_env \<Rightarrow> user_addr_space \<Rightarrow> 't kernel_mem \<Rightarrow> (nat \<times> user_addr_space) run" where
  "next_page_unused E a k =
     and_then (run_loop (next_page_loop E (page_table a) (as_base_address a) (km_tables k) (consumed_page_count a))) (\<lambda>n.
       Inr (n, a\<lparr>consumed_page_count := n\<rparr>))"

definition as_map_to ::
  "'t kernel_env \<Rightarrow> string \<Rightarrow> nat \<Rightarrow> nat \<Rightarrow> pt_flags \<Rightarrow> user_addr_space \<times> 't kernel_mem \<Rightarrow> (user_addr_space \<times> 't kernel_mem) run" where
  "as_map_to E msg page frame flags s =
     (let (a, k) = s in
      and_then (km_map_to E msg (page_table a) (pte_frames a) page frame flags k) (\<lambda>(ptes, k).
        Inr (a\<lparr>pte_frames := ptes\<rparr>, k)))"

definition raw_map_to ::
  "'t kernel_env \<Rightarrow> nat \<Rightarrow> nat \<Rightarrow> pt_flags \<Rightarrow> user_addr_space \<times> 't kernel_mem \<Rightarrow> (user_addr_space \<times> 't kernel_mem) run" where
  "raw_map_to E page frame flags = as_map_to E ''failed to perform raw map_to'' page frame (insert USER_ACCESSIBLE flags)"

definition raw_unmap ::
  "'t kernel_env \<Rightarrow> nat \<Rightarrow> user_addr_space \<times> 't kernel_mem \<Rightarrow> (user_addr_space \<times> 't kernel_mem) run" where
  "raw_unmap E page s =
     (let (a, k) = s; (r, t) = sp_unmap (ke_space E) (page_table a) (km_tables k) page in
      and_then (or_panic_result r ''failed to perform raw unmap'') (\<lambda>f.
        Inr (a, k\<lparr>km_tables := t, km_frames := frame_dealloc f (km_frames k)\<rparr>)))"

definition raw_translate :: "'t kernel_env \<Rightarrow> nat \<Rightarrow> user_addr_space \<times> 't kernel_mem \<Rightarrow> translate_result" where
  "raw_translate E va s = sp_translate (ke_space E) (page_table (fst s)) (km_tables (snd s)) va"

definition raw_update_flags ::
  "'t kernel_env \<Rightarrow> nat \<Rightarrow> pt_flags \<Rightarrow> user_addr_space \<times> 't kernel_mem \<Rightarrow> (user_addr_space \<times> 't kernel_mem) run" where
  "raw_update_flags E page flags s =
     (let (a, k) = s; (r, t) = sp_update_flags (ke_space E) (page_table a) (km_tables k) page flags in
      and_then (or_panic_result r ''failed to perform raw update flags'') (\<lambda>_. Inr (a, k\<lparr>km_tables := t\<rparr>)))"

definition push_tracked_frame :: "nat \<Rightarrow> user_addr_space \<Rightarrow> user_addr_space" where
  "push_tracked_frame frame a = a\<lparr>tracked_large_buffers := tracked_large_buffers a @ [frame]\<rparr>"

definition validate :: "'t kernel_env \<Rightarrow> user_addr_space \<Rightarrow> 't kernel_mem \<Rightarrow> 't kernel_mem run" where
  "validate E a k =
     and_then (PhysAddr_new (ke_x86 E) (page_table a)) (\<lambda>p. Inr (k\<lparr>km_cr3 := frame_containing (ke_x86 E) p\<rparr>))"

subsection \<open>Buffers\<close>

text \<open>The two size classes that pack buffers into pages differ only in the fields they use.\<close>

definition page_addr :: "'t kernel_env \<Rightarrow> user_addr_space \<Rightarrow> nat \<Rightarrow> nat run" where
  "page_addr E a i =
     and_then (mul64 i PAGE_SIZE) (\<lambda>off. and_then (add64 (as_base_address a) off) (VirtAddr_new (ke_x86 E)))"

definition new_buffer_page ::
  "'t kernel_env \<Rightarrow> string \<Rightarrow> string \<Rightarrow> user_addr_space \<times> 't kernel_mem
     \<Rightarrow> (tracked_phys_frame \<times> nat \<times> user_addr_space \<times> 't kernel_mem) run" where
  "new_buffer_page E msg1 msg2 s =
     (let (a, k) = s in
      and_then (km_frame_alloc E msg1 k) (\<lambda>(f, k).
      and_then (next_page_unused E a k) (\<lambda>(i, a).
      and_then (page_addr E a i) (\<lambda>va.
      and_then (as_map_to E msg2 (page_containing (ke_x86 E) va) f user_flags (a, k)) (\<lambda>(a, k).
        Inr (\<lparr>tf_frame = f, tf_index = i\<rparr>, va, a, k))))))"

definition alloc_small ::
  "'t kernel_env \<Rightarrow> nat \<Rightarrow> user_addr_space \<times> 't kernel_mem \<Rightarrow> (user_buffer \<times> user_addr_space \<times> 't kernel_mem) run" where
  "alloc_small E sz s =
     (let (a, k) = s in
      if sz + small_buffer_pointer a > PAGE_SIZE then
        and_then (new_buffer_page E ''failed to allocate new frame for small buffer of user addr space''
            ''failed to map newly allocated small buffer'' (a, k)) (\<lambda>(tf, va, a, k).
        and_then (add64 (consumed_page_count a) 1) (\<lambda>n.
          Inr (user_buffer_new va sz,
               a\<lparr>tracked_small_buffers := tracked_small_buffers a @ [tf], consumed_page_count := n,
                 small_buffer_pointer := sz\<rparr>, k)))
      else
        (if tracked_small_buffers a = [] then Inl (Panicked ''failed to get last tracked small buffer'')
         else and_then (page_addr E a (tf_index (last (tracked_small_buffers a)))) (\<lambda>va.
           Inr (user_buffer_new va sz, a\<lparr>small_buffer_pointer := small_buffer_pointer a + sz\<rparr>, k))))"

definition alloc_medium ::
  "'t kernel_env \<Rightarrow> nat \<Rightarrow> user_addr_space \<times> 't kernel_mem \<Rightarrow> (user_buffer \<times> user_addr_space \<times> 't kernel_mem) run" where
  "alloc_medium E sz s =
     (let (a, k) = s in
      if sz + medium_buffer_pointer a > PAGE_SIZE then
        and_then (new_buffer_page E ''failed to allocate new frame for medium buffer of user addr space''
            ''failed to map newly allocated small buffer'' (a, k)) (\<lambda>(tf, va, a, k).
        and_then (add64 (consumed_page_count a) 1) (\<lambda>n.
          Inr (user_buffer_new va sz,
               a\<lparr>tracked_medium_buffers := tracked_medium_buffers a @ [tf], consumed_page_count := n,
                 medium_buffer_pointer := sz\<rparr>, k)))
      else
        (if tracked_medium_buffers a = [] then Inl (Panicked ''failed to get last tracked small buffer'')
         else and_then (page_addr E a (tf_index (last (tracked_medium_buffers a)))) (\<lambda>va.
           Inr (user_buffer_new va sz, a\<lparr>medium_buffer_pointer := medium_buffer_pointer a + sz\<rparr>, k))))"

fun map_large ::
  "'t kernel_env \<Rightarrow> nat list \<Rightarrow> user_addr_space \<times> 't kernel_mem \<Rightarrow> (user_addr_space \<times> 't kernel_mem) run" where
  "map_large E [] s = Inr s"
| "map_large E (page # ps) s =
     (let (a, k) = s in
      and_then (km_frame_alloc E ''failed to allocate new frame for large buffer of user addr space'' k) (\<lambda>(f, k).
      and_then (as_map_to E ''failed to map newly allocated small buffer'' page f user_flags (a, k)) (\<lambda>(a, k).
        map_large E ps (push_tracked_frame f a, k))))"

definition alloc_large ::
  "'t kernel_env \<Rightarrow> nat \<Rightarrow> user_addr_space \<times> 't kernel_mem \<Rightarrow> (user_buffer \<times> user_addr_space \<times> 't kernel_mem) run" where
  "alloc_large E sz s =
     (let (a, k) = s; required_pages = (sz + PAGE_SIZE - 1) div PAGE_SIZE in
      and_then (next_page_unused E a k) (\<lambda>(i, a).
      and_then (page_addr E a i) (\<lambda>va.
      let start = page_containing (ke_x86 E) va in
      and_then (map_large E (map (\<lambda>n. start + n * PAGE_SIZE) [0 ..< required_pages]) (a, k)) (\<lambda>(a, k).
      and_then (add64 (consumed_page_count a) required_pages) (\<lambda>n.
        Inr (user_buffer_new va sz, a\<lparr>consumed_page_count := n\<rparr>, k))))))"

definition addrsp_alloc ::
  "'t kernel_env \<Rightarrow> nat \<Rightarrow> user_addr_space \<times> 't kernel_mem \<Rightarrow> (user_buffer \<times> user_addr_space \<times> 't kernel_mem) run" where
  "addrsp_alloc E sz s =
     (if sz \<le> 64 then alloc_small E sz s
      else if sz \<le> 512 then alloc_medium E sz s
      else alloc_large E sz s)"

subsection \<open>Buffers seen by the kernel\<close>

definition EFAULT :: "32 word" where
  "EFAULT = 14"

text \<open>A slice of physical memory is its address and its length.\<close>

partial_function (option) resolve_loop ::
  "'t kernel_env \<Rightarrow> nat \<Rightarrow> 't \<Rightarrow> user_buffer \<Rightarrow> nat \<Rightarrow> (nat \<times> nat) list \<Rightarrow> (kerror + (nat \<times> nat) list) run option" where
  "resolve_loop E root t b done acc =
     (if done < ub_len b then
        (case VirtAddr_new (ke_x86 E) (ub_base b + done) of
           Inl e \<Rightarrow> Some (Inl e)
         | Inr va \<Rightarrow>
             let page = page_containing (ke_x86 E) va in
             (case sp_translate_page (ke_space E) root t page of
                Inl _ \<Rightarrow> Some (Inr (Inl (kerror_new EFAULT)))
              | Inr f \<Rightarrow>
                  (case VirtAddr_add (ke_x86 E) page PAGE_SIZE of
                     Inl e \<Rightarrow> Some (Inl e)
                   | Inr next \<Rightarrow>
                       let n = min (next - va) (ub_len b - done)
                       in resolve_loop E root t b (done + n) (acc @ [(f + (va - page), n)]))))
      else Some (Inr (Inr acc)))"

definition resolve ::
  "'t kernel_env \<Rightarrow> user_buffer \<Rightarrow> user_addr_space \<Rightarrow> 't kernel_mem \<Rightarrow> (kerror + (nat \<times> nat) list) run" where
  "resolve E b a k =
     (if ub_len b \<le> 512 then
        and_then (VirtAddr_new (ke_x86 E) (ub_base b)) (\<lambda>va.
          let page = page_containing (ke_x86 E) va in
          Inr (case sp_translate_page (ke_space E) (page_table a) (km_tables k) page of
                 Inl _ \<Rightarrow> Inl (kerror_new EFAULT)
               | Inr f \<Rightarrow> Inr [(f + (va - page), ub_len b)]))
      else run_loop (resolve_loop E (page_table a) (km_tables k) b 0 []))"

text \<open>\<open>copy_to\<close> of \<open>arch_spec/mod.rs\<close>: \<open>rep movsb\<close> copies byte by byte upwards.\<close>

fun copy_to :: "nat \<Rightarrow> nat \<Rightarrow> nat \<Rightarrow> (nat \<Rightarrow> 8 word) \<Rightarrow> nat \<Rightarrow> 8 word" where
  "copy_to dst src 0 m = m"
| "copy_to dst src (Suc len) m = copy_to (Suc dst) (Suc src) len (m(dst := m src))"

text \<open>The loop of \<open>alloc_and_copy_from\<close>: both addresses are values of bytes, and \<open>start\<close> stays 0.\<close>

fun copy_slices :: "8 word list \<Rightarrow> (nat \<times> nat) list \<Rightarrow> (nat \<Rightarrow> 8 word) \<Rightarrow> (nat \<Rightarrow> 8 word) run" where
  "copy_slices src [] m = Inr m"
| "copy_slices src ((p, n) # slices) m =
     (if n = 0 then Inl OutOfBounds
      else and_then (index src 0) (\<lambda>b. copy_slices src slices (copy_to (unat (m p)) (unat b) n m)))"

definition alloc_and_copy_from ::
  "'t kernel_env \<Rightarrow> 8 word list \<Rightarrow> user_addr_space \<times> 't kernel_mem
     \<Rightarrow> ((kerror + user_buffer) \<times> user_addr_space \<times> 't kernel_mem) run" where
  "alloc_and_copy_from E src s =
     and_then (addrsp_alloc E (length src) s) (\<lambda>(b, a, k).
     and_then (resolve E b a k) (\<lambda>r.
       case r of
         Inl e \<Rightarrow> Inr (Inl e, a, k)
       | Inr slices \<Rightarrow>
           and_then (assert_run (sum_list (map snd slices) = length src)) (\<lambda>_.
           and_then (copy_slices src slices (km_bytes k)) (\<lambda>m.
             Inr (Inr b, a, k\<lparr>km_bytes := m\<rparr>)))))"

text \<open>Dropping an address space gives its frames back to the allocator, in this order.\<close>

definition addrsp_drop :: "user_addr_space \<Rightarrow> 't kernel_mem \<Rightarrow> 't kernel_mem" where
  "addrsp_drop a k =
     k\<lparr>km_frames := fold frame_dealloc
        (map tf_frame (tracked_small_buffers a) @ map tf_frame (tracked_medium_buffers a)
         @ tracked_large_buffers a @ pte_frames a @ [page_table a]) (km_frames k)\<rparr>"

subsection \<open>Laws\<close>

definition p4_slot :: "nat \<Rightarrow> nat" where
  "p4_slot p = p div 549755813888 mod 512"

locale space_laws =
  fixes S :: "('t, 's) space_ops"
    and view :: "'t \<Rightarrow> nat \<Rightarrow> nat \<Rightarrow> (nat \<times> pt_flags) option"  \<comment> \<open>the 4 KiB mappings under a root\<close>
    and tab :: "'t \<Rightarrow> nat \<Rightarrow> nat \<Rightarrow> nat option"                 \<comment> \<open>the table a top-level entry points to\<close>
  assumes same_table: "tab t r (p4_slot p) = tab t r' (p4_slot p) \<Longrightarrow> view t r p = view t r' p"
    and map_to_ok: "sp_map_to S al r t s p f fl = Inr (Inr (), t', s') \<Longrightarrow> PRESENT \<in> fl \<Longrightarrow>
      view t r p = None \<and> view t' r = (view t r)(p \<mapsto> (f, fl))"
    and map_to_tab: "sp_map_to S al r t s p f fl = Inr (res, t', s') \<Longrightarrow> tab t r' i = Some e \<Longrightarrow> tab t' r' i = Some e"
    and map_to_reach: "sp_map_to S al r t s p f fl = Inr (res, t', s') \<Longrightarrow> alloc_reach al s s'"
    and copy_same: "tab (sp_copy_entry S d i r j t) d i = tab t r j"
    and copy_other: "(d', i') \<noteq> (d, i) \<Longrightarrow> tab (sp_copy_entry S d i r j t) d' i' = tab t d' i'"
    and clear_other: "r' \<noteq> r \<Longrightarrow> tab (sp_clear S r t) r' i = tab t r' i"
    and translate_page_ok: "view t r p = Some (f, fl) \<Longrightarrow> sp_translate_page S r t p = Inr f"
    and translate_page_none: "view t r p = None \<Longrightarrow> sp_translate_page S r t p \<noteq> Inr f"

text \<open>A memory of page tables with these laws: top-level entries point to tables by number, and a table
  holds the mappings of the slots it is used for.\<close>

record table_mem =
  tm_entries :: "nat \<Rightarrow> nat \<Rightarrow> nat option"
  tm_pages :: "nat \<Rightarrow> nat \<Rightarrow> (nat \<times> pt_flags) option"

definition tm_view :: "table_mem \<Rightarrow> nat \<Rightarrow> nat \<Rightarrow> (nat \<times> pt_flags) option" where
  "tm_view t r p = (case tm_entries t r (p4_slot p) of None \<Rightarrow> None | Some e \<Rightarrow> tm_pages t e p)"

definition tm_put :: "nat \<Rightarrow> nat \<Rightarrow> (nat \<times> pt_flags) option \<Rightarrow> table_mem \<Rightarrow> table_mem" where
  "tm_put r p v t =
     (case tm_entries t r (p4_slot p) of
        Some e \<Rightarrow> t\<lparr>tm_pages := (tm_pages t)(e := (tm_pages t e)(p := v))\<rparr>
      | None \<Rightarrow> t\<lparr>tm_entries := (tm_entries t)(r := (tm_entries t r)(p4_slot p := Some r)),
                  tm_pages := (tm_pages t)(r := (\<lambda>q. if p4_slot q = p4_slot p then if q = p then v else None else tm_pages t r q))\<rparr>)"

definition table_mem_ops :: "(table_mem, 's) space_ops" where
  "table_mem_ops =
     \<lparr>sp_map_to = (\<lambda>al r t s p f fl. Inr (if tm_view t r p = None then (Inr (), tm_put r p (Some (f, fl)) t, s)
          else (Inl PageAlreadyMapped, t, s))),
      sp_unmap = (\<lambda>r t p. case tm_view t r p of None \<Rightarrow> (Inl (), t) | Some (f, _) \<Rightarrow> (Inr f, tm_put r p None t)),
      sp_update_flags = (\<lambda>r t p fl. case tm_view t r p of None \<Rightarrow> (Inl (), t)
         | Some (f, _) \<Rightarrow> (Inr (), tm_put r p (Some (f, fl)) t)),
      sp_translate = (\<lambda>r t a. case tm_view t r (a - a mod 4096) of None \<Rightarrow> NotMapped | Some (f, fl) \<Rightarrow> Mapped (Size4KiB f) fl),
      sp_translate_page = (\<lambda>r t p. case tm_view t r p of None \<Rightarrow> Inl () | Some (f, _) \<Rightarrow> Inr f),
      sp_clear = (\<lambda>r t. t\<lparr>tm_entries := (tm_entries t)(r := \<lambda>_. None)\<rparr>),
      sp_copy_entry = (\<lambda>d i r j t. t\<lparr>tm_entries := (tm_entries t)(d := (tm_entries t d)(i := tm_entries t r j))\<rparr>)\<rparr>"

lemma tm_put_view: "tm_view (tm_put r p v t) r = (tm_view t r)(p := v)"
proof
  fix q show "tm_view (tm_put r p v t) r q = ((tm_view t r)(p := v)) q"
    by (cases "tm_entries t r (p4_slot p)"; cases "p4_slot q = p4_slot p")
       (auto simp: tm_view_def tm_put_def split: option.splits)
qed

interpretation tml: space_laws table_mem_ops tm_view tm_entries
proof
  fix al r t s p f fl t' s'
  assume "sp_map_to table_mem_ops al r t s p f fl = Inr (Inr (), t', s')"
  then show "tm_view t r p = None \<and> tm_view t' r = (tm_view t r)(p \<mapsto> (f, fl))"
    by (auto simp: table_mem_ops_def tm_put_view split: if_splits)
qed (auto simp: table_mem_ops_def tm_put_def tm_view_def split: if_splits option.splits intro: reach_refl)

text \<open>The whole parameter: the crate's address functions and its page table functions.\<close>

locale user_space = x86_laws "ke_x86 E" + space_laws "ke_space E" view tab
  for E :: "'t kernel_env" and view tab

definition table_env :: "table_mem kernel_env" where
  "table_env = \<lparr>ke_x86 = x86_model, ke_space = table_mem_ops\<rparr>"

interpretation usm: user_space table_env tm_view tm_entries
  unfolding user_space_def table_env_def
  by (simp add: x86m.x86_laws_axioms tml.space_laws_axioms)

subsection \<open>Sharing\<close>

text \<open>What every function here does to the frame allocator, and to the entries of the top-level tables
  that are in use.\<close>

definition grown :: "frame_globals \<Rightarrow> frame_globals \<Rightarrow> bool" where
  "grown g g' \<longleftrightarrow> kg_wf g' \<and> kg_cursor g \<le> kg_cursor g' \<and> kg_forbidden g' = kg_forbidden g"

lemma grown_trans: "grown g g' \<Longrightarrow> grown g' g'' \<Longrightarrow> grown g g''"
  by (auto simp: grown_def)

lemma grown_refl: "kg_wf g \<Longrightarrow> grown g g"
  by (simp add: grown_def)

context user_space
begin

definition kept :: "'t \<Rightarrow> 't \<Rightarrow> bool" where
  "kept t t' \<longleftrightarrow> (\<forall>r i e. tab t r i = Some e \<longrightarrow> tab t' r i = Some e)"

lemma frame_alloc_step:
  assumes "kg_wf g" and "frame_alloc (ke_x86 E) g = Inr (r, g')"
  shows "grown g g'" and "r = Some f \<Longrightarrow> kg_cursor g \<le> f \<and> f < kg_cursor g' \<and> f \<notin> kg_forbidden g"
proof -
  have a: "frame_alloc_n (ke_x86 E) 1 g = Inr (r, g')"
    using assms(2) by (simp add: frame_alloc_def frame_alloc_n_def allocate_frame_def [abs_def])
  note L = kg_laws [OF x86_laws_axioms assms(1) a]
  show "grown g g'" using L(1-3) by (simp add: grown_def)
  assume r: "r = Some f"
  have "f \<in> frames_block f 1" by (simp add: frames_block_def)
  then show "kg_cursor g \<le> f \<and> f < kg_cursor g' \<and> f \<notin> kg_forbidden g"
    using L(4) [OF r] L(5) [OF r] by auto
qed

lemma km_frame_alloc_step:
  assumes "kg_wf (km_frames k)" and "km_frame_alloc E msg k = Inr (f, k')"
  shows "grown (km_frames k) (km_frames k')" and "k' = k\<lparr>km_frames := km_frames k'\<rparr>"
    and "kg_cursor (km_frames k) \<le> f \<and> f < kg_cursor (km_frames k') \<and> f \<notin> kg_forbidden (km_frames k)"
  using assms frame_alloc_step [OF assms(1)]
  by (auto simp: km_frame_alloc_def run_simps split: prod.splits)

lemma pte_reach:
  assumes "alloc_reach (pte_allocate_frame (ke_x86 E)) s s'" and "kg_wf (snd s)"
  shows "grown (snd s) (snd s')"
proof (rule alloc_reach_inv [OF assms(1)])
  show "grown (snd s) (snd s)" using assms(2) by (rule grown_refl)
next
  fix u r u' assume u: "grown (snd s) (snd u)" and st: "pte_allocate_frame (ke_x86 E) u = Inr (r, u')"
  then obtain f where "frame_alloc (ke_x86 E) (snd u) = Inr (f, snd u')"
    by (auto simp: pte_allocate_frame_def run_simps)
  then show "grown (snd s) (snd u')"
    using frame_alloc_step(1) [of "snd u"] u grown_trans by (auto simp: grown_def)
qed

lemma km_map_to_step:
  assumes "kg_wf (km_frames k)" and "PRESENT \<in> fl" and "km_map_to E msg r ptes p f fl k = Inr (ptes', k')"
  shows "grown (km_frames k) (km_frames k')" and "kept (km_tables k) (km_tables k')"
    and "view (km_tables k') r = (view (km_tables k) r)(p \<mapsto> (f, fl))"
    and "KERNEL_PML4_PAGE_TABLE k' = KERNEL_PML4_PAGE_TABLE k"
proof -
  from assms(3) obtain t g where m: "sp_map_to (ke_space E) (pte_allocate_frame (ke_x86 E)) r (km_tables k) (ptes, km_frames k) p f fl
      = Inr (Inr (), t, ptes', g)" and k': "k' = k\<lparr>km_tables := t, km_frames := g\<rparr>"
    by (auto simp: km_map_to_def run_simps)
  show "grown (km_frames k) (km_frames k')" using pte_reach [OF map_to_reach [OF m]] assms(1) k' by simp
  show "kept (km_tables k) (km_tables k')" unfolding kept_def using map_to_tab [OF m] k' by simp
  show "view (km_tables k') r = (view (km_tables k) r)(p \<mapsto> (f, fl))" using map_to_ok [OF m assms(2)] k' by simp
  show "KERNEL_PML4_PAGE_TABLE k' = KERNEL_PML4_PAGE_TABLE k" using k' by simp
qed

text \<open>Creation: the new root is a fresh frame, and the entries of all other roots stay.\<close>

lemma addrsp_new_step:
  assumes "kg_wf (km_frames k)" and "addrsp_new E base k = Inr (a, k')"
  shows "grown (km_frames k) (km_frames k')" and "KERNEL_PML4_PAGE_TABLE k' = KERNEL_PML4_PAGE_TABLE k"
    and "kg_cursor (km_frames k) \<le> page_table a" and "page_table a < kg_cursor (km_frames k')"
    and "page_table a \<notin> kg_forbidden (km_frames k)"
    and "r \<noteq> page_table a \<Longrightarrow> tab (km_tables k) r i = Some e \<Longrightarrow> tab (km_tables k') r i = Some e"
proof -
  have pr: "PRESENT \<in> user_flags" by (simp add: user_flags_def)
  from assms(2) obtain pml4 k1 small k2 medium k3 p0 ptes k4 p1 ptes'
    where s1: "km_frame_alloc E ''failed to allocate new frame for user addr space page table'' k = Inr (pml4, k1)"
    and s2: "km_frame_alloc E ''failed to allocate new frame for user addr space page buffers''
        (k1\<lparr>km_tables := sp_clear (ke_space E) pml4 (km_tables k1)\<rparr>) = Inr (small, k2)"
    and s3: "km_frame_alloc E ''failed to allocate new frame for user addr space page buffers'' k2 = Inr (medium, k3)"
    and s4: "km_map_to E ''failed to map small tracked page.'' pml4 [] p0 small user_flags k3 = Inr (ptes, k4)"
    and s5: "km_map_to E ''failed to map medium tracked page.'' pml4 ptes p1 medium user_flags k4 = Inr (ptes', k')"
    and a: "page_table a = pml4"
    unfolding addrsp_new_def Let_def
    by (auto simp: run_simps split: prod.splits)
  note A = km_frame_alloc_step [OF assms(1) s1]
  have w1: "kg_wf (km_frames (k1\<lparr>km_tables := sp_clear (ke_space E) pml4 (km_tables k1)\<rparr>))" using A(1) by (simp add: grown_def)
  note B = km_frame_alloc_step [OF w1 s2]
  have w2: "kg_wf (km_frames k2)" using B(1) by (simp add: grown_def)
  note C = km_frame_alloc_step [OF w2 s3]
  have w3: "kg_wf (km_frames k3)" using C(1) by (simp add: grown_def)
  note D = km_map_to_step [OF w3 pr s4]
  have w4: "kg_wf (km_frames k4)" using D(1) by (simp add: grown_def)
  note F = km_map_to_step [OF w4 pr s5]
  have g: "grown (km_frames k1) (km_frames k')" using B(1) C(1) D(1) F(1) by (auto simp: grown_def)
  then show "grown (km_frames k) (km_frames k')" using A(1) grown_trans by blast
  have e1: "KERNEL_PML4_PAGE_TABLE k1 = KERNEL_PML4_PAGE_TABLE k" "km_tables k1 = km_tables k" using A(2) by (metis kernel_mem.select_convs kernel_mem.surjective kernel_mem.update_convs)+
  have e2: "KERNEL_PML4_PAGE_TABLE k2 = KERNEL_PML4_PAGE_TABLE k1" "km_tables k2 = sp_clear (ke_space E) pml4 (km_tables k1)"
    by (subst B(2), simp)+
  have e3: "KERNEL_PML4_PAGE_TABLE k3 = KERNEL_PML4_PAGE_TABLE k2" "km_tables k3 = km_tables k2" by (subst C(2), simp)+
  show "KERNEL_PML4_PAGE_TABLE k' = KERNEL_PML4_PAGE_TABLE k" using D(4) F(4) e1 e2 e3 by simp
  show "kg_cursor (km_frames k) \<le> page_table a" "page_table a < kg_cursor (km_frames k')" "page_table a \<notin> kg_forbidden (km_frames k)"
    using A(3) g a by (auto simp: grown_def)
  assume "r \<noteq> page_table a" "tab (km_tables k) r i = Some e"
  then have "tab (km_tables k3) r i = Some e" using e1 e2 e3 a clear_other by simp
  then show "tab (km_tables k') r i = Some e" using D(2) F(2) by (simp add: kept_def)
qed

lemma setup_kernel_step:
  assumes "KERNEL_PML4_PAGE_TABLE k = Some kr" and "kr \<noteq> page_table a" and "setup_kernel E a k = Inr k'"
  shows "km_frames k' = km_frames k" and "KERNEL_PML4_PAGE_TABLE k' = Some kr"
    and "r \<noteq> page_table a \<Longrightarrow> tab (km_tables k') r i = tab (km_tables k) r i"
    and "tab (km_tables k') (page_table a) 0 = tab (km_tables k) kr 0"
  using assms copy_same copy_other
  by (auto simp: setup_kernel_def get_kernel_pml4_page_table_addr_def run_simps kernel_slots_def PHYS_MEM_P4_def)

lemma rwlock_new_step:
  assumes "kg_wf (km_frames k)" and "KERNEL_PML4_PAGE_TABLE k = Some kr" and "kr \<in> kg_forbidden (km_frames k)"
    and "tab (km_tables k) kr 0 = Some e" and "rwlock_addrsp_new E base k = Inr (a, k')"
  shows "grown (km_frames k) (km_frames k')" and "KERNEL_PML4_PAGE_TABLE k' = Some kr"
    and "page_table a \<noteq> kr" and "kg_cursor (km_frames k) \<le> page_table a" and "page_table a < kg_cursor (km_frames k')"
    and "tab (km_tables k') (page_table a) 0 = Some e"
    and "r \<noteq> page_table a \<Longrightarrow> tab (km_tables k) r i = Some e' \<Longrightarrow> tab (km_tables k') r i = Some e'"
proof -
  from assms(5) obtain k1 where n: "addrsp_new E base k = Inr (a, k1)" and s: "setup_kernel E a k1 = Inr k'"
    by (auto simp: rwlock_addrsp_new_def run_simps)
  note N = addrsp_new_step [OF assms(1) n]
  show ne: "page_table a \<noteq> kr" using N(5) assms(3) by auto
  then have ne': "kr \<noteq> page_table a" by simp
  have kp: "KERNEL_PML4_PAGE_TABLE k1 = Some kr" using N(2) assms(2) by simp
  note T = setup_kernel_step [OF kp ne' s]
  show "grown (km_frames k) (km_frames k')" "KERNEL_PML4_PAGE_TABLE k' = Some kr" "kg_cursor (km_frames k) \<le> page_table a"
    "page_table a < kg_cursor (km_frames k')"
    using N(1,3,4) T(1,2) by simp_all
  show "tab (km_tables k') (page_table a) 0 = Some e" using T(4) N(6) [OF ne' assms(4)] by simp
  show "r \<noteq> page_table a \<Longrightarrow> tab (km_tables k) r i = Some e' \<Longrightarrow> tab (km_tables k') r i = Some e'"
    using T(3) N(6) by simp
qed

lemma shared_slot:
  assumes "kg_wf (km_frames k)" and "KERNEL_PML4_PAGE_TABLE k = Some kr" and "kr \<in> kg_forbidden (km_frames k)"
    and "tab (km_tables k) kr 0 = Some e"
    and "rwlock_addrsp_new E b1 k = Inr (a1, k1)" and "rwlock_addrsp_new E b2 k1 = Inr (a2, k2)"
    and "p4_slot p = 0" and "PRESENT \<in> fl" and "raw_map_to E p f fl (a1, k2) = Inr (a1', k3)"
  shows "view (km_tables k3) (page_table a2) p = Some (f, insert USER_ACCESSIBLE fl)"
    and "view (km_tables k3) kr p = Some (f, insert USER_ACCESSIBLE fl)" and "page_table a1 \<noteq> page_table a2"
proof -
  note A = rwlock_new_step [OF assms(1-5)]
  have w1: "kg_wf (km_frames k1)" "kr \<in> kg_forbidden (km_frames k1)" using A(1) assms(3) by (simp_all add: grown_def)
  have t1: "tab (km_tables k1) kr 0 = Some e" using A(7) [OF A(3) [symmetric] assms(4)] .
  note B = rwlock_new_step [OF w1(1) A(2) w1(2) t1 assms(6)]
  show ne: "page_table a1 \<noteq> page_table a2" using A(5) B(4) by simp
  have w2: "kg_wf (km_frames k2)" using B(1) by (simp add: grown_def)
  from assms(9) obtain ptes where m: "km_map_to E ''failed to perform raw map_to'' (page_table a1) (pte_frames a1) p f
      (insert USER_ACCESSIBLE fl) k2 = Inr (ptes, k3)"
    by (auto simp: raw_map_to_def as_map_to_def run_simps)
  have "PRESENT \<in> insert USER_ACCESSIBLE fl" using assms(8) by simp
  note M = km_map_to_step [OF w2 this m]
  have t: "tab (km_tables k2) (page_table a1) 0 = Some e" "tab (km_tables k2) (page_table a2) 0 = Some e" "tab (km_tables k2) kr 0 = Some e"
    using B(7) [OF ne A(6)] B(6) B(7) [OF B(3) [symmetric] t1] by simp_all
  then have t3: "tab (km_tables k3) r 0 = Some e" if "r \<in> {page_table a1, page_table a2, kr}" for r
    using that M(2) by (auto simp: kept_def)
  have "view (km_tables k3) r p = view (km_tables k3) (page_table a1) p" if "r \<in> {page_table a2, kr}" for r
    by (rule same_table) (use that t3 assms(7) in auto)
  then show "view (km_tables k3) (page_table a2) p = Some (f, insert USER_ACCESSIBLE fl)"
    "view (km_tables k3) kr p = Some (f, insert USER_ACCESSIBLE fl)"
    using M(3) by simp_all
qed

end

subsection \<open>Resolving buffers\<close>

definition slice_bytes :: "(nat \<times> nat) list \<Rightarrow> nat list" where
  "slice_bytes slices = concat (map (\<lambda>(p, n). [p ..< p + n]) slices)"

definition phys_of :: "(nat \<Rightarrow> (nat \<times> pt_flags) option) \<Rightarrow> nat \<Rightarrow> nat option" where
  "phys_of v va = (case v (va - va mod 4096) of None \<Rightarrow> None | Some (f, _) \<Rightarrow> Some (f + va mod 4096))"

lemma same_page:
  fixes x y :: nat
  assumes "x - x mod 4096 \<le> y" and "y < x - x mod 4096 + 4096"
  shows "y - y mod 4096 = x - x mod 4096" and "y mod 4096 = y - (x - x mod 4096)"
proof -
  have d: "x - x mod 4096 = 4096 * (x div 4096)" by (simp add: minus_mod_eq_mult_div)
  then have "y div 4096 = x div 4096" using assms by (intro div_nat_eqI) simp_all
  then show "y - y mod 4096 = x - x mod 4096" by (simp add: minus_mod_eq_mult_div)
  then show "y mod 4096 = y - (x - x mod 4096)" by (metis diff_diff_cancel mod_less_eq_dividend)
qed

lemma map_shift: "map (\<lambda>i. c + i) [d ..< d + n] = [c + d ..< c + d + n]" for c :: nat
  by (rule nth_equalityI) simp_all

context user_space
begin

lemma resolve_step:
  assumes "d < ub_len b" and "ub_base b + ub_len b + 4096 \<le> 140737488355328"
    and q: "q = (ub_base b + d) mod 4096" and n: "n = min (4096 - q) (ub_len b - d)"
  shows "0 < n" and "d + n \<le> ub_len b"
    and "view t r (ub_base b + d - q) = Some (f, fl) \<Longrightarrow>
      resolve_loop E r t b d acc = resolve_loop E r t b (d + n) (acc @ [(f + q, n)])"
    and "view t r (ub_base b + d - q) = None \<Longrightarrow> resolve_loop E r t b d acc = Some (Inr (Inl (kerror_new EFAULT)))"
    and "d \<le> i \<Longrightarrow> i < d + n \<Longrightarrow> view t r (ub_base b + d - q) = Some (f, fl) \<Longrightarrow>
      phys_of (view t r) (ub_base b + i) = Some (f + q + (i - d))"
proof -
  let ?va = "ub_base b + d"
  have m: "q < 4096" "q \<le> ?va" unfolding q by simp_all
  show "0 < n" "d + n \<le> ub_len b" using n assms(1) m(1) by (auto simp: min_def)
  have va: "VirtAddr_new (ke_x86 E) ?va = Inr ?va"
    using assms(1,2) by (intro VirtAddr_new_ok) (simp add: canonical_def)
  have "?va - q + 4096 < 140737488355328" using assms(1,2) m by linarith
  then have nx: "VirtAddr_add (ke_x86 E) (?va - q) PAGE_SIZE = Inr (?va - q + 4096)"
    unfolding PAGE_SIZE_def by (intro VirtAddr_add_ok) (simp add: canonical_def)
  have n': "min (?va - q + 4096 - ?va) (ub_len b - d) = n" "?va - (?va - q) = q" using n m by linarith+
  have pg: "page_containing (ke_x86 E) ?va = ?va - q" unfolding page_containing_eq q ..
  show "view t r (?va - q) = Some (f, fl) \<Longrightarrow>
      resolve_loop E r t b d acc = resolve_loop E r t b (d + n) (acc @ [(f + q, n)])"
    using assms(1) translate_page_ok [of t r "?va - q" f fl]
    by (subst resolve_loop.simps) (simp only: va nx n' pg Let_def sum.case if_True)
  show "view t r (?va - q) = None \<Longrightarrow> resolve_loop E r t b d acc = Some (Inr (Inl (kerror_new EFAULT)))"
    using assms(1) translate_page_none [of t r "?va - q"]
    by (subst resolve_loop.simps) (auto simp only: va pg Let_def sum.case if_True split: sum.splits)
  assume i: "d \<le> i" "i < d + n" and v: "view t r (?va - q) = Some (f, fl)"
  have "?va - q \<le> ub_base b + i" "ub_base b + i < ?va - q + 4096" using i n m by linarith+
  note sp = same_page [OF this [unfolded q], folded q]
  have "ub_base b + i - (?va - q) = q + (i - d)" using i m by linarith
  then show "phys_of (view t r) (ub_base b + i) = Some (f + q + (i - d))"
    unfolding phys_of_def sp(1) v unfolding sp(2) by simp
qed

lemma resolve_loop_ok:
  assumes "ub_base b + ub_len b + 4096 \<le> 140737488355328" and "d \<le> ub_len b"
    and "\<forall>i. d \<le> i \<and> i < ub_len b \<longrightarrow> phys_of (view t r) (ub_base b + i) \<noteq> None"
  shows "\<exists>sl. resolve_loop E r t b d acc = Some (Inr (Inr (acc @ sl)))
     \<and> slice_bytes sl = map (\<lambda>i. the (phys_of (view t r) (ub_base b + i))) [d ..< ub_len b]"
  using assms(2,3)
proof (induction "ub_len b - d" arbitrary: d acc rule: less_induct)
  case less
  show ?case
  proof (cases "d < ub_len b")
    case False
    then show ?thesis using less.prems by (subst resolve_loop.simps) (simp add: slice_bytes_def)
  next
    case True
    define q where "q = (ub_base b + d) mod 4096"
    define n where "n = min (4096 - q) (ub_len b - d)"
    note S = resolve_step [OF True assms(1) q_def n_def]
    obtain f fl where v: "view t r (ub_base b + d - q) = Some (f, fl)"
      using less.prems(2) True by (auto simp: phys_of_def q_def split: option.splits)
    let ?q = "f + q"
    obtain sl where sl: "resolve_loop E r t b (d + n) (acc @ [(?q, n)]) = Some (Inr (Inr ((acc @ [(?q, n)]) @ sl)))"
      "slice_bytes sl = map (\<lambda>i. the (phys_of (view t r) (ub_base b + i))) [d + n ..< ub_len b]"
    proof -
      have "ub_len b - (d + n) < ub_len b - d" using S(1) True by linarith
      from less.hyps [OF this S(2), of "acc @ [(?q, n)]"] less.prems(2) that show ?thesis by auto
    qed
    have "map (\<lambda>i. the (phys_of (view t r) (ub_base b + i))) [d ..< d + n] = map (\<lambda>i. ?q + (i - d)) [d ..< d + n]"
      by (rule map_cong) (use S(5) [OF _ _ v] in auto)
    also have "\<dots> = [?q ..< ?q + n]" by (rule nth_equalityI) simp_all
    finally have "slice_bytes ((?q, n) # sl) = map (\<lambda>i. the (phys_of (view t r) (ub_base b + i))) ([d ..< d + n] @ [d + n ..< ub_len b])"
      using sl(2) by (simp add: slice_bytes_def)
    moreover have "[d ..< d + n] @ [d + n ..< ub_len b] = [d ..< ub_len b]"
      using S(2) upt_add_eq_append [of d "d + n" "ub_len b - (d + n)"] by simp
    ultimately show ?thesis using S(3) [OF v] sl(1) by (intro exI [of _ "(?q, n) # sl"]) simp
  qed
qed

lemma resolve_loop_fault:
  assumes "ub_base b + ub_len b + 4096 \<le> 140737488355328"
    and "d \<le> i" and "i < ub_len b" and "phys_of (view t r) (ub_base b + i) = None"
  shows "resolve_loop E r t b d acc = Some (Inr (Inl (kerror_new EFAULT)))"
  using assms(2)
proof (induction "ub_len b - d" arbitrary: d acc rule: less_induct)
  case less
  have d: "d < ub_len b" using less.prems assms(3) by simp
  define q where "q = (ub_base b + d) mod 4096"
  define n where "n = min (4096 - q) (ub_len b - d)"
  note S = resolve_step [OF d assms(1) q_def n_def]
  show ?case
  proof (cases "view t r (ub_base b + d - q)")
    case None then show ?thesis by (rule S(4))
  next
    case (Some x)
    then obtain f fl where v: "view t r (ub_base b + d - q) = Some (f, fl)" by (cases x) simp
    have "d + n \<le> i" using S(5) [OF less.prems _ v] assms(4) by (metis not_le option.distinct(1))
    then show ?thesis using less.hyps [of "d + n"] S(1,3) v d by simp
  qed
qed

lemma resolve_page:
  assumes "ub_len b \<le> 512" and "q + ub_len b \<le> 4096" and "ub_base b < 140737488355328" and q: "q = ub_base b mod 4096"
  shows "resolve E b a k = Inr (case view (km_tables k) (page_table a) (ub_base b - q) of
       None \<Rightarrow> Inl (kerror_new EFAULT) | Some (f, _) \<Rightarrow> Inr [(f + q, ub_len b)])"
    and "i < ub_len b \<Longrightarrow> phys_of (view (km_tables k) (page_table a)) (ub_base b + i) =
       (case view (km_tables k) (page_table a) (ub_base b - q) of None \<Rightarrow> None | Some (f, _) \<Rightarrow> Some (f + q + i))"
proof -
  have va: "VirtAddr_new (ke_x86 E) (ub_base b) = Inr (ub_base b)" using assms(3) by (intro VirtAddr_new_ok) (simp add: canonical_def)
  have m: "q \<le> ub_base b" unfolding q by simp
  have pg: "page_containing (ke_x86 E) (ub_base b) = ub_base b - q" unfolding page_containing_eq q ..
  let ?v = "view (km_tables k) (page_table a) (ub_base b - q)"
  show "resolve E b a k = Inr (case ?v of None \<Rightarrow> Inl (kerror_new EFAULT) | Some (f, _) \<Rightarrow> Inr [(f + q, ub_len b)])"
  proof (cases ?v)
    case None
    then show ?thesis using assms(1) va pg translate_page_none [OF None]
      by (auto simp: resolve_def Let_def split: sum.splits)
  next
    case (Some x)
    then obtain f fl where v: "?v = Some (f, fl)" by (cases x) simp
    then show ?thesis using assms(1) va pg m translate_page_ok [OF v] by (simp add: resolve_def Let_def)
  qed
  assume i: "i < ub_len b"
  have "ub_base b - q \<le> ub_base b + i" "ub_base b + i < ub_base b - q + 4096" using i assms(2) m by linarith+
  note sp = same_page [OF this [unfolded q], folded q]
  have e: "ub_base b + i - (ub_base b - q) = q + i" using m by linarith
  show "phys_of (view (km_tables k) (page_table a)) (ub_base b + i) =
       (case ?v of None \<Rightarrow> None | Some (f, _) \<Rightarrow> Some (f + q + i))"
    unfolding phys_of_def sp(1) unfolding sp(2) e by (cases ?v) (simp_all add: split_def)
qed

lemma resolve_small_ok:
  assumes "ub_len b \<le> 512" and "q + ub_len b \<le> 4096" and "0 < ub_len b" and "ub_base b < 140737488355328" and q: "q = ub_base b mod 4096"
  shows "if \<forall>i < ub_len b. phys_of (view (km_tables k) (page_table a)) (ub_base b + i) \<noteq> None
     then \<exists>sl. resolve E b a k = Inr (Inr sl)
       \<and> slice_bytes sl = map (\<lambda>i. the (phys_of (view (km_tables k) (page_table a)) (ub_base b + i))) [0 ..< ub_len b]
     else resolve E b a k = Inr (Inl (kerror_new EFAULT))"
proof (cases "view (km_tables k) (page_table a) (ub_base b - q)")
  case None
  note R = resolve_page [OF assms(1,2,4,5), where a = a and k = k, unfolded None]
  have "phys_of (view (km_tables k) (page_table a)) (ub_base b + 0) = None" using R(2) [OF assms(3)] by simp
  with assms(3) have "\<not> (\<forall>i < ub_len b. phys_of (view (km_tables k) (page_table a)) (ub_base b + i) \<noteq> None)" by blast
  then show ?thesis using R(1) by simp
next
  case (Some x)
  obtain f fl where x: "x = (f, fl)" by (cases x)
  note R = resolve_page [OF assms(1,2,4,5), where a = a and k = k, unfolded Some x option.case prod.case]
  have "map (\<lambda>i. the (phys_of (view (km_tables k) (page_table a)) (ub_base b + i))) [0 ..< ub_len b] = [f + q ..< f + q + ub_len b]"
    by (rule nth_equalityI) (simp_all add: R(2))
  then show ?thesis using R by (simp add: slice_bytes_def)
qed

end

subsection \<open>A kernel to try the theorems on\<close>

definition late_frames :: "nat \<Rightarrow> frame_globals" where
  "late_frames v = \<lparr>FRAME_ALLOCATOR = Some (sample_allocator\<lparr>range_iterator := sample_iterator\<lparr>current_range_index := 2, current_value := v\<rparr>\<rparr>),
     PHYS_MEM_SIZE = Some 0x1000000\<rparr>"

definition sample_kernel :: "table_mem kernel_mem" where
  "sample_kernel = \<lparr>km_frames = late_frames 0x200000,
     km_tables = \<lparr>tm_entries = (\<lambda>r i. if r = 0x101000 then Some i else None), tm_pages = (\<lambda>_ _. None)\<rparr>,
     km_bytes = (\<lambda>_. 0), KERNEL_PML4_PAGE_TABLE = Some 0x101000, km_cr3 = 0x101000\<rparr>"

definition mapped_kernel :: "table_mem kernel_mem" where
  "mapped_kernel = sample_kernel\<lparr>km_tables := \<lparr>tm_entries = (\<lambda>r i. Some 0), tm_pages = (\<lambda>_ p. Some (p + 0x100000, user_flags))\<rparr>\<rparr>"

lemma late_alloc:
  assumes "0x105000 \<le> v" and "v + 0x1000 \<le> 0x1000000"
  shows "frame_alloc x86_model (late_frames v) = Inr (Some (v - v mod 4096), late_frames (v + 4096))"
  using assms
  by (simp add: frame_alloc_def allocate_frame_def late_frames_def with_frame_alloc_def allocate_frames_def next_n_def
      next_n_rec.simps skip_loop.simps skip_range.simps rg_contains_def PAGE_SIZE_def sample_allocator_def sample_iterator_def x86_model_def)

lemma late_wf: "0x105000 \<le> v \<Longrightarrow> v mod 4096 = 0 \<Longrightarrow> kg_wf (late_frames v)"
  using sample_wf
  by (auto simp: kg_wf_def late_frames_def kf_wf_def it_wf_def sample_allocator_def sample_iterator_def PAGE_SIZE_def mod_0_imp_dvd
      nth_Cons split: nat.splits)

lemma late_forbidden: "0x101000 \<in> kg_forbidden (late_frames v)"
  by (auto simp: kg_forbidden_def kf_forbidden_def it_unavailable_def covered_def late_frames_def
      sample_allocator_def sample_iterator_def rg_set_def image_iff)

subsection \<open>Copying\<close>

lemma copy_to_low: "dst + len \<le> x \<Longrightarrow> copy_to dst src len m x = m x"
  by (induction len arbitrary: dst src m) auto

lemma copy_slices_low:
  assumes "copy_slices src slices m = Inr m'" and "256 + sum_list (map snd slices) \<le> x"
  shows "m' x = m x"
  using assms
proof (induction slices arbitrary: m)
  case Nil then show ?case by simp
next
  case (Cons s slices)
  obtain p n where s: "s = (p, n)" by (cases s)
  obtain b :: "8 word" where b: "copy_slices src slices (copy_to (unat (m p)) (unat b) n m) = Inr m'"
  proof -
    from Cons.prems(1) have "copy_slices src slices (copy_to (unat (m p)) (unat (src ! 0)) n m) = Inr m'"
      by (auto simp: s run_simps split: if_splits)
    then show ?thesis by (rule that)
  qed
  have "unat (m p) < 256" using unsigned_less [of "m p", where ?'a = nat] by simp
  then have "copy_to (unat (m p)) (unat b) n m x = m x" using Cons.prems(2) by (intro copy_to_low) (simp add: s)
  with Cons.IH [OF b] Cons.prems(2) show ?case by (simp add: s)
qed

lemma map_large_bytes: "map_large E ps (a, k) = Inr (a', k') \<Longrightarrow> km_bytes k' = km_bytes k"
  by (induction ps arbitrary: a k)
     (auto simp: run_simps km_frame_alloc_def as_map_to_def km_map_to_def split: prod.splits)

lemma addrsp_alloc_bytes:
  assumes "addrsp_alloc E n (a, k) = Inr (b, a', k')"
  shows "km_bytes k' = km_bytes k"
  using assms map_large_bytes
  by (auto simp: addrsp_alloc_def alloc_small_def alloc_medium_def alloc_large_def new_buffer_page_def next_page_unused_def
      as_map_to_def km_map_to_def km_frame_alloc_def run_simps Let_def split: prod.splits if_splits)

lemma alloc_and_copy_bytes:
  assumes "alloc_and_copy_from E src (a, k) = Inr (Inr b, a', k')" and "256 + length src \<le> x"
  shows "km_bytes k' x = km_bytes k x"
proof -
  obtain y where y: "addrsp_alloc E (length src) (a, k) = Inr y"
    and rest: "(case y of (b, a, k) \<Rightarrow> and_then (resolve E b a k) (\<lambda>r. case r of Inl e \<Rightarrow> Inr (Inl e, a, k)
       | Inr slices \<Rightarrow> and_then (assert_run (sum_list (map snd slices) = length src)) (\<lambda>_.
           and_then (copy_slices src slices (km_bytes k)) (\<lambda>m. Inr (Inr b, a, k\<lparr>km_bytes := m\<rparr>))))) = Inr (Inr b, a', k')"
    using assms(1) unfolding alloc_and_copy_from_def and_then_eq_Inr by blast
  obtain c a1 k1 where xc: "y = (c, a1, k1)" by (cases y)
  have al: "addrsp_alloc E (length src) (a, k) = Inr (c, a1, k1)" using y xc by simp
  from rest obtain r :: "kerror + (nat \<times> nat) list" where "(case r of Inl e \<Rightarrow> Inr (Inl e, a1, k1)
       | Inr slices \<Rightarrow> and_then (assert_run (sum_list (map snd slices) = length src)) (\<lambda>_.
           and_then (copy_slices src slices (km_bytes k1)) (\<lambda>m. Inr (Inr c, a1, k1\<lparr>km_bytes := m\<rparr>)))) = Inr (Inr b, a', k')"
    unfolding xc prod.case and_then_eq_Inr by blast
  then obtain sl m where "sum_list (map snd sl) = length src" "copy_slices src sl (km_bytes k1) = Inr m"
    and k': "k' = k1\<lparr>km_bytes := m\<rparr>"
    by (cases r) (auto simp: run_simps)
  then have "m x = km_bytes k1 x" using assms(2) by (intro copy_slices_low) (assumption | linarith)+
  then show ?thesis using addrsp_alloc_bytes [OF al] k' by simp
qed

lemma alloc_small_fits:
  assumes "sz + small_buffer_pointer a \<le> PAGE_SIZE" and "alloc_small E sz (a, k) = Inr (b, a', k')"
  shows "page_addr E a (tf_index (last (tracked_small_buffers a))) = Inr (ub_base b)"
    and "a' = a\<lparr>small_buffer_pointer := small_buffer_pointer a + sz\<rparr>"
proof -
  have "\<not> sz + small_buffer_pointer a > PAGE_SIZE" using assms(1) by simp
  then have "page_addr E a (tf_index (last (tracked_small_buffers a))) = Inr (ub_base b)
      \<and> a' = a\<lparr>small_buffer_pointer := small_buffer_pointer a + sz\<rparr>"
    using assms(2) by (auto simp: alloc_small_def user_buffer_new_def and_then_eq_Inr split: if_splits)
  then show "page_addr E a (tf_index (last (tracked_small_buffers a))) = Inr (ub_base b)"
    "a' = a\<lparr>small_buffer_pointer := small_buffer_pointer a + sz\<rparr>" by simp_all
qed

definition new_tables :: "nat \<Rightarrow> nat \<Rightarrow> table_mem \<Rightarrow> table_mem" where
  "new_tables kr v t =
     fold (\<lambda>i. sp_copy_entry (table_mem_ops :: (table_mem, pte_source) space_ops) v i kr i) kernel_slots
       (tm_put v 0x2000 (Some (v + 0x2000, user_flags)) (tm_put v 0x1000 (Some (v + 0x1000, user_flags))
         (sp_clear (table_mem_ops :: (table_mem, pte_source) space_ops) v t)))"

definition new_space :: "nat \<Rightarrow> user_addr_space" where
  "new_space v = \<lparr>page_table = v, pte_frames = [], tracked_large_buffers = [],
     tracked_medium_buffers = [\<lparr>tf_frame = v + 0x2000, tf_index = 1\<rparr>], medium_buffer_pointer = 0,
     tracked_small_buffers = [\<lparr>tf_frame = v + 0x1000, tf_index = 0\<rparr>], small_buffer_pointer = 0,
     consumed_page_count = 2, as_base_address = 0x1000\<rparr>"

lemma sample_new:
  assumes "0x105000 \<le> v" and "v + 0x3000 \<le> 0x1000000" and "v mod 4096 = 0"
    and "km_frames k = late_frames v" and "KERNEL_PML4_PAGE_TABLE k = Some kr"
  shows "rwlock_addrsp_new table_env 0x1000 k = Inr (new_space v,
     k\<lparr>km_frames := late_frames (v + 0x3000), km_tables := new_tables kr v (km_tables k)\<rparr>)"
proof -
  have m: "(v + 4096) mod 4096 = 0" "(v + 8192) mod 4096 = 0" using assms(3) mod_mult_self1 [of v 2 4096] by simp_all
  have a: "frame_alloc x86_model (late_frames v) = Inr (Some v, late_frames (v + 0x1000))"
    "frame_alloc x86_model (late_frames (v + 0x1000)) = Inr (Some (v + 0x1000), late_frames (v + 0x2000))"
    "frame_alloc x86_model (late_frames (v + 0x2000)) = Inr (Some (v + 0x2000), late_frames (v + 0x3000))"
    using assms(1-3) m by (simp_all add: late_alloc add.commute [of v])
  have ops: "sp_map_to table_mem_ops al r t s p f fl = Inr (if tm_view t r p = None then (Inr (), tm_put r p (Some (f, fl)) t, s)
          else (Inl PageAlreadyMapped, t, s))" for al r t p f fl and s :: pte_source
    by (simp add: table_mem_ops_def)
  have v: "tm_view (sp_clear (table_mem_ops :: (table_mem, pte_source) space_ops) v (km_tables k)) v p = None" for p
    by (simp add: table_mem_ops_def tm_view_def)
  have x: "VirtAddr_new x86_model 0x1000 = Inr 0x1000" "VirtAddr_new x86_model 0x2000 = Inr 0x2000"
    "page_containing x86_model 0x1000 = 0x1000" "page_containing x86_model 0x2000 = 0x2000"
    by (simp_all add: x86_model_def canonical_def)
  have en: "ke_x86 table_env = x86_model" "ke_space table_env = table_mem_ops" by (simp_all add: table_env_def)
  define k0 where "k0 = k\<lparr>km_frames := late_frames (v + 0x1000)\<rparr>"
  define k1 where "k1 = k0\<lparr>km_tables := sp_clear (table_mem_ops :: (table_mem, pte_source) space_ops) v (km_tables k0)\<rparr>"
  define k2 where "k2 = k1\<lparr>km_frames := late_frames (v + 0x2000)\<rparr>"
  define k3 where "k3 = k2\<lparr>km_frames := late_frames (v + 0x3000)\<rparr>"
  define k4 where "k4 = k3\<lparr>km_tables := tm_put v 0x1000 (Some (v + 0x1000, user_flags)) (km_tables k3)\<rparr>"
  define k5 where "k5 = k4\<lparr>km_tables := tm_put v 0x2000 (Some (v + 0x2000, user_flags)) (km_tables k4)\<rparr>"
  note ks = k5_def k4_def k3_def k2_def k1_def k0_def
  have f: "km_frame_alloc table_env msg k = Inr (v, k0)" "km_frame_alloc table_env msg k1 = Inr (v + 0x1000, k2)"
    "km_frame_alloc table_env msg k2 = Inr (v + 0x2000, k3)" for msg
    using assms(4) by (simp_all add: km_frame_alloc_def a en ks)
  have mp: "km_map_to table_env msg v [] 0x1000 (v + 0x1000) user_flags k3 = Inr ([], k4)"
    "km_map_to table_env msg v [] 0x2000 (v + 0x2000) user_flags k4 = Inr ([], k5)" for msg
    by (simp_all add: km_map_to_def en ops v tm_put_view ks)
  have n: "addrsp_new table_env 0x1000 k = Inr (new_space v, k5)"
    unfolding addrsp_new_def by (simp add: f mp x en k1_def [symmetric] PAGE_SIZE_def new_space_def Let_def)
  have pt: "page_table (new_space v) = v" by (simp add: new_space_def)
  have "KERNEL_PML4_PAGE_TABLE k5 = Some kr" using assms(5) by (simp add: ks)
  then have s: "setup_kernel table_env (new_space v) k5 = Inr (k5\<lparr>km_tables := new_tables kr v (km_tables k)\<rparr>)"
    unfolding setup_kernel_def get_kernel_pml4_page_table_addr_def new_tables_def pt by (simp add: en ks)
  show ?thesis unfolding rwlock_addrsp_new_def n and_then_Inr prod.case s by (simp add: ks)
qed

subsection \<open>Properties\<close>



text \<open>Small buffers overlap: as long as the current page has room, every small buffer begins at the
  start of that page, so two buffers handed out one after the other have the same address.\<close>
theorem small_buffers_overlap:
  assumes "s1 + s2 + small_buffer_pointer a \<le> PAGE_SIZE" and "s1 \<le> 64" and "s2 \<le> 64"
    and "addrsp_alloc E s1 (a, k) = Inr (b1, a1, k1)" and "addrsp_alloc E s2 (a1, k1) = Inr (b2, a2, k2)"
  shows "ub_base b1 = ub_base b2"
proof -
  have al: "alloc_small E s1 (a, k) = Inr (b1, a1, k1)" "alloc_small E s2 (a1, k1) = Inr (b2, a2, k2)"
    using assms(2-5) by (simp_all add: addrsp_alloc_def)
  have "s1 + small_buffer_pointer a \<le> PAGE_SIZE" using assms(1) by simp
  note A = alloc_small_fits [OF this al(1)]
  have "s2 + small_buffer_pointer a1 \<le> PAGE_SIZE" using assms(1) A(2) by simp
  note B = alloc_small_fits [OF this al(2)]
  show ?thesis using A B(1) by (simp add: page_addr_def)
qed

theorem small_buffers_overlap_witness:
  "\<exists>b1 a1 k1 b2 a2 k2. addrsp_alloc table_env 64 (new_space 0x200000, sample_kernel) = Inr (b1, a1, k1)
     \<and> addrsp_alloc table_env 64 (a1, k1) = Inr (b2, a2, k2) \<and> ub_base b1 = ub_base b2"
proof -
  let ?a1 = "(new_space 0x200000)\<lparr>small_buffer_pointer := 64\<rparr>"
  have s1: "addrsp_alloc table_env 64 (new_space 0x200000, sample_kernel) = Inr (user_buffer_new 0x1000 64, ?a1, sample_kernel)"
    by (simp add: addrsp_alloc_def alloc_small_def page_addr_def new_space_def PAGE_SIZE_def table_env_def x86_model_def canonical_def)
  have s2: "addrsp_alloc table_env 64 (?a1, sample_kernel)
      = Inr (user_buffer_new 0x1000 64, ?a1\<lparr>small_buffer_pointer := 128\<rparr>, sample_kernel)"
    by (simp add: addrsp_alloc_def alloc_small_def page_addr_def new_space_def PAGE_SIZE_def table_env_def x86_model_def canonical_def)
  have "64 + 64 + small_buffer_pointer (new_space 0x200000) \<le> PAGE_SIZE" by (simp add: new_space_def PAGE_SIZE_def)
  then have "ub_base (user_buffer_new 0x1000 64) = ub_base (user_buffer_new 0x1000 64)"
    by (rule small_buffers_overlap [OF _ _ _ s1 s2]) simp_all
  with s1 s2 show ?thesis by blast
qed



text \<open>C39. Copying into a new buffer never reaches the buffer: the addresses the copy uses are the values
  of bytes, so no byte of memory above the first 256 plus the length of the source changes, while every
  frame of a buffer lies above 1 MiB.\<close>
theorem copy_misses_buffer:
  assumes "alloc_and_copy_from E src (a, k) = Inr (Inr b, a', k')" and "256 + length src \<le> x"
  shows "km_bytes k' x = km_bytes k x"
  using alloc_and_copy_bytes [OF assms] .

theorem copy_misses_buffer_witness:
  "\<exists>b a' k'. alloc_and_copy_from table_env [1, 2] (new_space 0x200000, mapped_kernel) = Inr (Inr b, a', k')
     \<and> resolve table_env b a' k' = Inr (Inr [(0x101000, 2)]) \<and> km_bytes k' 0x101000 = km_bytes mapped_kernel 0x101000"
proof -
  let ?b = "user_buffer_new 0x1000 2" and ?a = "(new_space 0x200000)\<lparr>small_buffer_pointer := 2\<rparr>"
  have al: "addrsp_alloc table_env 2 (new_space 0x200000, mapped_kernel) = Inr (?b, ?a, mapped_kernel)"
    by (simp add: addrsp_alloc_def alloc_small_def page_addr_def new_space_def PAGE_SIZE_def table_env_def x86_model_def canonical_def)
  have rs: "resolve table_env ?b ?a k = Inr (Inr [(0x101000, 2)])" if "km_tables k = km_tables mapped_kernel" for k
    using that by (simp add: resolve_def user_buffer_new_def table_env_def table_mem_ops_def tm_view_def mapped_kernel_def
        x86_model_def canonical_def Let_def)
  obtain m where "alloc_and_copy_from table_env [1, 2] (new_space 0x200000, mapped_kernel) = Inr (Inr ?b, ?a, mapped_kernel\<lparr>km_bytes := m\<rparr>)"
    using al rs [of mapped_kernel] by (simp add: alloc_and_copy_from_def numeral_2_eq_2)
  with copy_misses_buffer [OF this, of "0x101000"] rs show ?thesis by auto
qed

end
