(* ===== verification/Contexts.thy ===== *)
theory Contexts
  imports User_Space Trap_Frames
begin

section \<open>Contexts (kernel/src/context/mod.rs, list.rs, status.rs, signal.rs, cpu.rs)\<close>

text \<open>
  A context is what the kernel schedules.  The theory holds its record, the operations on its status and
  its address space, the allocator of context numbers, the storage of all contexts (a \<open>BTreeMap\<close>, here the
  list of its entries in ascending order of the keys), the creation of the first context of a processor
  and of new contexts with their kernel stack.  Shared address spaces (\<open>Arc\<close>) are named by numbers, so that
  \<open>Arc::ptr_eq\<close> is equality.

  It shows that no two live contexts ever have the same number, and what a spawned context starts with.
\<close>

unbundle bit_operations_syntax

subsection \<open>Status and signals\<close>

datatype hard_blocked_reason = NotYetStarted

datatype status =
    Runnable
  | SoftBlocked string
  | HardBlocked hard_blocked_reason
  | Stopped nat
  | Existed nat

definition is_runnable :: "status \<Rightarrow> bool" where
  "is_runnable s = (case s of Runnable \<Rightarrow> True | _ \<Rightarrow> False)"

definition is_soft_blocked :: "status \<Rightarrow> bool" where
  "is_soft_blocked s = (case s of SoftBlocked _ \<Rightarrow> True | _ \<Rightarrow> False)"

definition SIGKILL :: nat where
  "SIGKILL = 9"

definition SIGSTOP :: nat where
  "SIGSTOP = 19"

record signal_state =
  pending :: word64
  procmask :: word64

definition CANT_BLOCK :: word64 where
  "CANT_BLOCK = push_bit (SIGKILL - 1) 1 OR push_bit (SIGSTOP - 1) 1"

definition deliverable :: "signal_state \<Rightarrow> word64" where
  "deliverable s = pending s AND (CANT_BLOCK OR NOT (procmask s))"

subsection \<open>The context\<close>

record context_registers =
  cr_rflags :: word64
  cr_rbx :: word64
  cr_r12 :: word64
  cr_r13 :: word64
  cr_r14 :: word64
  cr_r15 :: word64
  cr_rbp :: word64
  cr_rsp :: word64
  cr_fsbase :: word64
  cr_gsbase :: word64
  userspace_io_allowed :: bool

definition context_registers_new :: context_registers where
  "context_registers_new = \<lparr>cr_rflags = 0, cr_rbx = 0, cr_r12 = 0, cr_r13 = 0, cr_r14 = 0, cr_r15 = 0, cr_rbp = 0,
     cr_rsp = 0, cr_fsbase = 0, cr_gsbase = 0, userspace_io_allowed = False\<rparr>"

definition cr_set_stack_pointer :: "word64 \<Rightarrow> context_registers \<Rightarrow> context_registers" where
  "cr_set_stack_pointer a r = r\<lparr>cr_rsp := a\<rparr>"

text \<open>A kernel stack is the address and the length of its slice.\<close>

record kcontext =
  cx_id :: nat
  running :: bool
  cx_cpu_id :: "nat option"
  cx_inside_syscall :: bool
  kstack :: "(nat \<times> nat) option"
  cx_status :: status
  signal :: signal_state
  ctx_regs :: context_registers
  userspace :: bool
  addrsp :: "nat option"

definition context_new :: "nat \<Rightarrow> kcontext" where
  "context_new cid = \<lparr>cx_id = cid, running = False, cx_cpu_id = None, cx_inside_syscall = False, kstack = None,
     cx_status = HardBlocked NotYetStarted, signal = \<lparr>pending = 0, procmask = NOT 0\<rparr>,
     ctx_regs = context_registers_new, userspace = False, addrsp = None\<rparr>"

definition soft_block :: "string \<Rightarrow> kcontext \<Rightarrow> bool \<times> kcontext" where
  "soft_block reason c = (if is_runnable (cx_status c) then (True, c\<lparr>cx_status := SoftBlocked reason\<rparr>) else (False, c))"

definition hard_block :: "hard_blocked_reason \<Rightarrow> kcontext \<Rightarrow> bool \<times> kcontext" where
  "hard_block reason c = (if is_runnable (cx_status c) then (True, c\<lparr>cx_status := HardBlocked reason\<rparr>) else (False, c))"

definition unblock_no_ipi :: "kcontext \<Rightarrow> bool \<times> kcontext" where
  "unblock_no_ipi c = (if is_soft_blocked (cx_status c) then (True, c\<lparr>cx_status := Runnable\<rparr>) else (False, c))"

text \<open>The interrupt \<open>unblock\<close> would send to another processor is commented out in the source.\<close>

definition unblock :: "kcontext \<Rightarrow> bool \<times> kcontext" where
  "unblock c = (let (b, c') = unblock_no_ipi c in if b then (True, c') else (False, c'))"

text \<open>\<open>regs\<close>: the frame at the top of the kernel stack, for contexts that live in user space.\<close>

definition can_access_regs :: "kcontext \<Rightarrow> bool" where
  "can_access_regs c = userspace c"

definition regs_addr :: "kcontext \<Rightarrow> nat option" where
  "regs_addr c =
     (if \<not> can_access_regs c then None
      else case kstack c of
          None \<Rightarrow> None
        | Some (p, n) \<Rightarrow> if n < unat INT_REGS_SIZE then None else Some (p + (n - unat INT_REGS_SIZE)))"

subsection \<open>Context numbers\<close>

record context_id_allocator =
  head :: nat
  recycled :: "nat list"

definition id_allocator_new :: "nat \<Rightarrow> context_id_allocator" where
  "id_allocator_new init_id_exclusive = \<lparr>head = init_id_exclusive, recycled = []\<rparr>"

definition id_dealloc :: "nat \<Rightarrow> context_id_allocator \<Rightarrow> nat \<times> context_id_allocator" where
  "id_dealloc cid a =
     (if cid \<in> set (recycled a) then (0, a) else (cid, a\<lparr>recycled := recycled a @ [cid]\<rparr>))"

definition id_alloc :: "context_id_allocator \<Rightarrow> (nat \<times> context_id_allocator) run" where
  "id_alloc a =
     (case recycled a of
        [] \<Rightarrow> and_then (add64 (head a) 1) (\<lambda>h. Inr (h, a\<lparr>head := h\<rparr>))
      | cid # rest \<Rightarrow> Inr (cid, a\<lparr>recycled := rest\<rparr>))"

subsection \<open>The storage\<close>

text \<open>\<open>BTreeMap::insert\<close> on the entries in key order.\<close>

fun bt_insert :: "nat \<Rightarrow> 'a \<Rightarrow> (nat \<times> 'a) list \<Rightarrow> (nat \<times> 'a) list" where
  "bt_insert k v [] = [(k, v)]"
| "bt_insert k v ((k', v') # xs) =
     (if k < k' then (k, v) # (k', v') # xs else if k = k' then (k, v) # xs else (k', v') # bt_insert k v xs)"

definition bt_update :: "nat \<Rightarrow> ('a \<Rightarrow> 'a) \<Rightarrow> (nat \<times> 'a) list \<Rightarrow> (nat \<times> 'a) list" where
  "bt_update k f xs = map (\<lambda>(k', v). (k', if k' = k then f v else v)) xs"

record context_storage =
  cs_map :: "(nat \<times> kcontext) list"
  cs_ids :: context_id_allocator

definition storage_new :: "nat \<Rightarrow> context_storage" where
  "storage_new init_id_exclusive = \<lparr>cs_map = [], cs_ids = id_allocator_new init_id_exclusive\<rparr>"

definition insert_context :: "nat \<Rightarrow> context_storage \<Rightarrow> (32 word + nat) \<times> context_storage" where
  "insert_context cid st =
     (let old = map_of (cs_map st) cid; st' = st\<lparr>cs_map := bt_insert cid (context_new cid) (cs_map st)\<rparr>
      in if old \<noteq> None then (Inl EAGAIN, st') else (Inr cid, st'))"

definition remove_context :: "nat \<Rightarrow> context_storage \<Rightarrow> kcontext option \<times> context_storage" where
  "remove_context cid st = (map_of (cs_map st) cid, st\<lparr>cs_map := filter (\<lambda>(k, _). k \<noteq> cid) (cs_map st)\<rparr>)"

definition new_context :: "context_storage \<Rightarrow> ((32 word + nat) \<times> context_storage) run" where
  "new_context st = and_then (id_alloc (cs_ids st)) (\<lambda>(cid, a). Inr (insert_context cid (st\<lparr>cs_ids := a\<rparr>)))"

subsection \<open>Processors and the whole kernel\<close>

text \<open>\<open>PercpuBlock\<close> with \<open>ContextSwitchPercpu\<close>; the two guards of \<open>switch_result\<close> are the numbers of the locked
  contexts.\<close>

record percpu =
  pc_cpu_id :: nat
  switch_result :: "(nat \<times> nat) option"
  pit_ticks :: nat
  pc_context_id :: nat
  pc_idle_id :: nat
  switch_signal :: bool
  pc_inside_syscall :: bool

record 't kernel_sys =
  ky_mem :: "'t kernel_mem"
  ky_spaces :: "nat \<Rightarrow> user_addr_space option"
  ky_next_space :: nat
  ky_storage :: context_storage
  GDT_USER_CODE64 :: "word64 option"
  GDT_USER_DATA :: "word64 option"

definition current_context :: "percpu \<Rightarrow> context_storage \<Rightarrow> kcontext option" where
  "current_context p st = map_of (cs_map st) (pc_context_id p)"

definition init_context :: "percpu \<Rightarrow> context_storage \<Rightarrow> (percpu \<times> context_storage) run" where
  "init_context p st =
     (let cid = pc_cpu_id p; (r, st') = insert_context cid st in
      and_then (or_panic_result r ''failed to initialize first context'') (\<lambda>_.
        let st'' = st'\<lparr>cs_map := bt_update cid (\<lambda>c. c\<lparr>signal := (signal c)\<lparr>procmask := 0\<rparr>, cx_status := Runnable,
             running := True, cx_cpu_id := Some (pc_cpu_id p)\<rparr>) (cs_map st')\<rparr>
        in Inr (p\<lparr>pc_context_id := cid, pc_idle_id := cid\<rparr>, st'')))"

text \<open>\<open>UserBuffer::resolve_by_current\<close>.\<close>

definition ESRCH :: "32 word" where
  "ESRCH = 3"

definition resolve_by_current ::
  "'t kernel_env \<Rightarrow> percpu \<Rightarrow> user_buffer \<Rightarrow> 't kernel_sys \<Rightarrow> (kerror + (nat \<times> nat) list) run" where
  "resolve_by_current E p b s =
     (case current_context p (ky_storage s) of
        None \<Rightarrow> Inr (Inl (kerror_new ESRCH))
      | Some c \<Rightarrow>
          (case addrsp c of
             None \<Rightarrow> Inr (Inl (kerror_new ENOMEM))
           | Some h \<Rightarrow> (case ky_spaces s h of None \<Rightarrow> Inl Undefined | Some a \<Rightarrow> resolve E b a (ky_mem s))))"

text \<open>\<open>Context::set_addr_space\<close> on the context number \<open>cid\<close>; the old address space is the result.\<close>

definition set_addr_space ::
  "'t kernel_env \<Rightarrow> percpu \<Rightarrow> nat \<Rightarrow> nat option \<Rightarrow> 't kernel_sys \<Rightarrow> (nat option \<times> 't kernel_sys) run" where
  "set_addr_space E p cid new s =
     (case map_of (cs_map (ky_storage s)) cid of
        None \<Rightarrow> Inl Undefined
      | Some c \<Rightarrow>
          if addrsp c \<noteq> None \<and> addrsp c = new then Inr (new, s)
          else
            and_then
              (if cx_id c = pc_context_id p then
                 (case new of
                    Some h \<Rightarrow>
                      (case ky_spaces s h of None \<Rightarrow> Inl Undefined
                       | Some a \<Rightarrow> and_then (validate E a (ky_mem s)) (\<lambda>k. Inr (s\<lparr>ky_mem := k\<rparr>)))
                  | None \<Rightarrow>
                      and_then (get_kernel_pml4_page_table_addr (ky_mem s)) (\<lambda>kpt.
                      and_then (PhysAddr_new (ke_x86 E) kpt) (\<lambda>pa.
                        Inr (s\<lparr>ky_mem := (ky_mem s)\<lparr>km_cr3 := frame_containing (ke_x86 E) pa\<rparr>\<rparr>))))
               else and_then (assert_run (\<not> running c)) (\<lambda>_. Inr s))
              (\<lambda>s. Inr (addrsp c, s\<lparr>ky_storage := (ky_storage s)\<lparr>cs_map :=
                 bt_update cid (\<lambda>c. c\<lparr>addrsp := new\<rparr>) (cs_map (ky_storage s))\<rparr>\<rparr>)))"

subsection \<open>Spawning\<close>

text \<open>Writes to memory through a pointer.\<close>

definition write_zeros :: "nat \<Rightarrow> nat \<Rightarrow> (nat \<Rightarrow> 8 word) \<Rightarrow> nat \<Rightarrow> 8 word" where
  "write_zeros p n m = (\<lambda>x. if p \<le> x \<and> x < p + n then 0 else m x)"

definition write_usize :: "nat \<Rightarrow> word64 \<Rightarrow> (nat \<Rightarrow> 8 word) \<Rightarrow> nat \<Rightarrow> 8 word" where
  "write_usize p v m = (\<lambda>x. if p \<le> x \<and> x < p + 8 then ucast (drop_bit (8 * (x - p)) v) else m x)"

definition KSTACK_PAGE :: nat where
  "KSTACK_PAGE = 0x7F80000000"

fun map_kstack ::
  "'t kernel_env \<Rightarrow> nat \<Rightarrow> nat list \<Rightarrow> user_addr_space \<times> 't kernel_mem \<Rightarrow> (user_addr_space \<times> 't kernel_mem) run" where
  "map_kstack E frame [] s = Inr s"
| "map_kstack E frame (i # is) s =
     and_then (raw_map_to E (KSTACK_PAGE + i * PAGE_SIZE) (frame + i * PAGE_SIZE)
         {PRESENT, USER_ACCESSIBLE, WRITABLE, NO_EXECUTE} s) (map_kstack E frame is)"

text \<open>The words at the top of the new stack: for a user context a zeroed frame with the initial flags, segments
  and stack pointer and the address of \<open>enter_usermode\<close>; below them the function.  The result is the new
  stack pointer.\<close>

definition init_frame_at ::
  "word64 option \<Rightarrow> word64 option \<Rightarrow> nat \<Rightarrow> (nat \<Rightarrow> 8 word) \<Rightarrow> (nat \<Rightarrow> 8 word) run" where
  "init_frame_at code data p m =
     and_then (or_panic code ''failed to get user code segment sector'') (\<lambda>c.
     and_then (or_panic data ''failed to get user data segment sector'') (\<lambda>d.
       Inr (write_usize (p + 152) d (write_usize (p + 128) c (write_usize (p + 136) 0x200 m)))))"

definition user_stack_pointer :: nat where
  "user_stack_pointer = KSTACK_PAGE + PAGE_SIZE * 64 - 160 + 144 + 8"

definition init_kstack ::
  "word64 option \<Rightarrow> word64 option \<Rightarrow> bool \<Rightarrow> word64 \<Rightarrow> word64 \<Rightarrow> nat \<Rightarrow> (nat \<Rightarrow> 8 word) \<Rightarrow> (nat \<times> (nat \<Rightarrow> 8 word)) run" where
  "init_kstack code data userspace_allowed func enter stack m =
     (let tos = stack + PAGE_SIZE * 64 in
      and_then
        (if userspace_allowed then
           let tos = tos - 160 in
           and_then (init_frame_at code data tos (write_zeros tos 160 m)) (\<lambda>m.
             let m = write_usize (tos + 144) (of_nat user_stack_pointer) m; tos = tos - 8
             in Inr (tos, write_usize tos enter m))
         else Inr (tos, m))
        (\<lambda>(tos, m). Inr (tos - 8, write_usize (tos - 8) func m)))"

definition spawn ::
  "'t kernel_env \<Rightarrow> percpu \<Rightarrow> bool \<Rightarrow> word64 \<Rightarrow> word64 \<Rightarrow> 't kernel_sys \<Rightarrow> ((32 word + nat) \<times> 't kernel_sys) run" where
  "spawn E p userspace_allowed func enter s =
     and_then (frame_alloc_n (ke_x86 E) 64 (km_frames (ky_mem s))) (\<lambda>(r, g).
     let s = s\<lparr>ky_mem := (ky_mem s)\<lparr>km_frames := g\<rparr>\<rparr> in
     case r of
       None \<Rightarrow> Inr (Inl ENOMEM, s)
     | Some stack \<Rightarrow>
         let s = s\<lparr>ky_mem := (ky_mem s)\<lparr>km_bytes := write_zeros stack (PAGE_SIZE * 64) (km_bytes (ky_mem s))\<rparr>\<rparr> in
         and_then (new_context (ky_storage s)) (\<lambda>(res, st).
         let s = s\<lparr>ky_storage := st\<rparr> in
         case res of
           Inl e \<Rightarrow> Inr (Inl e, s)
         | Inr cid \<Rightarrow>
             and_then (rwlock_addrsp_new E 0x1000 (ky_mem s)) (\<lambda>(a, k).
             and_then (PhysAddr_new (ke_x86 E) stack) (\<lambda>pa.
             and_then (map_kstack E (frame_containing (ke_x86 E) pa) [0 ..< 64] (a, k)) (\<lambda>(a, k).
             let h = ky_next_space s;
                 s = s\<lparr>ky_mem := k, ky_spaces := (ky_spaces s)(h := Some a), ky_next_space := h + 1\<rparr> in
             and_then (set_addr_space E p cid (Some h) s) (\<lambda>(_, s).
             and_then (init_kstack (GDT_USER_CODE64 s) (GDT_USER_DATA s) userspace_allowed func enter stack (km_bytes (ky_mem s)))
               (\<lambda>(tos, m).
               Inr (Inr cid, s\<lparr>ky_mem := (ky_mem s)\<lparr>km_bytes := m\<rparr>,
                 ky_storage := (ky_storage s)\<lparr>cs_map := bt_update cid
                   (\<lambda>c. c\<lparr>ctx_regs := cr_set_stack_pointer (of_nat tos) (ctx_regs c),
                          kstack := Some (stack, PAGE_SIZE * 64), userspace := userspace_allowed\<rparr>)
                   (cs_map (ky_storage s))\<rparr>\<rparr>))))))))"

subsection \<open>The entries of the storage\<close>

lemma map_of_bt_insert: "sorted_wrt (<) (map fst xs) \<Longrightarrow> map_of (bt_insert k v xs) = (map_of xs)(k \<mapsto> v)"
  by (induction k v xs rule: bt_insert.induct) (auto simp: fun_eq_iff map_of_eq_None_iff)

lemma keys_bt_insert: "set (map fst (bt_insert k v xs)) = insert k (set (map fst xs))"
  by (induction k v xs rule: bt_insert.induct) auto

lemma sorted_bt_insert: "sorted_wrt (<) (map fst xs) \<Longrightarrow> sorted_wrt (<) (map fst (bt_insert k v xs))"
proof (induction k v xs rule: bt_insert.induct)
  case (2 k v k' v' xs)
  then show ?case using keys_bt_insert [of k v xs] by (auto simp del: set_map)
qed simp

lemma keys_bt_update [simp]: "map fst (bt_update k f xs) = map fst xs"
  by (simp add: bt_update_def case_prod_beta' comp_def)

lemma map_of_bt_update: "map_of (bt_update k f xs) j = (if j = k then map_option f (map_of xs j) else map_of xs j)"
  by (induction xs) (auto simp: bt_update_def)

lemma map_of_filter_key: "map_of (filter (\<lambda>(k, _). k \<noteq> i) xs) j = (if j = i then None else map_of xs j)"
  by (induction xs) auto

text \<open>The states a storage goes through: processors create their first context, contexts are created and
  removed (a removed number goes back to the allocator), and anything may happen to the fields of a context.\<close>

inductive storage_reach :: "nat \<Rightarrow> context_storage \<Rightarrow> bool" for n where
  sr_start: "storage_reach n (storage_new n)"
| sr_init: "storage_reach n st \<Longrightarrow> pc_cpu_id p < n \<Longrightarrow> init_context p st = Inr (p', st') \<Longrightarrow> storage_reach n st'"
| sr_new: "storage_reach n st \<Longrightarrow> new_context st = Inr (r, st') \<Longrightarrow> storage_reach n st'"
| sr_remove: "storage_reach n st \<Longrightarrow> n < i \<Longrightarrow> map_of (cs_map st) i \<noteq> None \<Longrightarrow> remove_context i st = (c, st') \<Longrightarrow>
    id_dealloc i (cs_ids st') = (r, a) \<Longrightarrow> storage_reach n (st'\<lparr>cs_ids := a\<rparr>)"
| sr_change: "storage_reach n st \<Longrightarrow> storage_reach n (st\<lparr>cs_map := bt_update i f (cs_map st)\<rparr>)"

text \<open>The invariant: live and recycled numbers above \<open>n\<close> were handed out, and no number is both.\<close>

definition ids_inv :: "nat \<Rightarrow> context_storage \<Rightarrow> bool" where
  "ids_inv n st \<longleftrightarrow>
     sorted_wrt (<) (map fst (cs_map st)) \<and> n \<le> head (cs_ids st)
     \<and> (\<forall>i \<in> set (map fst (cs_map st)). i < n \<or> n < i \<and> i \<le> head (cs_ids st))
     \<and> (\<forall>i \<in> set (recycled (cs_ids st)). n < i \<and> i \<le> head (cs_ids st))
     \<and> distinct (recycled (cs_ids st)) \<and> set (recycled (cs_ids st)) \<inter> set (map fst (cs_map st)) = {}"

lemma id_alloc_fresh:
  assumes "ids_inv n st" and "id_alloc (cs_ids st) = Inr (i, a)"
  shows "i \<notin> set (map fst (cs_map st))" and "n < i" and "i \<le> head a" and "head (cs_ids st) \<le> head a"
    and "i \<notin> set (recycled a)" and "set (recycled a) \<subseteq> set (recycled (cs_ids st))" and "distinct (recycled a)"
  using assms by (auto simp: ids_inv_def id_alloc_def run_simps split: list.splits)

lemma ids_inv_insert:
  assumes "ids_inv n st" and "id_alloc (cs_ids st) = Inr (i, a)"
  shows "ids_inv n (st\<lparr>cs_ids := a, cs_map := bt_insert i v (cs_map st)\<rparr>)"
  using assms id_alloc_fresh [OF assms] sorted_bt_insert [of "cs_map st" i v] keys_bt_insert [of i v "cs_map st"]
  by (auto simp: ids_inv_def simp del: set_map) (meson order.trans subsetD)+

lemma ids_inv_reach: "storage_reach n st \<Longrightarrow> ids_inv n st"
proof (induction rule: storage_reach.induct)
  case sr_start then show ?case by (simp add: ids_inv_def storage_new_def id_allocator_new_def)
next
  case (sr_init st p p' st')
  have "map fst (cs_map st') = map fst (bt_insert (pc_cpu_id p) (context_new (pc_cpu_id p)) (cs_map st))" "cs_ids st' = cs_ids st"
    using sr_init.hyps(3) by (auto simp: init_context_def insert_context_def Let_def run_simps split: if_splits)
  then show ?case
    using sr_init sorted_bt_insert [of "cs_map st"] keys_bt_insert [of "pc_cpu_id p" "context_new (pc_cpu_id p)" "cs_map st"]
    unfolding ids_inv_def by (auto simp del: set_map)
next
  case (sr_new st r st')
  obtain i a where a: "id_alloc (cs_ids st) = Inr (i, a)" and st': "st' = st\<lparr>cs_ids := a, cs_map := bt_insert i (context_new i) (cs_map st)\<rparr>"
    using sr_new.hyps(2) by (auto simp: new_context_def insert_context_def Let_def run_simps split: if_splits)
  show ?case unfolding st' by (rule ids_inv_insert [OF sr_new.IH a])
next
  case (sr_remove st i c st' r a)
  have st': "st' = st\<lparr>cs_map := filter (\<lambda>(k, _). k \<noteq> i) (cs_map st)\<rparr>" using sr_remove.hyps(4) by (simp add: remove_context_def)
  have keys: "map fst (cs_map st') = filter (\<lambda>k. k \<noteq> i) (map fst (cs_map st))"
    by (simp add: st' filter_map comp_def case_prod_beta')
  have i: "i \<in> set (map fst (cs_map st))" using sr_remove.hyps(3) by (simp add: map_of_eq_None_iff)
  then have "i \<notin> set (recycled (cs_ids st))" "i \<le> head (cs_ids st)"
    using sr_remove.IH sr_remove.hyps(2) by (auto simp: ids_inv_def simp del: set_map)
  then show ?case
    using sr_remove.IH sr_remove.hyps(2,5) keys
    unfolding ids_inv_def by (auto simp: id_dealloc_def st' sorted_wrt_filter simp del: set_map)
next
  case (sr_change st i f) then show ?case by (simp add: ids_inv_def)
qed

subsection \<open>Memory as the processor sees it\<close>

definition word_mem :: "(nat \<Rightarrow> 8 word) \<Rightarrow> byte_mem" where
  "word_mem m = (\<lambda>w. m (unat w))"

lemma word_mem_write:
  assumes "p + 8 \<le> two64"
  shows "word_mem (write_usize p v m) = store64 (word_mem m) (of_nat p) v"
proof
  fix w :: word64
  have p: "unat (of_nat p :: word64) = p" using assms by (simp add: unsigned_of_nat take_bit_nat_eq_self)
  show "word_mem (write_usize p v m) w = store64 (word_mem m) (of_nat p) v w"
  proof (cases "p \<le> unat w")
    case True
    then have "of_nat p \<le> w" using p by (simp add: word_le_nat_alt)
    then have d: "unat (w - of_nat p) = unat w - p" using p by (simp add: unat_sub)
    then have "w - of_nat p < 8 \<longleftrightarrow> unat w < p + 8" using True by (auto simp: word_less_nat_alt)
    then show ?thesis using True d by (simp add: word_mem_def write_usize_def store64_def byte_of_def)
  next
    case False
    then have "w < of_nat p" using p by (simp add: word_less_nat_alt)
    then have "unat (w - of_nat p) = two64 + unat w - p"
      using False p unat_sub_if_size [of w "of_nat p"] by (simp add: word_size)
    then have "\<not> w - of_nat p < 8" using assms False unsigned_less [of w, where ?'a = nat] by (simp add: word_less_nat_alt)
    then show ?thesis using False by (simp add: word_mem_def write_usize_def store64_def)
  qed
qed

lemma load64_zeros:
  assumes "p \<le> a" and "a + 8 \<le> p + n" and "p + n \<le> two64"
  shows "load64 (word_mem (write_zeros p n m)) (of_nat a) = 0"
proof -
  have "word_mem (write_zeros p n m) (of_nat a + of_nat i) = 0" if "i < 8" for i
  proof -
    have "unat (of_nat a + of_nat i :: word64) = a + i"
      using assms that by (simp add: unsigned_of_nat take_bit_nat_eq_self flip: of_nat_add)
    then show ?thesis using assms that by (simp add: word_mem_def write_zeros_def)
  qed
  from this [of 0] this [of 1] this [of 2] this [of 3] this [of 4] this [of 5] this [of 6] this [of 7]
  show ?thesis by (simp add: load64_def)
qed

text \<open>The stack of a new context.\<close>

definition start_frame :: "word64 \<Rightarrow> word64 \<Rightarrow> interrupt_stack" where
  "start_frame c d =
     \<lparr>preserved = \<lparr>pr_r15 = 0, pr_r14 = 0, pr_r13 = 0, pr_r12 = 0, pr_rbp = 0, pr_rbx = 0\<rparr>,
      scratch = \<lparr>sr_r11 = 0, sr_r10 = 0, sr_r9 = 0, sr_r8 = 0, sr_rsi = 0, sr_rdi = 0, sr_rdx = 0, sr_rcx = 0, sr_rax = 0\<rparr>,
      iret = \<lparr>ir_rip = 0, ir_cs = c, ir_rflags = 0x200, ir_rsp = of_nat user_stack_pointer, ir_ss = d\<rparr>\<rparr>"

lemma init_kstack_user:
  assumes "init_kstack (Some c) (Some d) True func enter stack m = Inr (tos, m')" and "stack + 262144 \<le> two64"
  shows "tos = stack + 261968"
    and "load64 (word_mem m') (of_nat tos) = func" and "load64 (word_mem m') (8 + of_nat tos) = enter"
    and "read_frame (word_mem m') (16 + of_nat tos) = start_frame c d"
proof -
  define b where "b = 261984 + stack"
  have b: "b + 160 \<le> two64" "16 \<le> b" using assms(2) by (simp_all add: b_def)
  have tos: "tos = stack + 261968" and m': "m' = write_usize (b - 16) func (write_usize (b - 8) enter (write_usize (b + 144) (of_nat user_stack_pointer)
     (write_usize (b + 152) d (write_usize (b + 128) c (write_usize (b + 136) 0x200 (write_zeros b 160 m))))))"
    using assms(1) by (auto simp: init_kstack_def init_frame_at_def PAGE_SIZE_def Let_def b_def)
  show "tos = stack + 261968" by (rule tos)
  define w :: word64 where "w = of_nat b"
  have o: "of_nat (b + k) = of_nat k + w" for k by (simp add: w_def)
  have o': "of_nat (b - 16) = w - 16" "of_nat (b - 8) = w - 8" using b by (simp_all add: w_def of_nat_diff)
  have t: "of_nat tos = w - 16" by (simp add: tos b_def w_def)
  have z: "load64 (word_mem (write_zeros b 160 m)) (of_nat k + w) = 0" if "k + 8 \<le> 160" for k
    using load64_zeros [of b "b + k" 160 m] that b by (simp add: o del: of_nat_add)
  note zs = z [of 0, simplified] z [of 8, simplified] z [of 16, simplified] z [of 24, simplified] z [of 32, simplified]
    z [of 40, simplified] z [of 48, simplified] z [of 56, simplified] z [of 64, simplified] z [of 72, simplified]
    z [of 80, simplified] z [of 88, simplified] z [of 96, simplified] z [of 104, simplified] z [of 112, simplified] z [of 120, simplified]
  have w': "word_mem m' = store64 (store64 (store64 (store64 (store64 (store64 (word_mem (write_zeros b 160 m)) (136 + w) 0x200) (128 + w) c)
     (152 + w) d) (144 + w) (of_nat user_stack_pointer)) (w - 8) enter) (w - 16) func"
    unfolding m' using b by (simp add: word_mem_write o o' del: of_nat_add)
  show "load64 (word_mem m') (of_nat tos) = func" "load64 (word_mem m') (8 + of_nat tos) = enter"
    unfolding w' t by simp_all
  show "read_frame (word_mem m') (16 + of_nat tos) = start_frame c d"
    unfolding w' t by (simp add: read_frame_def start_frame_def zs)
qed

subsection \<open>Spawned contexts\<close>

definition kstack_flags :: pt_flags where
  "kstack_flags = {PRESENT, USER_ACCESSIBLE, WRITABLE, NO_EXECUTE}"

context user_space
begin

lemma map_kstack_view:
  assumes "kg_wf (km_frames k)" and "distinct is" and "map_kstack E fr is (a, k) = Inr (a', k')"
  shows "page_table a' = page_table a" and "km_bytes k' = km_bytes k"
    and "view (km_tables k') (page_table a) p =
       (if \<exists>i \<in> set is. p = KSTACK_PAGE + i * PAGE_SIZE then Some (fr + (p - KSTACK_PAGE), kstack_flags)
        else view (km_tables k) (page_table a) p)"
proof -
  have "page_table a' = page_table a \<and> km_bytes k' = km_bytes k \<and> view (km_tables k') (page_table a) p =
       (if \<exists>i \<in> set is. p = KSTACK_PAGE + i * PAGE_SIZE then Some (fr + (p - KSTACK_PAGE), kstack_flags)
        else view (km_tables k) (page_table a) p)"
    using assms
  proof (induction "is" arbitrary: a k)
    case Nil then show ?case by simp
  next
    case (Cons i "is")
    have fl: "insert USER_ACCESSIBLE {PRESENT, USER_ACCESSIBLE, WRITABLE, NO_EXECUTE} = kstack_flags" "PRESENT \<in> kstack_flags"
      by (auto simp: kstack_flags_def)
    from Cons.prems(3) obtain x where x: "raw_map_to E (KSTACK_PAGE + i * PAGE_SIZE) (fr + i * PAGE_SIZE)
        {PRESENT, USER_ACCESSIBLE, WRITABLE, NO_EXECUTE} (a, k) = Inr x" and r: "map_kstack E fr is x = Inr (a', k')"
      unfolding map_kstack.simps and_then_eq_Inr by blast
    from x obtain ptes k1 where m: "km_map_to E ''failed to perform raw map_to'' (page_table a) (pte_frames a) (KSTACK_PAGE + i * PAGE_SIZE)
        (fr + i * PAGE_SIZE) kstack_flags k = Inr (ptes, k1)" and x': "x = (a\<lparr>pte_frames := ptes\<rparr>, k1)"
      unfolding raw_map_to_def as_map_to_def fl(1) by (auto simp: run_simps)
    note M = km_map_to_step [OF Cons.prems(1) fl(2) m]
    have w: "kg_wf (km_frames k1)" using M(1) by (simp add: grown_def)
    have "km_bytes k1 = km_bytes k" using m by (auto simp: km_map_to_def run_simps)
    moreover have "distinct is" "i \<notin> set is" using Cons.prems(2) by simp_all
    moreover have "KSTACK_PAGE + i * PAGE_SIZE = KSTACK_PAGE + j * PAGE_SIZE \<longleftrightarrow> i = j" for j by (simp add: PAGE_SIZE_def)
    ultimately show ?case using Cons.IH [OF w \<open>distinct is\<close> r [unfolded x']] M(3) by auto
  qed
  then show "page_table a' = page_table a" "km_bytes k' = km_bytes k"
    "view (km_tables k') (page_table a) p =
       (if \<exists>i \<in> set is. p = KSTACK_PAGE + i * PAGE_SIZE then Some (fr + (p - KSTACK_PAGE), kstack_flags)
        else view (km_tables k) (page_table a) p)" by simp_all
qed

lemma rwlock_new_wf:
  assumes "kg_wf (km_frames k)" and "rwlock_addrsp_new E base k = Inr (a, k')"
  shows "kg_wf (km_frames k')"
proof -
  obtain k1 where n: "addrsp_new E base k = Inr (a, k1)" and s: "setup_kernel E a k1 = Inr k'"
    using assms(2) by (auto simp: rwlock_addrsp_new_def run_simps)
  have "km_frames k' = km_frames k1" using s by (auto simp: setup_kernel_def run_simps)
  then show ?thesis using addrsp_new_step(1) [OF assms(1) n] by (simp add: grown_def)
qed

end

lemma new_context_ok:
  assumes "ids_inv n st" and "new_context st = Inr (r, st')"
  shows "\<exists>i. r = Inr i \<and> n < i \<and> map_of (cs_map st) i = None
     \<and> map_of (cs_map st') = (map_of (cs_map st))(i \<mapsto> context_new i)"
proof -
  obtain i a where a: "id_alloc (cs_ids st) = Inr (i, a)" and ins: "insert_context i (st\<lparr>cs_ids := a\<rparr>) = (r, st')"
    using assms(2) by (auto simp: new_context_def run_simps)
  note F = id_alloc_fresh [OF assms(1) a]
  have none: "map_of (cs_map st) i = None" using F(1) by (simp add: map_of_eq_None_iff)
  have "sorted_wrt (<) (map fst (cs_map st))" using assms(1) by (simp add: ids_inv_def)
  then have "map_of (bt_insert i (context_new i) (cs_map st)) = (map_of (cs_map st))(i \<mapsto> context_new i)" by (rule map_of_bt_insert)
  then show ?thesis using ins none F(2) by (auto simp: insert_context_def Let_def)
qed

lemma set_addr_space_new:
  assumes "map_of (cs_map (ky_storage s)) i = Some (context_new i)" and "set_addr_space E p i (Some h) s = Inr (old, s')"
  shows "\<exists>k. km_tables k = km_tables (ky_mem s) \<and> km_bytes k = km_bytes (ky_mem s)
     \<and> s' = s\<lparr>ky_mem := k, ky_storage := (ky_storage s)\<lparr>cs_map := bt_update i (\<lambda>c. c\<lparr>addrsp := Some h\<rparr>) (cs_map (ky_storage s))\<rparr>\<rparr>"
proof -
  let ?f = "\<lambda>k. s\<lparr>ky_mem := k, ky_storage := (ky_storage s)\<lparr>cs_map := bt_update i (\<lambda>c. c\<lparr>addrsp := Some h\<rparr>) (cs_map (ky_storage s))\<rparr>\<rparr>"
  have "s' = ?f (ky_mem s) \<or> (\<exists>r. s' = ?f ((ky_mem s)\<lparr>km_cr3 := r\<rparr>))"
    using assms by (auto simp: set_addr_space_def context_new_def validate_def run_simps split: if_splits option.splits)
  then show ?thesis
  proof (elim disjE exE)
    assume "s' = ?f (ky_mem s)" then show ?thesis by (intro exI [of _ "ky_mem s"]) simp
  next
    fix r assume "s' = ?f ((ky_mem s)\<lparr>km_cr3 := r\<rparr>)"
    then show ?thesis by (intro exI [of _ "(ky_mem s)\<lparr>km_cr3 := r\<rparr>"]) simp
  qed
qed

lemma spawn_user:
  assumes U: "user_space E view tab" and wf: "kg_wf (km_frames (ky_mem s))" and inv: "ids_inv n (ky_storage s)"
    and gdt: "GDT_USER_CODE64 s = Some code" "GDT_USER_DATA s = Some data"
    and sp: "spawn E p True func enter s = Inr (Inr i, s')"
  shows "\<exists>c stack a h. map_of (cs_map (ky_storage s')) i = Some c \<and> cx_status c = HardBlocked NotYetStarted \<and> \<not> running c
     \<and> kstack c = Some (stack, 262144) \<and> regs_addr c = Some (stack + 261984) \<and> cr_rsp (ctx_regs c) = of_nat (stack + 261968)
     \<and> addrsp c = Some h \<and> ky_spaces s' h = Some a
     \<and> (\<forall>j < 64. view (km_tables (ky_mem s')) (page_table a) (KSTACK_PAGE + j * PAGE_SIZE) = Some (stack + j * PAGE_SIZE, kstack_flags))
     \<and> load64 (word_mem (km_bytes (ky_mem s'))) (of_nat (stack + 261968)) = func
     \<and> load64 (word_mem (km_bytes (ky_mem s'))) (of_nat (stack + 261976)) = enter
     \<and> read_frame (word_mem (km_bytes (ky_mem s'))) (of_nat (stack + 261984)) = start_frame code data
     \<and> stack + 262144 \<le> two64"
proof -
  obtain r g where f: "frame_alloc_n (ke_x86 E) 64 (km_frames (ky_mem s)) = Inr (r, g)" 
    using sp unfolding spawn_def and_then_eq_Inr by auto
  note A = kg_laws [OF user_space.axioms(1) [OF U] wf f]
  obtain stack where r: "r = Some stack" using sp f by (cases r) (auto simp: spawn_def Let_def)
  define s1 where "s1 = s\<lparr>ky_mem := (ky_mem s)\<lparr>km_frames := g, km_bytes := write_zeros stack (PAGE_SIZE * 64) (km_bytes (ky_mem s))\<rparr>\<rparr>"
  obtain res st where nc: "new_context (ky_storage s) = Inr (res, st)"
    using sp f r unfolding spawn_def by (auto simp: Let_def and_then_eq_Inr)
  obtain i' where i': "res = Inr i'" "map_of (cs_map st) i' = Some (context_new i')"
    using new_context_ok [OF inv nc] by auto
  obtain a k where new: "rwlock_addrsp_new E 0x1000 (ky_mem s1) = Inr (a, k)"
    using sp f r nc i' unfolding spawn_def s1_def by (auto simp: Let_def and_then_eq_Inr)
  obtain pa where pa: "PhysAddr_new (ke_x86 E) stack = Inr pa"
    using sp f r nc i' new unfolding spawn_def s1_def by (auto simp: Let_def and_then_eq_Inr)
  have pa': "stack < max_phys" "pa = stack" using x86_laws.PhysAddr_new_eq_Inr [OF user_space.axioms(1) [OF U]] pa by auto
  have fr: "frame_containing (ke_x86 E) pa = stack"
    using A(6) [OF r] pa'(2) x86_laws.frame_containing_aligned [OF user_space.axioms(1) [OF U]] by (simp add: dvd_imp_mod_0)
  obtain a' k' where mk: "map_kstack E stack [0 ..< 64] (a, k) = Inr (a', k')"
    using sp f r nc i' new pa fr unfolding spawn_def s1_def by (auto simp: Let_def and_then_eq_Inr)
  define h where "h = ky_next_space s"
  define s2 where "s2 = s1\<lparr>ky_storage := st, ky_mem := k', ky_spaces := (ky_spaces s)(h := Some a'), ky_next_space := h + 1\<rparr>"
  obtain old s3 where sa: "set_addr_space E p i' (Some h) s2 = Inr (old, s3)"
    using sp f r nc i' new pa fr mk unfolding spawn_def s1_def s2_def h_def by (auto simp: Let_def and_then_eq_Inr)
  have "map_of (cs_map (ky_storage s2)) i' = Some (context_new i')" using i'(2) by (simp add: s2_def)
  from set_addr_space_new [OF this sa] obtain k3 where k3: "km_tables k3 = km_tables k'" "km_bytes k3 = km_bytes k'"
    and s3: "s3 = s2\<lparr>ky_mem := k3, ky_storage := st\<lparr>cs_map := bt_update i' (\<lambda>c. c\<lparr>addrsp := Some h\<rparr>) (cs_map st)\<rparr>\<rparr>"
    by (auto simp: s2_def)
  have g3: "GDT_USER_CODE64 s3 = Some code" "GDT_USER_DATA s3 = Some data" using gdt by (simp_all add: s3 s2_def s1_def)
  obtain tos m where ik: "init_kstack (Some code) (Some data) True func enter stack (km_bytes (ky_mem s3)) = Inr (tos, m)"
    and s': "i = i'" "s' = s3\<lparr>ky_mem := k3\<lparr>km_bytes := m\<rparr>, ky_storage := st\<lparr>cs_map := bt_update i'
       (\<lambda>c. c\<lparr>ctx_regs := cr_set_stack_pointer (of_nat tos) (ctx_regs c), kstack := Some (stack, PAGE_SIZE * 64), userspace := True\<rparr>)
       (bt_update i' (\<lambda>c. c\<lparr>addrsp := Some h\<rparr>) (cs_map st))\<rparr>\<rparr>"
    using sp f r nc i' new pa fr mk sa g3 unfolding spawn_def s1_def
    by (auto simp: Let_def and_then_eq_Inr s3 s2_def s1_def h_def [symmetric])
  have lim: "stack + 262144 \<le> two64" using pa'(1) by simp
  note K = init_kstack_user [OF ik lim]
  have w1: "kg_wf (km_frames (ky_mem s1))" using A(1) by (simp add: s1_def)
  note V = user_space.map_kstack_view [OF U user_space.rwlock_new_wf [OF U w1 new] _ mk]
  have view: "view (km_tables (ky_mem s')) (page_table a') (KSTACK_PAGE + j * PAGE_SIZE) = Some (stack + j * PAGE_SIZE, kstack_flags)"
    if "j < 64" for j
    using V(1,3) that k3 by (auto simp: s'(2))
  let ?c = "(context_new i)\<lparr>addrsp := Some h, ctx_regs := cr_set_stack_pointer (of_nat tos) context_registers_new,
     kstack := Some (stack, PAGE_SIZE * 64), userspace := True\<rparr>"
  have c: "map_of (cs_map (ky_storage s')) i = Some ?c"
    using i'(2) s'(1) by (simp add: s'(2) map_of_bt_update context_new_def)
  have o: "of_nat (stack + 261976) = (8 + of_nat tos :: word64)" "of_nat (stack + 261984) = (16 + of_nat tos :: word64)"
    "of_nat (stack + 261968) = (of_nat tos :: word64)" using K(1) by simp_all
  have m: "km_bytes (ky_mem s') = m" by (simp add: s'(2))
  have "cx_status ?c = HardBlocked NotYetStarted \<and> \<not> running ?c \<and> kstack ?c = Some (stack, 262144)
      \<and> regs_addr ?c = Some (stack + 261984) \<and> cr_rsp (ctx_regs ?c) = of_nat tos \<and> addrsp ?c = Some h \<and> ky_spaces s' h = Some a'"
    by (simp add: context_new_def regs_addr_def can_access_regs_def INT_REGS_SIZE_def PAGE_SIZE_def cr_set_stack_pointer_def s'(2) s3 s2_def)
  with c view K(2-4) lim show ?thesis
    by (intro exI [of _ ?c] exI [of _ stack] exI [of _ a'] exI [of _ h]) (unfold o m, blast)
qed

lemma start_frame_enters:
  assumes "canonical64 entry" and "p + 160 \<le> two64"
    and "read_frame (word_mem m) (of_nat p) = start_frame code data"
    and "regs u RSP = of_nat p" and "mem u = word_mem (write_usize (p + 120) entry m)"
  defines "u' \<equiv> exec_all enter_usermode u"
  shows "c_rip u' = entry" and "regs u' = (\<lambda>_. 0)(RSP := of_nat user_stack_pointer, RCX := entry, R11 := 0x200)"
    and "c_rflags u' = 0x202"
proof -
  let ?f = "(start_frame code data)\<lparr>iret := (iret (start_frame code data))\<lparr>ir_rip := entry\<rparr>\<rparr>"
  have "word_mem (write_usize (p + 120) entry m) = store64 (word_mem m) (120 + of_nat p) entry"
    using word_mem_write [of "p + 120" entry m] assms(2) by (simp add: add.commute)
  then have f: "?f = read_frame (mem u) (of_nat p)"
    unfolding assms(3) [symmetric] assms(5) by (simp add: read_frame_def)
  have tf: "\<not> bit (ir_rflags (iret ?f)) 8" by (simp add: start_frame_def bit_numeral_rec)
  note R = enter_usermode_result(3) [OF assms(4) f tf, folded u'_def]
  have fr: "frame_regs ?f 0 = (\<lambda>_. 0)"
  proof
    fix x show "frame_regs ?f 0 x = 0" by (cases x) (simp_all add: start_frame_def)
  qed
  show "c_rip u' = entry" "regs u' = (\<lambda>_. 0)(RSP := of_nat user_stack_pointer, RCX := entry, R11 := 0x200)" "c_rflags u' = 0x202"
    using R fr sext48_id [OF assms(1)] by (simp_all add: start_frame_def)
qed

subsection \<open>A kernel to spawn contexts in\<close>

definition sample_sys :: "table_mem kernel_sys" where
  "sample_sys = \<lparr>ky_mem = sample_kernel, ky_spaces = (\<lambda>_. None), ky_next_space = 0, ky_storage = storage_new 1,
     GDT_USER_CODE64 = Some 0x2B, GDT_USER_DATA = Some 0x23\<rparr>"

definition sample_percpu :: percpu where
  "sample_percpu = \<lparr>pc_cpu_id = 0, switch_result = None, pit_ticks = 0, pc_context_id = 0, pc_idle_id = 0,
     switch_signal = False, pc_inside_syscall = False\<rparr>"

lemma late_alloc_64: "frame_alloc_n x86_model 64 (late_frames 0x200000) = Inr (Some 0x200000, late_frames 0x240000)"
  by (simp add: frame_alloc_n_def late_frames_def with_frame_alloc_def allocate_frames_def next_n_def
      next_n_rec.simps skip_loop.simps skip_range.simps rg_contains_def PAGE_SIZE_def sample_allocator_def sample_iterator_def x86_model_def)

lemma map_kstack_table:
  assumes "distinct is" and "\<forall>i \<in> set is. tm_view (km_tables k) (page_table a) (KSTACK_PAGE + i * PAGE_SIZE) = None"
  shows "\<exists>a' k'. map_kstack table_env fr is (a, k) = Inr (a', k')"
  using assms
proof (induction "is" arbitrary: a k)
  case Nil then show ?case by simp
next
  case (Cons i "is")
  let ?k = "k\<lparr>km_tables := tm_put (page_table a) (KSTACK_PAGE + i * PAGE_SIZE)
     (Some (fr + i * PAGE_SIZE, insert USER_ACCESSIBLE {PRESENT, USER_ACCESSIBLE, WRITABLE, NO_EXECUTE})) (km_tables k)\<rparr>"
  have "raw_map_to table_env (KSTACK_PAGE + i * PAGE_SIZE) (fr + i * PAGE_SIZE) {PRESENT, USER_ACCESSIBLE, WRITABLE, NO_EXECUTE} (a, k)
      = Inr (a, ?k)"
    using Cons.prems(2) by (simp add: raw_map_to_def as_map_to_def km_map_to_def table_env_def table_mem_ops_def)
  moreover have "KSTACK_PAGE + j * PAGE_SIZE = KSTACK_PAGE + i * PAGE_SIZE \<longleftrightarrow> j = i" for j by (simp add: PAGE_SIZE_def)
  then have "\<forall>j \<in> set is. tm_view (km_tables ?k) (page_table a) (KSTACK_PAGE + j * PAGE_SIZE) = None"
    using Cons.prems by (auto simp: tm_put_view)
  ultimately show ?case using Cons.IH [of ?k a] Cons.prems(1) by simp
qed

lemma sample_spawn: "\<exists>s'. spawn table_env sample_percpu True 0x1111 0x2222 sample_sys = Inr (Inr 2, s')"
proof -
  let ?m = "sample_kernel\<lparr>km_frames := late_frames 0x240000, km_bytes := write_zeros 0x200000 (PAGE_SIZE * 64) (km_bytes sample_kernel)\<rparr>"
  let ?k = "?m\<lparr>km_frames := late_frames 0x243000, km_tables := new_tables 0x101000 0x240000 (km_tables ?m)\<rparr>"
  have n: "rwlock_addrsp_new table_env 0x1000 ?m = Inr (new_space 0x240000, ?k)"
    using sample_new [where v = "0x240000" and k = ?m and kr = "0x101000"] by (simp add: sample_kernel_def)
  have slot: "p4_slot (KSTACK_PAGE + i * PAGE_SIZE) = 0" if "i < 64" for i
    using that by (simp add: p4_slot_def KSTACK_PAGE_def PAGE_SIZE_def)
  have v: "tm_view (km_tables ?k) 0x240000 (KSTACK_PAGE + i * PAGE_SIZE) = None" if "i < 64" for i
    using slot [OF that]
    by (simp add: new_tables_def kernel_slots_def sample_kernel_def table_mem_ops_def tm_view_def tm_put_def p4_slot_def [of 4096] p4_slot_def [of 8192]
        KERNEL_BYTES_P4_def BOOTSTRAP_BYTES_P4_def KERNEL_STACK_P4_def FRAMEBUFFER_P4_def PHYS_MEM_P4_def)
  have "page_table (new_space 0x240000) = 0x240000" by (simp add: new_space_def)
  then obtain a' k' where mk: "map_kstack table_env 0x200000 [0 ..< 64] (new_space 0x240000, ?k) = Inr (a', k')"
    using map_kstack_table [where ?is = "[0 ..< 64]" and k = ?k and a = "new_space 0x240000" and fr = "0x200000"] v by auto
  have x: "PhysAddr_new (ke_x86 table_env) 0x200000 = Inr 0x200000" "frame_containing (ke_x86 table_env) 0x200000 = 0x200000"
    "frame_alloc_n (ke_x86 table_env) 64 (late_frames 0x200000) = Inr (Some 0x200000, late_frames 0x240000)"
    using late_alloc_64 by (simp_all add: table_env_def x86_model_def)
  have s: "km_frames sample_kernel = late_frames 0x200000" by (simp add: sample_kernel_def)
  show ?thesis
    by (simp add: spawn_def sample_sys_def s x n mk [simplified] Let_def numeral_2_eq_2 storage_new_def new_context_def id_alloc_def id_allocator_new_def
        insert_context_def set_addr_space_def sample_percpu_def context_new_def bt_update_def init_kstack_def init_frame_at_def)
qed

subsection \<open>Properties\<close>

text \<open>C26. Context numbers are unique: in every state the storage can reach, whatever contexts were created and
  removed before, a new context gets a number above those of the processors' first contexts that no
  live context has, so creating it never overwrites a context (the error branch of \<open>insert_context\<close>, which
  has already replaced the old context, is unreachable), and all other contexts stay as they are.\<close>
theorem new_context_fresh:
  assumes "storage_reach n st" and "new_context st = Inr (r, st')"
  shows "\<exists>i. r = Inr i \<and> n < i \<and> map_of (cs_map st) i = None
     \<and> map_of (cs_map st') = (map_of (cs_map st))(i \<mapsto> context_new i)"
  by (rule new_context_ok [OF ids_inv_reach [OF assms(1)] assms(2)])

theorem new_context_fresh_witness:
  "let st = \<lparr>cs_map = [(3, context_new 3)], cs_ids = \<lparr>head = 3, recycled = [2]\<rparr>\<rparr>;
       st' = \<lparr>cs_map = [(2, context_new 2), (3, context_new 3)], cs_ids = \<lparr>head = 3, recycled = []\<rparr>\<rparr>
   in storage_reach 1 st \<and> new_context st = Inr (Inr 2, st')
      \<and> (\<exists>i. (Inr 2 :: 32 word + nat) = Inr i \<and> 1 < i \<and> map_of (cs_map st) i = None
           \<and> map_of (cs_map st') = (map_of (cs_map st))(i \<mapsto> context_new i))"
proof -
  let ?st = "\<lparr>cs_map = [(3, context_new 3)], cs_ids = \<lparr>head = 3, recycled = [2]\<rparr>\<rparr>"
  let ?st' = "\<lparr>cs_map = [(2, context_new 2), (3, context_new 3)], cs_ids = \<lparr>head = 3, recycled = []\<rparr>\<rparr>"
  let ?a = "\<lparr>cs_map = [(2, context_new 2)], cs_ids = \<lparr>head = 2, recycled = []\<rparr>\<rparr>"
  let ?b = "\<lparr>cs_map = [(2, context_new 2), (3, context_new 3)], cs_ids = \<lparr>head = 3, recycled = []\<rparr>\<rparr>"
  have "storage_reach 1 ?a"
    by (rule sr_new [OF sr_start, of _ "Inr 2"]) (simp add: storage_new_def new_context_def id_alloc_def id_allocator_new_def insert_context_def numeral_2_eq_2)
  then have "storage_reach 1 ?b"
    by (rule sr_new [of _ _ "Inr 3"]) (simp add: new_context_def id_alloc_def insert_context_def)
  then have "storage_reach 1 (\<lparr>cs_map = [(3, context_new 3)], cs_ids = \<lparr>head = 3, recycled = []\<rparr>\<rparr>\<lparr>cs_ids := \<lparr>head = 3, recycled = [2]\<rparr>\<rparr>)"
    by (rule sr_remove [of _ _ 2 "Some (context_new 2)" _ 2]) (simp_all add: remove_context_def id_dealloc_def)
  then have r: "storage_reach 1 ?st" by simp
  have n: "new_context ?st = Inr (Inr 2, ?st')" by (simp add: new_context_def id_alloc_def insert_context_def)
  show ?thesis using new_context_fresh [OF r n] r n by (simp add: Let_def)
qed

text \<open>C9. A spawned user context is ready to enter user mode: its number is in the storage, not running and not
  yet started; its saved stack pointer points to the address of the function, above it lies the address of
  \<open>enter_usermode\<close>, and above that the frame \<open>regs\<close> gives access to; once an entry point is written into that frame,
  \<open>enter_usermode\<close> continues there with interrupts enabled, all registers zero and the stack pointer 8 bytes
  below the end of the stack at \<open>0x7f80000000\<close>, whose 64 pages are mapped, writable for user code, to the
  frames of the context's own kernel stack.\<close>
theorem spawn_enters_user:
  assumes "user_space E view tab" and "kg_wf (km_frames (ky_mem s))" and "storage_reach n (ky_storage s)"
    and "GDT_USER_CODE64 s = Some code" and "GDT_USER_DATA s = Some data"
    and "spawn E p True func enter s = Inr (Inr i, s')" and "canonical64 entry"
  shows "\<exists>c stack a h pos. map_of (cs_map (ky_storage s')) i = Some c \<and> cx_status c = HardBlocked NotYetStarted \<and> \<not> running c
     \<and> kstack c = Some (stack, 262144) \<and> pos + 176 = stack + 262144
     \<and> cr_rsp (ctx_regs c) = of_nat pos \<and> regs_addr c = Some (pos + 16)
     \<and> load64 (word_mem (km_bytes (ky_mem s'))) (of_nat pos) = func
     \<and> load64 (word_mem (km_bytes (ky_mem s'))) (of_nat (pos + 8)) = enter
     \<and> addrsp c = Some h \<and> ky_spaces s' h = Some a
     \<and> (\<forall>j < 64. view (km_tables (ky_mem s')) (page_table a) (KSTACK_PAGE + j * PAGE_SIZE) = Some (stack + j * PAGE_SIZE, kstack_flags))
     \<and> (\<forall>u. regs u RSP = of_nat (pos + 16) \<and> mem u = word_mem (write_usize (pos + 16 + 120) entry (km_bytes (ky_mem s'))) \<longrightarrow>
          c_rip (exec_all enter_usermode u) = entry \<and> c_rflags (exec_all enter_usermode u) = 0x202
          \<and> regs (exec_all enter_usermode u) = (\<lambda>_. 0)(RSP := of_nat user_stack_pointer, RCX := entry, R11 := 0x200))"
proof -
  obtain c stack a h where c: "map_of (cs_map (ky_storage s')) i = Some c" "cx_status c = HardBlocked NotYetStarted" "\<not> running c"
    "kstack c = Some (stack, 262144)" "regs_addr c = Some (stack + 261984)" "cr_rsp (ctx_regs c) = of_nat (stack + 261968)"
    "addrsp c = Some h" "ky_spaces s' h = Some a"
    and v: "\<forall>j < 64. view (km_tables (ky_mem s')) (page_table a) (KSTACK_PAGE + j * PAGE_SIZE) = Some (stack + j * PAGE_SIZE, kstack_flags)"
    and w: "load64 (word_mem (km_bytes (ky_mem s'))) (of_nat (stack + 261968)) = func"
      "load64 (word_mem (km_bytes (ky_mem s'))) (of_nat (stack + 261976)) = enter"
    and f: "read_frame (word_mem (km_bytes (ky_mem s'))) (of_nat (stack + 261984)) = start_frame code data"
    and b: "stack + 262144 \<le> two64"
    using spawn_user [OF assms(1,2) ids_inv_reach [OF assms(3)] assms(4-6)] by blast
  define pos where "pos = stack + 261968"
  have e: "stack + 261984 = pos + 16" "stack + 261976 = pos + 8" "stack + 261968 = pos" "pos + 176 = stack + 262144" by (simp_all add: pos_def)
  have "c_rip (exec_all enter_usermode u) = entry \<and> c_rflags (exec_all enter_usermode u) = 0x202
          \<and> regs (exec_all enter_usermode u) = (\<lambda>_. 0)(RSP := of_nat user_stack_pointer, RCX := entry, R11 := 0x200)"
    if "regs u RSP = of_nat (pos + 16) \<and> mem u = word_mem (write_usize (pos + 16 + 120) entry (km_bytes (ky_mem s')))" for u
  proof -
    have "pos + 16 + 160 \<le> two64" using b e(4) by linarith
    from start_frame_enters [OF assms(7) this f [unfolded e(1)]] that show ?thesis by blast
  qed
  with c v w e(4) show ?thesis unfolding e(1-3) by blast
qed

theorem spawn_enters_user_witness:
  "\<exists>s' c stack a pos. spawn table_env sample_percpu True 0x1111 0x2222 sample_sys = Inr (Inr 2, s')
     \<and> map_of (cs_map (ky_storage s')) 2 = Some c \<and> kstack c = Some (stack, 262144) \<and> pos + 176 = stack + 262144
     \<and> load64 (word_mem (km_bytes (ky_mem s'))) (of_nat pos) = 0x1111
     \<and> load64 (word_mem (km_bytes (ky_mem s'))) (of_nat (pos + 8)) = 0x2222
     \<and> tm_view (km_tables (ky_mem s')) (page_table (a :: user_addr_space)) (KSTACK_PAGE + 63 * PAGE_SIZE) = Some (stack + 63 * PAGE_SIZE, kstack_flags)"
proof -
  obtain s' where s': "spawn table_env sample_percpu True 0x1111 0x2222 sample_sys = Inr (Inr 2, s')" using sample_spawn by blast
  have w: "kg_wf (km_frames (ky_mem sample_sys))" using late_wf by (simp add: sample_sys_def sample_kernel_def)
  have st: "storage_reach 1 (ky_storage sample_sys)" using sr_start [of 1] by (simp add: sample_sys_def)
  have g: "GDT_USER_CODE64 sample_sys = Some 0x2B" "GDT_USER_DATA sample_sys = Some 0x23" by (simp_all add: sample_sys_def)
  have "canonical64 0x400000" by (simp add: canonical64_def)
  from spawn_enters_user [OF usm.user_space_axioms w st g s' this]
  obtain c stack a pos where "map_of (cs_map (ky_storage s')) 2 = Some c" "kstack c = Some (stack, 262144)" "pos + 176 = stack + 262144"
    "load64 (word_mem (km_bytes (ky_mem s'))) (of_nat pos) = 0x1111"
    "load64 (word_mem (km_bytes (ky_mem s'))) (of_nat (pos + 8)) = 0x2222"
    and v: "\<forall>j < 64. tm_view (km_tables (ky_mem s')) (page_table (a :: user_addr_space)) (KSTACK_PAGE + j * PAGE_SIZE) = Some (stack + j * PAGE_SIZE, kstack_flags)"
    by (elim exE conjE) (rule that, assumption+)
  moreover have "tm_view (km_tables (ky_mem s')) (page_table a) (KSTACK_PAGE + 63 * PAGE_SIZE) = Some (stack + 63 * PAGE_SIZE, kstack_flags)"
    by (rule v [rule_format]) simp
  ultimately show ?thesis using s' by blast
qed

end
