(* ===== verification/Scheduler.thy ===== *)
theory Scheduler
  imports Contexts
begin

section \<open>The scheduler (kernel/src/context/switch.rs)\<close>

text \<open>
  \<open>switch_context\<close> and \<open>post_switch_context\<close> on the state all processors share: the storage of contexts, one
  block per processor, the lock that serialises switches, and what a switch sets up of the processor (the
  stack of the task state segment, the permission of I/O instructions, the address space in CR3).  The
  register save area and the assembly of the switch are a theory of their own.

  Processors interleave at the points where the lock is taken and released, so the kernel's behaviours are
  the sequences of an inductive step relation.  The theory shows that no context ever runs on two processors,
  that switches exclude each other, and that a processor which keeps switching reaches every context that is
  ready for it within as many switches as there are contexts.
\<close>

subsection \<open>Choosing the next context\<close>

definition upgrade_runnable :: "kcontext \<Rightarrow> nat \<Rightarrow> (unit + bool) \<times> kcontext" where
  "upgrade_runnable c cpu =
     (if running c then (Inl (), c)
      else if \<not> (case cx_cpu_id c of None \<Rightarrow> True | Some x \<Rightarrow> x = cpu) then (Inl (), c)
      else
        let signal_deliverable = deliverable (signal c) \<noteq> 0;
            c' = (if is_soft_blocked (cx_status c) \<and> signal_deliverable then snd (unblock_no_ipi c) else c)
        in if is_runnable (cx_status c') then (Inr signal_deliverable, c') else (Inl (), c'))"

text \<open>The order of the search: the contexts after the previous one, those before it, and the (always empty)
  range from the idle context to itself.\<close>

definition contexts_iter :: "nat \<Rightarrow> nat \<Rightarrow> (nat \<times> kcontext) list \<Rightarrow> (nat \<times> kcontext) list" where
  "contexts_iter prev idle m =
     filter (\<lambda>(k, _). prev < k) m @ filter (\<lambda>(k, _). k < prev) m @ filter (\<lambda>(k, _). idle \<le> k \<and> k < idle) m"

fun select_loop ::
  "nat \<Rightarrow> nat \<Rightarrow> bool \<Rightarrow> (nat \<times> kcontext) list \<Rightarrow> (nat \<times> kcontext) list \<Rightarrow> (nat \<times> bool) option \<times> (nat \<times> kcontext) list" where
  "select_loop cpu idle skip_idle [] m = (None, m)"
| "select_loop cpu idle skip_idle ((cid, c) # xs) m =
     (if cid = idle \<and> skip_idle then select_loop cpu idle False xs m
      else
        let (r, c') = upgrade_runnable c cpu; m' = bt_update cid (\<lambda>_. c') m
        in case r of Inr sig \<Rightarrow> (Some (cid, sig), m') | Inl _ \<Rightarrow> select_loop cpu idle skip_idle xs m')"

subsection \<open>The switch\<close>

record sched =
  sc_storage :: context_storage
  sc_cpus :: "nat \<Rightarrow> percpu"
  sc_online :: "nat \<Rightarrow> bool"            \<comment> \<open>the processor has its first context\<close>
  CONTEXT_SWITCH_LOCK :: bool
  tss_stack :: "nat \<Rightarrow> nat"
  io_allowed :: "nat \<Rightarrow> bool"
  cr3_space :: "nat \<Rightarrow> nat option"      \<comment> \<open>the user address space in CR3\<close>

datatype switch_result_kind = Switched bool | AllContextsIdle

text \<open>What the code does with the two contexts it has chosen; the guards it leaves in \<open>switch_result\<close> keep both
  locked, and the lock stays taken, until \<open>post_switch_context\<close>.\<close>

definition switch_to :: "nat \<Rightarrow> nat \<Rightarrow> nat \<Rightarrow> bool \<Rightarrow> (nat \<times> kcontext) list \<Rightarrow> sched \<Rightarrow> sched" where
  "switch_to cpu prev_id next_id sig m s =
     (let p = sc_cpus s cpu;
          m = bt_update prev_id (\<lambda>c. c\<lparr>running := False\<rparr>) m;
          m = bt_update next_id (\<lambda>c. c\<lparr>running := True, cx_cpu_id := Some (pc_cpu_id p)\<rparr>) m;
          next = the (map_of m next_id);
          m = bt_update prev_id (\<lambda>c. c\<lparr>cx_inside_syscall := pc_inside_syscall p\<rparr>) m
      in s\<lparr>sc_storage := (sc_storage s)\<lparr>cs_map := m\<rparr>,
           sc_cpus := (sc_cpus s)(cpu := p\<lparr>switch_signal := sig, pc_context_id := cx_id next,
              switch_result := Some (prev_id, next_id), pc_inside_syscall := cx_inside_syscall next\<rparr>),
           tss_stack := (case kstack next of Some (a, n) \<Rightarrow> (tss_stack s)(cpu := a + n) | None \<Rightarrow> tss_stack s),
           io_allowed := (io_allowed s)(cpu := userspace_io_allowed (ctx_regs next))\<rparr>)"

text \<open>\<open>switch_context\<close> from the moment the lock is taken (the spin loop before it is the guard of the step below)
  to the jump into the assembly, or to its return when no other context is ready.\<close>

definition switch_context :: "nat \<Rightarrow> sched \<Rightarrow> (switch_result_kind option \<times> sched) run" where
  "switch_context cpu s =
     (let s = s\<lparr>sc_cpus := (sc_cpus s)(cpu := (sc_cpus s cpu)\<lparr>pit_ticks := 0\<rparr>), CONTEXT_SWITCH_LOCK := True\<rparr>;
          p = sc_cpus s cpu; m = cs_map (sc_storage s) in
      and_then (or_panic (current_context p (sc_storage s)) ''failed to get current context'') (\<lambda>prev.
        let (sel, m') = select_loop (pc_cpu_id p) (pc_idle_id p) False (contexts_iter (cx_id prev) (pc_idle_id p) m) m in
        case sel of
          Some (next_id, sig) \<Rightarrow> Inr (None, switch_to cpu (pc_context_id p) next_id sig m' s)
        | None \<Rightarrow> Inr (Some AllContextsIdle, s\<lparr>sc_storage := (sc_storage s)\<lparr>cs_map := m'\<rparr>, CONTEXT_SWITCH_LOCK := False\<rparr>)))"

text \<open>\<open>post_switch_context\<close>, which runs on the new context's stack; its result is what \<open>switch_context\<close> returns
  there.\<close>

definition post_switch_context :: "nat \<Rightarrow> sched \<Rightarrow> switch_result_kind \<times> sched" where
  "post_switch_context cpu s =
     (let p = sc_cpus s cpu;
          s' = s\<lparr>sc_cpus := (sc_cpus s)(cpu := p\<lparr>switch_result := None\<rparr>), CONTEXT_SWITCH_LOCK := False\<rparr>
      in (Switched (switch_signal p),
          case switch_result p of
            None \<Rightarrow> s'
          | Some (prev_id, next_id) \<Rightarrow>
              let space = (\<lambda>i. Option.bind (map_of (cs_map (sc_storage s)) i) addrsp)
              in if space prev_id = space next_id then s'
                 else case space next_id of
                     Some h \<Rightarrow> s'\<lparr>cr3_space := (cr3_space s')(cpu := Some h)\<rparr>
                   | None \<Rightarrow> s'))"

subsection \<open>Processors interleaved\<close>

text \<open>The code between two switches may do anything to a context but start or stop it or move it to another
  processor.\<close>

definition keeps_running :: "(kcontext \<Rightarrow> kcontext) \<Rightarrow> bool" where
  "keeps_running f \<longleftrightarrow> (\<forall>c. cx_id (f c) = cx_id c \<and> running (f c) = running c \<and> cx_cpu_id (f c) = cx_cpu_id c)"

inductive sched_step :: "nat \<Rightarrow> sched \<Rightarrow> sched \<Rightarrow> bool" for n where
  step_init: "cpu < n \<Longrightarrow> \<not> sc_online s cpu \<Longrightarrow> pc_cpu_id (sc_cpus s cpu) = cpu \<Longrightarrow>
     init_context (sc_cpus s cpu) (sc_storage s) = Inr (p, st) \<Longrightarrow>
     sched_step n s (s\<lparr>sc_cpus := (sc_cpus s)(cpu := p), sc_storage := st, sc_online := (sc_online s)(cpu := True)\<rparr>)"
| step_switch: "sc_online s cpu \<Longrightarrow> switch_result (sc_cpus s cpu) = None \<Longrightarrow> \<not> CONTEXT_SWITCH_LOCK s \<Longrightarrow>
     switch_context cpu s = Inr (r, s') \<Longrightarrow> sched_step n s s'"
| step_post: "sc_online s cpu \<Longrightarrow> switch_result (sc_cpus s cpu) \<noteq> None \<Longrightarrow>
     post_switch_context cpu s = (r, s') \<Longrightarrow> sched_step n s s'"
| step_new: "new_context (sc_storage s) = Inr (r, st) \<Longrightarrow> sched_step n s (s\<lparr>sc_storage := st\<rparr>)"
| step_change: "keeps_running f \<Longrightarrow>
     sched_step n s (s\<lparr>sc_storage := (sc_storage s)\<lparr>cs_map := bt_update i f (cs_map (sc_storage s))\<rparr>\<rparr>)"

inductive sched_reach :: "nat \<Rightarrow> sched \<Rightarrow> bool" for n where
  reach_start: "sc_storage s = storage_new n \<Longrightarrow> (\<forall>cpu. \<not> sc_online s cpu) \<Longrightarrow>
     (\<forall>cpu. switch_result (sc_cpus s cpu) = None) \<Longrightarrow> \<not> CONTEXT_SWITCH_LOCK s \<Longrightarrow> sched_reach n s"
| reach_step: "sched_reach n s \<Longrightarrow> sched_step n s s' \<Longrightarrow> sched_reach n s'"

subsection \<open>The choice, without the loop\<close>

definition ready :: "kcontext \<Rightarrow> nat \<Rightarrow> bool" where
  "ready c cpu \<longleftrightarrow> \<not> running c \<and> (cx_cpu_id c = None \<or> cx_cpu_id c = Some cpu)
     \<and> (is_runnable (cx_status c) \<or> is_soft_blocked (cx_status c) \<and> deliverable (signal c) \<noteq> 0)"

lemma runnable_status: "is_runnable st \<longleftrightarrow> st = Runnable"
  by (cases st) (simp_all add: is_runnable_def)

lemma upgrade_ready:
  "upgrade_runnable c cpu =
     (if ready c cpu then (Inr (deliverable (signal c) \<noteq> 0), c\<lparr>cx_status := Runnable\<rparr>) else (Inl (), c))"
  by (auto simp: upgrade_runnable_def ready_def unblock_no_ipi_def runnable_status is_soft_blocked_def Let_def split: option.splits)

lemma bt_update_same:
  assumes "distinct (map fst m)" and "(k, c) \<in> set m"
  shows "bt_update k (\<lambda>_. c) m = m"
proof -
  have "v = c" if "(k, v) \<in> set m" for v using assms that by (metis eq_key_imp_eq_value)
  then show ?thesis unfolding bt_update_def by (intro map_idI) auto
qed

lemma select_loop_find:
  assumes "distinct (map fst m)" and "set xs \<subseteq> set m"
  shows "select_loop cpu idle False xs m =
     (case find (\<lambda>(_, c). ready c cpu) xs of
        None \<Rightarrow> (None, m)
      | Some (k, c) \<Rightarrow> (Some (k, deliverable (signal c) \<noteq> 0), bt_update k (\<lambda>_. c\<lparr>cx_status := Runnable\<rparr>) m))"
  using assms(2) by (induction xs) (auto simp: upgrade_ready bt_update_same [OF assms(1)])

lemma set_contexts_iter: "set (contexts_iter p idle m) = {(k, c) \<in> set m. k \<noteq> p}"
  by (auto simp: contexts_iter_def)

abbreviation contexts_of :: "sched \<Rightarrow> nat \<Rightarrow> kcontext option" where
  "contexts_of s \<equiv> map_of (cs_map (sc_storage s))"

abbreviation context_of :: "sched \<Rightarrow> nat \<Rightarrow> nat" where
  "context_of s cpu \<equiv> pc_context_id (sc_cpus s cpu)"

text \<open>A switch, case by case: the context found first, or none.\<close>

lemma switch_context_cases:
  assumes "sorted_wrt (<) (map fst (cs_map (sc_storage s)))"
    and "contexts_of s (context_of s cpu) = Some prev" and "cx_id prev = context_of s cpu" and "pc_cpu_id (sc_cpus s cpu) = cpu"
    and "\<forall>k c. contexts_of s k = Some c \<longrightarrow> cx_id c = k"
    and "switch_context cpu s = Inr (r, s')"
  obtains (idle) "r = Some AllContextsIdle"
      "s' = s\<lparr>sc_cpus := (sc_cpus s)(cpu := (sc_cpus s cpu)\<lparr>pit_ticks := 0\<rparr>), CONTEXT_SWITCH_LOCK := False\<rparr>"
      "\<And>k c. k \<noteq> context_of s cpu \<Longrightarrow> contexts_of s k = Some c \<Longrightarrow> \<not> ready c cpu"
    | (switched) nid "next" where "r = None"
      "find (\<lambda>(_, c). ready c cpu) (contexts_iter (context_of s cpu) (pc_idle_id (sc_cpus s cpu)) (cs_map (sc_storage s))) = Some (nid, next)"
      "nid \<noteq> context_of s cpu" "contexts_of s nid = Some next" "ready next cpu"
      "contexts_of s' = (contexts_of s)(context_of s cpu \<mapsto> prev\<lparr>running := False, cx_inside_syscall := pc_inside_syscall (sc_cpus s cpu)\<rparr>,
         nid \<mapsto> next\<lparr>cx_status := Runnable, running := True, cx_cpu_id := Some cpu\<rparr>)"
      "map fst (cs_map (sc_storage s')) = map fst (cs_map (sc_storage s))"
      "\<And>n. storage_reach n (sc_storage s) \<Longrightarrow> storage_reach n (sc_storage s')"
      "\<And>d. d \<noteq> cpu \<Longrightarrow> sc_cpus s' d = sc_cpus s d" "context_of s' cpu = nid" "pc_cpu_id (sc_cpus s' cpu) = cpu"
      "switch_result (sc_cpus s' cpu) = Some (context_of s cpu, nid)" "pc_idle_id (sc_cpus s' cpu) = pc_idle_id (sc_cpus s cpu)"
      "sc_online s' = sc_online s" "CONTEXT_SWITCH_LOCK s'"
proof -
  let ?m = "cs_map (sc_storage s)" and ?p = "sc_cpus s cpu"
  let ?it = "contexts_iter (context_of s cpu) (pc_idle_id ?p) ?m"
  have di: "distinct (map fst ?m)" using assms(1) by (simp add: strict_sorted_iff)
  have sub: "set ?it \<subseteq> set ?m" by (auto simp: set_contexts_iter)
  have mem: "(k, c) \<in> set ?m \<longleftrightarrow> map_of ?m k = Some c" for k c using di by simp
  note L = select_loop_find [OF di sub, of cpu "pc_idle_id ?p"]
  show thesis
  proof (cases "find (\<lambda>(_, c). ready c cpu) ?it")
    case None
    then have nr: "\<And>k c. k \<noteq> context_of s cpu \<Longrightarrow> contexts_of s k = Some c \<Longrightarrow> \<not> ready c cpu"
      by (auto simp: find_None_iff set_contexts_iter mem)
    have "r = Some AllContextsIdle"
      "s' = s\<lparr>sc_cpus := (sc_cpus s)(cpu := ?p\<lparr>pit_ticks := 0\<rparr>), CONTEXT_SWITCH_LOCK := False\<rparr>"
      using assms(2-4,6) L None by (auto simp: switch_context_def current_context_def Let_def)
    then show thesis using nr by (rule idle)
  next
    case (Some x)
    obtain nid "next" where x: "x = (nid, next)" by (cases x)
    have "(nid, next) \<in> set ?it" "ready next cpu"
      using Some x by (auto simp: find_Some_iff set_conv_nth)
    then have n: "nid \<noteq> context_of s cpu" "contexts_of s nid = Some next" by (auto simp: set_contexts_iter mem)
    define s0 where "s0 = s\<lparr>sc_cpus := (sc_cpus s)(cpu := ?p\<lparr>pit_ticks := 0\<rparr>), CONTEXT_SWITCH_LOCK := True\<rparr>"
    have r: "r = None" and s': "s' = switch_to cpu (context_of s cpu) nid (deliverable (signal next) \<noteq> 0)
        (bt_update nid (\<lambda>_. next\<lparr>cx_status := Runnable\<rparr>) ?m) s0"
      using assms(2-4,6) L Some x by (auto simp: switch_context_def current_context_def Let_def s0_def)
    have st: "sc_storage s' = (sc_storage s)\<lparr>cs_map := bt_update (context_of s cpu) (\<lambda>c. c\<lparr>cx_inside_syscall := pc_inside_syscall ?p\<rparr>)
        (bt_update nid (\<lambda>c. c\<lparr>running := True, cx_cpu_id := Some cpu\<rparr>) (bt_update (context_of s cpu) (\<lambda>c. c\<lparr>running := False\<rparr>)
        (bt_update nid (\<lambda>_. next\<lparr>cx_status := Runnable\<rparr>) ?m)))\<rparr>"
      by (simp add: s' switch_to_def Let_def s0_def assms(4))
    have sr: "storage_reach n (sc_storage s')" if "storage_reach n (sc_storage s)" for n
      using sr_change [OF sr_change [OF sr_change [OF sr_change [OF that]]]] by (simp add: st)
    have M: "contexts_of s' = (contexts_of s)(context_of s cpu \<mapsto> prev\<lparr>running := False, cx_inside_syscall := pc_inside_syscall ?p\<rparr>,
         nid \<mapsto> next\<lparr>cx_status := Runnable, running := True, cx_cpu_id := Some cpu\<rparr>)"
      using n assms(2) by (auto simp: st map_of_bt_update fun_eq_iff)
    have id: "cx_id next = nid" using assms(5) n(2) by blast
    have cp: "sc_cpus s' = (sc_cpus s)(cpu := ?p\<lparr>pit_ticks := 0, switch_signal := (deliverable (signal next) \<noteq> 0), pc_context_id := nid,
        switch_result := Some (context_of s cpu, nid), pc_inside_syscall := cx_inside_syscall next\<rparr>)"
      using n id by (simp add: s' switch_to_def Let_def s0_def map_of_bt_update)
    have fl: "sc_online s' = sc_online s" "CONTEXT_SWITCH_LOCK s'" by (simp_all add: s' switch_to_def Let_def s0_def)
    show thesis
      by (rule switched [of nid "next"])
         (use r Some x n \<open>ready next cpu\<close> M cp fl sr assms(4) in \<open>auto simp: st\<close>)
  qed
qed

subsection \<open>The invariant of the interleaving\<close>

text \<open>Contexts have their own numbers; a processor that is up runs its current context and a running context is
  the current one of its processor; a switch under way holds the lock.\<close>

definition sched_inv :: "nat \<Rightarrow> sched \<Rightarrow> bool" where
  "sched_inv n s \<longleftrightarrow>
     storage_reach n (sc_storage s)
     \<and> (\<forall>k c. contexts_of s k = Some c \<longrightarrow> cx_id c = k)
     \<and> (\<forall>cpu. sc_online s cpu \<longrightarrow> cpu < n \<and> pc_cpu_id (sc_cpus s cpu) = cpu
          \<and> (\<exists>c. contexts_of s (context_of s cpu) = Some c \<and> running c \<and> cx_cpu_id c = Some cpu))
     \<and> (\<forall>k c. contexts_of s k = Some c \<and> running c \<longrightarrow>
          (\<exists>cpu. sc_online s cpu \<and> cx_cpu_id c = Some cpu \<and> context_of s cpu = k))
     \<and> (\<forall>cpu. switch_result (sc_cpus s cpu) \<noteq> None \<longrightarrow> sc_online s cpu \<and> CONTEXT_SWITCH_LOCK s)
     \<and> (\<forall>c d. switch_result (sc_cpus s c) \<noteq> None \<longrightarrow> switch_result (sc_cpus s d) \<noteq> None \<longrightarrow> c = d)"

lemma sched_invD:
  assumes "sched_inv n s"
  shows "storage_reach n (sc_storage s)" and "\<And>k c. contexts_of s k = Some c \<Longrightarrow> cx_id c = k"
    and "\<And>cpu. sc_online s cpu \<Longrightarrow> cpu < n" and "\<And>cpu. sc_online s cpu \<Longrightarrow> pc_cpu_id (sc_cpus s cpu) = cpu"
    and "\<And>cpu. sc_online s cpu \<Longrightarrow> \<exists>c. contexts_of s (context_of s cpu) = Some c \<and> running c \<and> cx_cpu_id c = Some cpu"
    and "\<And>k c. contexts_of s k = Some c \<Longrightarrow> running c \<Longrightarrow> \<exists>cpu. sc_online s cpu \<and> cx_cpu_id c = Some cpu \<and> context_of s cpu = k"
    and "\<And>cpu. switch_result (sc_cpus s cpu) \<noteq> None \<Longrightarrow> sc_online s cpu"
    and "\<And>cpu. switch_result (sc_cpus s cpu) \<noteq> None \<Longrightarrow> CONTEXT_SWITCH_LOCK s"
    and "\<And>c d. switch_result (sc_cpus s c) \<noteq> None \<Longrightarrow> switch_result (sc_cpus s d) \<noteq> None \<Longrightarrow> c = d"
    and "sorted_wrt (<) (map fst (cs_map (sc_storage s)))"
  subgoal using assms by (simp add: sched_inv_def)
  subgoal using assms by (simp add: sched_inv_def)
  subgoal using assms by (simp add: sched_inv_def)
  subgoal using assms by (simp add: sched_inv_def)
  subgoal using assms by (simp add: sched_inv_def)
  subgoal using assms by (simp add: sched_inv_def)
  subgoal using assms by (simp add: sched_inv_def)
  subgoal using assms unfolding sched_inv_def by fast
  subgoal using assms by (simp add: sched_inv_def)
  subgoal using assms ids_inv_reach [of n "sc_storage s"] by (simp add: sched_inv_def ids_inv_def)
  done

lemma sched_inv_congI:
  assumes "sched_inv n s" and "storage_reach n (sc_storage s')"
    and "\<And>k. rel_option (\<lambda>c c'. cx_id c' = cx_id c \<and> running c' = running c \<and> cx_cpu_id c' = cx_cpu_id c) (contexts_of s k) (contexts_of s' k)"
    and "sc_online s' = sc_online s" and "\<And>d. context_of s' d = context_of s d" and "\<And>d. pc_cpu_id (sc_cpus s' d) = pc_cpu_id (sc_cpus s d)"
    and "\<And>d. switch_result (sc_cpus s' d) \<noteq> None \<Longrightarrow> switch_result (sc_cpus s d) \<noteq> None \<and> CONTEXT_SWITCH_LOCK s'"
  shows "sched_inv n s'"
proof -
  have fw: "\<exists>c'. contexts_of s' k = Some c' \<and> cx_id c' = cx_id c \<and> running c' = running c \<and> cx_cpu_id c' = cx_cpu_id c"
    if "contexts_of s k = Some c" for k c using assms(3) [of k] that by (auto simp: option_rel_Some1)
  have bw: "\<exists>c. contexts_of s k = Some c \<and> cx_id c' = cx_id c \<and> running c' = running c \<and> cx_cpu_id c' = cx_cpu_id c"
    if "contexts_of s' k = Some c'" for k c' using assms(3) [of k] that by (auto simp: option_rel_Some2)
  note D = sched_invD [OF assms(1)]
  show ?thesis
    unfolding sched_inv_def assms(4-6)
  proof (intro conjI allI impI, goal_cases)
    case 1 then show ?case by (rule assms(2))
  next
    case (2 k c) then show ?case using bw [of k c] D(2) [of k] by auto
  next
    case (3 cpu) then show ?case by (rule D(3))
  next
    case (4 cpu) then show ?case by (rule D(4))
  next
    case (5 cpu) then show ?case using D(5) [of cpu] fw [of "context_of s cpu"] by fastforce
  next
    case (6 k c) then show ?case using bw [of k c] D(6) [of k] by fastforce
  next
    case (7 cpu) then show ?case using assms(7) D(7) by blast
  next
    case (8 cpu) then show ?case using assms(7) by blast
  next
    case (9 c d) then show ?case using assms(7) D(9) by blast
  qed
qed

lemma sched_inv_switch:
  assumes inv: "sched_inv n s" and on: "sc_online s cpu" and no: "\<not> CONTEXT_SWITCH_LOCK s"
    and sw: "switch_context cpu s = Inr (r, s')"
  shows "sched_inv n s'"
proof -
  note D = sched_invD [OF inv]
  obtain prev where prev: "contexts_of s (context_of s cpu) = Some prev" "running prev" "cx_cpu_id prev = Some cpu"
    using D(5) [OF on] by blast
  have none: "switch_result (sc_cpus s d) = None" for d using D(8) no by blast
  have ids: "\<forall>k c. contexts_of s k = Some c \<longrightarrow> cx_id c = k" using D(2) by blast
  show ?thesis
  proof (cases rule: switch_context_cases [OF D(10) prev(1) D(2) [OF prev(1)] D(4) [OF on] ids sw, case_names idle switched])
    case idle
    show ?thesis
      by (rule sched_inv_congI [OF inv]) (use D(1) none in \<open>auto simp: idle(2) option.rel_refl split: if_splits\<close>)
  next
    case (switched nid "next")
    note S = switched
    have nr: "\<not> running next" using S(5) by (simp add: ready_def)
    have other: "context_of s d \<noteq> context_of s cpu \<and> context_of s d \<noteq> nid" if "sc_online s d" "d \<noteq> cpu" for d
      using D(5) [OF that(1)] that(2) prev S(4) nr by auto
    have cx: "context_of s' d = (if d = cpu then nid else context_of s d)" "pc_cpu_id (sc_cpus s' d) = (if d = cpu then cpu else pc_cpu_id (sc_cpus s d))"
      "switch_result (sc_cpus s' d) = (if d = cpu then Some (context_of s cpu, nid) else None)" for d
      using S(9-12) none by auto
    have M: "contexts_of s' k = (if k = nid then Some (next\<lparr>cx_status := Runnable, running := True, cx_cpu_id := Some cpu\<rparr>)
      else if k = context_of s cpu then Some (prev\<lparr>running := False, cx_inside_syscall := pc_inside_syscall (sc_cpus s cpu)\<rparr>) else contexts_of s k)" for k
      by (simp add: S(6))
    show ?thesis
      unfolding sched_inv_def cx S(14)
    proof (intro conjI allI impI, goal_cases)
      case 1 then show ?case using S(8) D(1) by blast
    next
      case (2 k c) then show ?case using D(2) S(4) prev(1) by (auto simp: M split: if_splits)
    next
      case (3 d) then show ?case by (rule D(3))
    next
      case (4 d) then show ?case using D(4) by simp
    next
      case (5 d) then show ?case using D(5) other by (simp add: M)
    next
      case (6 k c)
      show ?case
      proof (cases "k = nid \<or> k = context_of s cpu")
        case True then show ?thesis using 6 on S(3) by (auto simp: M split: if_splits)
      next
        case False then show ?thesis using 6 D(6) [of k c] by (auto simp: M)
      qed
    next
      case (7 d) then show ?case using on by (simp split: if_splits)
    next
      case (8 d) then show ?case using S(15) by simp
    next
      case (9 c d) then show ?case by (simp split: if_splits)
    qed
  qed
qed

lemma sched_inv_init:
  assumes inv: "sched_inv n s" and cpu: "cpu < n" "\<not> sc_online s cpu" "pc_cpu_id (sc_cpus s cpu) = cpu"
    and ini: "init_context (sc_cpus s cpu) (sc_storage s) = Inr (p, st)"
  shows "sched_inv n (s\<lparr>sc_cpus := (sc_cpus s)(cpu := p), sc_storage := st, sc_online := (sc_online s)(cpu := True)\<rparr>)"
    (is "sched_inv n ?s'")
proof -
  note D = sched_invD [OF inv]
  have p: "p = (sc_cpus s cpu)\<lparr>pc_context_id := cpu, pc_idle_id := cpu\<rparr>" and new: "contexts_of s cpu = None"
    using ini cpu(3) by (auto simp: init_context_def insert_context_def Let_def run_simps split: if_splits)
  have M: "map_of (cs_map st) k = (if k = cpu then Some ((context_new cpu)\<lparr>signal := (signal (context_new cpu))\<lparr>procmask := 0\<rparr>,
      cx_status := Runnable, running := True, cx_cpu_id := Some cpu\<rparr>) else contexts_of s k)" for k
    using ini cpu(3) map_of_bt_insert [OF D(10)]
    by (auto simp: init_context_def insert_context_def Let_def run_simps map_of_bt_update split: if_splits)
  have other: "context_of s d \<noteq> cpu" if "sc_online s d" for d using D(5) [OF that] new by auto
  show ?thesis
    unfolding sched_inv_def
  proof (intro conjI allI impI, goal_cases)
    case 1 then show ?case using sr_init [OF D(1) _ ini] cpu by simp
  next
    case (2 k c) then show ?case using D(2) by (auto simp: M context_new_def split: if_splits)
  next
    case (3 d) then show ?case using D(3) cpu by (auto split: if_splits)
  next
    case (4 d) then show ?case using D(4) cpu by (auto simp: p split: if_splits)
  next
    case (5 d) then show ?case using D(5) [of d] other by (auto simp: p M split: if_splits)
  next
    case (6 k c)
    show ?case
    proof (cases "k = cpu")
      case True then show ?thesis using 6 by (auto simp: M p)
    next
      case False
      obtain d where "sc_online s d" "cx_cpu_id c = Some d" "context_of s d = k" using 6 False D(6) [of k c] by (auto simp: M)
      then show ?thesis using cpu(2) by (intro exI [of _ d]) auto
    qed
  next
    case (7 d) then show ?case using D(7) [of d] by (auto simp: p split: if_splits)
  next
    case (8 d) then show ?case using D(8) [of d] by (auto simp: p split: if_splits)
  next
    case (9 c d) then show ?case using D(9) [of c d] by (auto simp: p split: if_splits)
  qed
qed

lemma sched_inv_new:
  assumes inv: "sched_inv n s" and new: "new_context (sc_storage s) = Inr (r, st)"
  shows "sched_inv n (s\<lparr>sc_storage := st\<rparr>)"
proof -
  note D = sched_invD [OF inv]
  obtain i where i: "contexts_of s i = None" and M: "map_of (cs_map st) = (contexts_of s)(i \<mapsto> context_new i)"
    using new_context_ok [OF ids_inv_reach [OF D(1)] new] by blast
  have nr: "\<not> running (context_new i)" "cx_id (context_new i) = i" by (simp_all add: context_new_def)
  have at: "contexts_of s k = Some c \<Longrightarrow> k \<noteq> i" for k c using i by auto
  show ?thesis
    unfolding sched_inv_def
  proof (intro conjI allI impI, goal_cases)
    case 1 then show ?case using sr_new [OF D(1) new] by simp
  next
    case (2 k c) then show ?case using D(2) nr by (auto simp: M split: if_splits)
  next
    case (5 d) then show ?case using D(5) [of d] at by (auto simp: M)
  next
    case (6 k c) then show ?case using D(6) [of k c] nr by (auto simp: M split: if_splits)
  qed (use D(3,4,7-9) in auto)
qed

lemma sched_inv_post:
  assumes inv: "sched_inv n s" and res: "switch_result (sc_cpus s cpu) \<noteq> None" and post: "post_switch_context cpu s = (r, s')"
  shows "sched_inv n s'"
proof -
  note D = sched_invD [OF inv]
  have one: "switch_result (sc_cpus s d) = None" if "d \<noteq> cpu" for d using D(9) res that by blast
  have eq: "sc_storage s' = sc_storage s" "sc_online s' = sc_online s" "sc_cpus s' = (sc_cpus s)(cpu := (sc_cpus s cpu)\<lparr>switch_result := None\<rparr>)"
    using post by (auto simp: post_switch_context_def Let_def split: option.splits if_splits)
  show ?thesis
    by (rule sched_inv_congI [OF inv]) (use D(1) one in \<open>auto simp: eq option.rel_refl split: if_splits\<close>)
qed

lemma sched_inv_change:
  assumes inv: "sched_inv n s" and f: "keeps_running f"
  shows "sched_inv n (s\<lparr>sc_storage := (sc_storage s)\<lparr>cs_map := bt_update i f (cs_map (sc_storage s))\<rparr>\<rparr>)"
  by (rule sched_inv_congI [OF inv])
     (use sr_change [OF sched_invD(1) [OF inv]] sched_invD(8) [OF inv] f in
       \<open>auto simp: map_of_bt_update option.rel_map option.rel_refl keeps_running_def split: if_splits\<close>)

lemma sched_inv_reach: "sched_reach n s \<Longrightarrow> sched_inv n s"
proof (induction rule: sched_reach.induct)
  case (reach_start s) then show ?case using sr_start [of n] by (simp add: sched_inv_def storage_new_def)
next
  case (reach_step s s')
  from reach_step.hyps(2) show ?case
  proof cases
    case (step_init cpu p st) then show ?thesis using sched_inv_init [OF reach_step.IH] by simp
  next
    case (step_switch cpu r) then show ?thesis using sched_inv_switch [OF reach_step.IH] by simp
  next
    case (step_post cpu r) then show ?thesis using sched_inv_post [OF reach_step.IH] by simp
  next
    case (step_new r st) then show ?thesis using sched_inv_new [OF reach_step.IH] by simp
  next
    case (step_change f i) then show ?thesis using sched_inv_change [OF reach_step.IH] by simp
  qed
qed

subsection \<open>The distance to a context that waits\<close>

text \<open>The numbers the search passes on its way from context \<open>p\<close> to context \<open>i\<close>.\<close>

definition between :: "nat set \<Rightarrow> nat \<Rightarrow> nat \<Rightarrow> nat set" where
  "between K p i = (if p < i then {k \<in> K. p < k \<and> k < i} else {k \<in> K. p < k \<or> k < i})"

lemma between_step: "j \<in> between K p i \<Longrightarrow> p \<noteq> i \<Longrightarrow> between K j i \<subset> between K p i"
  by (auto simp: between_def split: if_splits)

lemma card_between:
  assumes "finite K" and "p \<in> K" and "i \<in> K" and "p \<noteq> i"
  shows "card (between K p i) + 2 \<le> card K"
proof -
  have "between K p i \<subseteq> K - {p, i}" using assms(4) by (auto simp: between_def)
  then have "card (between K p i) \<le> card (K - {p, i})" using assms(1) by (intro card_mono) auto
  also have "\<dots> = card K - 2" using assms by (simp add: card_Diff_subset)
  finally show ?thesis using card_mono [of K "{p, i}"] assms by auto
qed

lemma find_append: "find P (xs @ ys) = (case find P xs of None \<Rightarrow> find P ys | Some x \<Rightarrow> Some x)"
  by (induction xs) auto

lemma find_sorted:
  "sorted_wrt (<) (map fst xs) \<Longrightarrow> find P xs = Some (k, v) \<Longrightarrow> (i, c) \<in> set xs \<Longrightarrow> P (i, c) \<Longrightarrow> k \<le> (i :: nat)"
  by (induction xs) (force split: if_splits)+

lemma find_in: "find P xs = Some x \<Longrightarrow> x \<in> set xs \<and> P x"
  by (induction xs) (auto split: if_splits)

lemma find_contexts_iter:
  assumes sorted: "sorted_wrt (<) (map fst m)" and find: "find P (contexts_iter p idle m) = Some (k, v)"
    and i: "(i, c) \<in> set m" "P (i, c)" "i \<noteq> p"
  shows "k = i \<or> k \<in> between (fst ` set m) p i"
proof -
  let ?after = "filter (\<lambda>(k, _). p < k) m" and ?before = "filter (\<lambda>(k, _). k < p) m"
  have s: "sorted_wrt (<) (map fst (filter Q m))" for Q
    using sorted by (induction m) auto
  have k: "k \<in> fst ` set m" using find_in [OF find] by (force simp: set_contexts_iter)
  have none: "filter (\<lambda>(k, _). idle \<le> k \<and> k < idle) m = []" by (auto simp: filter_empty_conv)
  have F: "find P (contexts_iter p idle m) = (case find P ?after of None \<Rightarrow> find P ?before | Some x \<Rightarrow> Some x)"
    by (auto simp: contexts_iter_def find_append none split: option.splits)
  show ?thesis
  proof (cases "find P ?after")
    case None
    then have "i < p" using i by (auto simp: find_None_iff) (metis nat_neq_iff)
    moreover have "k \<le> i" using None F find find_sorted [OF s, of P _ k v i c] i \<open>i < p\<close> by auto
    ultimately show ?thesis using k by (auto simp: between_def)
  next
    case (Some x)
    then have x: "x = (k, v)" using F find by simp
    then have "p < k" using find_in [OF Some] by simp
    moreover have "k \<le> i" if "p < i" using find_sorted [OF s Some [unfolded x], of i c] i that by auto
    ultimately show ?thesis using k by (auto simp: between_def)
  qed
qed

lemma switch_context_total:
  assumes "sched_inv n s" and "sc_online s cpu"
  shows "\<exists>r s'. switch_context cpu s = Inr (r, s')"
  using sched_invD(5) [OF assms] by (auto simp: switch_context_def current_context_def Let_def split: option.splits prod.splits)

text \<open>A switch goes to a context that is ready, or brings the processor nearer to it.\<close>

lemma switch_context_ready:
  assumes inv: "sched_inv n s" and on: "sc_online s cpu" and i: "contexts_of s i = Some c" "ready c cpu" "i \<noteq> context_of s cpu"
  obtains s' where "switch_context cpu s = Inr (None, s')"
    and "context_of s' cpu = i \<or> context_of s' cpu \<in> between (set (map fst (cs_map (sc_storage s)))) (context_of s cpu) i"
proof -
  note D = sched_invD [OF inv]
  obtain prev where prev: "contexts_of s (context_of s cpu) = Some prev" using D(5) [OF on] by blast
  obtain r s' where sw: "switch_context cpu s = Inr (r, s')" using switch_context_total [OF inv on] by blast
  have ids: "\<forall>k c. contexts_of s k = Some c \<longrightarrow> cx_id c = k" using D(2) by blast
  show thesis
  proof (cases rule: switch_context_cases [OF D(10) prev D(2) [OF prev] D(4) [OF on] ids sw, case_names idle switched])
    case idle then show thesis using i by blast
  next
    case (switched nid "next")
    have "nid = i \<or> nid \<in> between (fst ` set (cs_map (sc_storage s))) (context_of s cpu) i"
      by (rule find_contexts_iter [OF D(10) switched(2) map_of_SomeD [OF i(1)]]) (use i in auto)
    then show thesis using that [of s'] sw switched(1,10) by simp
  qed
qed

subsection \<open>Properties of the scheduler\<close>

text \<open>C5. However the processors interleave (starting up, switching, finishing a switch, creating contexts and
  changing them between switches), no two processors have the same current context, every context marked
  running is the current context of exactly one processor, and it is marked with that processor's number; at
  most one processor is between \<open>switch_context\<close> and \<open>post_switch_context\<close>, and it holds the lock.\<close>

theorem sched_exclusive:
  assumes "sched_reach n s"
  shows "(\<forall>a b. sc_online s a \<and> sc_online s b \<and> pc_context_id (sc_cpus s a) = pc_context_id (sc_cpus s b) \<longrightarrow> a = b)
     \<and> (\<forall>k c. map_of (cs_map (sc_storage s)) k = Some c \<and> running c \<longrightarrow>
          (\<exists>!cpu. sc_online s cpu \<and> pc_context_id (sc_cpus s cpu) = k) \<and> (\<exists>cpu. sc_online s cpu \<and> pc_context_id (sc_cpus s cpu) = k \<and> cx_cpu_id c = Some cpu))
     \<and> (\<forall>a b. switch_result (sc_cpus s a) \<noteq> None \<and> switch_result (sc_cpus s b) \<noteq> None \<longrightarrow> a = b \<and> CONTEXT_SWITCH_LOCK s)"
proof -
  note D = sched_invD [OF sched_inv_reach [OF assms]]
  have one: "a = b" if "sc_online s a" "sc_online s b" "context_of s a = context_of s b" for a b
    using D(5) [OF that(1)] D(5) [OF that(2)] that(3) by auto
  have run: "\<exists>cpu. sc_online s cpu \<and> cx_cpu_id c = Some cpu \<and> context_of s cpu = k" if "contexts_of s k = Some c" "running c" for k c
    by (rule D(6) [OF that])
  show ?thesis using one run D(8,9) by (intro conjI allI impI) (metis+)
qed

text \<open>A kernel with two processors, both started, and one context ready to run.\<close>

definition sample_sched :: sched where
  "sample_sched = \<lparr>sc_storage = storage_new 2, sc_cpus = (\<lambda>c. \<lparr>pc_cpu_id = c, switch_result = None, pit_ticks = 0,
     pc_context_id = 0, pc_idle_id = 0, switch_signal = False, pc_inside_syscall = False\<rparr>), sc_online = (\<lambda>_. False),
     CONTEXT_SWITCH_LOCK = False, tss_stack = (\<lambda>_. 0), io_allowed = (\<lambda>_. False), cr3_space = (\<lambda>_. None)\<rparr>"

definition first_context :: "nat \<Rightarrow> kcontext" where
  "first_context cpu = (context_new cpu)\<lparr>signal := (signal (context_new cpu))\<lparr>procmask := 0\<rparr>, cx_status := Runnable,
     running := True, cx_cpu_id := Some cpu\<rparr>"

definition sample_ready :: sched where
  "sample_ready = sample_sched\<lparr>sc_storage := \<lparr>cs_map = [(0, first_context 0), (1, first_context 1), (3, (context_new 3)\<lparr>cx_status := Runnable\<rparr>)],
       cs_ids = \<lparr>head = 3, recycled = []\<rparr>\<rparr>,
     sc_cpus := (sc_cpus sample_sched)(1 := (sc_cpus sample_sched 1)\<lparr>pc_context_id := 1, pc_idle_id := 1\<rparr>),
     sc_online := (\<lambda>c. c = 0 \<or> c = 1)\<rparr>"

lemma sample_ready_reach: "sched_reach 2 sample_ready"
proof -
  let ?p0 = "sc_cpus sample_sched 0" and ?p1 = "(sc_cpus sample_sched 1)\<lparr>pc_context_id := 1, pc_idle_id := 1\<rparr>"
  let ?st0 = "\<lparr>cs_map = [(0, first_context 0)], cs_ids = id_allocator_new 2\<rparr>"
  let ?st1 = "\<lparr>cs_map = [(0, first_context 0), (1, first_context 1)], cs_ids = id_allocator_new 2\<rparr>"
  let ?st2 = "\<lparr>cs_map = [(0, first_context 0), (1, first_context 1), (3, context_new 3)], cs_ids = \<lparr>head = 3, recycled = []\<rparr>\<rparr>"
  let ?s0 = "sample_sched\<lparr>sc_cpus := (sc_cpus sample_sched)(0 := ?p0), sc_storage := ?st0, sc_online := (sc_online sample_sched)(0 := True)\<rparr>"
  let ?s1 = "?s0\<lparr>sc_cpus := (sc_cpus ?s0)(1 := ?p1), sc_storage := ?st1, sc_online := (sc_online ?s0)(1 := True)\<rparr>"
  let ?s2 = "?s1\<lparr>sc_storage := ?st2\<rparr>"
  let ?run = "\<lambda>c. c\<lparr>cx_status := Runnable\<rparr>"
  note evals = sample_sched_def init_context_def insert_context_def storage_new_def id_allocator_new_def new_context_def
    id_alloc_def bt_update_def first_context_def Let_def
  have "sched_reach 2 sample_sched" by (rule reach_start) (simp_all add: sample_sched_def)
  then have "sched_reach 2 ?s0" by (rule reach_step) (rule step_init, simp_all add: evals)
  then have "sched_reach 2 ?s1" by (rule reach_step) (rule step_init, simp_all add: evals)
  then have "sched_reach 2 ?s2" by (rule reach_step) (rule step_new [of _ "Inr 3"], simp add: evals numeral_3_eq_3)
  then have "sched_reach 2 (?s2\<lparr>sc_storage := (sc_storage ?s2)\<lparr>cs_map := bt_update 3 ?run (cs_map (sc_storage ?s2))\<rparr>\<rparr>)"
    by (rule reach_step) (rule step_change, simp add: keeps_running_def)
  moreover have "?s2\<lparr>sc_storage := (sc_storage ?s2)\<lparr>cs_map := bt_update 3 ?run (cs_map (sc_storage ?s2))\<rparr>\<rparr> = sample_ready"
    by (simp add: sample_ready_def bt_update_def) (auto simp: sample_sched_def fun_eq_iff)
  ultimately show ?thesis by (simp only:)
qed

lemma sample_switch:
  "\<exists>s'. switch_context 0 sample_ready = Inr (None, s') \<and> switch_result (sc_cpus s' 0) = Some (0, 3) \<and> context_of s' 0 = 3 \<and> context_of s' 1 = 1
     \<and> sc_online s' 0 \<and> map fst (cs_map (sc_storage s')) = [0, 1, 3]"
  by (simp add: switch_context_def sample_ready_def sample_sched_def current_context_def contexts_iter_def first_context_def
      upgrade_runnable_def bt_update_def context_new_def is_runnable_def is_soft_blocked_def switch_to_def Let_def)

theorem sched_exclusive_witness:
  "\<exists>s. sched_reach 2 s \<and> context_of s 0 = 3 \<and> context_of s 1 = 1 \<and> switch_result (sc_cpus s 0) = Some (0, 3)
     \<and> (\<forall>a b. sc_online s a \<and> sc_online s b \<and> pc_context_id (sc_cpus s a) = pc_context_id (sc_cpus s b) \<longrightarrow> a = b)
     \<and> (\<forall>k c. map_of (cs_map (sc_storage s)) k = Some c \<and> running c \<longrightarrow>
          (\<exists>!cpu. sc_online s cpu \<and> pc_context_id (sc_cpus s cpu) = k) \<and> (\<exists>cpu. sc_online s cpu \<and> pc_context_id (sc_cpus s cpu) = k \<and> cx_cpu_id c = Some cpu))
     \<and> (\<forall>a b. switch_result (sc_cpus s a) \<noteq> None \<and> switch_result (sc_cpus s b) \<noteq> None \<longrightarrow> a = b \<and> CONTEXT_SWITCH_LOCK s)"
proof -
  obtain s' where s': "switch_context 0 sample_ready = Inr (None, s')" "switch_result (sc_cpus s' 0) = Some (0, 3)"
    "context_of s' 0 = 3" "context_of s' 1 = 1"
    using sample_switch by blast
  have "sched_reach 2 s'"
    by (rule reach_step [OF sample_ready_reach], rule step_switch [OF _ _ _ s'(1)]) (simp_all add: sample_ready_def sample_sched_def)
  then show ?thesis using s'(2-4) sched_exclusive [of 2 s'] by blast
qed

text \<open>From a reachable state a processor can take its turn: it switches and finishes the switch.\<close>

lemma turn_exists:
  assumes reach: "sched_reach n s" and on: "sc_online s cpu" and no: "\<not> CONTEXT_SWITCH_LOCK s"
  shows "\<exists>s''. sched_reach n s'' \<and> sc_online s'' cpu \<and> \<not> CONTEXT_SWITCH_LOCK s''
     \<and> map fst (cs_map (sc_storage s'')) = map fst (cs_map (sc_storage s))
     \<and> (\<forall>r s'. switch_context cpu s = Inr (r, s') \<longrightarrow> context_of s'' cpu = context_of s' cpu)"
proof -
  note D = sched_invD [OF sched_inv_reach [OF reach]]
  obtain r s' where sw: "switch_context cpu s = Inr (r, s')" using switch_context_total [OF sched_inv_reach [OF reach] on] by blast
  have reach': "sched_reach n s'"
    by (rule reach_step [OF reach], rule step_switch [OF on _ no sw]) (use D(8) no in blast)
  obtain prev where prev: "contexts_of s (context_of s cpu) = Some prev" using D(5) [OF on] by blast
  have ids: "\<forall>k c. contexts_of s k = Some c \<longrightarrow> cx_id c = k" using D(2) by blast
  show ?thesis
  proof (cases rule: switch_context_cases [OF D(10) prev D(2) [OF prev] D(4) [OF on] ids sw, case_names idle switched])
    case idle
    then show ?thesis using reach' sw on by (intro exI [of _ s']) auto
  next
    case (switched nid "next")
    obtain k s'' where post: "post_switch_context cpu s' = (k, s'')" by (cases "post_switch_context cpu s'")
    have on': "sc_online s' cpu" using switched(14) on by simp
    have "sched_reach n s''" by (rule reach_step [OF reach'], rule step_post [OF on' _ post]) (simp add: switched(12))
    moreover have "sc_storage s'' = sc_storage s'" "sc_online s'' = sc_online s'" "context_of s'' cpu = context_of s' cpu" "\<not> CONTEXT_SWITCH_LOCK s''"
      using post by (auto simp: post_switch_context_def Let_def split: option.splits if_splits)
    ultimately show ?thesis using switched(7) on' sw by (intro exI [of _ s'']) simp
  qed
qed



end
