(* ===== verification/Context_Switch.thy ===== *)
theory Context_Switch
  imports Scheduler Trap_Frames
begin

unbundle bit_operations_syntax

section \<open>The assembly of a context switch (kernel/src/context/switch.rs)\<close>

text \<open>
  The two pieces of assembly at the end of \<open>switch_context\<close>: the one that exchanges the bases of FS and GS and
  the naked function \<open>switch_context_inner\<close> that exchanges the registers, both over the \<open>ContextRegisters\<close> blocks
  of the two contexts in memory.  The theory shows that a context which is switched away and switched back,
  with its block left alone in between, finds the registers it had, and what becomes of its segment bases.
\<close>

subsection \<open>The register block\<close>

text \<open>The structure is \<open>repr(C)\<close>: ten fields of eight bytes in the order of their declaration (the flag after them
  is not touched by the assembly).\<close>

definition off_rflags :: word64 where "off_rflags = 0"
definition off_rbx :: word64 where "off_rbx = 8"
definition off_r12 :: word64 where "off_r12 = 16"
definition off_r13 :: word64 where "off_r13 = 24"
definition off_r14 :: word64 where "off_r14 = 32"
definition off_r15 :: word64 where "off_r15 = 40"
definition off_rbp :: word64 where "off_rbp = 48"
definition off_rsp :: word64 where "off_rsp = 56"
definition fsbase_off :: word64 where "fsbase_off = 64"
definition gsbase_off :: word64 where "gsbase_off = 72"

definition read_registers :: "byte_mem \<Rightarrow> word64 \<Rightarrow> bool \<Rightarrow> context_registers" where
  "read_registers m a io =
     \<lparr>cr_rflags = load64 m (off_rflags + a), cr_rbx = load64 m (off_rbx + a), cr_r12 = load64 m (off_r12 + a),
      cr_r13 = load64 m (off_r13 + a), cr_r14 = load64 m (off_r14 + a), cr_r15 = load64 m (off_r15 + a),
      cr_rbp = load64 m (off_rbp + a), cr_rsp = load64 m (off_rsp + a),
      cr_fsbase = load64 m (fsbase_off + a), cr_gsbase = load64 m (gsbase_off + a), userspace_io_allowed = io\<rparr>"

subsection \<open>The code\<close>

definition MSR_FSBASE :: word64 where "MSR_FSBASE = 0xC0000100"
definition MSR_KERNEL_GSBASE :: word64 where "MSR_KERNEL_GSBASE = 0xC0000102"

text \<open>The compiler picks the registers \<open>prev\<close> and \<open>next\<close>, which are none of the three the code declares as clobbered.\<close>

definition switch_bases :: "reg \<Rightarrow> reg \<Rightarrow> instr list" where
  "switch_bases prev next =
     [MovImm RCX MSR_FSBASE, Rdmsr, StoreLow32 prev fsbase_off RAX, Load RDX next fsbase_off, Mov32 RAX RDX, Shr RDX 32, Wrmsr,
      MovImm RCX MSR_KERNEL_GSBASE, Rdmsr, StoreLow32 prev gsbase_off RAX, Load RDX next gsbase_off, Mov32 RAX RDX, Shr RDX 32, Wrmsr]"

definition switch_context_inner :: "instr list" where
  "switch_context_inner =
     [Store RDI off_rbx RBX, Load RBX RSI off_rbx,
      Store RDI off_r12 R12, Load R12 RSI off_r12,
      Store RDI off_r13 R13, Load R13 RSI off_r13,
      Store RDI off_r14 R14, Load R14 RSI off_r14,
      Store RDI off_r15 R15, Load R15 RSI off_r15,
      Store RDI off_rbp RBP, Load RBP RSI off_rbp,
      Store RDI off_rsp RSP, Load RSP RSI off_rsp,
      Pushfq, PopMem RDI off_rflags, PushMem RSI off_rflags, Popfq]"

subsection \<open>Blocks that do not overlap\<close>

definition blocks_apart :: "word64 \<Rightarrow> word64 \<Rightarrow> bool" where
  "blocks_apart p q \<longleftrightarrow> 80 \<le> p - q \<and> 80 \<le> q - p"

text \<open>The eight bytes at \<open>s\<close> are outside the block at \<open>p\<close>.\<close>

definition clear_of :: "word64 \<Rightarrow> word64 \<Rightarrow> bool" where
  "clear_of s p \<longleftrightarrow> 80 \<le> s - p \<and> 8 \<le> p - s"

lemma unat_minus64: "d \<noteq> 0 \<Longrightarrow> unat (- d :: word64) = 18446744073709551616 - unat d"
  using unat_sub_if_size [of 0 d] by (simp add: word_size unat_eq_zero split: if_splits)

lemma far_below: "80 \<le> d \<Longrightarrow> i \<le> 72 \<Longrightarrow> 8 \<le> d - (i :: word64)"
  using unat_sub [of i d] by (simp add: word_le_nat_alt)

lemma far_above:
  assumes "l \<le> d" and "80 \<le> - d" and "i \<le> 72"
  shows "l \<le> d + (i :: word64)"
proof -
  have nz: "d \<noteq> 0" using assms(2) by auto
  have "unat d \<le> 18446744073709551536" using assms(2) unat_minus64 [OF nz] by (simp add: word_le_nat_alt)
  then have "unat (d + i) = unat d + unat i" using assms(3) by (simp add: unat_word_ariths word_le_nat_alt)
  then show ?thesis using assms(1) by (simp add: word_le_nat_alt)
qed

lemma blocks_apart_fields:
  assumes "blocks_apart p q" and "i \<le> 72" and "j \<le> 72"
  shows "apart (i + p) (j + q)" and "apart (j + q) (i + p)"
proof -
  have "i + p - (j + q) = (p - q) + i - j" "j + q - (i + p) = (q - p) + j - i" by simp_all
  moreover have "8 \<le> (p - q) + i - j" "8 \<le> (q - p) + j - i"
    using assms by (auto intro!: far_below far_above simp: blocks_apart_def)
  ultimately show "apart (i + p) (j + q)" and "apart (j + q) (i + p)" unfolding apart_def by (simp_all only: simp_thms)
qed

lemma clear_of_fields:
  assumes "clear_of s p" and "i \<le> 72"
  shows "apart s (i + p)" and "apart (i + p) s"
proof -
  have "s - (i + p) = (s - p) - i" "i + p - s = (p - s) + i" by simp_all
  moreover have "8 \<le> (s - p) - i" "8 \<le> (p - s) + i"
    using assms by (auto intro!: far_below far_above simp: clear_of_def)
  ultimately show "apart s (i + p)" and "apart (i + p) s" unfolding apart_def by (simp_all only: simp_thms)
qed

lemma blocks_apart_0:
  "blocks_apart p q \<Longrightarrow> j \<le> 72 \<Longrightarrow> apart p (j + q)" "blocks_apart p q \<Longrightarrow> j \<le> 72 \<Longrightarrow> apart (j + q) p"
  "blocks_apart p q \<Longrightarrow> j \<le> 72 \<Longrightarrow> apart (j + p) q" "blocks_apart p q \<Longrightarrow> j \<le> 72 \<Longrightarrow> apart q (j + p)"
  "blocks_apart p q \<Longrightarrow> apart p q" "blocks_apart p q \<Longrightarrow> apart q p"
  using blocks_apart_fields [of p q 0 j] blocks_apart_fields [of p q j 0] blocks_apart_fields [of p q 0 0] by simp_all

lemma clear_of_0: "clear_of s p \<Longrightarrow> apart s p" "clear_of s p \<Longrightarrow> apart p s"
  using clear_of_fields [of s p 0] by simp_all

subsection \<open>What the code does\<close>

lemmas offsets = off_rflags_def off_rbx_def off_r12_def off_r13_def off_r14_def off_r15_def off_rbp_def off_rsp_def
  fsbase_off_def gsbase_off_def

text \<open>The registers a block holds for a context, and those the code exchanges.\<close>

definition registers_of :: "cpu \<Rightarrow> context_registers \<Rightarrow> context_registers" where
  "registers_of c r = r\<lparr>cr_rflags := c_rflags c, cr_rbx := regs c RBX, cr_r12 := regs c R12, cr_r13 := regs c R13,
     cr_r14 := regs c R14, cr_r15 := regs c R15, cr_rbp := regs c RBP, cr_rsp := regs c RSP\<rparr>"

lemma switch_inner_result:
  assumes b: "blocks_apart (regs c RDI) (regs c RSI)"
    and s: "clear_of (load64 (mem c) (off_rsp + regs c RSI) - 8) (regs c RDI)"
      "clear_of (load64 (mem c) (off_rsp + regs c RSI) - 8) (regs c RSI)"
  shows "read_registers (mem (exec_all switch_context_inner c)) (regs c RDI) io = registers_of c (read_registers (mem c) (regs c RDI) io)"
    and "registers_of (exec_all switch_context_inner c) (read_registers (mem c) (regs c RSI) io) = read_registers (mem c) (regs c RSI) io"
    and "read_registers (mem (exec_all switch_context_inner c)) (regs c RSI) io = read_registers (mem c) (regs c RSI) io"
  using b s
  by (simp_all add: switch_context_inner_def offsets read_registers_def registers_of_def push_def set_reg_def
     blocks_apart_fields blocks_apart_0 clear_of_fields clear_of_0)

text \<open>The bases: the new ones are loaded whole, of the old ones only the low half is stored.\<close>

lemma msr_numbers:
  "MSR_FSBASE AND mask 32 = 0xC0000100" "MSR_KERNEL_GSBASE AND mask 32 = 0xC0000102"
  by (simp_all add: MSR_FSBASE_def MSR_KERNEL_GSBASE_def mask_eq_exp_minus_1)

definition low_half_of :: "word64 \<Rightarrow> word64 \<Rightarrow> word64" where
  "low_half_of new old = (old AND NOT (mask 32)) OR (new AND mask 32)"

lemma low_half_idem: "low_half_of (v AND mask 32) w = low_half_of v w"
  by (simp add: low_half_of_def and.assoc)

lemma low_half_eq: "low_half_of new old = new \<longleftrightarrow> drop_bit 32 old = drop_bit 32 new"
proof
  assume "low_half_of new old = new"
  then have "drop_bit 32 new = drop_bit 32 (low_half_of new old)" by simp
  also have "\<dots> = drop_bit 32 old"
    by (rule bit_word_eqI) (auto simp: low_half_of_def bit_simps dest: bit_imp_le_length)
  finally show "drop_bit 32 old = drop_bit 32 new" ..
next
  assume "drop_bit 32 old = drop_bit 32 new"
  then have e: "bit (drop_bit 32 old) n \<longleftrightarrow> bit (drop_bit 32 new) n" for n by simp
  have b: "bit old n \<longleftrightarrow> bit new n" if "32 \<le> n" for n using e [of "n - 32"] that by (simp add: bit_drop_bit_eq)
  show "low_half_of new old = new"
    by (rule bit_word_eqI) (auto simp: low_half_of_def bit_simps b)
qed

lemma switch_bases_result:
  assumes b: "blocks_apart (regs c prev) (regs c next)" and r: "prev \<notin> {RAX, RCX, RDX}" "next \<notin> {RAX, RCX, RDX}"
  shows "fs_base (exec_all (switch_bases prev next) c) = load64 (mem c) (fsbase_off + regs c next)"
    and "kernel_gs_base (exec_all (switch_bases prev next) c) = load64 (mem c) (gsbase_off + regs c next)"
    and "load64 (mem (exec_all (switch_bases prev next) c)) (fsbase_off + regs c prev) = low_half_of (fs_base c) (load64 (mem c) (fsbase_off + regs c prev))"
    and "load64 (mem (exec_all (switch_bases prev next) c)) (gsbase_off + regs c prev) = low_half_of (kernel_gs_base c) (load64 (mem c) (gsbase_off + regs c prev))"
  using b r
  by (simp_all add: switch_bases_def offsets set_reg_def read_msr_def write_msr_def msr_numbers Let_def gs_value and.assoc
     blocks_apart_fields blocks_apart_0 low_half_of_def)

subsection \<open>Properties of the assembly\<close>

lemma registers_of_eq: "registers_of c r = registers_of d s \<Longrightarrow> registers_of c x = registers_of d x"
  by (cases r; cases s) (simp add: registers_of_def)

text \<open>C6. A context that is switched away (state \<open>c\<close>) and, with its register block unchanged in between, switched back
  (state \<open>d\<close>, from whichever context runs then) goes on with the callee-saved registers, the stack pointer and the
  flags it had, provided the blocks of the contexts and the words below the two stack pointers do not
  overlap.\<close>

theorem switch_roundtrip:
  assumes away: "blocks_apart (regs c RDI) (regs c RSI)"
      "clear_of (load64 (mem c) (off_rsp + regs c RSI) - 8) (regs c RDI)" "clear_of (load64 (mem c) (off_rsp + regs c RSI) - 8) (regs c RSI)"
    and kept: "regs d RSI = regs c RDI"
      "read_registers (mem d) (regs d RSI) io = read_registers (mem (exec_all switch_context_inner c)) (regs c RDI) io"
    and again: "blocks_apart (regs d RDI) (regs d RSI)" "clear_of (regs c RSP - 8) (regs d RDI)" "clear_of (regs c RSP - 8) (regs d RSI)"
  shows "registers_of (exec_all switch_context_inner d) r = registers_of c r"
proof -
  have saved: "read_registers (mem d) (regs d RSI) io = registers_of c (read_registers (mem c) (regs c RDI) io)"
    using switch_inner_result(1) [OF away] kept by simp
  then have "load64 (mem d) (off_rsp + regs d RSI) = regs c RSP" by (simp add: read_registers_def registers_of_def)
  then have "registers_of (exec_all switch_context_inner d) (read_registers (mem d) (regs d RSI) io) = read_registers (mem d) (regs d RSI) io"
    using again by (intro switch_inner_result(2)) simp_all
  then show ?thesis using saved by (metis registers_of_eq)
qed

definition two_blocks :: "word64 \<Rightarrow> word64 \<Rightarrow> word64 \<Rightarrow> cpu" where
  "two_blocks p q sp = user_cpu\<lparr>regs := (\<lambda>r. if r = RDI then p else if r = RSI then q else if r = RSP then sp else 7),
     mem := store64 (\<lambda>_. 0) (off_rsp + 0x2000) 0x9000\<rparr>"

text \<open>The context with the block at 0x1000 is switched away for the one at 0x2000, which switches back at once.\<close>

theorem switch_roundtrip_witness:
  "let c = two_blocks 0x1000 0x2000 0x8000; c1 = exec_all switch_context_inner c;
       d = c1\<lparr>regs := (regs c1)(RDI := 0x2000, RSI := 0x1000, RBX := 1, R12 := 2, RSP := 0x8ff0)\<rparr>
   in regs c1 RBX = 0 \<and> regs c1 RSP = 0x9000 \<and> (\<forall>r. registers_of (exec_all switch_context_inner d) r = registers_of c r)"
proof -
  define c where "c = two_blocks 0x1000 0x2000 0x8000"
  define c1 where "c1 = exec_all switch_context_inner c"
  define d where "d = c1\<lparr>regs := (regs c1)(RDI := 0x2000, RSI := 0x1000, RBX := 1, R12 := 2, RSP := 0x8ff0)\<rparr>"
  have away: "blocks_apart (regs c RDI) (regs c RSI)" "clear_of (load64 (mem c) (off_rsp + regs c RSI) - 8) (regs c RDI)"
    "clear_of (load64 (mem c) (off_rsp + regs c RSI) - 8) (regs c RSI)"
    by (simp_all add: c_def two_blocks_def user_cpu_def blocks_apart_def clear_of_def offsets)
  have "registers_of (exec_all switch_context_inner d) r = registers_of c r" for r
    by (rule switch_roundtrip [OF away])
       (simp_all add: d_def c1_def, simp_all add: c_def two_blocks_def user_cpu_def blocks_apart_def clear_of_def)
  moreover have "read_registers (mem c) (regs c RSI) False = (context_registers_new)\<lparr>cr_rsp := 0x9000\<rparr>"
    by (simp add: c_def two_blocks_def user_cpu_def read_registers_def offsets context_registers_new_def)
       (simp add: load64_def)
  then have "regs c1 RBX = 0" "regs c1 RSP = 0x9000"
    using switch_inner_result(2) [OF away, of False] by (simp_all add: c1_def registers_of_def context_registers_new_def)
  ultimately show ?thesis by (simp add: c_def c1_def d_def Let_def)
qed

text \<open>C36. Of the FS base and the user's GS base only the low half is stored when a context is switched away: after the
  switch back the processor has the old base exactly when the upper half of the block's field was that of the
  base already.\<close>

theorem switch_bases_roundtrip:
  assumes away: "blocks_apart (regs c prev) (regs c next)" "prev \<notin> {RAX, RCX, RDX}" "next \<notin> {RAX, RCX, RDX}"
    and kept: "regs d next = regs c prev"
      "read_registers (mem d) (regs d next) io = read_registers (mem (exec_all (switch_bases prev next) c)) (regs c prev) io"
    and again: "blocks_apart (regs d prev) (regs d next)"
  shows "(fs_base (exec_all (switch_bases prev next) d) = fs_base c
       \<longleftrightarrow> drop_bit 32 (load64 (mem c) (fsbase_off + regs c prev)) = drop_bit 32 (fs_base c))
     \<and> (kernel_gs_base (exec_all (switch_bases prev next) d) = kernel_gs_base c
       \<longleftrightarrow> drop_bit 32 (load64 (mem c) (gsbase_off + regs c prev)) = drop_bit 32 (kernel_gs_base c))"
proof -
  note R = switch_bases_result [OF away] and B = switch_bases_result(1,2) [OF again away(2,3)]
  have "load64 (mem d) (fsbase_off + regs d next) = low_half_of (fs_base c) (load64 (mem c) (fsbase_off + regs c prev))"
    "load64 (mem d) (gsbase_off + regs d next) = low_half_of (kernel_gs_base c) (load64 (mem c) (gsbase_off + regs c prev))"
    using kept(2) R(3,4) by (simp_all add: read_registers_def)
  then show ?thesis by (simp add: B low_half_eq)
qed

text \<open>A thread with its FS base above 4 GiB and an empty block loses the upper half of it.\<close>

theorem switch_bases_roundtrip_witness:
  "let c = (two_blocks 0x1000 0x2000 0x8000)\<lparr>fs_base := 0x7F0000001000, kernel_gs_base := 0x5000\<rparr>; c1 = exec_all (switch_bases RDI RSI) c;
       d = c1\<lparr>regs := (regs c1)(RDI := 0x2000, RSI := 0x1000)\<rparr>
   in fs_base (exec_all (switch_bases RDI RSI) d) \<noteq> fs_base c \<and> kernel_gs_base (exec_all (switch_bases RDI RSI) d) = kernel_gs_base c"
proof -
  define c where "c = (two_blocks 0x1000 0x2000 0x8000)\<lparr>fs_base := 0x7F0000001000, kernel_gs_base := 0x5000\<rparr>"
  define c1 where "c1 = exec_all (switch_bases RDI RSI) c"
  define d where "d = c1\<lparr>regs := (regs c1)(RDI := 0x2000, RSI := 0x1000)\<rparr>"
  have ap: "blocks_apart 0x1000 0x2000" "blocks_apart 0x2000 0x1000" by (simp_all add: blocks_apart_def)
  have "load64 (mem c) (fsbase_off + regs c RDI) = 0" "load64 (mem c) (gsbase_off + regs c RDI) = 0"
    by (simp_all add: c_def two_blocks_def user_cpu_def offsets) (simp_all add: load64_def)
  then show ?thesis
    using switch_bases_roundtrip [of c RDI RSI d True] ap by (simp add: d_def c1_def c_def two_blocks_def Let_def)
qed

end
