(* ===== verification/Descriptors.thy ===== *)
theory Descriptors
  imports Contexts
begin

unbundle bit_operations_syntax

section \<open>Descriptor tables and the system call registers (kernel/src/gdt.rs, interrupt.rs, syscall.rs)\<close>

text \<open>
  What every processor sets up before it runs anything else: its own region (\<open>ProcessorControlRegion\<close>) with the
  global descriptor table and the task state segment (\<open>init_gdt\<close>), its interrupt descriptor table
  (\<open>init_idt\<close>) and the registers of the \<open>syscall\<close> instruction (\<open>init_syscall\<close>).  The two table types are those of
  the crate \<open>x86_64\<close>: they are parameters, with what the crate documents of them as the laws of two locales.

  The theory shows that the selectors the boot processor gets are those the system call code has compiled in,
  that later processors get a table without the user segments, and which exceptions enter the kernel through
  an entry that does not expect the error code the processor pushes.
\<close>

subsection \<open>The tables of the crate\<close>

datatype descriptor =
    kernel_code_segment
  | kernel_data_segment
  | kernel_code32_segment
  | user_data_segment
  | user_code_segment
  | tss_segment nat

record 'g gdt_ops =
  gdt_new :: 'g
  gdt_add_entry :: "descriptor \<Rightarrow> 'g \<Rightarrow> (word64 \<times> 'g) run"   \<comment> \<open>the selector of the new entry\<close>

text \<open>Eight slots of eight bytes, the first one null; a task state segment takes two.\<close>

fun descriptor_slots :: "descriptor \<Rightarrow> descriptor option list" where
  "descriptor_slots (tss_segment a) = [Some (tss_segment a), None]"
| "descriptor_slots d = [Some d]"

definition descriptor_ring :: "descriptor \<Rightarrow> word64" where
  "descriptor_ring d = (if d = user_data_segment \<or> d = user_code_segment then 3 else 0)"

locale gdt_laws =
  fixes G :: "'g gdt_ops" and slots :: "'g \<Rightarrow> descriptor option list"
  assumes new: "slots (gdt_new G) = [None]"
    and add_entry: "length (slots g) + length (descriptor_slots d) \<le> 8 \<Longrightarrow>
       \<exists>g'. gdt_add_entry G d g = Inr ((of_nat (length (slots g)) * 8) OR descriptor_ring d, g')
          \<and> slots g' = slots g @ descriptor_slots d"

record gate =
  gt_handler :: string         \<comment> \<open>the entry function\<close>
  gt_ring :: nat               \<comment> \<open>the level \<open>int n\<close> may be used from\<close>
  gt_stack :: "nat option"     \<comment> \<open>index into the interrupt stack table\<close>

record 'i idt_ops =
  idt_new :: 'i
  idt_index :: "nat \<Rightarrow> unit run"      \<comment> \<open>\<open>idt[n]\<close> panics for some of the first 32 entries and beyond the table\<close>
  set_handler_addr :: "nat \<Rightarrow> string \<Rightarrow> 'i \<Rightarrow> 'i"
  set_privilege_level :: "nat \<Rightarrow> nat \<Rightarrow> 'i \<Rightarrow> 'i"
  set_stack_index :: "nat \<Rightarrow> nat \<Rightarrow> 'i \<Rightarrow> 'i"

text \<open>\<open>set_handler_addr\<close> makes the entry present, so the \<open>set_present(true)\<close> of the code changes nothing.\<close>

locale idt_laws =
  fixes I :: "'i idt_ops" and gates :: "'i \<Rightarrow> nat \<Rightarrow> gate option"
  assumes new: "gates (idt_new I) v = None"
    and index: "32 \<le> v \<Longrightarrow> v < 256 \<Longrightarrow> idt_index I v = Inr ()"
    and handler: "v < 256 \<Longrightarrow> gates (set_handler_addr I v h i) =
       (gates i)(v \<mapsto> (case gates i v of None \<Rightarrow> \<lparr>gt_handler = h, gt_ring = 0, gt_stack = None\<rparr> | Some g \<Rightarrow> g\<lparr>gt_handler := h\<rparr>))"
    and ring: "gates i v = Some g \<Longrightarrow> gates (set_privilege_level I v r i) = (gates i)(v \<mapsto> g\<lparr>gt_ring := r\<rparr>)"
    and stack: "gates i v = Some g \<Longrightarrow> n < 7 \<Longrightarrow> gates (set_stack_index I v n i) = (gates i)(v \<mapsto> g\<lparr>gt_stack := Some n\<rparr>)"

subsection \<open>The region of a processor\<close>

record task_state_segment =
  privilege_stack_0 :: nat
  interrupt_stack_0 :: nat
  iomap_base :: "16 word"

record 'g processor_control_region =
  self_ref :: nat
  pcr_gdt :: 'g
  pcr_percpu :: percpu
  tss :: task_state_segment
  all_ones :: "8 word"

text \<open>The segment and model specific registers of a processor.\<close>

record ('g, 'i) cpu_tables =
  ct_cs :: word64
  ct_ss :: word64
  ct_ds :: word64
  ct_es :: word64
  ct_gs :: word64
  ct_tr :: word64
  ct_cr0 :: word64
  ct_msr :: "word64 \<Rightarrow> word64"
  ct_gdt :: "'g option"       \<comment> \<open>the table in GDTR\<close>
  ct_idt :: "'i option"       \<comment> \<open>the table in IDTR\<close>

text \<open>The state processors share: the frames, the regions in memory by address, the selectors that are set once
  and the interrupt tables.\<close>

record ('g, 'i) tables_state =
  ts_frames :: frame_globals
  ts_pcrs :: "nat \<Rightarrow> 'g processor_control_region"
  ts_KERNEL_CODE32 :: "word64 option"
  ts_USER_CODE64 :: "word64 option"
  ts_USER_DATA :: "word64 option"
  IDTS :: "nat \<rightharpoonup> 'i"

definition BSP :: nat where
  "BSP = 0"

definition set_tss_stack :: "x86 \<Rightarrow> nat \<Rightarrow> 'g processor_control_region \<Rightarrow> 'g processor_control_region run" where
  "set_tss_stack X a p = and_then (VirtAddr_new X a) (\<lambda>v. Inr (p\<lparr>tss := (tss p)\<lparr>privilege_stack_0 := v\<rparr>\<rparr>))"

text \<open>The bitmap of the I/O ports follows the 104 bytes of the segment; an offset beyond its limit forbids them all.\<close>

definition set_userspace_io_allowed :: "bool \<Rightarrow> 'g processor_control_region \<Rightarrow> 'g processor_control_region" where
  "set_userspace_io_allowed allowed p = p\<lparr>tss := (tss p)\<lparr>iomap_base := (if allowed then 104 else 0xFFFF)\<rparr>\<rparr>"

definition tss_new :: task_state_segment where
  "tss_new = \<lparr>privilege_stack_0 = 0, interrupt_stack_0 = 0, iomap_base = 104\<rparr>"

definition wrmsr :: "word64 \<Rightarrow> word64 \<Rightarrow> ('g, 'i) cpu_tables \<Rightarrow> ('g, 'i) cpu_tables" where
  "wrmsr r v t = t\<lparr>ct_msr := (ct_msr t)(r := v)\<rparr>"

definition rdmsr :: "word64 \<Rightarrow> ('g, 'i) cpu_tables \<Rightarrow> word64" where
  "rdmsr r t = ct_msr t r"

text \<open>\<open>call_once\<close> with a closure that adds an entry: it runs only while the cell is empty.\<close>

definition once_entry :: "'g gdt_ops \<Rightarrow> descriptor \<Rightarrow> word64 option \<Rightarrow> 'g \<Rightarrow> (word64 option \<times> 'g) run" where
  "once_entry G d cell g =
     (case cell of Some s \<Rightarrow> Inr (cell, g) | None \<Rightarrow> and_then (gdt_add_entry G d g) (\<lambda>(s, g'). Inr (Some s, g')))"

text \<open>\<open>pcr_frames\<close> is the size of the region in frames, which depends on the crate's table type.  The region is
  what the frames held before, except for the fields the code writes.\<close>

definition init_gdt ::
  "x86 \<Rightarrow> 'g gdt_ops \<Rightarrow> nat \<Rightarrow> nat \<Rightarrow> nat \<Rightarrow> ('g, 'i) cpu_tables \<Rightarrow> ('g, 'i) tables_state \<Rightarrow> (('g, 'i) cpu_tables \<times> ('g, 'i) tables_state) run" where
  "init_gdt X G pcr_frames cpu_id kernel_stack_top t s =
     and_then (frame_alloc_n X pcr_frames (ts_frames s)) (\<lambda>(r, fr).
     and_then (or_panic r ''failed to allocate phys farme for ProcessorControlRegion'') (\<lambda>a.
       let p = (ts_pcrs s a)\<lparr>self_ref := a, pcr_gdt := gdt_new G, tss := tss_new\<rparr> in
     and_then (set_tss_stack X kernel_stack_top p) (\<lambda>p.
       let p = p\<lparr>tss := (tss p)\<lparr>iomap_base := 0xFFFF\<rparr>, all_ones := 0xFF\<rparr> in
     and_then (gdt_add_entry G kernel_code_segment (pcr_gdt p)) (\<lambda>(code_selector, g).
     and_then (gdt_add_entry G kernel_data_segment g) (\<lambda>(data_selector, g).
     and_then (once_entry G kernel_code32_segment (ts_KERNEL_CODE32 s) g) (\<lambda>(code32, g).
     and_then (once_entry G user_data_segment (ts_USER_DATA s) g) (\<lambda>(user_data, g).
     and_then (once_entry G user_code_segment (ts_USER_CODE64 s) g) (\<lambda>(user_code, g).
     and_then (gdt_add_entry G (tss_segment a) g) (\<lambda>(tss_selector, g).
       let t = t\<lparr>ct_gdt := Some g, ct_cs := code_selector, ct_ss := data_selector, ct_ds := 0, ct_es := 0, ct_gs := 0\<rparr>;
           t = wrmsr 0xC0000100 0 (wrmsr 0xC0000102 0 (wrmsr 0xC0000101 (of_nat a) t));
           t = t\<lparr>ct_tr := tss_selector, ct_cr0 := ct_cr0 t OR 1\<rparr>;
           p = p\<lparr>pcr_gdt := g, pcr_percpu := (pcr_percpu p)\<lparr>pc_cpu_id := cpu_id\<rparr>\<rparr>
       in Inr (t, s\<lparr>ts_frames := fr, ts_pcrs := (ts_pcrs s)(a := p), ts_KERNEL_CODE32 := code32, ts_USER_DATA := user_data,
            ts_USER_CODE64 := user_code\<rparr>))))))))))"

text \<open>\<open>pcr\<close> reads the region's own address through GS.\<close>

definition pcr :: "('g, 'i) cpu_tables \<Rightarrow> ('g, 'i) tables_state \<Rightarrow> nat" where
  "pcr t s = self_ref (ts_pcrs s (unat (rdmsr 0xC0000101 t)))"

subsection \<open>The system call registers\<close>

definition init_syscall :: "word64 \<Rightarrow> ('g, 'i) cpu_tables \<Rightarrow> ('g, 'i) cpu_tables" where
  "init_syscall syscall_instruction_addr t =
     (let syscall_cs_ss_base = push_bit 3 1;
          sysret_cs_ss_base = push_bit 3 3 OR 3;
          star_high = syscall_cs_ss_base OR push_bit 16 sysret_cs_ss_base;
          t = wrmsr 0xC0000081 (push_bit 32 star_high) t;
          t = wrmsr 0xC0000082 syscall_instruction_addr t;
          mask_critical = 0x400 OR 0x200 OR 0x100 OR 0x40000;
          mask_other = 0x1 OR 0x4 OR 0x10 OR 0x40 OR 0x80 OR 0x800;
          t = wrmsr 0xC0000084 (mask_critical OR mask_other) t
      in wrmsr 0xC0000080 (rdmsr 0xC0000080 t OR 1) t)"

subsection \<open>The interrupt table\<close>

definition DEPENDENT_STACK_SIZE :: nat where
  "DEPENDENT_STACK_SIZE = 65536"

definition LAPIC_TIMER_HANDLER_IDT :: nat where
  "LAPIC_TIMER_HANDLER_IDT = 48"

text \<open>The exceptions by the vectors of their fields in the crate's table, in the order of the code (the breakpoint
  and the double fault, which come first, are set up with options).\<close>

definition exception_handlers :: "(nat \<times> string) list" where
  "exception_handlers =
     [(14, ''page_fault''), (0, ''divide_error''), (1, ''debug''), (2, ''non_maskable_interrupt''), (4, ''overflow''),
      (5, ''bound_range_exceeded''), (6, ''invalid_opcode''), (7, ''device_not_available''), (28, ''hv_injection_exception''),
      (18, ''machine_check''), (19, ''simd_floating_point''), (20, ''virtualization''), (16, ''x87_floating_point''),
      (10, ''invalid_tss''), (11, ''segment_not_present''), (12, ''stack_segment_fault''), (13, ''general_protection_fault''),
      (17, ''alignment_check''), (21, ''cp_protection_exception''), (29, ''vmm_communication_exception''), (30, ''security_exception'')]"

definition legacy_handlers :: "(nat \<times> string) list" where
  "legacy_handlers =
     [(32, ''pit_stack''), (33, ''keyboard''), (34, ''cascade''), (35, ''com2''), (36, ''com1''), (37, ''lpt2''), (38, ''floppy''),
      (39, ''lpt1''), (40, ''rtc''), (41, ''pci1''), (42, ''pci2''), (43, ''pci3''), (44, ''mouse''), (45, ''fpu''), (46, ''ata1''),
      (47, ''ata2''), (LAPIC_TIMER_HANDLER_IDT, ''lapic_timer'')]"

datatype ipi_kind = Wakeup | Switch | Pit

definition ipi_vector :: "ipi_kind \<Rightarrow> nat" where
  "ipi_vector k = (case k of Wakeup \<Rightarrow> 0x40 | Switch \<Rightarrow> 0x42 | Pit \<Rightarrow> 0x43)"

definition set_all :: "'i idt_ops \<Rightarrow> (nat \<times> string) list \<Rightarrow> 'i \<Rightarrow> 'i" where
  "set_all I hs i = fold (\<lambda>(v, h). set_handler_addr I v h) hs i"

definition idt_handlers :: "'i idt_ops \<Rightarrow> nat \<Rightarrow> 'i" where
  "idt_handlers I cpu_id =
     (let i = set_privilege_level I 3 3 (set_handler_addr I 3 ''breakpoint'' (idt_new I));
          i = set_stack_index I 8 0 (set_handler_addr I 8 ''double_fault'' i);
          i = set_all I exception_handlers i;
          i = (if cpu_id = BSP then set_all I legacy_handlers i else i);
          i = set_handler_addr I 49 ''lapic_error'' i
      in set_all I [(ipi_vector Wakeup, ''ipi_wakeup''), (ipi_vector Switch, ''ipi_switch''), (ipi_vector Pit, ''ipi_pit'')] i)"

definition init_idt ::
  "x86 \<Rightarrow> 'i idt_ops \<Rightarrow> nat \<Rightarrow> ('g, 'i) cpu_tables \<Rightarrow> ('g, 'i) tables_state \<Rightarrow> (('g, 'i) cpu_tables \<times> ('g, 'i) tables_state) run" where
  "init_idt X I cpu_id t s =
     and_then (frame_alloc_n X (DEPENDENT_STACK_SIZE div PAGE_SIZE) (ts_frames s)) (\<lambda>(r, fr).
     and_then (or_panic r ''failed to allocate backup dependent stack'') (\<lambda>stack.
     and_then (VirtAddr_new X stack) (\<lambda>v.
     and_then (VirtAddr_add X v DEPENDENT_STACK_SIZE) (\<lambda>v.
       let a = pcr t s; p = ts_pcrs s a; i = idt_handlers I cpu_id
       in Inr (t\<lparr>ct_idt := Some i\<rparr>,
            s\<lparr>ts_frames := fr, ts_pcrs := (ts_pcrs s)(a := p\<lparr>tss := (tss p)\<lparr>interrupt_stack_0 := v\<rparr>\<rparr>),
              IDTS := (IDTS s)(cpu_id \<mapsto> i)\<rparr>)))))"

definition write_idt_gate :: "'i idt_ops \<Rightarrow> nat \<Rightarrow> nat \<Rightarrow> string \<Rightarrow> ('g, 'i) tables_state \<Rightarrow> ('g, 'i) tables_state run" where
  "write_idt_gate I cpu_id entry_index handler s =
     and_then (or_panic (IDTS s cpu_id) ''called `Option::unwrap()` on a `None` value'') (\<lambda>i.
     and_then (idt_index I entry_index) (\<lambda>_.
       Inr (s\<lparr>IDTS := (IDTS s)(cpu_id \<mapsto> set_handler_addr I entry_index handler i)\<rparr>)))"

text \<open>The macro each entry function is made with, and whether its body signals the end of the interrupt.\<close>

datatype entry_macro = Interrupt | Interrupt_stack | Interrupt_stack_paranoid | Interrupt_error

definition error_entries :: "string list" where
  "error_entries = [''page_fault'', ''invalid_tss'', ''double_fault'', ''segment_not_present'', ''stack_segment_fault'',
     ''general_protection_fault'', ''alignment_check'', ''security_exception'']"

definition stack_entries :: "string list" where
  "stack_entries = [''divide_error'', ''breakpoint'', ''overflow'', ''bound_range_exceeded'', ''invalid_opcode'',
     ''device_not_available'', ''hv_injection_exception'', ''machine_check'', ''simd_floating_point'', ''virtualization'',
     ''x87_floating_point'', ''cp_protection_exception'', ''vmm_communication_exception'']"

definition entry_kind :: "string \<Rightarrow> entry_macro" where
  "entry_kind h =
     (if h \<in> set error_entries then Interrupt_error
      else if h \<in> set stack_entries then Interrupt_stack
      else if h \<in> {''debug'', ''non_maskable_interrupt''} then Interrupt_stack_paranoid
      else Interrupt)"

definition signals_eoi :: "string \<Rightarrow> bool" where
  "signals_eoi h \<longleftrightarrow> entry_kind h = Interrupt \<and> h \<noteq> ''lapic_error''"

subsection \<open>Instances\<close>

text \<open>The tables as plain data satisfy the laws.\<close>

definition list_gdt :: "descriptor option list gdt_ops" where
  "list_gdt = \<lparr>gdt_new = [None],
     gdt_add_entry = (\<lambda>d g. if length g + length (descriptor_slots d) \<le> 8
        then Inr ((of_nat (length g) * 8) OR descriptor_ring d, g @ descriptor_slots d) else Inl (Panicked ''GDT full''))\<rparr>"

interpretation lg: gdt_laws list_gdt "\<lambda>g. g"
  by unfold_locales (simp_all add: list_gdt_def)

definition map_idt :: "(nat \<Rightarrow> gate option) idt_ops" where
  "map_idt = \<lparr>idt_new = (\<lambda>_. None),
     idt_index = (\<lambda>v. if 32 \<le> v \<and> v < 256 then Inr () else Inl (Panicked ''Invalid entry'')),
     set_handler_addr = (\<lambda>v h i. i(v \<mapsto> (case i v of None \<Rightarrow> \<lparr>gt_handler = h, gt_ring = 0, gt_stack = None\<rparr> | Some g \<Rightarrow> g\<lparr>gt_handler := h\<rparr>))),
     set_privilege_level = (\<lambda>v r i. i(v := map_option (\<lambda>g. g\<lparr>gt_ring := r\<rparr>) (i v))),
     set_stack_index = (\<lambda>v n i. i(v := map_option (\<lambda>g. g\<lparr>gt_stack := Some n\<rparr>) (i v)))\<rparr>"

interpretation mi: idt_laws map_idt "\<lambda>i. i"
  by unfold_locales (simp_all add: map_idt_def)

subsection \<open>What the table of a processor holds\<close>

context gdt_laws
begin

lemma add_entryD:
  assumes "gdt_add_entry G d g = Inr (x, g')" and "length (slots g) + length (descriptor_slots d) \<le> 8"
  shows "x = (of_nat (length (slots g)) * 8) OR descriptor_ring d" and "slots g' = slots g @ descriptor_slots d"
  using add_entry [OF assms(2)] assms(1) by auto

lemma init_gdt_first:
  assumes "init_gdt X G n cpu tos t s = Inr (t', s')"
    and "ts_KERNEL_CODE32 s = None" "ts_USER_DATA s = None" "ts_USER_CODE64 s = None"
  shows "\<exists>a g. ct_gdt t' = Some g \<and> slots g = [None, Some kernel_code_segment, Some kernel_data_segment, Some kernel_code32_segment,
       Some user_data_segment, Some user_code_segment, Some (tss_segment a), None]
     \<and> ct_cs t' = 8 \<and> ct_ss t' = 16 \<and> ct_tr t' = 48 \<and> ts_USER_DATA s' = Some 0x23 \<and> ts_USER_CODE64 s' = Some 0x2B
     \<and> rdmsr 0xC0000101 t' = of_nat a \<and> self_ref (ts_pcrs s' a) = a \<and> pc_cpu_id (pcr_percpu (ts_pcrs s' a)) = cpu"
proof -
  from assms obtain a fr p x1 g1 x2 g2 x3 g3 x4 g4 x5 g5 x6 g6 where
    e: "gdt_add_entry G kernel_code_segment (gdt_new G) = Inr (x1, g1)" "gdt_add_entry G kernel_data_segment g1 = Inr (x2, g2)"
      "gdt_add_entry G kernel_code32_segment g2 = Inr (x3, g3)" "gdt_add_entry G user_data_segment g3 = Inr (x4, g4)"
      "gdt_add_entry G user_code_segment g4 = Inr (x5, g5)" "gdt_add_entry G (tss_segment a) g5 = Inr (x6, g6)"
    and r: "ct_gdt t' = Some g6" "ct_cs t' = x1" "ct_ss t' = x2" "ct_tr t' = x6" "ts_USER_DATA s' = Some x4" "ts_USER_CODE64 s' = Some x5"
      "rdmsr 0xC0000101 t' = of_nat a" "self_ref (ts_pcrs s' a) = a" "pc_cpu_id (pcr_percpu (ts_pcrs s' a)) = cpu"
    by (auto simp: init_gdt_def once_entry_def set_tss_stack_def wrmsr_def rdmsr_def Let_def and_then_eq_Inr)
  note d1 = add_entryD [OF e(1)] and d2 = add_entryD [OF e(2)] and d3 = add_entryD [OF e(3)] and d4 = add_entryD [OF e(4)]
    and d5 = add_entryD [OF e(5)] and d6 = add_entryD [OF e(6)]
  show ?thesis using d1 d2 d3 d4 d5 d6 r by (simp add: new descriptor_ring_def)
qed

lemma init_gdt_later:
  assumes "init_gdt X G n cpu tos t s = Inr (t', s')"
    and "ts_KERNEL_CODE32 s = Some k" "ts_USER_DATA s = Some d" "ts_USER_CODE64 s = Some c"
  shows "\<exists>a g. ct_gdt t' = Some g \<and> slots g = [None, Some kernel_code_segment, Some kernel_data_segment, Some (tss_segment a), None]
     \<and> ct_cs t' = 8 \<and> ct_ss t' = 16 \<and> ct_tr t' = 24 \<and> ts_USER_DATA s' = Some d \<and> ts_USER_CODE64 s' = Some c
     \<and> rdmsr 0xC0000101 t' = of_nat a \<and> self_ref (ts_pcrs s' a) = a \<and> pc_cpu_id (pcr_percpu (ts_pcrs s' a)) = cpu"
proof -
  from assms obtain a x1 g1 x2 g2 x6 g6 where
    e: "gdt_add_entry G kernel_code_segment (gdt_new G) = Inr (x1, g1)" "gdt_add_entry G kernel_data_segment g1 = Inr (x2, g2)"
      "gdt_add_entry G (tss_segment a) g2 = Inr (x6, g6)"
    and r: "ct_gdt t' = Some g6" "ct_cs t' = x1" "ct_ss t' = x2" "ct_tr t' = x6" "ts_USER_DATA s' = Some d" "ts_USER_CODE64 s' = Some c"
      "rdmsr 0xC0000101 t' = of_nat a" "self_ref (ts_pcrs s' a) = a" "pc_cpu_id (pcr_percpu (ts_pcrs s' a)) = cpu"
    by (auto simp: init_gdt_def once_entry_def set_tss_stack_def wrmsr_def rdmsr_def Let_def and_then_eq_Inr)
  note d1 = add_entryD [OF e(1)] and d2 = add_entryD [OF e(2)] and d3 = add_entryD [OF e(3)]
  show ?thesis using d1 d2 d3 r by (simp add: new descriptor_ring_def)
qed

end

subsection \<open>What the interrupt table holds\<close>

definition handler_at :: "('i \<Rightarrow> nat \<Rightarrow> gate option) \<Rightarrow> 'i \<Rightarrow> nat \<Rightarrow> string option" where
  "handler_at gates i v = map_option gt_handler (gates i v)"

text \<open>The vectors for which the processor pushes an error code.\<close>

definition pushes_error_code :: "nat \<Rightarrow> bool" where
  "pushes_error_code v \<longleftrightarrow> v \<in> {8, 10, 11, 12, 13, 14, 17, 21, 29, 30}"

definition all_handlers :: "nat \<Rightarrow> (nat \<times> string) list" where
  "all_handlers cpu_id = [(3, ''breakpoint''), (8, ''double_fault'')] @ exception_handlers
     @ (if cpu_id = BSP then legacy_handlers else []) @ [(49, ''lapic_error''), (0x40, ''ipi_wakeup''), (0x42, ''ipi_switch''), (0x43, ''ipi_pit'')]"

context idt_laws
begin

lemma handler_at_set: "v < 256 \<Longrightarrow> handler_at gates (set_handler_addr I v h i) = (handler_at gates i)(v \<mapsto> h)"
  by (auto simp: handler_at_def handler fun_eq_iff split: option.splits)

lemma handler_at_ring: "handler_at gates i v \<noteq> None \<Longrightarrow> handler_at gates (set_privilege_level I v r i) = handler_at gates i"
  by (auto simp: handler_at_def ring fun_eq_iff)

lemma handler_at_stack: "handler_at gates i v \<noteq> None \<Longrightarrow> n < 7 \<Longrightarrow> handler_at gates (set_stack_index I v n i) = handler_at gates i"
  by (auto simp: handler_at_def stack fun_eq_iff)

lemma handler_at_new: "handler_at gates (idt_new I) = Map.empty"
  by (simp add: handler_at_def new fun_eq_iff)

lemma handler_at_all: "\<forall>(v, h) \<in> set hs. v < 256 \<Longrightarrow> handler_at gates (set_all I hs i) = handler_at gates i ++ map_of (rev hs)"
  by (induction hs arbitrary: i) (auto simp: set_all_def handler_at_set map_add_assoc [symmetric])

lemma handler_at_idt: "handler_at gates (idt_handlers I cpu_id) = map_of (rev (all_handlers cpu_id))"
proof -
  have e: "\<forall>(v, h) \<in> set exception_handlers. v < 256" "\<forall>(v, h) \<in> set legacy_handlers. v < 256"
    by (simp_all add: exception_handlers_def legacy_handlers_def LAPIC_TIMER_HANDLER_IDT_def)
  let ?H = "handler_at gates"
  define i1 where "i1 = set_privilege_level I 3 3 (set_handler_addr I 3 ''breakpoint'' (idt_new I))"
  define i2 where "i2 = set_stack_index I 8 0 (set_handler_addr I 8 ''double_fault'' i1)"
  define i3 where "i3 = set_all I exception_handlers i2"
  define i4 where "i4 = (if cpu_id = BSP then set_all I legacy_handlers i3 else i3)"
  define ipis where "ipis = [(0x40 :: nat, ''ipi_wakeup''), (0x42, ''ipi_switch''), (0x43, ''ipi_pit'')]"
  have 1: "?H i1 = [3 \<mapsto> ''breakpoint'']" unfolding i1_def by (subst handler_at_ring) (simp_all add: handler_at_set handler_at_new)
  have 2: "?H i2 = ?H i1 ++ [8 \<mapsto> ''double_fault'']" unfolding i2_def by (subst handler_at_stack) (simp_all add: handler_at_set)
  have 3: "?H i3 = ?H i2 ++ map_of (rev exception_handlers)" unfolding i3_def by (rule handler_at_all [OF e(1)])
  have 4: "?H i4 = ?H i3 ++ map_of (rev (if cpu_id = BSP then legacy_handlers else []))" unfolding i4_def using handler_at_all [OF e(2)] by simp
  have "idt_handlers I cpu_id = set_all I ipis (set_handler_addr I 49 ''lapic_error'' i4)"
    by (simp add: idt_handlers_def Let_def i1_def i2_def i3_def i4_def ipis_def ipi_vector_def)
  then have 5: "?H (idt_handlers I cpu_id) = ?H i4 ++ [49 \<mapsto> ''lapic_error''] ++ map_of (rev ipis)"
    using handler_at_all [of ipis] by (simp add: ipis_def handler_at_set)
  have "all_handlers cpu_id = [(3, ''breakpoint'')] @ [(8, ''double_fault'')] @ exception_handlers @ (if cpu_id = BSP then legacy_handlers else [])
      @ [(49, ''lapic_error'')] @ ipis" by (simp add: all_handlers_def ipis_def)
  then show ?thesis unfolding 5 4 3 2 1 by (simp only: rev_append map_of_append map_add_assoc) simp
qed

lemma handler_at_mem: "handler_at gates (idt_handlers I cpu_id) v = Some h \<Longrightarrow> (v, h) \<in> set (all_handlers cpu_id)"
  unfolding handler_at_idt by (metis map_of_SomeD set_rev)

end

lemma list_handlers: "P v h" if "(v, h) \<in> set (all_handlers cpu_id)"
    and "\<forall>(v, h) \<in> set (all_handlers BSP). P v h"
  using that by (auto simp: all_handlers_def split: if_splits)

lemma handlers_checked:
  "\<forall>(v, h) \<in> set (all_handlers BSP). (entry_kind h = Interrupt_error \<longleftrightarrow> pushes_error_code v) = (v \<noteq> 21 \<and> v \<noteq> 29)"
  "\<forall>(v, h) \<in> set (all_handlers BSP). 32 \<le> v \<longrightarrow> signals_eoi h = (v \<noteq> 49)"
  by code_simp+

subsection \<open>Properties of the tables\<close>

text \<open>C21. On the first processor the table \<open>init_gdt\<close> builds has the user segments in the entries whose selectors are
  compiled into the system call entry, and they are the ones \<open>sysretq\<close> derives from the register \<open>STAR\<close> that
  \<open>init_syscall\<close> writes; \<open>syscall\<close> derives the kernel's own segments from it.  GS leads to the processor's
  region.\<close>

theorem bsp_selectors:
  assumes "gdt_laws G slots" and "init_gdt X G n cpu tos t s = Inr (t', s')"
    and "ts_KERNEL_CODE32 s = None" and "ts_USER_DATA s = None" and "ts_USER_CODE64 s = None"
  shows "\<exists>a g. ct_gdt t' = Some g
     \<and> slots g ! (unat cs_sel div 8) = Some user_code_segment \<and> slots g ! (unat ss_sel div 8) = Some user_data_segment
     \<and> ts_USER_CODE64 s' = Some cs_sel \<and> ts_USER_DATA s' = Some ss_sel
     \<and> slots g ! (unat (ct_tr t') div 8) = Some (tss_segment a) \<and> rdmsr 0xC0000101 t' = of_nat a \<and> self_ref (ts_pcrs s' a) = a
     \<and> (let star = rdmsr 0xC0000081 (init_syscall entry t')
         in drop_bit 48 star + 16 OR 3 = cs_sel \<and> drop_bit 48 star + 8 OR 3 = ss_sel
          \<and> drop_bit 32 star AND mask 16 = ct_cs t' \<and> (drop_bit 32 star AND mask 16) + 8 = ct_ss t')"
proof -
  obtain a g where g: "ct_gdt t' = Some g" "slots g = [None, Some kernel_code_segment, Some kernel_data_segment, Some kernel_code32_segment,
       Some user_data_segment, Some user_code_segment, Some (tss_segment a), None]"
     "ct_cs t' = 8" "ct_ss t' = 16" "ct_tr t' = 48" "ts_USER_DATA s' = Some 0x23" "ts_USER_CODE64 s' = Some 0x2B"
     "rdmsr 0xC0000101 t' = of_nat a" "self_ref (ts_pcrs s' a) = a"
    using gdt_laws.init_gdt_first [OF assms] by blast
  have star: "rdmsr 0xC0000081 (init_syscall entry t') = 0x1B000800000000"
    by (simp add: init_syscall_def wrmsr_def rdmsr_def Let_def)
  show ?thesis
    by (intro exI [of _ a] exI [of _ g]) (simp add: g star cs_sel_def ss_sel_def mask_eq_exp_minus_1)
qed

definition blank_tables :: "(descriptor option list, nat \<Rightarrow> gate option) cpu_tables" where
  "blank_tables = \<lparr>ct_cs = 0, ct_ss = 0, ct_ds = 0, ct_es = 0, ct_gs = 0, ct_tr = 0, ct_cr0 = 0, ct_msr = (\<lambda>_. 0), ct_gdt = None, ct_idt = None\<rparr>"

definition sample_tables :: "(descriptor option list, nat \<Rightarrow> gate option) tables_state" where
  "sample_tables = \<lparr>ts_frames = late_frames 0x200000,
     ts_pcrs = (\<lambda>_. \<lparr>self_ref = 0, pcr_gdt = [], pcr_percpu = sample_percpu, tss = tss_new, all_ones = 0\<rparr>),
     ts_KERNEL_CODE32 = None, ts_USER_CODE64 = None, ts_USER_DATA = None, IDTS = Map.empty\<rparr>"

lemma sample_init_gdt:
  assumes "ts_frames s = late_frames 0x200000"
  shows "\<exists>t' s'. init_gdt x86_model list_gdt 64 cpu 0x8000 t s = Inr (t', s')"
  using late_alloc_64 assms
  by (simp add: init_gdt_def set_tss_stack_def once_entry_def list_gdt_def x86_model_def Let_def canonical_def split: option.splits)

theorem bsp_selectors_witness:
  "\<exists>t' s'. init_gdt x86_model list_gdt 64 0 0x8000 blank_tables sample_tables = Inr (t', s')
     \<and> (\<exists>g. ct_gdt t' = Some g \<and> g ! 5 = Some user_code_segment \<and> g ! 4 = Some user_data_segment)"
proof -
  obtain t' s' where i: "init_gdt x86_model list_gdt 64 0 0x8000 blank_tables sample_tables = Inr (t', s')"
    using sample_init_gdt [of sample_tables 0 blank_tables] by (simp add: sample_tables_def) blast
  show ?thesis using bsp_selectors [OF lg.gdt_laws_axioms i, where entry = 0] i by (auto simp: sample_tables_def cs_sel_def ss_sel_def)
qed

text \<open>C37. On every later processor, where the cells are set, the closures that would add the user segments do not run:
  its table ends after the task state segment, the entry of the user data selector is the second half of that
  segment and the entry of the user code selector does not exist, although the shared selectors still name
  them.\<close>

theorem ap_lacks_user_segments:
  assumes "gdt_laws G slots" and "init_gdt X G n cpu tos t s = Inr (t', s')"
    and "ts_KERNEL_CODE32 s = Some k" and "ts_USER_DATA s = Some ss_sel" and "ts_USER_CODE64 s = Some cs_sel"
  shows "\<exists>g. ct_gdt t' = Some g \<and> Some user_code_segment \<notin> set (slots g) \<and> Some user_data_segment \<notin> set (slots g)
     \<and> unat ss_sel div 8 < length (slots g) \<and> slots g ! (unat ss_sel div 8) = None \<and> length (slots g) \<le> unat cs_sel div 8
     \<and> ts_USER_CODE64 s' = Some cs_sel \<and> ts_USER_DATA s' = Some ss_sel"
proof -
  obtain a g where "ct_gdt t' = Some g" "slots g = [None, Some kernel_code_segment, Some kernel_data_segment, Some (tss_segment a), None]"
     "ts_USER_DATA s' = Some ss_sel" "ts_USER_CODE64 s' = Some cs_sel"
    using gdt_laws.init_gdt_later [OF assms] by blast
  then show ?thesis by (simp add: cs_sel_def ss_sel_def)
qed

theorem ap_lacks_user_segments_witness:
  "\<exists>t' s' g. init_gdt x86_model list_gdt 64 1 0x8000 blank_tables
       (sample_tables\<lparr>ts_KERNEL_CODE32 := Some 0x18, ts_USER_DATA := Some ss_sel, ts_USER_CODE64 := Some cs_sel\<rparr>) = Inr (t', s')
     \<and> ct_gdt t' = Some g \<and> Some user_code_segment \<notin> set g \<and> length g \<le> unat cs_sel div 8"
proof -
  let ?s = "sample_tables\<lparr>ts_KERNEL_CODE32 := Some 0x18, ts_USER_DATA := Some ss_sel, ts_USER_CODE64 := Some cs_sel\<rparr>"
  obtain t' s' where i: "init_gdt x86_model list_gdt 64 1 0x8000 blank_tables ?s = Inr (t', s')"
    using sample_init_gdt [of ?s 1 blank_tables] by (simp add: sample_tables_def) blast
  show ?thesis using ap_lacks_user_segments [OF lg.gdt_laws_axioms i] i by auto
qed

text \<open>C22. Every gate \<open>init_idt\<close> sets up leads to an entry that expects an error code exactly when the processor pushes
  one, except for the gates 21 (control protection) and 29 (VMM communication), whose entries take the error
  code for the return address.  Every interrupt from vector 32 on is acknowledged, except the local APIC's
  error interrupt at 49.\<close>

theorem idt_error_codes:
  assumes "idt_laws I gates" and "gates (idt_handlers I cpu) v = Some g"
  shows "((entry_kind (gt_handler g) = Interrupt_error) = pushes_error_code v) = (v \<noteq> 21 \<and> v \<noteq> 29)
     \<and> (32 \<le> v \<longrightarrow> signals_eoi (gt_handler g) = (v \<noteq> 49))"
proof -
  have "(v, gt_handler g) \<in> set (all_handlers cpu)"
    using idt_laws.handler_at_mem [OF assms(1), of cpu v "gt_handler g"] assms(2) by (simp add: handler_at_def)
  then show ?thesis
    using list_handlers [OF _ handlers_checked(1)] list_handlers [OF _ handlers_checked(2)] by blast
qed

theorem idt_error_codes_witness:
  "\<exists>g h. idt_handlers map_idt 0 14 = Some g \<and> entry_kind (gt_handler g) = Interrupt_error
     \<and> idt_handlers map_idt 0 21 = Some h \<and> entry_kind (gt_handler h) \<noteq> Interrupt_error \<and> pushes_error_code 21"
proof -
  have "handler_at (\<lambda>i. i) (idt_handlers map_idt 0) 14 \<noteq> None" "handler_at (\<lambda>i. i) (idt_handlers map_idt 0) 21 \<noteq> None"
    unfolding mi.handler_at_idt by (simp_all add: all_handlers_def exception_handlers_def map_of_eq_None_iff)
  then obtain g h where "idt_handlers map_idt 0 14 = Some g" "idt_handlers map_idt 0 21 = Some h"
    by (auto simp: handler_at_def)
  then show ?thesis
    using idt_error_codes [OF mi.idt_laws_axioms, of 0 14 g] idt_error_codes [OF mi.idt_laws_axioms, of 0 21 h] by (simp add: pushes_error_code_def)
qed

end
