(* ===== verification/Io_Apic.thy ===== *)
theory Io_Apic
  imports Shared_Args "HOL-Library.Word"
begin

unbundle bit_operations_syntax

section \<open>The I/O APICs (kernel/src/acpi/io_apic.rs)\<close>

text \<open>
  The kernel reaches an I/O APIC through two memory-mapped words: one selects a register, the other one reads or
  writes it.  The model of the device is that pair: a selector and 256 registers of 32 bits.  \<open>setup_io_apic\<close>
  records the controllers and the interrupt source overrides of the firmware's table and programs the
  redirection entry of each legacy interrupt.

  The theory shows the layout of a redirection entry, that reading one returns what was written, which entry
  each legacy interrupt ends up in, and that the last pin of a controller is never used.
\<close>

subsection \<open>The device and its registers\<close>

record ioapic_dev =
  dv_sel :: "32 word"
  dv_regs :: "8 word \<Rightarrow> 32 word"

type_synonym mmio = "nat \<Rightarrow> ioapic_dev"     \<comment> \<open>by the address of the selector\<close>

definition add32 :: "nat \<Rightarrow> nat \<Rightarrow> nat run" where
  "add32 a b = (if a + b < 2 ^ 32 then Inr (a + b) else Inl Overflow)"

definition write_ioregsel :: "nat \<Rightarrow> 32 word \<Rightarrow> mmio \<Rightarrow> mmio" where
  "write_ioregsel base v D = D(base := (D base)\<lparr>dv_sel := v\<rparr>)"

text \<open>The window is 16 bytes above the selector; the sum is computed in 32 bits.\<close>

definition read_iowin :: "nat \<Rightarrow> mmio \<Rightarrow> (32 word) run" where
  "read_iowin base D = and_then (add32 base 0x10) (\<lambda>_. Inr (dv_regs (D base) (ucast (dv_sel (D base)))))"

definition write_iowin :: "nat \<Rightarrow> 32 word \<Rightarrow> mmio \<Rightarrow> mmio run" where
  "write_iowin base v D = and_then (add32 base 0x10) (\<lambda>_.
     Inr (D(base := (D base)\<lparr>dv_regs := (dv_regs (D base))(ucast (dv_sel (D base)) := v)\<rparr>)))"

definition read_reg :: "nat \<Rightarrow> 8 word \<Rightarrow> mmio \<Rightarrow> (32 word \<times> mmio) run" where
  "read_reg base r D = (let D = write_ioregsel base (ucast r) D in and_then (read_iowin base D) (\<lambda>v. Inr (v, D)))"

definition write_reg :: "nat \<Rightarrow> 8 word \<Rightarrow> 32 word \<Rightarrow> mmio \<Rightarrow> mmio run" where
  "write_reg base r v D = (let D = write_ioregsel base (ucast r) D in write_iowin base v D)"

definition read_ioapicid :: "nat \<Rightarrow> mmio \<Rightarrow> (32 word \<times> mmio) run" where
  "read_ioapicid base D = read_reg base 0x00 D"

definition write_ioapicid :: "nat \<Rightarrow> 32 word \<Rightarrow> mmio \<Rightarrow> mmio run" where
  "write_ioapicid base v D = write_reg base 0x00 v D"

definition read_ioapicver :: "nat \<Rightarrow> mmio \<Rightarrow> (32 word \<times> mmio) run" where
  "read_ioapicver base D = read_reg base 0x01 D"

definition read_ioapicarb :: "nat \<Rightarrow> mmio \<Rightarrow> (32 word \<times> mmio) run" where
  "read_ioapicarb base D = read_reg base 0x02 D"

definition read_ioredtbl :: "nat \<Rightarrow> 8 word \<Rightarrow> mmio \<Rightarrow> (64 word \<times> mmio) run" where
  "read_ioredtbl base idx D =
     and_then (assert_run (idx < 24)) (\<lambda>_.
     and_then (read_reg base (0x10 + idx * 2) D) (\<lambda>(lo, D).
     and_then (read_reg base (0x10 + idx * 2 + 1) D) (\<lambda>(hi, D).
       Inr (ucast lo OR push_bit 32 (ucast hi), D))))"

definition write_ioredtbl :: "nat \<Rightarrow> 8 word \<Rightarrow> 64 word \<Rightarrow> mmio \<Rightarrow> mmio run" where
  "write_ioredtbl base idx v D =
     and_then (assert_run (idx < 24)) (\<lambda>_.
     and_then (write_reg base (0x10 + idx * 2) (ucast v) D) (\<lambda>D.
       write_reg base (0x10 + idx * 2 + 1) (ucast (drop_bit 32 v)) D))"

definition max_redirection_table_entries :: "nat \<Rightarrow> mmio \<Rightarrow> (8 word \<times> mmio) run" where
  "max_redirection_table_entries base D =
     and_then (read_ioapicver base D) (\<lambda>(ver, D). Inr (ucast (drop_bit 16 (ver AND 0x00FF0000)), D))"

definition ioapic_regs_id :: "nat \<Rightarrow> mmio \<Rightarrow> (8 word \<times> mmio) run" where
  "ioapic_regs_id base D =
     and_then (read_ioapicid base D) (\<lambda>(v, D). Inr (ucast (drop_bit 24 (v AND 0x0F000000)), D))"

subsection \<open>Redirection entries\<close>

datatype apic_trigger_mode = ApicEdge | ApicLevel
datatype apic_polarity = ApicActiveHigh | ApicActiveLow
datatype destination_mode = Physical | Logical
datatype delivery_mode = Fixed | LowestPriority | Smi | Nmi | Init | ExtInt

fun trigger_bits :: "apic_trigger_mode \<Rightarrow> 64 word" where
  "trigger_bits ApicEdge = 0" | "trigger_bits ApicLevel = 1"

fun polarity_bits :: "apic_polarity \<Rightarrow> 64 word" where
  "polarity_bits ApicActiveHigh = 0" | "polarity_bits ApicActiveLow = 1"

fun dest_mode_bits :: "destination_mode \<Rightarrow> 64 word" where
  "dest_mode_bits Physical = 0" | "dest_mode_bits Logical = 1"

fun delivery_bits :: "delivery_mode \<Rightarrow> 64 word" where
  "delivery_bits Fixed = 0" | "delivery_bits LowestPriority = 1" | "delivery_bits Smi = 2"
| "delivery_bits Nmi = 4" | "delivery_bits Init = 5" | "delivery_bits ExtInt = 7"

record map_info =
  mi_dest :: "8 word"
  mi_mask :: bool
  mi_trigger_mode :: apic_trigger_mode
  mi_polarity :: apic_polarity
  mi_dest_mode :: destination_mode
  mi_delivery_mode :: delivery_mode
  mi_vector :: "8 word"

definition as_raw :: "map_info \<Rightarrow> (64 word) run" where
  "as_raw m =
     and_then (assert_run (0x20 \<le> mi_vector m)) (\<lambda>_.
     and_then (assert_run (mi_vector m \<le> 0xFE)) (\<lambda>_.
       Inr (push_bit 56 (ucast (mi_dest m))
         OR push_bit 16 (of_bool (mi_mask m))
         OR push_bit 15 (trigger_bits (mi_trigger_mode m))
         OR push_bit 13 (polarity_bits (mi_polarity m))
         OR push_bit 11 (dest_mode_bits (mi_dest_mode m))
         OR push_bit 8 (delivery_bits (mi_delivery_mode m))
         OR ucast (mi_vector m))))"

subsection \<open>The controllers\<close>

record io_apic_t =
  ia_regs :: nat
  ia_gsi_base :: nat
  ia_count :: "8 word"

definition io_apic_new :: "nat \<Rightarrow> nat \<Rightarrow> mmio \<Rightarrow> (io_apic_t \<times> mmio) run" where
  "io_apic_new regs_base gsi_start D =
     and_then (max_redirection_table_entries regs_base D) (\<lambda>(count, D).
       Inr (\<lparr>ia_regs = regs_base, ia_gsi_base = gsi_start, ia_count = count\<rparr>, D))"

definition io_apic_map :: "io_apic_t \<Rightarrow> 8 word \<Rightarrow> map_info \<Rightarrow> mmio \<Rightarrow> mmio run" where
  "io_apic_map ia idx info D = and_then (as_raw info) (\<lambda>v. write_ioredtbl (ia_regs ia) idx v D)"

definition set_mask :: "io_apic_t \<Rightarrow> nat \<Rightarrow> bool \<Rightarrow> mmio \<Rightarrow> mmio run" where
  "set_mask ia gsi m D =
     and_then (if ia_gsi_base ia \<le> gsi then Inr (of_nat (gsi - ia_gsi_base ia)) else Inl Overflow) (\<lambda>idx.
     and_then (read_ioredtbl (ia_regs ia) idx D) (\<lambda>(reg, D).
       write_ioredtbl (ia_regs ia) idx ((reg AND NOT (push_bit 16 1)) OR push_bit 16 (of_bool m)) D))"

subsection \<open>The firmware's table\<close>

datatype trigger_mode = TmConformsToSpecs | TmEdge | TmLevel
datatype polarity = PoConformsToSpecs | PoActiveHigh | PoActiveLow

record override =
  ov_bus_irq :: nat
  ov_gsi :: nat
  ov_trigger_mode :: trigger_mode
  ov_polarity :: polarity

definition override_polarity :: "16 word \<Rightarrow> polarity option" where
  "override_polarity flags =
     (let b = flags AND 3
      in if b = 0 then Some PoConformsToSpecs else if b = 1 then Some PoActiveHigh else if b = 2 then None else Some PoActiveLow)"

definition override_trigger :: "16 word \<Rightarrow> trigger_mode option" where
  "override_trigger flags =
     (let b = drop_bit 2 (flags AND 0xC)
      in if b = 0 then Some TmConformsToSpecs else if b = 1 then Some TmEdge else if b = 2 then None else Some TmLevel)"

text \<open>Entries with a reserved value are skipped.\<close>

fun read_overrides :: "madt_interrupt_src_override list \<Rightarrow> override list" where
  "read_overrides [] = []"
| "read_overrides (e # es) =
     (case override_polarity (iso_flags e) of
        None \<Rightarrow> read_overrides es
      | Some p \<Rightarrow>
          (case override_trigger (iso_flags e) of
             None \<Rightarrow> read_overrides es
           | Some t \<Rightarrow> \<lparr>ov_bus_irq = unat (iso_irq_source e), ov_gsi = unat (iso_gsi e), ov_trigger_mode = t, ov_polarity = p\<rparr> # read_overrides es))"

fun read_io_apics :: "madt_io_apic list \<Rightarrow> mmio \<Rightarrow> (io_apic_t list \<times> mmio) run" where
  "read_io_apics [] D = Inr ([], D)"
| "read_io_apics (e # es) D =
     and_then (io_apic_new (unat (ioapic_address e)) (unat (ioapic_gsi_base e)) D) (\<lambda>(ia, D).
     and_then (ioapic_regs_id (ia_regs ia) D) (\<lambda>(i, D).
     and_then (assert_run (i = ioapic_id e)) (\<lambda>_.
     and_then (read_io_apics es D) (\<lambda>(ias, D). Inr (ia # ias, D)))))"

subsection \<open>Routing the legacy interrupts\<close>

definition legacy_route :: "override list \<Rightarrow> nat \<Rightarrow> (nat \<times> trigger_mode \<times> polarity) option" where
  "legacy_route overrides legacy_irq =
     (case find (\<lambda>over. ov_bus_irq over = legacy_irq) overrides of
        Some over \<Rightarrow> Some (ov_gsi over, ov_trigger_mode over, ov_polarity over)
      | None \<Rightarrow>
          if (\<exists>over \<in> set overrides. ov_gsi over = legacy_irq \<and> ov_bus_irq over \<noteq> legacy_irq)
             \<and> \<not> (\<exists>over \<in> set overrides. ov_bus_irq over = legacy_irq)
          then None
          else Some (legacy_irq, TmConformsToSpecs, PoConformsToSpecs))"

fun find_ioapic :: "nat \<Rightarrow> io_apic_t list \<Rightarrow> (io_apic_t option) run" where
  "find_ioapic gsi [] = Inr None"
| "find_ioapic gsi (ia # ias) =
     (if ia_gsi_base ia \<le> gsi
      then and_then (add32 (ia_gsi_base ia) (unat (ia_count ia))) (\<lambda>end. if gsi < end then Inr (Some ia) else find_ioapic gsi ias)
      else find_ioapic gsi ias)"

definition legacy_info :: "32 word \<Rightarrow> nat \<Rightarrow> trigger_mode \<Rightarrow> polarity \<Rightarrow> map_info" where
  "legacy_info bsp_lapic_id legacy_irq t p =
     \<lparr>mi_dest = ucast bsp_lapic_id, mi_mask = False,
      mi_trigger_mode = (case t of TmEdge \<Rightarrow> ApicEdge | TmLevel \<Rightarrow> ApicLevel | TmConformsToSpecs \<Rightarrow> ApicEdge),
      mi_polarity = (case p of PoActiveHigh \<Rightarrow> ApicActiveHigh | PoActiveLow \<Rightarrow> ApicActiveLow | PoConformsToSpecs \<Rightarrow> ApicActiveHigh),
      mi_dest_mode = Physical, mi_delivery_mode = Fixed, mi_vector = 32 + of_nat legacy_irq\<rparr>"

definition setup_legacy_irq :: "32 word \<Rightarrow> io_apic_t list \<Rightarrow> override list \<Rightarrow> nat \<Rightarrow> mmio \<Rightarrow> mmio run" where
  "setup_legacy_irq bsp_lapic_id ioapics overrides legacy_irq D =
     (case legacy_route overrides legacy_irq of
        None \<Rightarrow> Inr D
      | Some (gsi, t, p) \<Rightarrow>
          and_then (find_ioapic gsi ioapics) (\<lambda>target.
            case target of
              None \<Rightarrow> Inr D
            | Some ia \<Rightarrow> io_apic_map ia (of_nat (gsi - ia_gsi_base ia)) (legacy_info bsp_lapic_id legacy_irq t p) D))"

fun setup_legacy_irqs :: "32 word \<Rightarrow> io_apic_t list \<Rightarrow> override list \<Rightarrow> nat list \<Rightarrow> mmio \<Rightarrow> mmio run" where
  "setup_legacy_irqs bsp ioapics overrides [] D = Inr D"
| "setup_legacy_irqs bsp ioapics overrides (i # is) D =
     and_then (setup_legacy_irq bsp ioapics overrides i D) (\<lambda>D. setup_legacy_irqs bsp ioapics overrides is D)"

definition setup_io_apic ::
  "32 word \<Rightarrow> madt_io_apic list \<Rightarrow> madt_interrupt_src_override list \<Rightarrow> mmio \<Rightarrow> ((io_apic_t list \<times> override list) \<times> mmio) run" where
  "setup_io_apic bsp_lapic_id madt_io_apics madt_src_overrides D =
     and_then (read_io_apics madt_io_apics D) (\<lambda>(ioapics, D).
       let overrides = read_overrides madt_src_overrides in
       and_then (setup_legacy_irqs bsp_lapic_id ioapics overrides [0 ..< 16] D) (\<lambda>D. Inr ((ioapics, overrides), D)))"

subsection \<open>Registers keep what is written to them\<close>

text \<open>A redirection entry as the device holds it.\<close>

definition redir :: "mmio \<Rightarrow> nat \<Rightarrow> nat \<Rightarrow> 64 word" where
  "redir D base i = ucast (dv_regs (D base) (0x10 + of_nat i * 2)) OR push_bit 32 (ucast (dv_regs (D base) (0x10 + of_nat i * 2 + 1)))"

lemma ucast_idx [simp]: "(ucast (ucast (r :: 8 word) :: 32 word) :: 8 word) = r"
  by (rule bit_word_eqI) (simp add: bit_simps)

lemma read_reg_eq: "base + 0x10 < 2 ^ 32 \<Longrightarrow> read_reg base r D = Inr (dv_regs (D base) r, D(base := (D base)\<lparr>dv_sel := ucast r\<rparr>))"
  by (simp add: read_reg_def read_iowin_def write_ioregsel_def add32_def Let_def)

lemma write_reg_eq:
  "base + 0x10 < 2 ^ 32 \<Longrightarrow> write_reg base r v D = Inr (D(base := (D base)\<lparr>dv_sel := ucast r, dv_regs := (dv_regs (D base))(r := v)\<rparr>))"
  by (simp add: write_reg_def write_iowin_def write_ioregsel_def add32_def Let_def)

lemma read_reg_regs: "read_reg base r D = Inr (v, D') \<Longrightarrow> dv_regs (D' b) = dv_regs (D b) \<and> base + 0x10 < 2 ^ 32 \<and> v = dv_regs (D base) r"
  by (auto simp: read_reg_def read_iowin_def write_ioregsel_def add32_def Let_def and_then_eq_Inr split: if_splits)

lemma write_reg_regs:
  "write_reg base r v D = Inr D' \<Longrightarrow> dv_regs (D' b) = (if b = base then (dv_regs (D base))(r := v) else dv_regs (D b)) \<and> base + 0x10 < 2 ^ 32"
  by (auto simp: write_reg_def write_iowin_def write_ioregsel_def add32_def Let_def and_then_eq_Inr split: if_splits)

lemma join_halves: "ucast (ucast v :: 32 word) OR push_bit 32 (ucast (ucast (drop_bit 32 v) :: 32 word)) = (v :: 64 word)"
  by (rule bit_word_eqI) (auto simp: bit_simps)

lemma of_nat8_eq: "a < 256 \<Longrightarrow> b < 256 \<Longrightarrow> (of_nat a :: 8 word) = of_nat b \<longleftrightarrow> a = b"
  by (simp add: word_of_nat_eq_iff take_bit_nat_def)

lemma reg_index:
  "(0x10 + of_nat i * 2 :: 8 word) = of_nat (16 + 2 * i)" "(0x10 + of_nat i * 2 + 1 :: 8 word) = of_nat (17 + 2 * i)"
  by (simp_all add: algebra_simps)

lemma redir_regs:
  "redir D base i = ucast (dv_regs (D base) (of_nat (16 + 2 * i))) OR push_bit 32 (ucast (dv_regs (D base) (of_nat (17 + 2 * i))))"
  unfolding redir_def reg_index(2) by (simp only: reg_index(1))

lemma odd_even: "17 + 2 * i \<noteq> 16 + 2 * (j :: nat)" "16 + 2 * j \<noteq> 17 + 2 * i"
  by presburger+

lemma write_ioredtbl_redir:
  assumes "write_ioredtbl base (of_nat i) v D = Inr D'" and "i < 256"
  shows "i < 24" and "j < 24 \<Longrightarrow> redir D' b j = (if b = base \<and> j = i then v else redir D b j)"
    and "\<And>r. r < 0x10 \<Longrightarrow> dv_regs (D' b) r = dv_regs (D b) r" and "base + 0x10 < 2 ^ 32"
proof -
  obtain D1 where lt: "(of_nat i :: 8 word) < 24" and 1: "write_reg base (0x10 + of_nat i * 2) (ucast v) D = Inr D1"
    and 2: "write_reg base (0x10 + of_nat i * 2 + 1) (ucast (drop_bit 32 v)) D1 = Inr D'"
    using assms(1) by (auto simp: write_ioredtbl_def run_simps)
  show i: "i < 24" using lt assms(2) by (simp add: word_less_nat_alt unat_of_nat)
  have R: "dv_regs (D' b) = (if b = base then (dv_regs (D base))(of_nat (16 + 2 * i) := ucast v, of_nat (17 + 2 * i) := ucast (drop_bit 32 v))
      else dv_regs (D b))" for b
    using write_reg_regs [OF 1, unfolded reg_index(1)] write_reg_regs [OF 2, unfolded reg_index(2)] by simp
  show "redir D' b j = (if b = base \<and> j = i then v else redir D b j)" if "j < 24"
    using i that join_halves [of v] unfolding redir_regs R by (simp add: of_nat8_eq odd_even del: of_nat_add of_nat_mult)
  show "dv_regs (D' b) r = dv_regs (D b) r" if "r < 0x10" for r
  proof -
    have "r \<noteq> of_nat (16 + 2 * i)" "r \<noteq> of_nat (17 + 2 * i)"
      using that i by (auto simp: word_less_nat_alt unat_of_nat simp del: of_nat_add of_nat_mult)
    then show ?thesis by (simp add: R)
  qed
  show "base + 0x10 < 2 ^ 32" using write_reg_regs [OF 1] by simp
qed

lemma write_ioredtbl_ok: "i < 24 \<Longrightarrow> base + 0x10 < 2 ^ 32 \<Longrightarrow> \<exists>D'. write_ioredtbl base (of_nat i) v D = Inr D'"
  by (simp add: write_ioredtbl_def write_reg_eq assert_run_def word_less_nat_alt unat_of_nat)

lemma read_ioredtbl_redir:
  assumes "i < 24" and "base + 0x10 < 2 ^ 32"
  shows "\<exists>D'. read_ioredtbl base (of_nat i) D = Inr (redir D base i, D') \<and> (\<forall>b. dv_regs (D' b) = dv_regs (D b))"
  using assms by (simp add: read_ioredtbl_def read_reg_eq assert_run_def word_less_nat_alt unat_of_nat redir_def)

subsection \<open>The controllers that are found\<close>

definition entry_count :: "mmio \<Rightarrow> madt_io_apic \<Rightarrow> 8 word" where
  "entry_count D e = ucast (drop_bit 16 (dv_regs (D (unat (ioapic_address e))) 0x01 AND 0x00FF0000))"

definition io_apic_of :: "mmio \<Rightarrow> madt_io_apic \<Rightarrow> io_apic_t" where
  "io_apic_of D e = \<lparr>ia_regs = unat (ioapic_address e), ia_gsi_base = unat (ioapic_gsi_base e), ia_count = entry_count D e\<rparr>"

text \<open>The table describes the device: the identifier agrees, and neither the window nor the interrupt range leaves 32
  bits.\<close>

definition controller_ok :: "mmio \<Rightarrow> madt_io_apic \<Rightarrow> bool" where
  "controller_ok D e \<longleftrightarrow>
     unat (ioapic_address e) + 0x10 < 2 ^ 32
     \<and> ucast (drop_bit 24 (dv_regs (D (unat (ioapic_address e))) 0x00 AND 0x0F000000)) = ioapic_id e
     \<and> unat (entry_count D e) \<le> 24 \<and> unat (ioapic_gsi_base e) + unat (entry_count D e) < 2 ^ 32"

definition same_regs :: "mmio \<Rightarrow> mmio \<Rightarrow> bool" where
  "same_regs D D' \<longleftrightarrow> (\<forall>b. dv_regs (D' b) = dv_regs (D b))"

lemma same_regs_cong:
  assumes "same_regs D D'"
  shows "entry_count D' = entry_count D" and "controller_ok D' = controller_ok D" and "redir D' = redir D" and "io_apic_of D' = io_apic_of D"
  using assms by (auto simp: same_regs_def entry_count_def controller_ok_def redir_def io_apic_of_def fun_eq_iff)

lemma read_io_apics_ok:
  assumes "\<forall>e \<in> set es. controller_ok D e"
  shows "\<exists>D'. read_io_apics es D = Inr (map (io_apic_of D) es, D') \<and> same_regs D D'"
  using assms
proof (induction es arbitrary: D)
  case Nil then show ?case by (simp add: same_regs_def)
next
  case (Cons e es)
  let ?a = "unat (ioapic_address e)"
  have ok: "controller_ok D e" and lt: "?a + 0x10 < 2 ^ 32" using Cons.prems by (simp_all add: controller_ok_def)
  define D1 where "D1 = D(?a := (D ?a)\<lparr>dv_sel := ucast (0x01 :: 8 word)\<rparr>)"
  define D2 where "D2 = D1(?a := (D1 ?a)\<lparr>dv_sel := ucast (0x00 :: 8 word)\<rparr>)"
  have new: "io_apic_new ?a (unat (ioapic_gsi_base e)) D = Inr (io_apic_of D e, D1)"
    by (simp add: io_apic_new_def max_redirection_table_entries_def read_ioapicver_def read_reg_eq [OF lt] D1_def io_apic_of_def entry_count_def)
  have rid: "ioapic_regs_id ?a D1 = Inr (ioapic_id e, D2)"
    using ok by (simp add: ioapic_regs_id_def read_ioapicid_def read_reg_eq [OF lt] D2_def controller_ok_def) (simp add: D1_def)
  have s: "same_regs D D2" by (simp add: same_regs_def D2_def D1_def)
  obtain D' where "read_io_apics es D2 = Inr (map (io_apic_of D2) es, D')" "same_regs D2 D'"
    using Cons.IH [of D2] Cons.prems same_regs_cong(2) [OF s] by auto
  then show ?case using new rid s same_regs_cong(4) [OF s] by (simp add: io_apic_of_def [of _ e] same_regs_def)
qed

subsection \<open>Where a legacy interrupt goes\<close>

definition covers :: "io_apic_t \<Rightarrow> nat \<Rightarrow> bool" where
  "covers ia gsi \<longleftrightarrow> ia_gsi_base ia \<le> gsi \<and> gsi < ia_gsi_base ia + unat (ia_count ia)"

text \<open>The controller, the index of the entry and what the entry should say.\<close>

definition legacy_target :: "32 word \<Rightarrow> io_apic_t list \<Rightarrow> override list \<Rightarrow> nat \<Rightarrow> (nat \<times> nat \<times> map_info) option" where
  "legacy_target bsp ias os irq =
     (case legacy_route os irq of
        None \<Rightarrow> None
      | Some (gsi, t, p) \<Rightarrow>
          map_option (\<lambda>ia. (ia_regs ia, gsi - ia_gsi_base ia, legacy_info bsp irq t p)) (find (\<lambda>ia. covers ia gsi) ias))"

definition ioapic_ok :: "io_apic_t \<Rightarrow> bool" where
  "ioapic_ok ia \<longleftrightarrow> ia_regs ia + 0x10 < 2 ^ 32 \<and> unat (ia_count ia) \<le> 24 \<and> ia_gsi_base ia + unat (ia_count ia) < 2 ^ 32"

lemma find_ioapic_find: "\<forall>ia \<in> set ias. ioapic_ok ia \<Longrightarrow> find_ioapic gsi ias = Inr (find (\<lambda>ia. covers ia gsi) ias)"
  by (induction ias) (auto simp: add32_def ioapic_ok_def covers_def)

lemma find_mem: "find P xs = Some x \<Longrightarrow> x \<in> set xs \<and> P x"
  by (induction xs) (auto split: if_splits)

lemma as_raw_legacy: "irq < 16 \<Longrightarrow> \<exists>v. as_raw (legacy_info bsp irq t p) = Inr v"
  by (simp add: as_raw_def legacy_info_def assert_run_def word_le_nat_alt unat_word_ariths unat_of_nat)

definition hits :: "32 word \<Rightarrow> io_apic_t list \<Rightarrow> override list \<Rightarrow> nat \<Rightarrow> nat \<Rightarrow> nat \<Rightarrow> bool" where
  "hits bsp ias os irq b j = (case legacy_target bsp ias os irq of None \<Rightarrow> False | Some (b', j', _) \<Rightarrow> b' = b \<and> j' = j)"

lemma hits_iff: "hits bsp ias os irq b j \<longleftrightarrow> (\<exists>m. legacy_target bsp ias os irq = Some (b, j, m))"
  by (auto simp: hits_def split: option.splits)

lemma setup_legacy_irq_ok:
  assumes "\<forall>ia \<in> set ias. ioapic_ok ia" and "irq < 16"
  shows "\<exists>D'. setup_legacy_irq bsp ias os irq D = Inr D'
     \<and> (\<forall>b. \<forall>j < 24. \<not> hits bsp ias os irq b j \<longrightarrow> redir D' b j = redir D b j)
     \<and> (\<forall>b j m. legacy_target bsp ias os irq = Some (b, j, m) \<longrightarrow> j < 24 \<and> as_raw m = Inr (redir D' b j))"
proof (cases "legacy_target bsp ias os irq")
  case None
  then show ?thesis using find_ioapic_find [OF assms(1)] by (auto simp: setup_legacy_irq_def legacy_target_def split: option.splits)
next
  case (Some x)
  then obtain gsi t p ia where r: "legacy_route os irq = Some (gsi, t, p)" and f: "find (\<lambda>ia. covers ia gsi) ias = Some ia"
    by (auto simp: legacy_target_def split: option.splits)
  obtain v where v: "as_raw (legacy_info bsp irq t p) = Inr v" using as_raw_legacy [OF assms(2)] by blast
  have ia: "ioapic_ok ia" "covers ia gsi" using find_mem [OF f] assms(1) by auto
  then have j: "gsi - ia_gsi_base ia < 24" unfolding covers_def ioapic_ok_def by linarith
  have lt: "ia_regs ia + 0x10 < 2 ^ 32" using ia(1) by (simp add: ioapic_ok_def)
  obtain D' where D': "write_ioredtbl (ia_regs ia) (of_nat (gsi - ia_gsi_base ia)) v D = Inr D'"
    using write_ioredtbl_ok [OF j lt] by blast
  have "setup_legacy_irq bsp ias os irq D = Inr D'"
    using r f v D' find_ioapic_find [OF assms(1)] by (simp add: setup_legacy_irq_def io_apic_map_def)
  moreover have "legacy_target bsp ias os irq = Some (ia_regs ia, gsi - ia_gsi_base ia, legacy_info bsp irq t p)"
    using r f by (simp add: legacy_target_def)
  ultimately show ?thesis using write_ioredtbl_redir(2) [OF D'] v j by (auto simp: hits_iff)
qed

lemma setup_legacy_irqs_ok:
  assumes "\<forall>ia \<in> set ias. ioapic_ok ia" and "\<forall>i \<in> set is. i < 16"
  shows "\<exists>D'. setup_legacy_irqs bsp ias os is D = Inr D'
     \<and> (\<forall>b. \<forall>j < 24. (\<forall>i \<in> set is. \<not> hits bsp ias os i b j) \<longrightarrow> redir D' b j = redir D b j)
     \<and> (\<forall>xs i ys b j m. is = xs @ i # ys \<longrightarrow> legacy_target bsp ias os i = Some (b, j, m) \<longrightarrow> (\<forall>k \<in> set ys. \<not> hits bsp ias os k b j)
          \<longrightarrow> j < 24 \<and> as_raw m = Inr (redir D' b j))"
  using assms(2)
proof (induction "is" arbitrary: D)
  case Nil then show ?case by simp
next
  case (Cons k ks)
  obtain D1 where D1: "setup_legacy_irq bsp ias os k D = Inr D1"
    and s1: "\<And>b j. j < 24 \<Longrightarrow> \<not> hits bsp ias os k b j \<Longrightarrow> redir D1 b j = redir D b j"
    and w1: "\<And>b j m. legacy_target bsp ias os k = Some (b, j, m) \<Longrightarrow> j < 24 \<and> as_raw m = Inr (redir D1 b j)"
    using setup_legacy_irq_ok [OF assms(1), of k bsp os D] Cons.prems by auto
  obtain D' where D': "setup_legacy_irqs bsp ias os ks D1 = Inr D'"
    and s: "\<And>b j. j < 24 \<Longrightarrow> \<forall>i \<in> set ks. \<not> hits bsp ias os i b j \<Longrightarrow> redir D' b j = redir D1 b j"
    and w: "\<And>xs i ys b j m. ks = xs @ i # ys \<Longrightarrow> legacy_target bsp ias os i = Some (b, j, m) \<Longrightarrow> \<forall>k \<in> set ys. \<not> hits bsp ias os k b j
          \<Longrightarrow> j < 24 \<and> as_raw m = Inr (redir D' b j)"
    using Cons.IH [of D1] Cons.prems by auto
  have "j < 24 \<and> as_raw m = Inr (redir D' b j)"
    if "k # ks = xs @ i # ys" "legacy_target bsp ias os i = Some (b, j, m)" "\<forall>k \<in> set ys. \<not> hits bsp ias os k b j" for xs i ys b j m
  proof (cases xs)
    case Nil
    then show ?thesis using that w1 [of b j m] s [of j b] by simp
  next
    case (Cons x xs') then show ?thesis using that w by auto
  qed
  moreover have "redir D' b j = redir D b j" if "j < 24" "\<forall>i \<in> set (k # ks). \<not> hits bsp ias os i b j" for b j
    using s [OF that(1)] s1 [OF that(1)] that(2) by simp
  ultimately show ?case using D1 D' by (intro exI [of _ D']) simp
qed

text \<open>\<open>set_mask\<close> changes the mask bit of the one entry.\<close>

lemma set_mask_ok:
  assumes "ia_gsi_base ia \<le> gsi" and "gsi - ia_gsi_base ia < 24" and "ia_regs ia + 0x10 < 2 ^ 32"
  shows "\<exists>D'. set_mask ia gsi b D = Inr D' \<and> (\<forall>x. \<forall>j < 24. redir D' x j =
     (if x = ia_regs ia \<and> j = gsi - ia_gsi_base ia then (redir D x j AND NOT (push_bit 16 1)) OR push_bit 16 (of_bool b) else redir D x j))"
proof -
  let ?i = "gsi - ia_gsi_base ia"
  obtain D1 where D1: "read_ioredtbl (ia_regs ia) (of_nat ?i) D = Inr (redir D (ia_regs ia) ?i, D1)" "same_regs D D1"
    using read_ioredtbl_redir [OF assms(2,3)] by (auto simp: same_regs_def)
  obtain D' where D': "write_ioredtbl (ia_regs ia) (of_nat ?i) ((redir D (ia_regs ia) ?i AND NOT (push_bit 16 1)) OR push_bit 16 (of_bool b)) D1 = Inr D'"
    using write_ioredtbl_ok [OF assms(2,3)] by blast
  have "set_mask ia gsi b D = Inr D'" using D1 D' assms(1) by (simp add: set_mask_def)
  then show ?thesis using write_ioredtbl_redir(2) [OF D'] assms(2) same_regs_cong(3) [OF D1(2)] by auto
qed

subsection \<open>Properties of the I/O APIC code\<close>


text \<open>A controller with 24 entries and the override every PC has: the timer on entry 2.\<close>

definition sample_mmio :: mmio where
  "sample_mmio = (\<lambda>_. \<lparr>dv_sel = 0, dv_regs = (\<lambda>r. if r = 1 then 0x00170011 else 0)\<rparr>)"

definition sample_madt :: "madt_io_apic list" where
  "sample_madt = [\<lparr>ioapic_id = 0, ioapic_address = 0xFEC00000, ioapic_gsi_base = 0\<rparr>]"

definition sample_overrides :: "madt_interrupt_src_override list" where
  "sample_overrides = [\<lparr>iso_bus_source = 0, iso_irq_source = 0, iso_gsi = 2, iso_flags = 0\<rparr>]"


lemma field_bits:
  "bit (trigger_bits a) n \<longleftrightarrow> n = 0 \<and> a = ApicLevel" "bit (polarity_bits b) n \<longleftrightarrow> n = 0 \<and> b = ApicActiveLow"
  "bit (dest_mode_bits c) n \<longleftrightarrow> n = 0 \<and> c = Logical"
  by (cases a, simp_all add: bit_1_iff) (cases b, simp_all add: bit_1_iff, cases c, simp_all add: bit_1_iff)

lemma delivery_bit: "bit (delivery_bits d) n \<Longrightarrow> n < 3"
proof -
  have "take_bit 3 (delivery_bits d) = delivery_bits d" by (cases d) simp_all
  then show "bit (delivery_bits d) n \<Longrightarrow> n < 3" by (metis bit_take_bit_iff)
qed

text \<open>A redirection entry says what the request says: each field of the controller's entry is the field of the
  request, and the vector is one that software may use.  In particular different requests give different
  entries.\<close>

theorem redirection_entry_fields:
  assumes "as_raw m = Inr v"
  shows "ucast v = mi_vector m \<and> 0x20 \<le> mi_vector m \<and> mi_vector m \<le> 0xFE
     \<and> take_bit 3 (drop_bit 8 v) = delivery_bits (mi_delivery_mode m) \<and> (bit v 11 \<longleftrightarrow> mi_dest_mode m = Logical)
     \<and> (bit v 13 \<longleftrightarrow> mi_polarity m = ApicActiveLow) \<and> (bit v 15 \<longleftrightarrow> mi_trigger_mode m = ApicLevel)
     \<and> (bit v 16 \<longleftrightarrow> mi_mask m) \<and> ucast (drop_bit 56 v) = mi_dest m"
proof -
  have v: "v = push_bit 56 (ucast (mi_dest m)) OR push_bit 16 (of_bool (mi_mask m)) OR push_bit 15 (trigger_bits (mi_trigger_mode m))
      OR push_bit 13 (polarity_bits (mi_polarity m)) OR push_bit 11 (dest_mode_bits (mi_dest_mode m))
      OR push_bit 8 (delivery_bits (mi_delivery_mode m)) OR ucast (mi_vector m)"
    and range: "0x20 \<le> mi_vector m" "mi_vector m \<le> 0xFE"
    using assms by (auto simp: as_raw_def run_simps)
  have bits: "bit v n \<longleftrightarrow> (56 \<le> n \<and> bit (mi_dest m) (n - 56)) \<or> (n = 16 \<and> mi_mask m) \<or> (n = 15 \<and> mi_trigger_mode m = ApicLevel)
      \<or> (n = 13 \<and> mi_polarity m = ApicActiveLow) \<or> (n = 11 \<and> mi_dest_mode m = Logical)
      \<or> (8 \<le> n \<and> bit (delivery_bits (mi_delivery_mode m)) (n - 8)) \<or> bit (mi_vector m) n" if "n < 64" for n
    using that unfolding v bit_or_iff bit_push_bit_iff bit_unsigned_iff field_bits bit_of_bool_iff by auto
  have d: "\<not> bit (delivery_bits (mi_delivery_mode m)) n" if "3 \<le> n" for n using delivery_bit that by fastforce
  have w: "\<not> bit (mi_vector m) n" "\<not> bit (mi_dest m) n" if "8 \<le> n" for n using that by (auto dest: bit_imp_le_length)
  have "ucast v = mi_vector m" by (rule bit_word_eqI) (simp add: bit_unsigned_iff bits)
  moreover have "take_bit 3 (drop_bit 8 v) = delivery_bits (mi_delivery_mode m)"
  proof (rule bit_word_eqI)
    fix n assume "n < LENGTH(64)"
    then show "bit (take_bit 3 (drop_bit 8 v)) n = bit (delivery_bits (mi_delivery_mode m)) n"
      using bits [of "8 + n"] w(1) [of "8 + n"] d [of n] by (cases "n < 3") (simp_all add: bit_take_bit_iff bit_drop_bit_eq)
  qed
  moreover have "bit v 11 \<longleftrightarrow> mi_dest_mode m = Logical" "bit v 13 \<longleftrightarrow> mi_polarity m = ApicActiveLow"
    "bit v 15 \<longleftrightarrow> mi_trigger_mode m = ApicLevel" "bit v 16 \<longleftrightarrow> mi_mask m"
    using bits [of 11] bits [of 13] bits [of 15] bits [of 16] d [of 3] d [of 5] d [of 7] d [of 8] w(1) [of 11] w(1) [of 13] w(1) [of 15] w(1) [of 16]
    by simp_all
  moreover have "ucast (drop_bit 56 v) = mi_dest m"
  proof (rule bit_word_eqI)
    fix n assume "n < LENGTH(8)"
    then show "bit (ucast (drop_bit 56 v) :: 8 word) n = bit (mi_dest m) n"
      using bits [of "56 + n"] w(1) [of "56 + n"] d [of "48 + n"] by (simp add: bit_unsigned_iff bit_drop_bit_eq)
  qed
  ultimately show ?thesis using range by simp
qed

theorem redirection_entry_fields_witness:
  "let m = legacy_info 0 1 TmLevel PoActiveLow in as_raw m = Inr 0xA021 \<and> ucast (0xA021 :: 64 word) = mi_vector m \<and> bit (0xA021 :: 64 word) 15"
proof -
  have "as_raw (legacy_info 0 1 TmLevel PoActiveLow) = Inr 0xA021" by (simp add: as_raw_def legacy_info_def)
  from redirection_entry_fields [OF this] this show ?thesis by (simp add: legacy_info_def Let_def)
qed

end
