(* ===== verification/Local_Apic.thy ===== *)
theory Local_Apic
  imports Descriptors
begin

unbundle bit_operations_syntax

section \<open>The local APIC and the start of the other processors (kernel/src/acpi, ipi.rs)\<close>

text \<open>
  The operations of \<open>LocalApic\<close> on memory-mapped or model specific registers, \<open>setup_apic\<close>, the interprocessor
  interrupts of \<open>ipi.rs\<close> and \<open>setup_ap_startup\<close>.  The registers are memory that keeps what is written; every write
  is also recorded in order, because the order is what the device sees.  While the code spins, the device and
  the other processors go on: one turn of a spin loop is a parameter \<open>dev\<close>, and a loop that may spin forever is a
  partial function.

  The theory shows that an interrupt command is written exactly once and in the right order, what a processor
  that is started finds in its argument block, that the identifier is read from the wrong byte in xAPIC mode,
  and that x2APIC mode is used without being enabled.
\<close>

subsection \<open>Registers, and loops that wait\<close>

datatype apic_event =
    MmioWrite "32 word" "32 word"
  | MsrWrite "32 word" word64
  | PortWrite "16 word" "8 word"

record apic_hw =
  hw_mmio :: "32 word \<Rightarrow> 32 word"
  hw_msr :: "32 word \<Rightarrow> word64"
  hw_log :: "apic_event list"

type_synonym 'a io = "('a run) option"      \<comment> \<open>\<open>None\<close>: the code spins forever\<close>

definition io_then :: "'a io \<Rightarrow> ('a \<Rightarrow> 'b io) \<Rightarrow> 'b io" where
  "io_then m f = (case m of None \<Rightarrow> None | Some (Inl e) \<Rightarrow> Some (Inl e) | Some (Inr x) \<Rightarrow> f x)"

partial_function (option) spin :: "('s \<Rightarrow> 's) \<Rightarrow> ('s \<Rightarrow> bool run) \<Rightarrow> 's \<Rightarrow> 's io" where
  "spin dev waiting s =
     (case waiting s of Inl e \<Rightarrow> Some (Inl e) | Inr b \<Rightarrow> if b then spin dev waiting (dev s) else Some (Inr s))"

definition apic_wrmsr :: "32 word \<Rightarrow> word64 \<Rightarrow> 'a apic_hw_scheme \<Rightarrow> 'a apic_hw_scheme" where
  "apic_wrmsr r v h = h\<lparr>hw_msr := (hw_msr h)(r := v), hw_log := hw_log h @ [MsrWrite r v]\<rparr>"

definition outb :: "16 word \<Rightarrow> 8 word \<Rightarrow> 'a apic_hw_scheme \<Rightarrow> 'a apic_hw_scheme" where
  "outb p v h = h\<lparr>hw_log := hw_log h @ [PortWrite p v]\<rparr>"

subsection \<open>The operations of the local APIC\<close>

record local_apic_t =
  la_base :: word64
  la_x2 :: bool

definition local_apic_new :: local_apic_t where
  "local_apic_new = \<lparr>la_base = 0, la_x2 = False\<rparr>"

definition lapic_init :: "word64 \<Rightarrow> bool \<Rightarrow> local_apic_t \<Rightarrow> local_apic_t" where
  "lapic_init base x2 l = l\<lparr>la_base := base, la_x2 := x2\<rparr>"

definition lapic_addr :: "local_apic_t \<Rightarrow> 32 word \<Rightarrow> (32 word) run" where
  "lapic_addr l reg =
     (let a = ucast (la_base l AND 0xFFFFFFFF) :: 32 word
      in if unat a + unat reg < 2 ^ 32 then Inr (a + reg) else Inl Overflow)"

definition lapic_read :: "local_apic_t \<Rightarrow> 32 word \<Rightarrow> 'a apic_hw_scheme \<Rightarrow> (32 word) run" where
  "lapic_read l reg h = and_then (lapic_addr l reg) (\<lambda>a. Inr (hw_mmio h a))"

definition lapic_write :: "local_apic_t \<Rightarrow> 32 word \<Rightarrow> 32 word \<Rightarrow> 'a apic_hw_scheme \<Rightarrow> ('a apic_hw_scheme) run" where
  "lapic_write l reg v h =
     and_then (lapic_addr l reg) (\<lambda>a. Inr (h\<lparr>hw_mmio := (hw_mmio h)(a := v), hw_log := hw_log h @ [MmioWrite a v]\<rparr>))"

text \<open>Registers that both modes have: the number of the MSR and the offset in the page.\<close>

definition lapic_get :: "local_apic_t \<Rightarrow> 32 word \<Rightarrow> 32 word \<Rightarrow> 'a apic_hw_scheme \<Rightarrow> (32 word) run" where
  "lapic_get l msr reg h = (if la_x2 l then Inr (ucast (hw_msr h msr)) else lapic_read l reg h)"

definition lapic_set :: "local_apic_t \<Rightarrow> 32 word \<Rightarrow> 32 word \<Rightarrow> 32 word \<Rightarrow> 'a apic_hw_scheme \<Rightarrow> ('a apic_hw_scheme) run" where
  "lapic_set l msr reg v h = (if la_x2 l then Inr (apic_wrmsr msr (ucast v) h) else lapic_write l reg v h)"

definition apic_id :: "local_apic_t \<Rightarrow> 'a apic_hw_scheme \<Rightarrow> (32 word) run" where
  "apic_id l h = lapic_get l 0x802 0x20 h"

definition apic_version :: "local_apic_t \<Rightarrow> 'a apic_hw_scheme \<Rightarrow> (32 word) run" where
  "apic_version l h = lapic_get l 0x803 0x30 h"

definition icr :: "local_apic_t \<Rightarrow> 'a apic_hw_scheme \<Rightarrow> word64 run" where
  "icr l h =
     (if la_x2 l then Inr (hw_msr h 0x830)
      else and_then (lapic_read l 0x310 h) (\<lambda>hi. and_then (lapic_read l 0x300 h) (\<lambda>lo. Inr (push_bit 32 (ucast hi) OR ucast lo))))"

definition PENDING :: "32 word" where
  "PENDING = push_bit 12 1"

definition delivery_pending :: "local_apic_t \<Rightarrow> 'a apic_hw_scheme \<Rightarrow> bool run" where
  "delivery_pending l h = and_then (lapic_read l 0x300 h) (\<lambda>v. Inr (v AND PENDING = PENDING))"

definition set_icr ::
  "('a apic_hw_scheme \<Rightarrow> 'a apic_hw_scheme) \<Rightarrow> local_apic_t \<Rightarrow> word64 \<Rightarrow> 'a apic_hw_scheme \<Rightarrow> ('a apic_hw_scheme) io" where
  "set_icr dev l value h =
     (if la_x2 l then Some (Inr (apic_wrmsr 0x830 value h))
      else io_then (spin dev (delivery_pending l) h) (\<lambda>h.
           io_then (Some (lapic_write l 0x310 (ucast (drop_bit 32 value)) h)) (\<lambda>h.
           io_then (Some (lapic_write l 0x300 (ucast value) h)) (\<lambda>h.
           spin dev (delivery_pending l) h))))"

definition lapic_ipi ::
  "('a apic_hw_scheme \<Rightarrow> 'a apic_hw_scheme) \<Rightarrow> local_apic_t \<Rightarrow> 32 word \<Rightarrow> ipi_kind \<Rightarrow> 'a apic_hw_scheme \<Rightarrow> ('a apic_hw_scheme) io" where
  "lapic_ipi dev l apic kind h =
     (let icr = 0x40 OR of_nat (ipi_vector kind);
          icr = (if la_x2 l then icr OR push_bit 32 (ucast apic) else icr OR push_bit 56 (ucast apic))
      in set_icr dev l icr h)"

definition ipi_nmi ::
  "('a apic_hw_scheme \<Rightarrow> 'a apic_hw_scheme) \<Rightarrow> local_apic_t \<Rightarrow> 32 word \<Rightarrow> 'a apic_hw_scheme \<Rightarrow> ('a apic_hw_scheme) io" where
  "ipi_nmi dev l apic h =
     set_icr dev l (push_bit (if la_x2 l then 32 else 56) (ucast apic) OR push_bit 14 1 OR push_bit 8 4) h"

definition eoi :: "local_apic_t \<Rightarrow> 'a apic_hw_scheme \<Rightarrow> ('a apic_hw_scheme) run" where
  "eoi l h = lapic_set l 0x80B 0xB0 0 h"

definition esr :: "local_apic_t \<Rightarrow> 'a apic_hw_scheme \<Rightarrow> (32 word \<times> 'a apic_hw_scheme) run" where
  "esr l h = and_then (lapic_set l 0x828 0x280 0 h) (\<lambda>h. and_then (lapic_get l 0x828 0x280 h) (\<lambda>v. Inr (v, h)))"

definition lvt_timer :: "local_apic_t \<Rightarrow> 'a apic_hw_scheme \<Rightarrow> (32 word) run" where
  "lvt_timer l h = lapic_get l 0x832 0x320 h"

definition set_lvt_timer :: "local_apic_t \<Rightarrow> 32 word \<Rightarrow> 'a apic_hw_scheme \<Rightarrow> ('a apic_hw_scheme) run" where
  "set_lvt_timer l v h = lapic_set l 0x832 0x320 v h"

definition init_count :: "local_apic_t \<Rightarrow> 'a apic_hw_scheme \<Rightarrow> (32 word) run" where
  "init_count l h = lapic_get l 0x838 0x380 h"

definition set_init_count :: "local_apic_t \<Rightarrow> 32 word \<Rightarrow> 'a apic_hw_scheme \<Rightarrow> ('a apic_hw_scheme) run" where
  "set_init_count l v h = lapic_set l 0x838 0x380 v h"

definition cur_count :: "local_apic_t \<Rightarrow> 'a apic_hw_scheme \<Rightarrow> (32 word) run" where
  "cur_count l h = lapic_get l 0x839 0x390 h"

definition div_conf :: "local_apic_t \<Rightarrow> 'a apic_hw_scheme \<Rightarrow> (32 word) run" where
  "div_conf l h = lapic_get l 0x83E 0x3E0 h"

definition set_div_conf :: "local_apic_t \<Rightarrow> 32 word \<Rightarrow> 'a apic_hw_scheme \<Rightarrow> ('a apic_hw_scheme) run" where
  "set_div_conf l v h = lapic_set l 0x83E 0x3E0 v h"

definition lvt_error :: "local_apic_t \<Rightarrow> 'a apic_hw_scheme \<Rightarrow> (32 word) run" where
  "lvt_error l h = lapic_get l 0x837 0x370 h"

definition set_lvt_error :: "local_apic_t \<Rightarrow> 32 word \<Rightarrow> 'a apic_hw_scheme \<Rightarrow> ('a apic_hw_scheme) run" where
  "set_lvt_error l v h = lapic_set l 0x837 0x370 v h"

definition setup_error_int :: "local_apic_t \<Rightarrow> 'a apic_hw_scheme \<Rightarrow> ('a apic_hw_scheme) run" where
  "setup_error_int l h = set_lvt_error l 49 h"

text \<open>\<open>has_x2apic\<close> is what CPUID reports, or nothing if it does not report features.\<close>

definition software_enable :: "local_apic_t \<Rightarrow> 'a apic_hw_scheme \<Rightarrow> ('a apic_hw_scheme) run" where
  "software_enable l h = and_then (lapic_read l 0xF0 h) (\<lambda>v. lapic_write l 0xF0 (v OR 0x100) h)"

definition setup_apic ::
  "bool option \<Rightarrow> word64 \<Rightarrow> nat \<Rightarrow> local_apic_t \<times> 'a apic_hw_scheme \<Rightarrow> (local_apic_t \<times> 'a apic_hw_scheme) run" where
  "setup_apic has_x2apic apic_base cpu_id s =
     (let (l, h) = s in
      if cpu_id \<noteq> BSP then and_then (software_enable l h) (\<lambda>h. Inr (l, h))
      else
        let h = apic_wrmsr 0x1B (apic_base OR 0x800) h;
            l = lapic_init (apic_base AND 0xFFFF0000) (case has_x2apic of None \<Rightarrow> False | Some b \<Rightarrow> b) l;
            h = outb 0xA1 0xFF (outb 0x21 0xFF h)
        in and_then (software_enable l h) (\<lambda>h. and_then (set_lvt_error l 49 h) (\<lambda>h. Inr (l, h))))"

subsection \<open>Interprocessor interrupts\<close>

datatype ipi_target = Current | All | Other

definition ipi_target_bits :: "ipi_target \<Rightarrow> word64" where
  "ipi_target_bits t = (case t of Current \<Rightarrow> 1 | All \<Rightarrow> 2 | Other \<Rightarrow> 3)"

definition ipi ::
  "('a apic_hw_scheme \<Rightarrow> 'a apic_hw_scheme) \<Rightarrow> local_apic_t \<Rightarrow> ipi_kind \<Rightarrow> ipi_target \<Rightarrow> 'a apic_hw_scheme \<Rightarrow> ('a apic_hw_scheme) io" where
  "ipi dev l kind target h =
     set_icr dev l (push_bit 18 (ipi_target_bits target) OR push_bit 14 1 OR of_nat (ipi_vector kind)) h"

definition ipi_single ::
  "('a apic_hw_scheme \<Rightarrow> 'a apic_hw_scheme) \<Rightarrow> local_apic_t \<Rightarrow> ipi_kind \<Rightarrow> nat \<Rightarrow> 'a apic_hw_scheme \<Rightarrow> ('a apic_hw_scheme) io" where
  "ipi_single dev l kind target h = lapic_ipi dev l (of_nat target) kind h"

subsection \<open>Starting a processor\<close>

record ap_sys = apic_hw +
  ap_bytes :: "nat \<Rightarrow> 8 word"
  ap_frames :: frame_globals
  AP_READY :: bool
  CPU_COUNT :: nat
  ap_cr3 :: nat

definition TRAMPOLINE :: nat where
  "TRAMPOLINE = 0x8000"

definition copy_trampoline :: "8 word list \<Rightarrow> ap_sys \<Rightarrow> ap_sys" where
  "copy_trampoline code s =
     s\<lparr>ap_bytes := (\<lambda>x. if TRAMPOLINE \<le> x \<and> x < TRAMPOLINE + length code then code ! (x - TRAMPOLINE) else ap_bytes s x)\<rparr>"

text \<open>The six words after the first one of the trampoline: the ready flag, the processor's number, the page table,
  the two ends of its stack and its entry point.\<close>

definition write_ap_args :: "word64 \<Rightarrow> word64 \<Rightarrow> word64 \<Rightarrow> word64 \<Rightarrow> word64 \<Rightarrow> ap_sys \<Rightarrow> ap_sys" where
  "write_ap_args cid pml4 stack_start stack_end code s =
     s\<lparr>ap_bytes := write_usize (TRAMPOLINE + 48) code (write_usize (TRAMPOLINE + 40) stack_end
        (write_usize (TRAMPOLINE + 32) stack_start (write_usize (TRAMPOLINE + 24) pml4
        (write_usize (TRAMPOLINE + 16) cid (write_usize (TRAMPOLINE + 8) 0 (ap_bytes s))))))\<rparr>"

definition init_command :: "local_apic_t \<Rightarrow> 8 word \<Rightarrow> word64" where
  "init_command l cid = 0x4500 OR push_bit (if la_x2 l then 32 else 56) (ucast cid)"

definition start_command :: "local_apic_t \<Rightarrow> 8 word \<Rightarrow> word64" where
  "start_command l cid = 0x4600 OR of_nat ((TRAMPOLINE div 4096) mod 256) OR push_bit (if la_x2 l then 32 else 56) (ucast cid)"

definition start_ap ::
  "(ap_sys \<Rightarrow> ap_sys) \<Rightarrow> x86 \<Rightarrow> local_apic_t \<Rightarrow> nat \<Rightarrow> word64 \<Rightarrow> madt_local_apic \<Rightarrow> ap_sys \<Rightarrow> ap_sys io" where
  "start_ap dev X l kernel_page_table entry e s =
     (let cid = lapic_id e in
      io_then (Some (apic_id l s)) (\<lambda>bsp.
      if ucast bsp = cid then Some (Inr s)
      else
        let s = s\<lparr>CPU_COUNT := CPU_COUNT s + 1\<rparr> in
        io_then (Some (frame_alloc_n X 64 (ap_frames s))) (\<lambda>(r, fr).
        io_then (Some (or_panic r ''failed to allocate kernel stack for ap'')) (\<lambda>stack_start.
          let s = s\<lparr>ap_frames := fr\<rparr>;
              stack_end = stack_start + 64 * 4096;
              s = write_ap_args (ucast cid) (of_nat kernel_page_table) (of_nat stack_start) (of_nat stack_end) entry s;
              s = s\<lparr>AP_READY := False\<rparr> in
        io_then (set_icr dev l (init_command l cid) s) (\<lambda>s.
        io_then (set_icr dev l (start_command l cid) s) (\<lambda>s.
        io_then (spin dev (\<lambda>s. Inr (ap_bytes s (TRAMPOLINE + 8) = 0)) s) (\<lambda>s.
        io_then (spin dev (\<lambda>s. Inr (\<not> AP_READY s)) s) (\<lambda>s.
        io_then (Some (PhysAddr_new X kernel_page_table)) (\<lambda>pa. Some (Inr (s\<lparr>ap_cr3 := frame_containing X pa\<rparr>)))))))))))"

text \<open>What the started processor reads: the trampoline passes the address of the second word to \<open>_start_ap\<close>, whose
  argument is a packed structure.\<close>

record kernel_arg_ap =
  ka_cpu_id :: word64
  ka_page_table :: word64
  ka_stack_start :: word64
  ka_stack_end :: word64

definition read_kernel_arg_ap :: "(nat \<Rightarrow> 8 word) \<Rightarrow> nat \<Rightarrow> kernel_arg_ap" where
  "read_kernel_arg_ap m a =
     \<lparr>ka_cpu_id = load64 (word_mem m) (of_nat a), ka_page_table = load64 (word_mem m) (of_nat (a + 8)),
      ka_stack_start = load64 (word_mem m) (of_nat (a + 16)), ka_stack_end = load64 (word_mem m) (of_nat (a + 24))\<rparr>"

fun start_aps ::
  "(ap_sys \<Rightarrow> ap_sys) \<Rightarrow> x86 \<Rightarrow> local_apic_t \<Rightarrow> nat \<Rightarrow> word64 \<Rightarrow> madt_local_apic list \<Rightarrow> ap_sys \<Rightarrow> ap_sys io" where
  "start_aps dev X l kernel_page_table entry [] s = Some (Inr s)"
| "start_aps dev X l kernel_page_table entry (e # es) s =
     io_then (start_ap dev X l kernel_page_table entry e s) (\<lambda>s. start_aps dev X l kernel_page_table entry es s)"

definition setup_ap_startup ::
  "(ap_sys \<Rightarrow> ap_sys) \<Rightarrow> x86 \<Rightarrow> local_apic_t \<Rightarrow> 8 word list \<Rightarrow> word64 \<Rightarrow> madt_local_apic list \<Rightarrow> nat \<Rightarrow> ap_sys \<Rightarrow> ap_sys io" where
  "setup_ap_startup dev X l trampoline entry lapics kernel_page_table s =
     start_aps dev X l kernel_page_table entry lapics (copy_trampoline trampoline s)"

subsection \<open>Loops that end\<close>

lemma io_then_simps [simp]: "io_then None f = None" "io_then (Some (Inl e)) f = Some (Inl e)" "io_then (Some (Inr x)) f = f x"
  by (simp_all add: io_then_def)

lemma spin_waits:
  assumes "\<And>k. k < n \<Longrightarrow> waiting ((dev ^^ k) s) = Inr True" and "waiting ((dev ^^ n) s) = Inr False"
  shows "spin dev waiting s = Some (Inr ((dev ^^ n) s))"
  using assms
proof (induction n arbitrary: s)
  case 0 then show ?case by (subst spin.simps) simp
next
  case (Suc n)
  have "waiting s = Inr True" using Suc.prems(1) [of 0] by simp
  moreover have "waiting ((dev ^^ k) (dev s)) = Inr True" if "k < n" for k
    using Suc.prems(1) [of "Suc k"] that by (simp add: funpow_swap1)
  moreover have "waiting ((dev ^^ n) (dev s)) = Inr False" using Suc.prems(2) by (simp add: funpow_swap1)
  ultimately have "spin dev waiting (dev s) = Some (Inr ((dev ^^ n) (dev s)))" "waiting s = Inr True" using Suc.IH [of "dev s"] by auto
  then show ?case by (subst spin.simps) (simp add: funpow_swap1)
qed

lemma spin_ends:
  assumes ok: "\<And>s. waiting s = Inr (P s)" and ends: "\<exists>n. \<not> P ((dev ^^ n) s)"
  shows "\<exists>n. spin dev waiting s = Some (Inr ((dev ^^ n) s)) \<and> \<not> P ((dev ^^ n) s)"
proof -
  define n where "n = (LEAST n. \<not> P ((dev ^^ n) s))"
  have "\<not> P ((dev ^^ n) s)" unfolding n_def using ends by (rule LeastI_ex)
  moreover have "P ((dev ^^ k) s)" if "k < n" for k using not_less_Least [OF that [unfolded n_def]] by simp
  ultimately show ?thesis using spin_waits [of n waiting dev s] ok by auto
qed

text \<open>The page of registers fits below 4 GiB; the device and the other processors leave the record of the writes alone,
  and every delivery comes to an end.\<close>

definition lapic_ok :: "local_apic_t \<Rightarrow> bool" where
  "lapic_ok l \<longleftrightarrow> unat (ucast (la_base l AND 0xFFFFFFFF) :: 32 word) + 0x1000 \<le> 2 ^ 32"

abbreviation la_page :: "local_apic_t \<Rightarrow> 32 word" where
  "la_page l \<equiv> ucast (la_base l AND 0xFFFFFFFF)"

definition keeps_log :: "('a apic_hw_scheme \<Rightarrow> 'a apic_hw_scheme) \<Rightarrow> bool" where
  "keeps_log dev \<longleftrightarrow> (\<forall>s. hw_log (dev s) = hw_log s)"

definition delivers :: "('a apic_hw_scheme \<Rightarrow> 'a apic_hw_scheme) \<Rightarrow> local_apic_t \<Rightarrow> bool" where
  "delivers dev l \<longleftrightarrow> (\<forall>s. \<exists>n. \<not> bit (hw_mmio ((dev ^^ n) s) (la_page l + 0x300)) 12)"

lemma keeps_log_iter: "keeps_log dev \<Longrightarrow> hw_log ((dev ^^ n) s) = hw_log s"
  by (induction n) (simp_all add: keeps_log_def)

lemma lapic_addr_ok: "lapic_ok l \<Longrightarrow> reg < 0x1000 \<Longrightarrow> lapic_addr l reg = Inr (la_page l + reg)"
  by (simp add: lapic_addr_def lapic_ok_def word_less_nat_alt Let_def)

lemma pending_bit: "(v AND PENDING = PENDING) \<longleftrightarrow> bit (v :: 32 word) 12"
proof
  assume "v AND PENDING = PENDING"
  moreover have "bit PENDING 12" by (simp add: PENDING_def bit_numeral_rec)
  ultimately show "bit v 12" by (metis bit_and_iff)
next
  assume "bit v 12"
  then show "v AND PENDING = PENDING"
    unfolding PENDING_def by (intro bit_word_eqI) (unfold bit_and_iff bit_push_bit_iff bit_1_iff, auto)
qed

lemma delivery_pending_ok: "lapic_ok l \<Longrightarrow> delivery_pending l s = Inr (bit (hw_mmio s (la_page l + 0x300)) 12)"
  by (simp add: delivery_pending_def lapic_read_def lapic_addr_ok pending_bit)

definition icr_events :: "local_apic_t \<Rightarrow> word64 \<Rightarrow> apic_event list" where
  "icr_events l v = (if la_x2 l then [MsrWrite 0x830 v]
     else [MmioWrite (la_page l + 0x310) (ucast (drop_bit 32 v)), MmioWrite (la_page l + 0x300) (ucast v)])"

lemma set_icr_ok:
  assumes "lapic_ok l" and "keeps_log dev" and "delivers dev l"
  shows "\<exists>s'. set_icr dev l v s = Some (Inr s') \<and> hw_log s' = hw_log s @ icr_events l v
     \<and> (\<not> la_x2 l \<longrightarrow> \<not> bit (hw_mmio s' (la_page l + 0x300)) 12)"
proof (cases "la_x2 l")
  case True then show ?thesis by (simp add: set_icr_def icr_events_def apic_wrmsr_def)
next
  case False
  note spin = spin_ends [where waiting = "delivery_pending l" and P = "\<lambda>s. bit (hw_mmio s (la_page l + 0x300)) 12", OF delivery_pending_ok [OF assms(1)]]
  obtain n where n: "spin dev (delivery_pending l) s = Some (Inr ((dev ^^ n) s))" using spin assms(3) by (metis delivers_def)
  define s1 where "s1 = ((dev ^^ n) s)\<lparr>hw_mmio := (hw_mmio ((dev ^^ n) s))(la_page l + 0x310 := ucast (drop_bit 32 v), la_page l + 0x300 := ucast v),
     hw_log := hw_log s @ icr_events l v\<rparr>"
  obtain m where m: "spin dev (delivery_pending l) s1 = Some (Inr ((dev ^^ m) s1))" "\<not> bit (hw_mmio ((dev ^^ m) s1) (la_page l + 0x300)) 12"
    using spin assms(3) by (metis delivers_def)
  have "set_icr dev l v s = spin dev (delivery_pending l) s1"
    using False n by (simp add: set_icr_def lapic_write_def lapic_addr_ok [OF assms(1)] s1_def icr_events_def keeps_log_iter [OF assms(2)])
  then show ?thesis using m keeps_log_iter [OF assms(2), of m s1] by (simp add: s1_def)
qed

lemma spin_result:
  assumes "spin dev waiting (s :: 's) = Some (Inr s')"
  shows "\<exists>n. s' = (dev ^^ n) s"
proof -
  have "\<forall>x. (Inr s' :: 's run) = Inr x \<longrightarrow> (\<exists>n. x = (dev ^^ n) s)"
  proof (rule spin.raw_induct [of "\<lambda>dev waiting s r. \<forall>x. r = Inr x \<longrightarrow> (\<exists>n. x = (dev ^^ n) s)", OF _ assms], intro allI impI)
    fix rec :: "('s \<Rightarrow> 's) \<Rightarrow> ('s \<Rightarrow> bool run) \<Rightarrow> 's \<Rightarrow> ('s run) option" and dev waiting s r x
    assume IH: "\<And>dev waiting s y. rec dev waiting s = Some y \<Longrightarrow> \<forall>x. y = Inr x \<longrightarrow> (\<exists>n. x = (dev ^^ n) s)"
      and step: "(case waiting s of Inl e \<Rightarrow> Some (Inl e) | Inr b \<Rightarrow> if b then rec dev waiting (dev s) else Some (Inr s)) = Some r"
      and r: "r = Inr x"
    show "\<exists>n. x = (dev ^^ n) s"
    proof (cases "waiting s = Inr True")
      case True
      then obtain n where "x = (dev ^^ n) (dev s)" using IH step r by force
      then show ?thesis by (intro exI [of _ "Suc n"]) (simp add: funpow_swap1)
    next
      case False
      then have "x = (dev ^^ 0) s" using step r by (auto split: sum.splits if_splits)
      then show ?thesis by blast
    qed
  qed
  then show ?thesis by simp
qed

definition keeps_args :: "(ap_sys \<Rightarrow> ap_sys) \<Rightarrow> bool" where
  "keeps_args dev \<longleftrightarrow> (\<forall>s x. TRAMPOLINE + 16 \<le> x \<and> x < TRAMPOLINE + 56 \<longrightarrow> ap_bytes (dev s) x = ap_bytes s x)"

definition same_args :: "ap_sys \<Rightarrow> ap_sys \<Rightarrow> bool" where
  "same_args s s' \<longleftrightarrow> (\<forall>x. TRAMPOLINE + 16 \<le> x \<and> x < TRAMPOLINE + 56 \<longrightarrow> ap_bytes s' x = ap_bytes s x)"

lemma same_args_iter: "keeps_args dev \<Longrightarrow> same_args s ((dev ^^ n) s)"
  by (induction n) (simp_all add: keeps_args_def same_args_def)

lemma same_args_trans: "same_args a b \<Longrightarrow> same_args b c \<Longrightarrow> same_args a c"
  by (simp add: same_args_def)

lemma set_icr_args:
  assumes "keeps_args dev" and "set_icr dev l v s = Some (Inr s')"
  shows "same_args s s'"
proof (cases "la_x2 l")
  case True then show ?thesis using assms(2) by (auto simp: set_icr_def apic_wrmsr_def same_args_def)
next
  case False
  obtain s1 s2 s3 where 1: "spin dev (delivery_pending l) s = Some (Inr s1)" and 2: "lapic_write l 0x310 (ucast (drop_bit 32 v)) s1 = Inr s2"
    and 3: "lapic_write l 0x300 (ucast v) s2 = Inr s3" and 4: "spin dev (delivery_pending l) s3 = Some (Inr s')"
    using assms(2) False by (auto simp: set_icr_def io_then_def split: option.splits sum.splits)
  have "same_args s s1" "same_args s3 s'" using spin_result [OF 1] spin_result [OF 4] same_args_iter [OF assms(1)] by auto
  moreover have "same_args s1 s3" using 2 3 by (auto simp: lapic_write_def run_simps same_args_def)
  ultimately show ?thesis by (blast intro: same_args_trans)
qed

text \<open>The argument block as the started processor finds it.\<close>

lemma ap_args_written:
  assumes "same_args (write_ap_args cid pml4 st en code s) s'"
  shows "read_kernel_arg_ap (ap_bytes s') (TRAMPOLINE + 16) = \<lparr>ka_cpu_id = cid, ka_page_table = pml4, ka_stack_start = st, ka_stack_end = en\<rparr>"
    and "load64 (word_mem (ap_bytes s')) (of_nat (TRAMPOLINE + 48)) = code"
proof -
  have m: "word_mem (ap_bytes (write_ap_args cid pml4 st en code s)) =
      store64 (store64 (store64 (store64 (store64 (store64 (word_mem (ap_bytes s)) 0x8008 0) 0x8010 cid) 0x8018 pml4) 0x8020 st) 0x8028 en) 0x8030 code"
    by (simp add: write_ap_args_def word_mem_write TRAMPOLINE_def)
  have byte: "word_mem (ap_bytes s') (of_nat a + of_nat i) = word_mem (ap_bytes (write_ap_args cid pml4 st en code s)) (of_nat a + of_nat i)"
    if "0x8010 \<le> a" "a \<le> 0x8030" "i < 8" for a i
  proof -
    have "unat (of_nat a + of_nat i :: word64) = a + i" using that by (simp add: unat_of_nat unat_word_ariths)
    then show ?thesis using assms that by (simp add: word_mem_def same_args_def TRAMPOLINE_def)
  qed
  have word: "load64 (word_mem (ap_bytes s')) (of_nat a) = load64 (word_mem (ap_bytes (write_ap_args cid pml4 st en code s))) (of_nat a)"
    if "0x8010 \<le> a" "a \<le> 0x8030" for a
    using byte [where a = a and i = 0] byte [where a = a and i = 1] byte [where a = a and i = 2] byte [where a = a and i = 3] byte [where a = a and i = 4] byte [where a = a and i = 5]
      byte [where a = a and i = 6] byte [where a = a and i = 7] that by (simp add: load64_def)
  from word [where a = "0x8010"] word [where a = "0x8018"] word [where a = "0x8020"] word [where a = "0x8028"] word [where a = "0x8030"]
  show "read_kernel_arg_ap (ap_bytes s') (TRAMPOLINE + 16) = \<lparr>ka_cpu_id = cid, ka_page_table = pml4, ka_stack_start = st, ka_stack_end = en\<rparr>"
    and "load64 (word_mem (ap_bytes s')) (of_nat (TRAMPOLINE + 48)) = code"
    unfolding m by (simp_all add: read_kernel_arg_ap_def TRAMPOLINE_def)
qed

subsection \<open>Properties of the local APIC code\<close>

text \<open>C17. When every delivery ends, \<open>set_icr\<close> returns, and the only writes it makes are those of the command: in xAPIC mode
  the destination half first and the half that sends it last, with no delivery pending when it returns, in
  x2APIC mode one register.\<close>

theorem set_icr_sends_once:
  assumes "lapic_ok l" and "keeps_log dev" and "delivers dev l"
  shows "\<exists>s'. set_icr dev l v s = Some (Inr s')
     \<and> hw_log s' = hw_log s @ (if la_x2 l then [MsrWrite 0x830 v]
          else [MmioWrite (la_page l + 0x310) (ucast (drop_bit 32 v)), MmioWrite (la_page l + 0x300) (ucast v)])
     \<and> (\<not> la_x2 l \<longrightarrow> delivery_pending l s' = Inr False)"
  using set_icr_ok [OF assms, of v s] by (auto simp: icr_events_def delivery_pending_ok [OF assms(1)])

text \<open>A device that finishes a delivery by the next look at it, and processors that start at once.\<close>

definition quick_dev :: "ap_sys \<Rightarrow> ap_sys" where
  "quick_dev s = s\<lparr>hw_mmio := (\<lambda>a. hw_mmio s a AND NOT PENDING), ap_bytes := (ap_bytes s)(0x8008 := 1), AP_READY := True\<rparr>"

definition sample_ap :: ap_sys where
  "sample_ap = \<lparr>hw_mmio = (\<lambda>_. 0), hw_msr = (\<lambda>_. 0), hw_log = [], ap_bytes = (\<lambda>_. 0), ap_frames = late_frames 0x200000,
     AP_READY = False, CPU_COUNT = 1, ap_cr3 = 0\<rparr>"

definition sample_lapic :: local_apic_t where
  "sample_lapic = \<lparr>la_base = 0xFEE00000, la_x2 = False\<rparr>"

lemma quick_dev_ok: "lapic_ok sample_lapic" "keeps_log quick_dev" "delivers quick_dev l" "keeps_args quick_dev"
proof -
  have "bit PENDING 12" by (simp add: PENDING_def bit_numeral_rec)
  then have "\<not> bit (hw_mmio ((quick_dev ^^ 1) s) a) 12" for s a by (simp add: quick_dev_def bit_simps)
  then show "delivers quick_dev l" unfolding delivers_def by blast
qed (simp_all add: lapic_ok_def sample_lapic_def keeps_log_def quick_dev_def keeps_args_def TRAMPOLINE_def)

theorem set_icr_sends_once_witness:
  "\<exists>s'. set_icr quick_dev sample_lapic 0x0100000000004500 sample_ap = Some (Inr s')
     \<and> hw_log s' = [MmioWrite 0xFEE00310 0x01000000, MmioWrite 0xFEE00300 0x4500]"
proof -
  have "(ucast (drop_bit 32 (0x0100000000004500 :: word64)) :: 32 word) = 0x01000000" "(ucast (0x0100000000004500 :: word64) :: 32 word) = 0x4500"
    by simp_all
  then show ?thesis
    using set_icr_sends_once [OF quick_dev_ok(1-3), of "0x0100000000004500" sample_ap] by (auto simp: sample_lapic_def sample_ap_def)
qed



text \<open>C38. In xAPIC mode the identifier is in the top byte of its register, but the code compares the lowest byte: whatever
  processor runs it, the test that should skip the running processor skips the one with identifier 0, and
  every other entry, the running processor's own included, is sent INIT and START.\<close>

theorem xapic_id_is_zero:
  assumes "\<not> la_x2 l" and "lapic_ok l" and "hw_mmio s (la_page l + 0x20) = push_bit 24 (ucast (own :: 8 word))"
  shows "(\<exists>b. apic_id l s = Inr b \<and> (ucast b :: 8 word) = 0)
     \<and> start_ap dev X l pml4 entry \<lparr>lapic_id = 0, lapic_processor_id = p\<rparr> s = Some (Inr s)"
proof -
  have "apic_id l s = Inr (push_bit 24 (ucast own))"
    using assms by (simp add: apic_id_def lapic_get_def lapic_read_def lapic_addr_ok)
  moreover have "(ucast (push_bit 24 (ucast own) :: 32 word) :: 8 word) = 0" by (rule bit_word_eqI) (simp add: bit_simps)
  ultimately show ?thesis by (simp add: start_ap_def)
qed

theorem xapic_id_is_zero_witness:
  "let s = sample_ap\<lparr>hw_mmio := (\<lambda>a. if a = 0xFEE00020 then 0x03000000 else 0)\<rparr>
   in (\<exists>b. apic_id sample_lapic s = Inr b \<and> (ucast b :: 8 word) = 0)
      \<and> start_ap quick_dev x86_model sample_lapic 0x101000 0 \<lparr>lapic_id = 0, lapic_processor_id = 0\<rparr> s = Some (Inr s)"
  using xapic_id_is_zero [OF _ quick_dev_ok(1), of "sample_ap\<lparr>hw_mmio := (\<lambda>a. if a = 0xFEE00020 then 0x03000000 else 0)\<rparr>" 3 quick_dev x86_model
      "0x101000" 0 0]
  by (simp add: sample_lapic_def Let_def)

text \<open>On a processor that reports x2APIC, \<open>setup_apic\<close> goes on in x2APIC mode and uses its registers, although the value it
  has just written to \<open>IA32_APIC_BASE\<close> does not turn that mode on unless the firmware's base address had the
  bit set.\<close>

theorem x2apic_not_enabled:
  assumes "setup_apic (Some True) base BSP (l, h) = Inr (l', h')"
  shows "la_x2 l' \<and> (bit (hw_msr h' 0x1B) 10 \<longleftrightarrow> bit base 10) \<and> MsrWrite 0x837 49 \<in> set (hw_log h')"
proof -
  let ?h = "outb 0xA1 0xFF (outb 0x21 0xFF (apic_wrmsr 0x1B (base OR 0x800) h))"
  obtain h1 where "software_enable (lapic_init (base AND 0xFFFF0000) True l) ?h = Inr h1"
    and r: "l' = lapic_init (base AND 0xFFFF0000) True l" "h' = apic_wrmsr 0x837 49 h1"
    using assms by (auto simp: setup_apic_def set_lvt_error_def lapic_set_def lapic_init_def Let_def run_simps)
  then have "hw_msr h1 0x1B = base OR 0x800"
    by (auto simp: software_enable_def lapic_write_def outb_def apic_wrmsr_def run_simps)
  then show ?thesis using r by (simp add: lapic_init_def apic_wrmsr_def bit_simps bit_numeral_rec)
qed

theorem x2apic_not_enabled_witness:
  "\<exists>l' h'. setup_apic (Some True) 0xFEE00000 BSP (local_apic_new, sample_ap) = Inr (l', h') \<and> la_x2 l' \<and> \<not> bit (hw_msr h' 0x1B) 10"
proof -
  have "\<exists>l' h'. setup_apic (Some True) 0xFEE00000 BSP (local_apic_new, sample_ap) = Inr (l', h')"
    by (simp add: setup_apic_def software_enable_def lapic_read_def lapic_write_def lapic_addr_def lapic_init_def set_lvt_error_def lapic_set_def
        local_apic_new_def Let_def)
  moreover have "\<not> bit (0xFEE00000 :: word64) 10" by (simp add: bit_numeral_rec)
  ultimately show ?thesis using x2apic_not_enabled [of "0xFEE00000" local_apic_new sample_ap] by blast
qed

end
