(* ===== verification/Framebuffer.thy ===== *)
theory Framebuffer
  imports Shared_Args "HOL-Library.Word"
begin

section \<open>Text on the framebuffer (shared/src/framebuffer_writer.rs)\<close>

text \<open>
  \<open>FrameBufferWriter\<close>, which the kernel's logger writes to: a cursor, line breaks, and the pixels of one glyph after
  the other.  The glyphs come from the crate \<open>noto_sans_mono_bitmap\<close>: the font is a parameter, with the size of its
  glyphs as the law of a locale.  Indexing outside the buffer panics, as in the source.

  The theory shows that no text makes the writer panic on a framebuffer that is large enough for its
  resolution, and that a character changes exactly the pixels of its glyph.
\<close>

subsection \<open>The framebuffer and the font\<close>

type_synonym rune = nat     \<comment> \<open>a Unicode scalar value\<close>

datatype fb_pixel_format = RGB | BGR | OtherFormat

record fb_info =
  fi_width :: nat
  fi_height :: nat
  fi_stride :: nat
  fi_format :: fb_pixel_format

record rasterized_char =
  raster :: "8 word list list"
  raster_width :: nat

record font =
  get_raster :: "rune \<Rightarrow> rasterized_char option"     \<comment> \<open>regular weight, 16 pixels high\<close>
  get_raster_width :: nat

locale font_laws =
  fixes F :: font
  assumes rows: "get_raster F c = Some r \<Longrightarrow> length (raster r) = 16"
    and columns: "get_raster F c = Some r \<Longrightarrow> row \<in> set (raster r) \<Longrightarrow> length row = get_raster_width F"
    and width: "get_raster F c = Some r \<Longrightarrow> raster_width r = get_raster_width F"
    and fallback: "get_raster F 0xFFFD \<noteq> None"

subsection \<open>The writer\<close>

definition SIZE16 :: nat where "SIZE16 = 16"
definition LINE_SPACING :: nat where "LINE_SPACING = 2"
definition LETTER_SPACING :: nat where "LETTER_SPACING = 0"
definition BORDER_PADDING :: nat where "BORDER_PADDING = 1"

record frame_buffer_writer =
  fw_info :: fb_info
  buffer_slice :: "8 word list"
  curr_x_pos :: nat
  curr_y_pos :: nat

definition carriage_return :: "frame_buffer_writer \<Rightarrow> frame_buffer_writer" where
  "carriage_return w = w\<lparr>curr_x_pos := BORDER_PADDING\<rparr>"

definition newline :: "frame_buffer_writer \<Rightarrow> frame_buffer_writer run" where
  "newline w = and_then (add64 (curr_y_pos w) (SIZE16 + LINE_SPACING)) (\<lambda>y. Inr (carriage_return (w\<lparr>curr_y_pos := y\<rparr>)))"

definition fb_clear :: "frame_buffer_writer \<Rightarrow> frame_buffer_writer" where
  "fb_clear w = w\<lparr>curr_x_pos := BORDER_PADDING, curr_y_pos := BORDER_PADDING, buffer_slice := replicate (length (buffer_slice w)) 0\<rparr>"

definition writer_new :: "fb_info \<Rightarrow> 8 word list \<Rightarrow> frame_buffer_writer" where
  "writer_new fb bytes = fb_clear \<lparr>fw_info = fb, buffer_slice = bytes, curr_x_pos = 0, curr_y_pos = 0\<rparr>"

definition pixel_color :: "fb_pixel_format \<Rightarrow> 8 word \<Rightarrow> (8 word list) run" where
  "pixel_color f v =
     (case f of RGB \<Rightarrow> Inr [v, v, v div 2, 0] | BGR \<Rightarrow> Inr [v div 2, v, v, 0]
      | OtherFormat \<Rightarrow> Inl (Panicked ''pixel format not supported in logger''))"

definition write_pixel :: "nat \<Rightarrow> nat \<Rightarrow> 8 word \<Rightarrow> frame_buffer_writer \<Rightarrow> frame_buffer_writer run" where
  "write_pixel x y intensity w =
     and_then (mul64 y (fi_stride (fw_info w))) (\<lambda>row.
     and_then (add64 row x) (\<lambda>pixel_offset.
     and_then (pixel_color (fi_format (fw_info w)) intensity) (\<lambda>color.
     and_then (mul64 pixel_offset 4) (\<lambda>byte_offset.
     and_then (add64 byte_offset 4) (\<lambda>end.
       if end \<le> length (buffer_slice w)
       then Inr (w\<lparr>buffer_slice := take byte_offset (buffer_slice w) @ color @ drop end (buffer_slice w)\<rparr>)
       else Inl OutOfBounds)))))"

fun write_row :: "nat \<Rightarrow> nat \<Rightarrow> 8 word list \<Rightarrow> frame_buffer_writer \<Rightarrow> frame_buffer_writer run" where
  "write_row x y [] w = Inr w"
| "write_row x y (b # bs) w =
     and_then (add64 (curr_x_pos w) x) (\<lambda>px.
     and_then (add64 (curr_y_pos w) y) (\<lambda>py.
     and_then (write_pixel px py b w) (\<lambda>w. write_row (Suc x) y bs w)))"

fun write_rows :: "nat \<Rightarrow> 8 word list list \<Rightarrow> frame_buffer_writer \<Rightarrow> frame_buffer_writer run" where
  "write_rows y [] w = Inr w"
| "write_rows y (row # rows) w = and_then (write_row 0 y row w) (\<lambda>w. write_rows (Suc y) rows w)"

definition write_rendered_char :: "rasterized_char \<Rightarrow> frame_buffer_writer \<Rightarrow> frame_buffer_writer run" where
  "write_rendered_char rc w =
     and_then (write_rows 0 (raster rc) w) (\<lambda>w.
     and_then (add64 (curr_x_pos w) (raster_width rc + LETTER_SPACING)) (\<lambda>x. Inr (w\<lparr>curr_x_pos := x\<rparr>)))"

definition get_raster_or_fallback :: "font \<Rightarrow> rune \<Rightarrow> rasterized_char run" where
  "get_raster_or_fallback F c =
     (case get_raster F c of Some r \<Rightarrow> Inr r
      | None \<Rightarrow> or_panic (get_raster F 0xFFFD) ''failed to get char and its fallback'')"

definition write_char :: "font \<Rightarrow> rune \<Rightarrow> frame_buffer_writer \<Rightarrow> frame_buffer_writer run" where
  "write_char F c w =
     (if c = 10 then newline w
      else if c = 13 then Inr (carriage_return w)
      else
        and_then (add64 (curr_x_pos w) (get_raster_width F)) (\<lambda>new_xpos.
        and_then (if fi_width (fw_info w) \<le> new_xpos then newline w else Inr w) (\<lambda>w.
        and_then (add64 (curr_y_pos w) (SIZE16 + BORDER_PADDING)) (\<lambda>new_ypos.
          let w = (if fi_height (fw_info w) \<le> new_ypos then fb_clear w else w) in
        and_then (get_raster_or_fallback F c) (\<lambda>r. write_rendered_char r w)))))"

fun write_str :: "font \<Rightarrow> rune list \<Rightarrow> frame_buffer_writer \<Rightarrow> frame_buffer_writer run" where
  "write_str F [] w = Inr w"
| "write_str F (c # cs) w = and_then (write_char F c w) (\<lambda>w. write_str F cs w)"

subsection \<open>Pixels\<close>

text \<open>A buffer that holds the resolution it claims, in one of the two formats.\<close>

definition fb_ok :: "frame_buffer_writer \<Rightarrow> bool" where
  "fb_ok w \<longleftrightarrow> fi_format (fw_info w) \<noteq> OtherFormat \<and> fi_width (fw_info w) \<le> fi_stride (fw_info w)
     \<and> 4 * (fi_stride (fw_info w) * fi_height (fw_info w)) \<le> length (buffer_slice w) \<and> length (buffer_slice w) < 2 ^ 63"

definition color_byte :: "fb_pixel_format \<Rightarrow> 8 word \<Rightarrow> nat \<Rightarrow> 8 word" where
  "color_byte f v k = (case f of BGR \<Rightarrow> [v div 2, v, v, 0] | _ \<Rightarrow> [v, v, v div 2, 0]) ! k"

definition row_of :: "frame_buffer_writer \<Rightarrow> nat \<Rightarrow> nat" where
  "row_of w n = n div 4 div fi_stride (fw_info w)"

definition column_of :: "frame_buffer_writer \<Rightarrow> nat \<Rightarrow> nat" where
  "column_of w n = n div 4 mod fi_stride (fw_info w)"

text \<open>Nothing but the bytes of the buffer changes.\<close>

definition same_frame :: "frame_buffer_writer \<Rightarrow> frame_buffer_writer \<Rightarrow> bool" where
  "same_frame w w' \<longleftrightarrow> fw_info w' = fw_info w \<and> curr_x_pos w' = curr_x_pos w \<and> curr_y_pos w' = curr_y_pos w
     \<and> length (buffer_slice w') = length (buffer_slice w)"

lemma same_frameD: "same_frame w w' \<Longrightarrow> fb_ok w' = fb_ok w \<and> row_of w' = row_of w \<and> column_of w' = column_of w"
  by (auto simp: same_frame_def fb_ok_def row_of_def column_of_def fun_eq_iff)

lemma splice_nth:
  assumes "4 * j + 4 \<le> length b" and "length c = 4" and "n < length b"
  shows "(take (4 * j) b @ c @ drop (4 * j + 4) b) ! n = (if n div 4 = j then c ! (n mod 4) else b ! n)"
proof -
  have "n div 4 = j \<longleftrightarrow> 4 * j \<le> n \<and> n < 4 * j + 4" by linarith
  moreover have "n - 4 * j = n mod 4" if "n div 4 = j" using that by (metis minus_mult_div_eq_mod)
  ultimately show ?thesis using assms by (auto simp: nth_append)
qed

lemma pixel_offset:
  assumes "x < (s :: nat)" and "y < h"
  shows "y * s + x < s * h"
proof -
  have "y * s + x < Suc y * s" using assms(1) by simp
  also have "\<dots> \<le> h * s" using assms(2) by (intro mult_right_mono) simp_all
  finally show ?thesis by (simp add: mult.commute)
qed

lemma write_pixel_ok:
  assumes ok: "fb_ok w" and x: "x < fi_width (fw_info w)" and y: "y < fi_height (fw_info w)"
  shows "\<exists>w'. write_pixel x y v w = Inr w' \<and> same_frame w w'
     \<and> (\<forall>n < length (buffer_slice w). buffer_slice w' ! n =
          (if row_of w n = y \<and> column_of w n = x then color_byte (fi_format (fw_info w)) v (n mod 4) else buffer_slice w ! n))"
proof -
  let ?s = "fi_stride (fw_info w)" and ?f = "fi_format (fw_info w)"
  define c where "c = (case ?f of BGR \<Rightarrow> [v div 2, v, v, 0] | _ \<Rightarrow> [v, v, v div 2, 0])"
  have xs: "x < ?s" using x ok by (simp add: fb_ok_def)
  have lt: "4 * (y * ?s + x) + 4 \<le> length (buffer_slice w)" 
  proof -
    have "4 * (y * ?s + x) + 4 \<le> 4 * (?s * fi_height (fw_info w))" using pixel_offset [OF xs y] by presburger
    then show ?thesis using ok by (simp add: fb_ok_def)
  qed
  have big: "length (buffer_slice w) < 2 ^ 63" using ok by (simp add: fb_ok_def)
  have col: "pixel_color ?f v = Inr c" using ok by (auto simp: pixel_color_def c_def fb_ok_def split: fb_pixel_format.splits)
  define w' where "w' = w\<lparr>buffer_slice := take (4 * (y * ?s + x)) (buffer_slice w) @ c @ drop (4 * (y * ?s + x) + 4) (buffer_slice w)\<rparr>"
  have run: "write_pixel x y v w = Inr w'"
    using lt big by (simp add: write_pixel_def col mul64_def add64_def w'_def mult.commute [of _ 4] add.commute [of _ 4])
  have len: "length c = 4" by (simp add: c_def split: fb_pixel_format.splits)
  have at: "n div 4 = y * ?s + x \<longleftrightarrow> row_of w n = y \<and> column_of w n = x" for n
    using xs by (auto simp: row_of_def column_of_def)
  have "same_frame w w'" using lt len by (simp add: same_frame_def w'_def)
  moreover have "buffer_slice w' ! n = (if row_of w n = y \<and> column_of w n = x then color_byte ?f v (n mod 4) else buffer_slice w ! n)"
    if "n < length (buffer_slice w)" for n
    using splice_nth [OF lt len that] by (simp add: w'_def at color_byte_def c_def)
  ultimately show ?thesis using run by blast
qed

lemma fb_small:
  assumes "fb_ok w" and "0 < fi_width (fw_info w)" and "0 < fi_height (fw_info w)"
  shows "fi_width (fw_info w) < 2 ^ 61" and "fi_height (fw_info w) < 2 ^ 61"
proof -
  let ?s = "fi_stride (fw_info w)" and ?h = "fi_height (fw_info w)"
  have s: "0 < ?s" "fi_width (fw_info w) \<le> ?s" using assms by (auto simp: fb_ok_def)
  have "4 * (?s * ?h) < 2 ^ 63" using assms(1) unfolding fb_ok_def by linarith
  then have "?s * ?h < 2 ^ 61" by (simp add: mult.commute)
  moreover have "?s \<le> ?s * ?h" "?h \<le> ?s * ?h" using s assms(3) by simp_all
  ultimately show "fi_width (fw_info w) < 2 ^ 61" and "?h < 2 ^ 61" using s by (meson order.strict_trans1 order.trans)+
qed

lemma write_row_ok:
  assumes "fb_ok w" and "curr_x_pos w + x + length bs \<le> fi_width (fw_info w)" and "curr_y_pos w + y < fi_height (fw_info w)"
  shows "\<exists>w'. write_row x y bs w = Inr w' \<and> same_frame w w'
     \<and> (\<forall>n < length (buffer_slice w). buffer_slice w' ! n =
          (if row_of w n = curr_y_pos w + y \<and> curr_x_pos w + x \<le> column_of w n \<and> column_of w n < curr_x_pos w + x + length bs
           then color_byte (fi_format (fw_info w)) (bs ! (column_of w n - (curr_x_pos w + x))) (n mod 4) else buffer_slice w ! n))"
  using assms
proof (induction bs arbitrary: x w)
  case Nil then show ?case by (auto simp: same_frame_def)
next
  case (Cons b bs)
  let ?cx = "curr_x_pos w" and ?cy = "curr_y_pos w"
  obtain w1 where w1: "write_pixel (?cx + x) (?cy + y) b w = Inr w1" "same_frame w w1"
    and p1: "\<And>n. n < length (buffer_slice w) \<Longrightarrow> buffer_slice w1 ! n =
          (if row_of w n = ?cy + y \<and> column_of w n = ?cx + x then color_byte (fi_format (fw_info w)) b (n mod 4) else buffer_slice w ! n)"
    using write_pixel_ok [OF Cons.prems(1), of "?cx + x" "?cy + y" b] Cons.prems(2,3) by auto
  have small: "?cx + x < two64" "?cy + y < two64"
    using fb_small [OF Cons.prems(1)] Cons.prems(2,3) by auto
  note f = same_frameD [OF w1(2)] and s = w1(2) [unfolded same_frame_def]
  obtain w' where w': "write_row (Suc x) y bs w1 = Inr w'" "same_frame w1 w'"
    and p2: "\<And>n. n < length (buffer_slice w) \<Longrightarrow> buffer_slice w' ! n =
          (if row_of w n = ?cy + y \<and> ?cx + Suc x \<le> column_of w n \<and> column_of w n < ?cx + Suc x + length bs
           then color_byte (fi_format (fw_info w)) (bs ! (column_of w n - (?cx + Suc x))) (n mod 4) else buffer_slice w1 ! n)"
    using Cons.IH [of w1 "Suc x"] Cons.prems f s by auto
  have run: "write_row x y (b # bs) w = Inr w'" using w1 w' small by (simp add: add64_def)
  moreover have "same_frame w w'" using w1(2) w'(2) by (simp add: same_frame_def)
  moreover have "buffer_slice w' ! n =
          (if row_of w n = ?cy + y \<and> ?cx + x \<le> column_of w n \<and> column_of w n < ?cx + x + length (b # bs)
           then color_byte (fi_format (fw_info w)) ((b # bs) ! (column_of w n - (?cx + x))) (n mod 4) else buffer_slice w ! n)"
    if "n < length (buffer_slice w)" for n
    using p1 [OF that] p2 [OF that] by (auto simp: nth_Cons' Suc_diff_Suc)
  ultimately show ?case by blast
qed

definition glyph_byte :: "frame_buffer_writer \<Rightarrow> nat \<Rightarrow> 8 word list list \<Rightarrow> nat \<Rightarrow> nat \<Rightarrow> 8 word" where
  "glyph_byte w y rows gw n =
     (if curr_y_pos w + y \<le> row_of w n \<and> row_of w n < curr_y_pos w + y + length rows
         \<and> curr_x_pos w \<le> column_of w n \<and> column_of w n < curr_x_pos w + gw
      then color_byte (fi_format (fw_info w)) (rows ! (row_of w n - (curr_y_pos w + y)) ! (column_of w n - curr_x_pos w)) (n mod 4)
      else buffer_slice w ! n)"

lemma write_rows_ok:
  assumes "fb_ok w" and "\<forall>row \<in> set rows. length row = gw" and "curr_x_pos w + gw \<le> fi_width (fw_info w)"
    and "curr_y_pos w + y + length rows \<le> fi_height (fw_info w)"
  shows "\<exists>w'. write_rows y rows w = Inr w' \<and> same_frame w w'
     \<and> (\<forall>n < length (buffer_slice w). buffer_slice w' ! n = glyph_byte w y rows gw n)"
  using assms
proof (induction rows arbitrary: y w)
  case Nil then show ?case by (auto simp: same_frame_def glyph_byte_def)
next
  case (Cons row rows)
  let ?cx = "curr_x_pos w" and ?cy = "curr_y_pos w"
  obtain w1 where w1: "write_row 0 y row w = Inr w1" "same_frame w w1"
    and p1: "\<And>n. n < length (buffer_slice w) \<Longrightarrow> buffer_slice w1 ! n =
          (if row_of w n = ?cy + y \<and> ?cx \<le> column_of w n \<and> column_of w n < ?cx + gw
           then color_byte (fi_format (fw_info w)) (row ! (column_of w n - ?cx)) (n mod 4) else buffer_slice w ! n)"
    using write_row_ok [OF Cons.prems(1), of 0 row y] Cons.prems(2-4) by auto
  note f = same_frameD [OF w1(2)] and s = w1(2) [unfolded same_frame_def]
  obtain w' where w': "write_rows (Suc y) rows w1 = Inr w'" "same_frame w1 w'"
    and p2: "\<And>n. n < length (buffer_slice w) \<Longrightarrow> buffer_slice w' ! n = glyph_byte w1 (Suc y) rows gw n"
    using Cons.IH [of w1 "Suc y"] Cons.prems f s by auto
  have "buffer_slice w' ! n = glyph_byte w y (row # rows) gw n" if "n < length (buffer_slice w)" for n
    using p1 [OF that] p2 [OF that] f s by (auto simp: glyph_byte_def nth_Cons' Suc_diff_Suc)
  moreover have "same_frame w w'" using w1(2) w'(2) by (simp add: same_frame_def)
  ultimately show ?case using w1(1) w'(1) by simp
qed

subsection \<open>Characters\<close>

text \<open>Room for at least one glyph and its border; the cursor is left of the right edge.\<close>

definition roomy :: "font \<Rightarrow> frame_buffer_writer \<Rightarrow> bool" where
  "roomy F w \<longleftrightarrow> get_raster_width F + 1 < fi_width (fw_info w) \<and> 18 < fi_height (fw_info w) \<and> curr_x_pos w < fi_width (fw_info w)"

text \<open>Where a character goes: on the next line if it does not fit on this one, on an empty screen if there is no next
  line.\<close>

definition placed :: "font \<Rightarrow> frame_buffer_writer \<Rightarrow> frame_buffer_writer" where
  "placed F w =
     (let w1 = (if fi_width (fw_info w) \<le> curr_x_pos w + get_raster_width F then w\<lparr>curr_y_pos := curr_y_pos w + 18, curr_x_pos := 1\<rparr> else w)
      in if fi_height (fw_info w) \<le> curr_y_pos w1 + 17 then fb_clear w1 else w1)"

context font_laws
begin

lemma fallback_glyph: "\<exists>r. get_raster_or_fallback F c = Inr r \<and> length (raster r) = 16
    \<and> (\<forall>row \<in> set (raster r). length row = get_raster_width F) \<and> raster_width r = get_raster_width F"
  using rows columns width fallback
  by (cases "get_raster F c"; cases "get_raster F 0xFFFD") (auto simp: get_raster_or_fallback_def)

lemma placed_fits:
  assumes "fb_ok w" and "roomy F w"
  shows "fb_ok (placed F w)" "curr_x_pos (placed F w) + get_raster_width F < fi_width (fw_info w)"
    "curr_y_pos (placed F w) + 16 \<le> fi_height (fw_info w)" "fw_info (placed F w) = fw_info w"
    "length (buffer_slice (placed F w)) = length (buffer_slice w)"
  using assms by (auto simp: placed_def roomy_def fb_ok_def fb_clear_def BORDER_PADDING_def Let_def)

lemma write_char_ok:
  assumes "fb_ok w" and "roomy F w" and "c \<noteq> 10" and "c \<noteq> 13" and y: "curr_y_pos w + 64 < two64"
  shows "\<exists>r w'. get_raster_or_fallback F c = Inr r \<and> write_char F c w = Inr w'
     \<and> fw_info w' = fw_info w \<and> length (buffer_slice w') = length (buffer_slice w)
     \<and> curr_x_pos w' = curr_x_pos (placed F w) + get_raster_width F \<and> curr_y_pos w' = curr_y_pos (placed F w)
     \<and> (\<forall>n < length (buffer_slice w). buffer_slice w' ! n = glyph_byte (placed F w) 0 (raster r) (get_raster_width F) n)"
proof -
  obtain r where r: "get_raster_or_fallback F c = Inr r" "length (raster r) = 16"
    "\<forall>row \<in> set (raster r). length row = get_raster_width F" "raster_width r = get_raster_width F"
    using fallback_glyph by blast
  note P = placed_fits [OF assms(1,2)]
  obtain w1 where w1: "write_rows 0 (raster r) (placed F w) = Inr w1" "same_frame (placed F w) w1"
    "\<forall>n < length (buffer_slice w). buffer_slice w1 ! n = glyph_byte (placed F w) 0 (raster r) (get_raster_width F) n"
    using write_rows_ok [OF P(1) r(3), of 0] P(2-5) r(2) by auto
  have small: "fi_width (fw_info w) < 2 ^ 61" using fb_small(1) [OF assms(1)] assms(2) by (simp add: roomy_def)
  define w' where "w' = w1\<lparr>curr_x_pos := curr_x_pos w1 + get_raster_width F\<rparr>"
  have end_x: "curr_x_pos w1 + get_raster_width F < two64" using P(2) w1(2) small by (simp add: same_frame_def)
  have rendered: "write_rendered_char r (placed F w) = Inr w'"
    using w1(1) r(4) end_x by (simp add: write_rendered_char_def add64_def LETTER_SPACING_def w'_def)
  have "write_char F c w = write_rendered_char r (placed F w)"
    using assms(2-4) y small r(1)
    by (auto simp: write_char_def newline_def carriage_return_def add64_def SIZE16_def LINE_SPACING_def BORDER_PADDING_def placed_def Let_def roomy_def)
  then show ?thesis using rendered r(1) w1 P(4,5) by (auto simp: w'_def same_frame_def)
qed

end

subsection \<open>Properties of the writer\<close>

lemma write_char_safe:
  assumes "font_laws F" and "fb_ok w" and "roomy F w" and "curr_y_pos w + 64 < two64"
  shows "\<exists>w'. write_char F c w = Inr w' \<and> fb_ok w' \<and> roomy F w' \<and> fw_info w' = fw_info w
     \<and> length (buffer_slice w') = length (buffer_slice w) \<and> curr_y_pos w' \<le> max (curr_y_pos w) 1 + 18"
proof (cases "c = 10 \<or> c = 13")
  case True
  then show ?thesis
    using assms(2-4) by (auto simp: write_char_def newline_def carriage_return_def add64_def SIZE16_def LINE_SPACING_def BORDER_PADDING_def roomy_def fb_ok_def)
next
  case False
  then obtain w' where w': "write_char F c w = Inr w'" "fw_info w' = fw_info w" "length (buffer_slice w') = length (buffer_slice w)"
     "curr_x_pos w' = curr_x_pos (placed F w) + get_raster_width F" "curr_y_pos w' = curr_y_pos (placed F w)"
    using font_laws.write_char_ok [OF assms(1-3) _ _ assms(4)] by blast
  have "curr_y_pos (placed F w) \<le> max (curr_y_pos w) 1 + 18"
    by (auto simp: placed_def fb_clear_def BORDER_PADDING_def Let_def)
  then show ?thesis using w' assms(2,3) font_laws.placed_fits(2) [OF assms(1-3)] by (auto simp: fb_ok_def roomy_def)
qed

text \<open>C28. On a framebuffer whose buffer holds its resolution and which has room for one glyph, no text makes the writer
  panic: \<open>write_str\<close> succeeds, keeps the buffer's length and leaves the cursor on the screen's width.\<close>

theorem write_str_never_panics:
  assumes "font_laws F" and "fb_ok w" and "roomy F w" and "curr_y_pos w + 18 * length cs + 64 < two64"
  shows "\<exists>w'. write_str F cs w = Inr w' \<and> fb_ok w' \<and> roomy F w' \<and> length (buffer_slice w') = length (buffer_slice w)"
proof -
  have "\<exists>w'. write_str F cs w = Inr w' \<and> fb_ok w' \<and> roomy F w' \<and> length (buffer_slice w') = length (buffer_slice w)"
    if "fb_ok w" "roomy F w" "max (curr_y_pos w) 1 + 18 * length cs + 64 < two64" for w
    using that
  proof (induction cs arbitrary: w)
    case (Cons c cs)
    have y: "curr_y_pos w + 64 < two64" using Cons.prems(3) by (simp add: max_def split: if_splits)
    obtain w1 where "write_char F c w = Inr w1" "fb_ok w1" "roomy F w1" "length (buffer_slice w1) = length (buffer_slice w)"
      "curr_y_pos w1 \<le> max (curr_y_pos w) 1 + 18"
      using write_char_safe [OF assms(1) Cons.prems(1,2) y, of c] by blast
    moreover from this(5) have "max (curr_y_pos w1) 1 + 18 * length cs + 64 < two64" using Cons.prems(3) by simp
    ultimately show ?case using Cons.IH [of w1] by auto
  qed simp
  then show ?thesis using assms(2-4) by (cases "curr_y_pos w = 0") (simp_all add: max_def)
qed

text \<open>A screen of 40 by 20 pixels and a font of one glyph, 7 pixels wide.\<close>

definition sample_font :: font where
  "sample_font = \<lparr>get_raster = (\<lambda>_. Some \<lparr>raster = replicate 16 (replicate 7 255), raster_width = 7\<rparr>), get_raster_width = 7\<rparr>"

interpretation sf: font_laws sample_font
  by unfold_locales (auto simp: sample_font_def)

definition sample_writer :: frame_buffer_writer where
  "sample_writer = writer_new \<lparr>fi_width = 40, fi_height = 20, fi_stride = 40, fi_format = RGB\<rparr> (replicate 3200 0)"

lemma sample_writer_ok: "fb_ok sample_writer" "roomy sample_font sample_writer"
  "curr_x_pos sample_writer = 1" "curr_y_pos sample_writer = 1" "length (buffer_slice sample_writer) = 3200"
  "fw_info sample_writer = \<lparr>fi_width = 40, fi_height = 20, fi_stride = 40, fi_format = RGB\<rparr>"
  "n < 3200 \<Longrightarrow> buffer_slice sample_writer ! n = 0"
  by (simp_all add: fb_ok_def roomy_def sample_writer_def writer_new_def fb_clear_def BORDER_PADDING_def sample_font_def)

theorem write_str_never_panics_witness:
  "fb_ok sample_writer \<and> roomy sample_font sample_writer \<and> (\<exists>w'. write_str sample_font [72, 105, 10] sample_writer = Inr w' \<and> fb_ok w')"
  using write_str_never_panics [OF sf.font_laws_axioms sample_writer_ok(1,2), of "[72, 105, 10]"] sample_writer_ok by auto

text \<open>C27. A character is drawn where it belongs: the bytes of the pixels under its glyph get the glyph's colours, at the
  cursor or, where it does not fit, at the start of the next line or of a cleared screen; every other byte is
  as it was (or cleared), and the cursor moves past the glyph.\<close>

theorem character_drawn:
  assumes "font_laws F" and "fb_ok w" and "roomy F w" and "curr_y_pos w + 64 < two64" and "c \<noteq> 10" and "c \<noteq> 13"
  shows "\<exists>r w'. get_raster_or_fallback F c = Inr r \<and> write_char F c w = Inr w'
     \<and> curr_x_pos w' = curr_x_pos (placed F w) + get_raster_width F \<and> curr_y_pos w' = curr_y_pos (placed F w)
     \<and> (\<forall>n < length (buffer_slice w). buffer_slice w' ! n = glyph_byte (placed F w) 0 (raster r) (get_raster_width F) n)"
  using font_laws.write_char_ok [OF assms(1-3,5,6,4)] by blast

theorem character_drawn_witness:
  "\<exists>w'. write_char sample_font 72 sample_writer = Inr w' \<and> curr_x_pos w' = 8
     \<and> buffer_slice w' ! 164 = 255 \<and> buffer_slice w' ! 160 = 0"
proof -
  have p: "placed sample_font sample_writer = sample_writer" by (simp add: placed_def sample_writer_ok sample_font_def)
  obtain r w' where w': "get_raster_or_fallback sample_font 72 = Inr r" "write_char sample_font 72 sample_writer = Inr w'" "curr_x_pos w' = 8"
    "\<forall>n < 3200. buffer_slice w' ! n = glyph_byte sample_writer 0 (raster r) 7 n"
    using character_drawn [OF sf.font_laws_axioms sample_writer_ok(1,2), of 72] unfolding p by (auto simp: sample_writer_ok sample_font_def)
  have "r = \<lparr>raster = replicate 16 (replicate 7 255), raster_width = 7\<rparr>" using w'(1) by (simp add: get_raster_or_fallback_def sample_font_def)
  then have "glyph_byte sample_writer 0 (raster r) 7 164 = 255" "glyph_byte sample_writer 0 (raster r) 7 160 = 0"
    by (simp_all add: glyph_byte_def sample_writer_ok row_of_def column_of_def color_byte_def)
  then show ?thesis using w' by auto
qed

end
