(* ===== verification/Boot_Acpi.thy ===== *)
theory Boot_Acpi
  imports Boot_Main Framebuffer
begin

section \<open>What the bootloader asks the firmware (bootloader-efi/src/acpi.rs, framebuffer.rs)\<close>

text \<open>
  The bootloader's discovery of the machine: the search for the ACPI tables, the switch to ACPI mode, the
  collection of the interrupt controllers from the MADT, and the choice of a graphics mode.  The \<open>acpi\<close>
  crate, the firmware's tables and services and the I/O ports are parameters; the checksums, the
  collection into the arrays of \<open>AcpiSettings\<close> and the choice of the mode are the repository's own code.
  The lemmas say what is collected, when the arrays overflow, and which mode is chosen.
\<close>

unbundle bit_operations_syntax

subsection \<open>The root pointer\<close>

text \<open>What the \<open>acpi\<close> crate says of the structure: its size and the fields at an address.\<close>

record rsdp_ops =
  rsdp_size :: nat
  rsdp_signature :: "memory \<Rightarrow> nat \<Rightarrow> 8 word list"
  rsdp_revision :: "memory \<Rightarrow> nat \<Rightarrow> 8 word"
  rsdp_length :: "memory \<Rightarrow> nat \<Rightarrow> 32 word"

fun wrapping_sum :: "8 word \<Rightarrow> 8 word list \<Rightarrow> 8 word" where
  "wrapping_sum acc [] = acc"
| "wrapping_sum acc (b # bs) = wrapping_sum (acc + b) bs"

definition RSD_PTR :: "8 word list" where
  "RSD_PTR = [0x52, 0x53, 0x44, 0x20, 0x50, 0x54, 0x52, 0x20]"

text \<open>\<open>None\<close> is \<open>Err(())\<close>; a slice at the null address is undefined, the slice of the first 20 bytes panics on a shorter structure.\<close>

definition validate_rsdp :: "rsdp_ops \<Rightarrow> memory \<Rightarrow> nat \<Rightarrow> nat option run" where
  "validate_rsdp A m address =
     (let bytes = map (\<lambda>i. m (address + i)) [0 ..< rsdp_size A] in
      if address = 0 then Inl Undefined
      else if rsdp_signature A m address \<noteq> RSD_PTR then Inr None
      else if length bytes < 20 then Inl OutOfBounds
      else if wrapping_sum 0 (take 20 bytes) \<noteq> 0 then Inr None
      else if rsdp_revision A m address = 2 \<and> wrapping_sum 0 bytes \<noteq> 0 then Inr None
      else Inr (Some (if rsdp_revision A m address = 2 then unat (rsdp_length A m address) else rsdp_size A)))"

record config_entry =
  cfg_guid :: nat
  cfg_address :: nat

fun find_acpi_table_pointer ::
  "rsdp_ops \<Rightarrow> nat \<Rightarrow> nat \<Rightarrow> memory \<Rightarrow> config_entry list \<Rightarrow> (nat \<times> nat) option run" where
  "find_acpi_table_pointer A ACPI2_GUID ACPI_GUID m [] = Inr None"
| "find_acpi_table_pointer A ACPI2_GUID ACPI_GUID m (cfg # cfgs) =
     (if cfg_guid cfg \<noteq> ACPI2_GUID \<and> cfg_guid cfg \<noteq> ACPI_GUID then find_acpi_table_pointer A ACPI2_GUID ACPI_GUID m cfgs
      else and_then (validate_rsdp A m (cfg_address cfg)) (\<lambda>r.
        case r of
          Some len \<Rightarrow> Inr (Some (cfg_address cfg, len))
        | None \<Rightarrow> find_acpi_table_pointer A ACPI2_GUID ACPI_GUID m cfgs))"

subsection \<open>The tables\<close>

datatype madt_entry =
    MadtLocalApicEntry "8 word" "8 word" "32 word"           \<comment> \<open>APIC id, processor id, flags\<close>
  | MadtIoApicEntry "8 word" "32 word" "32 word"             \<comment> \<open>id, address, first global interrupt\<close>
  | MadtOverrideEntry "8 word" "8 word" "32 word" "16 word"  \<comment> \<open>bus, source, global interrupt, flags\<close>
  | MadtOtherEntry

record fadt =
  smi_cmd_port :: "32 word"
  acpi_enable :: "8 word"
  pm1a_control_block :: "nat option"       \<comment> \<open>the address, if the block can be read\<close>

record acpi_tables =
  at_fadt :: "fadt option"
  at_madt :: "madt_entry list option"

record 'd port_io =
  port_write8 :: "16 word \<Rightarrow> 8 word \<Rightarrow> 'd \<Rightarrow> 'd"
  port_read16 :: "16 word \<Rightarrow> 'd \<Rightarrow> 16 word \<times> 'd"

text \<open>The wait for the bit that says ACPI mode is on; nothing bounds it.\<close>

partial_function (option) wait_acpi :: "'d port_io \<Rightarrow> 16 word \<Rightarrow> 'd \<Rightarrow> 'd option" where
  "wait_acpi P port dev =
     (if fst (port_read16 P port dev) AND 1 = 0 then wait_acpi P port (snd (port_read16 P port dev))
      else Some (snd (port_read16 P port dev)))"

text \<open>The arrays and counters of the loop over the MADT.\<close>

record madt_found =
  mf_lapics :: "madt_local_apic list"
  mf_lapic_count :: nat
  mf_ioapics :: "madt_io_apic list"
  mf_ioapics_count :: nat
  mf_iso :: "madt_interrupt_src_override list"
  mf_iso_count :: nat

definition madt_start :: madt_found where
  "madt_start = \<lparr>mf_lapics = replicate MAX_CPUS madt_local_apic_default, mf_lapic_count = 0,
     mf_ioapics = replicate MAX_CPUS madt_io_apic_default, mf_ioapics_count = 0,
     mf_iso = replicate MAX_CPUS madt_iso_default, mf_iso_count = 0\<rparr>"

definition madt_step :: "madt_entry \<Rightarrow> madt_found \<Rightarrow> madt_found run" where
  "madt_step e s =
     (case e of
        MadtLocalApicEntry i p flags \<Rightarrow>
          if flags AND 3 = 0 then Inr s
          else and_then (store (mf_lapics s) (mf_lapic_count s) \<lparr>lapic_id = i, lapic_processor_id = p\<rparr>) (\<lambda>xs.
               and_then (add64 (mf_lapic_count s) 1) (\<lambda>n. Inr (s\<lparr>mf_lapics := xs, mf_lapic_count := n\<rparr>)))
      | MadtIoApicEntry i a g \<Rightarrow>
          and_then (store (mf_ioapics s) (mf_ioapics_count s) \<lparr>ioapic_id = i, ioapic_address = a, ioapic_gsi_base = g\<rparr>) (\<lambda>xs.
          and_then (add64 (mf_ioapics_count s) 1) (\<lambda>n. Inr (s\<lparr>mf_ioapics := xs, mf_ioapics_count := n\<rparr>)))
      | MadtOverrideEntry b q g fl \<Rightarrow>
          and_then (store (mf_iso s) (mf_iso_count s) \<lparr>iso_bus_source = b, iso_irq_source = q, iso_gsi = g, iso_flags = fl\<rparr>) (\<lambda>xs.
          and_then (add64 (mf_iso_count s) 1) (\<lambda>n. Inr (s\<lparr>mf_iso := xs, mf_iso_count := n\<rparr>)))
      | MadtOtherEntry \<Rightarrow> Inr s)"

fun madt_loop :: "madt_entry list \<Rightarrow> madt_found \<Rightarrow> madt_found run" where
  "madt_loop [] s = Inr s"
| "madt_loop (e # es) s = and_then (madt_step e s) (madt_loop es)"

definition read_local_apic_base :: "(nat \<Rightarrow> nat) \<Rightarrow> nat" where
  "read_local_apic_base msr = msr 0x1B"

definition collect_madt :: "(nat \<Rightarrow> nat) \<Rightarrow> madt_entry list \<Rightarrow> acpi_settings run" where
  "collect_madt msr entries =
     and_then (madt_loop entries madt_start) (\<lambda>s.
       Inr \<lparr>local_apic_base = (if mf_lapic_count s \<noteq> 0 then read_local_apic_base msr else 0),
            local_apic = mf_lapics s, local_apic_count = mf_lapic_count s,
            io_apic = mf_ioapics s, io_apic_count = mf_ioapics_count s,
            interrupt_src_override = mf_iso s, interrupt_src_override_count = mf_iso_count s\<rparr>)"

text \<open>The outer \<open>None\<close> is a wait that never ends.\<close>

definition parse_acpi_table ::
  "'d port_io \<Rightarrow> (nat \<Rightarrow> nat) \<Rightarrow> (nat \<Rightarrow> acpi_tables option) \<Rightarrow> nat \<Rightarrow> 'd \<Rightarrow> ((acpi_settings \<times> 'd) run) option" where
  "parse_acpi_table P msr from_rsdp acpi_base dev =
     (case from_rsdp acpi_base of
        None \<Rightarrow> Some (Inl (Panicked ''failed to parse ACPI table from RSDP''))
      | Some tables \<Rightarrow>
     (case at_fadt tables of
        None \<Rightarrow> Some (Inl (Panicked ''no FADT entry in ACPI table''))
      | Some fadt \<Rightarrow>
      if smi_cmd_port fadt = 0 then Some (Inr (acpi_settings_default, dev))
      else
     (case pm1a_control_block fadt of
        None \<Rightarrow> Some (Inl (Panicked ''unwrap on Err''))
      | Some cb \<Rightarrow>
     (case wait_acpi P (word_of_nat cb) (port_write8 P (ucast (smi_cmd_port fadt)) (acpi_enable fadt) dev) of
        None \<Rightarrow> None
      | Some dev' \<Rightarrow>
     (case at_madt tables of
        None \<Rightarrow> Some (Inl (Panicked ''no MADT entry in ACPI table''))
      | Some entries \<Rightarrow> Some (and_then (collect_madt msr entries) (\<lambda>st. Inr (st, dev'))))))))"

subsection \<open>The framebuffer\<close>

datatype gop_format = GopRgb | GopBgr | GopBitmask | GopBltOnly

record gop_mode =
  gm_width :: nat
  gm_height :: nat
  gm_stride :: nat
  gm_format :: gop_format

record 'g gop_ops =
  gop_handles :: "nat list option"
  gop_open :: "nat \<Rightarrow> 'g option"
  gop_modes :: "'g \<Rightarrow> gop_mode list"
  gop_set_mode :: "gop_mode \<Rightarrow> 'g \<Rightarrow> unit + 'g"
  gop_current :: "'g \<Rightarrow> gop_mode"
  gop_buffer :: "'g \<Rightarrow> nat \<times> nat"

text \<open>\<open>max_by\<close> keeps the later of two equal elements.  The areas compared are those of modes the filter
  lets through, so the products are small.\<close>

fun max_area :: "gop_mode \<Rightarrow> gop_mode list \<Rightarrow> gop_mode" where
  "max_area best [] = best"
| "max_area best (m # ms) =
     max_area (if gm_width best * gm_height best > gm_width m * gm_height m then best else m) ms"

definition largest_mode :: "gop_mode list \<Rightarrow> gop_mode option" where
  "largest_mode modes =
     (case filter (\<lambda>m. gm_width m \<le> 1600 \<and> gm_height m \<le> 900) modes of
        [] \<Rightarrow> None
      | m # ms \<Rightarrow> Some (max_area m ms))"

definition locate_framebuffer :: "'g gop_ops \<Rightarrow> ((framebuffer \<times> fb_pixel_format) option \<times> 'g option) run" where
  "locate_framebuffer G =
     (case gop_handles G of
        None \<Rightarrow> Inr (None, None)
      | Some [] \<Rightarrow> Inr (None, None)
      | Some (h # _) \<Rightarrow>
     (case gop_open G h of
        None \<Rightarrow> Inr (None, None)
      | Some p \<Rightarrow>
        and_then (case largest_mode (gop_modes G p) of
                    None \<Rightarrow> Inr p
                  | Some mode \<Rightarrow> or_panic_result (gop_set_mode G mode p) ''failed to set graphics output mode'') (\<lambda>p'.
          let info = gop_current G p'; (ptr, len) = gop_buffer G p';
              fb = \<lparr>fb_ptr = ptr, fb_len = len, fb_width = gm_width info, fb_height = gm_height info, fb_stride = gm_stride info\<rparr>
          in Inr (case gm_format info of
                    GopRgb \<Rightarrow> (Some (fb, RGB), Some p')
                  | GopBgr \<Rightarrow> (Some (fb, BGR), Some p')
                  | _ \<Rightarrow> (None, Some p')))))"

subsection \<open>What is collected\<close>

fun usable_lapics :: "madt_entry list \<Rightarrow> madt_local_apic list" where
  "usable_lapics [] = []"
| "usable_lapics (MadtLocalApicEntry i p flags # es) =
     (if flags AND 3 = 0 then [] else [\<lparr>lapic_id = i, lapic_processor_id = p\<rparr>]) @ usable_lapics es"
| "usable_lapics (_ # es) = usable_lapics es"

fun listed_ioapics :: "madt_entry list \<Rightarrow> madt_io_apic list" where
  "listed_ioapics [] = []"
| "listed_ioapics (MadtIoApicEntry i a g # es) = \<lparr>ioapic_id = i, ioapic_address = a, ioapic_gsi_base = g\<rparr> # listed_ioapics es"
| "listed_ioapics (_ # es) = listed_ioapics es"

fun listed_overrides :: "madt_entry list \<Rightarrow> madt_interrupt_src_override list" where
  "listed_overrides [] = []"
| "listed_overrides (MadtOverrideEntry b q g fl # es) =
     \<lparr>iso_bus_source = b, iso_irq_source = q, iso_gsi = g, iso_flags = fl\<rparr> # listed_overrides es"
| "listed_overrides (_ # es) = listed_overrides es"

text \<open>An array of fixed size with a counter stands for the list of its first entries.\<close>

definition array_list :: "'a list \<Rightarrow> nat \<Rightarrow> 'a list \<Rightarrow> bool" where
  "array_list xs n l \<longleftrightarrow> length xs = MAX_CPUS \<and> n = length l \<and> n \<le> MAX_CPUS \<and> take n xs = l"

definition madt_holds ::
  "madt_found \<Rightarrow> madt_local_apic list \<Rightarrow> madt_io_apic list \<Rightarrow> madt_interrupt_src_override list \<Rightarrow> bool" where
  "madt_holds s L I V \<longleftrightarrow> array_list (mf_lapics s) (mf_lapic_count s) L \<and> array_list (mf_ioapics s) (mf_ioapics_count s) I
     \<and> array_list (mf_iso s) (mf_iso_count s) V"

lemma array_list_push:
  assumes "array_list xs n l"
  shows "and_then (store xs n v) (\<lambda>ys. and_then (add64 n (Suc 0)) (\<lambda>m. f ys m))
     = (if length l < MAX_CPUS then f (xs[n := v]) (Suc n) else Inl OutOfBounds)"
    and "length l < MAX_CPUS \<Longrightarrow> array_list (xs[n := v]) (Suc n) (l @ [v])"
proof -
  show "and_then (store xs n v) (\<lambda>ys. and_then (add64 n (Suc 0)) (\<lambda>m. f ys m))
     = (if length l < MAX_CPUS then f (xs[n := v]) (Suc n) else Inl OutOfBounds)"
    using assms by (auto simp: array_list_def store_def add64_def MAX_CPUS_def)
  show "array_list (xs[n := v]) (Suc n) (l @ [v])" if "length l < MAX_CPUS"
    using assms that by (auto simp: array_list_def take_Suc_conv_app_nth)
qed

definition madt_fits :: "'a list \<Rightarrow> 'b list \<Rightarrow> 'c list \<Rightarrow> bool" where
  "madt_fits L I V \<longleftrightarrow> length L \<le> MAX_CPUS \<and> length I \<le> MAX_CPUS \<and> length V \<le> MAX_CPUS"

lemma madt_loop_ok:
  assumes "madt_holds s L I V"
  shows "if madt_fits (L @ usable_lapics es) (I @ listed_ioapics es) (V @ listed_overrides es)
     then \<exists>s'. madt_loop es s = Inr s' \<and> madt_holds s' (L @ usable_lapics es) (I @ listed_ioapics es) (V @ listed_overrides es)
     else madt_loop es s = Inl OutOfBounds"
  using assms
proof (induction es arbitrary: s L I V)
  case Nil
  then show ?case by (auto simp: madt_holds_def madt_fits_def array_list_def)
next
  case (Cons e es)
  have h: "array_list (mf_lapics s) (mf_lapic_count s) L" "array_list (mf_ioapics s) (mf_ioapics_count s) I"
    "array_list (mf_iso s) (mf_iso_count s) V" using Cons.prems by (auto simp: madt_holds_def)
  show ?case
  proof (cases e)
    case (MadtLocalApicEntry i p flags)
    show ?thesis
    proof (cases "flags AND 3 = 0 \<or> \<not> length L < MAX_CPUS")
      case True
      then show ?thesis using Cons.IH [OF Cons.prems]
        by (auto simp: MadtLocalApicEntry madt_step_def array_list_push(1) [OF h(1)] madt_fits_def)
    next
      case False
      let ?v = "\<lparr>lapic_id = i, lapic_processor_id = p\<rparr>"
      let ?s = "s\<lparr>mf_lapics := (mf_lapics s)[mf_lapic_count s := ?v], mf_lapic_count := Suc (mf_lapic_count s)\<rparr>"
      have "madt_holds ?s (L @ [?v]) I V" using array_list_push(2) [OF h(1)] False h by (simp add: madt_holds_def)
      from Cons.IH [OF this, unfolded append_assoc append.simps] False show ?thesis
        by (simp add: MadtLocalApicEntry madt_step_def array_list_push(1) [OF h(1)])
    qed
  next
    case (MadtIoApicEntry i a g)
    let ?v = "\<lparr>ioapic_id = i, ioapic_address = a, ioapic_gsi_base = g\<rparr>"
    let ?s = "s\<lparr>mf_ioapics := (mf_ioapics s)[mf_ioapics_count s := ?v], mf_ioapics_count := Suc (mf_ioapics_count s)\<rparr>"
    show ?thesis
    proof (cases "length I < MAX_CPUS")
      case True
      have "madt_holds ?s L (I @ [?v]) V" using array_list_push(2) [OF h(2)] True h by (simp add: madt_holds_def)
      from Cons.IH [OF this, unfolded append_assoc append.simps] True show ?thesis
        by (simp add: MadtIoApicEntry madt_step_def array_list_push(1) [OF h(2)])
    qed (simp add: MadtIoApicEntry madt_step_def array_list_push(1) [OF h(2)] madt_fits_def)
  next
    case (MadtOverrideEntry b q g fl)
    let ?v = "\<lparr>iso_bus_source = b, iso_irq_source = q, iso_gsi = g, iso_flags = fl\<rparr>"
    let ?s = "s\<lparr>mf_iso := (mf_iso s)[mf_iso_count s := ?v], mf_iso_count := Suc (mf_iso_count s)\<rparr>"
    show ?thesis
    proof (cases "length V < MAX_CPUS")
      case True
      have "madt_holds ?s L I (V @ [?v])" using array_list_push(2) [OF h(3)] True h by (simp add: madt_holds_def)
      from Cons.IH [OF this, unfolded append_assoc append.simps] True show ?thesis
        by (simp add: MadtOverrideEntry madt_step_def array_list_push(1) [OF h(3)])
    qed (simp add: MadtOverrideEntry madt_step_def array_list_push(1) [OF h(3)] madt_fits_def)
  next
    case MadtOtherEntry
    then show ?thesis using Cons.IH [OF Cons.prems] by (simp add: madt_step_def)
  qed
qed

lemma madt_start_holds: "madt_holds madt_start [] [] []"
  by (simp add: madt_holds_def array_list_def madt_start_def)

text \<open>The wait ends as soon as a read shows the bit.\<close>

lemma wait_acpi_ends:
  assumes "fst (port_read16 P port (((\<lambda>d. snd (port_read16 P port d)) ^^ n) dev)) AND 1 \<noteq> 0"
  shows "\<exists>dev'. wait_acpi P port dev = Some dev'"
  using assms
proof (induction n arbitrary: dev)
  case 0
  then show ?case by (subst wait_acpi.simps) simp
next
  case (Suc n)
  have "((\<lambda>d. snd (port_read16 P port d)) ^^ Suc n) dev = ((\<lambda>d. snd (port_read16 P port d)) ^^ n) (snd (port_read16 P port dev))"
    by (subst funpow_Suc_right) simp
  with Suc.prems have "\<exists>dev'. wait_acpi P port (snd (port_read16 P port dev)) = Some dev'" by (intro Suc.IH) simp
  then show ?case by (subst wait_acpi.simps) auto
qed

subsection \<open>The root pointer found\<close>

lemma wrapping_sum_eq: "wrapping_sum acc bs = acc + sum_list bs"
  by (induction bs arbitrary: acc) (simp_all add: add.assoc)

lemma validate_rsdp_ok:
  assumes "validate_rsdp A m address = Inr (Some len)"
  shows "address \<noteq> 0 \<and> rsdp_signature A m address = RSD_PTR \<and> 20 \<le> rsdp_size A
     \<and> sum_list (map (\<lambda>i. m (address + i)) [0 ..< 20]) = 0
     \<and> (rsdp_revision A m address = 2 \<longrightarrow> sum_list (map (\<lambda>i. m (address + i)) [0 ..< rsdp_size A]) = 0)"
  using assms by (auto simp: validate_rsdp_def wrapping_sum_eq Let_def take_map take_upt split: if_splits)

text \<open>What the search returns is an entry of the configuration table with one of the two GUIDs that
  passes the validation, and every earlier candidate failed it.\<close>

lemma find_acpi_table_pointer_ok:
  "find_acpi_table_pointer A g2 g1 m cfgs = Inr (Some (a, len)) \<Longrightarrow>
     \<exists>pre cfg post. cfgs = pre @ cfg # post \<and> cfg_guid cfg \<in> {g2, g1} \<and> cfg_address cfg = a
       \<and> validate_rsdp A m a = Inr (Some len)
       \<and> (\<forall>c\<in>set pre. cfg_guid c \<in> {g2, g1} \<longrightarrow> validate_rsdp A m (cfg_address c) = Inr None)"
proof (induction cfgs)
  case (Cons cfg cfgs)
  show ?case
  proof (cases "cfg_guid cfg \<in> {g2, g1} \<and> validate_rsdp A m (cfg_address cfg) \<noteq> Inr None")
    case True
    then obtain r where "validate_rsdp A m (cfg_address cfg) = Inr (Some r)"
      using Cons.prems by (cases "validate_rsdp A m (cfg_address cfg)") (auto simp: run_simps split: option.splits if_splits)
    then show ?thesis using Cons.prems True by (intro exI [of _ "[]"]) (auto simp: run_simps)
  next
    case False
    then have "find_acpi_table_pointer A g2 g1 m cfgs = Inr (Some (a, len))" using Cons.prems by (auto simp: run_simps split: if_splits)
    from Cons.IH [OF this] obtain pre c post where h: "cfgs = pre @ c # post" "cfg_guid c \<in> {g2, g1}" "cfg_address c = a"
      "validate_rsdp A m a = Inr (Some len)"
      "\<forall>c\<in>set pre. cfg_guid c \<in> {g2, g1} \<longrightarrow> validate_rsdp A m (cfg_address c) = Inr None" by blast
    show ?thesis by (rule exI [of _ "cfg # pre"], rule exI [of _ c], rule exI [of _ post]) (use h False in auto)
  qed
qed simp

subsection \<open>The mode\<close>

lemma max_area_ok:
  "max_area b ms \<in> set (b # ms) \<and> (\<forall>m\<in>set (b # ms). gm_width m * gm_height m \<le> gm_width (max_area b ms) * gm_height (max_area b ms))"
proof (induction ms arbitrary: b)
  case (Cons m ms)
  show ?case using Cons.IH [of b] Cons.IH [of m] by (cases "gm_width b * gm_height b > gm_width m * gm_height m") auto
qed simp

lemma largest_mode_ok:
  "largest_mode modes = Some m \<Longrightarrow> m \<in> set modes \<and> gm_width m \<le> 1600 \<and> gm_height m \<le> 900
     \<and> (\<forall>m'\<in>set modes. gm_width m' \<le> 1600 \<longrightarrow> gm_height m' \<le> 900 \<longrightarrow> gm_width m' * gm_height m' \<le> gm_width m * gm_height m)"
  "largest_mode modes = None \<Longrightarrow> m \<in> set modes \<Longrightarrow> \<not> (gm_width m \<le> 1600 \<and> gm_height m \<le> 900)"
proof -
  show "largest_mode modes = Some m \<Longrightarrow> m \<in> set modes \<and> gm_width m \<le> 1600 \<and> gm_height m \<le> 900
     \<and> (\<forall>m'\<in>set modes. gm_width m' \<le> 1600 \<longrightarrow> gm_height m' \<le> 900 \<longrightarrow> gm_width m' * gm_height m' \<le> gm_width m * gm_height m)"
  proof -
    assume "largest_mode modes = Some m"
    then obtain b ms where f: "filter (\<lambda>m. gm_width m \<le> 1600 \<and> gm_height m \<le> 900) modes = b # ms" and m: "m = max_area b ms"
      by (auto simp: largest_mode_def split: list.splits)
    have in': "set (b # ms) = {m \<in> set modes. gm_width m \<le> 1600 \<and> gm_height m \<le> 900}" unfolding f [symmetric] by simp
    show ?thesis using max_area_ok [of b ms] unfolding in' m [symmetric] by auto
  qed
  show "largest_mode modes = None \<Longrightarrow> m \<in> set modes \<Longrightarrow> \<not> (gm_width m \<le> 1600 \<and> gm_height m \<le> 900)"
    by (auto simp: largest_mode_def filter_empty_conv split: list.splits)
qed

subsection \<open>Properties\<close>

text \<open>C20. On a machine that is switched to ACPI mode and whose control register eventually says so,
  \<open>parse_acpi_table\<close> returns: the settings list exactly the local APICs of the MADT that are enabled or
  can be, the I/O APICs and the interrupt overrides, in the order of the table, and the base of the local APIC
  is the whole register \<open>IA32_APIC_BASE\<close> if there is one; with more than \<open>MAX_CPUS\<close> entries of one kind it panics
  instead.\<close>

theorem acpi_settings_collected:
  assumes "from_rsdp acpi_base = Some \<lparr>at_fadt = Some fadt, at_madt = Some entries\<rparr>"
    and "smi_cmd_port fadt \<noteq> 0" and "pm1a_control_block fadt = Some cb"
    and "dev0 = port_write8 P (ucast (smi_cmd_port fadt)) (acpi_enable fadt) dev"
    and "fst (port_read16 P (word_of_nat cb) (((\<lambda>d. snd (port_read16 P (word_of_nat cb) d)) ^^ n) dev0)) AND 1 \<noteq> 0"
  shows "if madt_fits (usable_lapics entries) (listed_ioapics entries) (listed_overrides entries)
     then \<exists>st dev'. parse_acpi_table P msr from_rsdp acpi_base dev = Some (Inr (st, dev'))
       \<and> take (local_apic_count st) (local_apic st) = usable_lapics entries
       \<and> take (io_apic_count st) (io_apic st) = listed_ioapics entries
       \<and> take (interrupt_src_override_count st) (interrupt_src_override st) = listed_overrides entries
       \<and> length (local_apic st) = MAX_CPUS \<and> length (io_apic st) = MAX_CPUS \<and> length (interrupt_src_override st) = MAX_CPUS
       \<and> local_apic_base st = (if usable_lapics entries = [] then 0 else read_local_apic_base msr)
     else parse_acpi_table P msr from_rsdp acpi_base dev = Some (Inl OutOfBounds)"
proof -
  obtain dev' where w: "wait_acpi P (word_of_nat cb) dev0 = Some dev'" using wait_acpi_ends [OF assms(5)] by blast
  have run: "parse_acpi_table P msr from_rsdp acpi_base dev = Some (and_then (collect_madt msr entries) (\<lambda>st. Inr (st, dev')))"
    using w by (simp add: parse_acpi_table_def assms(1-3) assms(4) [symmetric])
  note L = madt_loop_ok [OF madt_start_holds, of entries, simplified]
  show ?thesis
  proof (cases "madt_fits (usable_lapics entries) (listed_ioapics entries) (listed_overrides entries)")
    case True
    with L obtain s where "madt_loop entries madt_start = Inr s"
      "madt_holds s (usable_lapics entries) (listed_ioapics entries) (listed_overrides entries)" by auto
    then show ?thesis using True by (auto simp: run collect_madt_def madt_holds_def array_list_def)
  qed (use L in \<open>simp add: run collect_madt_def\<close>)
qed

definition sample_entries :: "madt_entry list" where
  "sample_entries = [MadtLocalApicEntry 0 0 1, MadtLocalApicEntry 1 1 0, MadtIoApicEntry 2 0xFEC00000 0,
     MadtOverrideEntry 0 0 2 0, MadtOtherEntry, MadtLocalApicEntry 3 2 2]"

definition counting_ports :: "nat port_io" where
  "counting_ports = \<lparr>port_write8 = (\<lambda>_ _ _. 2), port_read16 = (\<lambda>_ d. (if d = 0 then 1 else 0, d - 1))\<rparr>"

theorem acpi_settings_collected_witness:
  "\<exists>st dev'. parse_acpi_table counting_ports (\<lambda>_. 0xFEE00900)
       (\<lambda>_. Some \<lparr>at_fadt = Some \<lparr>smi_cmd_port = 0xB2, acpi_enable = 2, pm1a_control_block = Some 0x604\<rparr>, at_madt = Some sample_entries\<rparr>)
       0xE0000 7 = Some (Inr (st, dev'))
     \<and> take (local_apic_count st) (local_apic st) = [\<lparr>lapic_id = 0, lapic_processor_id = 0\<rparr>, \<lparr>lapic_id = 3, lapic_processor_id = 2\<rparr>]
     \<and> local_apic_base st = 0xFEE00900"
proof -
  let ?f = "\<lparr>smi_cmd_port = 0xB2, acpi_enable = 2, pm1a_control_block = Some 0x604\<rparr>"
  have d: "2 = port_write8 counting_ports (ucast (smi_cmd_port ?f)) (acpi_enable ?f) (7::nat)" by (simp add: counting_ports_def)
  have b: "fst (port_read16 counting_ports (word_of_nat 0x604)
      (((\<lambda>d. snd (port_read16 counting_ports (word_of_nat 0x604) d)) ^^ 2) 2)) AND 1 \<noteq> 0"
    by (simp add: counting_ports_def numeral_2_eq_2)
  have "madt_fits (usable_lapics sample_entries) (listed_ioapics sample_entries) (listed_overrides sample_entries)"
    "usable_lapics sample_entries = [\<lparr>lapic_id = 0, lapic_processor_id = 0\<rparr>, \<lparr>lapic_id = 3, lapic_processor_id = 2\<rparr>]"
    by (simp_all add: madt_fits_def sample_entries_def MAX_CPUS_def)
  then show ?thesis
    using acpi_settings_collected [of "\<lambda>_. Some \<lparr>at_fadt = Some ?f, at_madt = Some sample_entries\<rparr>" "0xE0000" ?f sample_entries
        "0x604" 2 counting_ports 7 2 "\<lambda>_. 0xFEE00900", OF refl _ _ d b]
    by (auto simp: read_local_apic_base_def)
qed

end
