(* ===== verification/User_Elf.thy ===== *)
theory User_Elf
  imports User_Space Virtual_Memory
begin

section \<open>Loading a program into a user address space (kernel/src/mem/load\_elf.rs)\<close>

text \<open>
  The kernel's ELF loader.  Unlike the bootloader it loads an image at the addresses it is linked at, and
  it never maps a frame of the image: every page of a LOAD segment is a fresh frame that receives a copy
  of the image or zeros and that the address space records.  The state is the address space and the
  kernel's memory of \<open>User_Space\<close>; \<open>km_bytes\<close> is memory at the addresses the kernel uses, so the
  image is found at the address of its slice and a frame at its physical address.  The first part are the
  definitions; then come the observations of an address space (\<open>us_read\<close>, \<open>us_prot\<close>) and the lemmas on
  pages: a private copy shows the same bytes, and writing through the table is writing to a flat memory.
\<close>

type_synonym 't user_mem = "user_addr_space \<times> 't kernel_mem"

subsection \<open>Steps on the address space and on memory\<close>

definition us_alloc :: "'t kernel_env \<Rightarrow> 't user_mem \<Rightarrow> (nat option \<times> 't user_mem) run" where
  "us_alloc E s =
     and_then (frame_alloc (ke_x86 E) (km_frames (snd s))) (\<lambda>(r, g). Inr (r, fst s, (snd s)\<lparr>km_frames := g\<rparr>))"

definition us_fill :: "(memory \<Rightarrow> memory) \<Rightarrow> 't user_mem \<Rightarrow> 't user_mem" where
  "us_fill f s = (fst s, (snd s)\<lparr>km_bytes := f (km_bytes (snd s))\<rparr>)"

definition us_push :: "nat \<Rightarrow> 't user_mem \<Rightarrow> 't user_mem" where
  "us_push frame s = (push_tracked_frame frame (fst s), snd s)"

subsection \<open>Copying a page into a private frame\<close>

definition user_copy_page_and_remap ::
  "'t kernel_env \<Rightarrow> nat \<Rightarrow> 't user_mem \<Rightarrow> (nat option \<times> 't user_mem) run" where
  "user_copy_page_and_remap E page s =
     (case raw_translate E page s of
        Mapped (Size4KiB curr_frame) flags \<Rightarrow>
          if BIT_9 \<in> flags then Inr (Some curr_frame, s)
          else
            and_then (us_alloc E s) (\<lambda>(r, s1).
              case r of
                None \<Rightarrow> Inr (None, s1)
              | Some new_frame \<Rightarrow>
                  and_then (raw_unmap E page (us_fill (copy_bytes curr_frame new_frame 4096) (us_push new_frame s1))) (\<lambda>s2.
                  and_then (raw_map_to E page new_frame (flags \<union> {BIT_9}) s2) (\<lambda>s3. Inr (Some new_frame, s3))))
      | _ \<Rightarrow> Inr (None, s))"

subsection \<open>Writing to the address space\<close>

fun user_write_pages ::
  "'t kernel_env \<Rightarrow> nat \<Rightarrow> 8 word list \<Rightarrow> nat \<Rightarrow> nat list \<Rightarrow> 't user_mem \<Rightarrow> 't user_mem run" where
  "user_write_pages E addr buf last_addr [] s = Inr s"
| "user_write_pages E addr buf last_addr (page # pages) s =
     and_then (user_copy_page_and_remap E page s) (\<lambda>(r, s1).
     and_then (or_panic r ''failed to remap the page of the LOAD segnemt the addr points to'') (\<lambda>frame.
     and_then (write_page_part addr buf last_addr page frame (km_bytes (snd s1))) (\<lambda>mem.
       user_write_pages E addr buf last_addr pages (us_fill (\<lambda>_. mem) s1))))"

definition user_copy_pages_and_write ::
  "'t kernel_env \<Rightarrow> nat \<Rightarrow> 8 word list \<Rightarrow> 't user_mem \<Rightarrow> 't user_mem run" where
  "user_copy_pages_and_write E addr buf s =
     and_then (sub64 (length buf) 1) (\<lambda>n.
     and_then (or_panic (VirtAddr_forward (ke_x86 E) addr n)
                 ''the end address should be in the virtual address space'') (\<lambda>last_addr.
       user_write_pages E addr buf last_addr
         (range_list 4096 (page_containing (ke_x86 E) addr) (page_containing (ke_x86 E) last_addr)) s))"

subsection \<open>Changing flags\<close>

fun user_update_page_flag ::
  "'t kernel_env \<Rightarrow> nat list \<Rightarrow> pt_flags \<Rightarrow> 't user_mem \<Rightarrow> 't user_mem run" where
  "user_update_page_flag E [] keep s = Inr s"
| "user_update_page_flag E (page # pages) keep s =
     (case raw_translate E page s of
        Mapped _ flags \<Rightarrow>
          and_then (raw_update_flags E page (flags \<inter> keep) s) (\<lambda>s1. user_update_page_flag E pages keep s1)
      | NotMapped \<Rightarrow> Inl (Panicked ''page is not mapped while parsing segment GNURELTRO''))"

subsection \<open>A LOAD segment\<close>

text \<open>A fresh frame, filled, mapped and recorded: the body of both loops over pages.\<close>

definition user_map_page ::
  "'t kernel_env \<Rightarrow> pt_flags \<Rightarrow> nat \<Rightarrow> (nat \<Rightarrow> memory \<Rightarrow> memory) \<Rightarrow> 't user_mem \<Rightarrow> 't user_mem run" where
  "user_map_page E fl page fill s =
     and_then (us_alloc E s) (\<lambda>(r, s1).
     and_then (or_panic r ''failed to allocate new phys frame for bss segment.'') (\<lambda>frame.
     and_then (raw_map_to E page frame fl (us_fill (fill frame) s1)) (\<lambda>s2.
       Inr (us_push frame s2))))"

fun user_map_file_frames ::
  "'t kernel_env \<Rightarrow> pt_flags \<Rightarrow> nat \<Rightarrow> nat \<Rightarrow> nat list \<Rightarrow> 't user_mem \<Rightarrow> 't user_mem run" where
  "user_map_file_frames E fl start_page first [] s = Inr s"
| "user_map_file_frames E fl start_page first (frame # frames) s =
     and_then (VirtAddr_add (ke_x86 E) start_page (4096 * ((frame - first) div 4096))) (\<lambda>page.
     and_then (user_map_page E fl page (\<lambda>new. copy_bytes frame new 4096) s) (\<lambda>s1.
       user_map_file_frames E fl start_page first frames s1))"

fun user_map_bss_pages :: "'t kernel_env \<Rightarrow> pt_flags \<Rightarrow> nat list \<Rightarrow> 't user_mem \<Rightarrow> 't user_mem run" where
  "user_map_bss_pages E fl [] s = Inr s"
| "user_map_bss_pages E fl (page # pages) s =
     and_then (user_map_page E fl page (\<lambda>new. write_bytes new 0 4096) s) (\<lambda>s1.
       user_map_bss_pages E fl pages s1)"

definition user_clear_bss_head :: "'t kernel_env \<Rightarrow> nat \<Rightarrow> 't user_mem \<Rightarrow> 't user_mem run" where
  "user_clear_bss_head E bss_start s =
     (let off = bss_start mod 4096 in
      if off = 0 then Inr s
      else
        and_then (VirtAddr_sub (ke_x86 E) bss_start 1) (\<lambda>a.
        and_then (user_copy_page_and_remap E (page_containing (ke_x86 E) a) s) (\<lambda>(r, s1).
        and_then (or_panic r ''failed to remap the page of of fs end LOAD segment.'') (\<lambda>frame.
          Inr (us_fill (write_bytes (frame + off) 0 (4096 - off)) s1)))))"

definition user_load_segment ::
  "'t kernel_env \<Rightarrow> segment \<Rightarrow> program_header \<Rightarrow> 't user_mem \<Rightarrow> 't user_mem run" where
  "user_load_segment E sg ph s =
     and_then (user_map_file_frames E (seg_flags ph) (sg_start_page sg) (sg_first_frame sg)
                 (range_list 4096 (sg_first_frame sg) (sg_last_frame sg)) s) (\<lambda>s1.
       if ph_memsz ph \<le> ph_filesz ph then Inr s1
       else
         and_then (user_clear_bss_head E (sg_file_end sg) s1) (\<lambda>s2.
         and_then (addr_align_up (ke_x86 E) (sg_file_end sg) 4096) (\<lambda>up.
         and_then (VirtAddr_new (ke_x86 E) up) (\<lambda>bss_start.
         and_then (VirtAddr_sub (ke_x86 E) (sg_mem_end sg) 1) (\<lambda>l.
           user_map_bss_pages E (seg_flags ph)
             (range_list 4096 (page_containing (ke_x86 E) bss_start) (page_containing (ke_x86 E) l)) s2)))))"

subsection \<open>Relocations\<close>

definition user_apply_rela ::
  "'t kernel_env \<Rightarrow> nat \<Rightarrow> nat \<Rightarrow> nat \<Rightarrow> nat \<Rightarrow> nat \<Rightarrow> 't user_mem \<Rightarrow> 't user_mem run" where
  "user_apply_rela E addr len elf_start ptr idx s =
     and_then (sub64 ptr elf_start) (\<lambda>o1.
     and_then (mul64 idx 24) (\<lambda>o2.
     and_then (add64 o1 o2) (\<lambda>i.
     and_then (if i < len then Inr () else Inl OutOfBounds) (\<lambda>_.
       let r = read_rela (km_bytes (snd s)) (addr + i) in
       if rela_symbol r \<noteq> 0 then Inl (Panicked ''relocation using symbol table is not supported'')
       else if rela_type r \<noteq> 8 then Inl (Panicked ''reallocation type is not supported'')
       else
         and_then (VirtAddr_new (ke_x86 E) (rela_offset r)) (\<lambda>offset.
         and_then (VirtAddr_new (ke_x86 E) (rela_addend r)) (\<lambda>attend.
           user_copy_pages_and_write E offset (le_bytes 8 attend) s))))))"

fun user_apply_relas ::
  "'t kernel_env \<Rightarrow> nat \<Rightarrow> nat \<Rightarrow> nat \<Rightarrow> nat \<Rightarrow> nat list \<Rightarrow> 't user_mem \<Rightarrow> 't user_mem run" where
  "user_apply_relas E addr len elf_start ptr [] s = Inr s"
| "user_apply_relas E addr len elf_start ptr (i # is) s =
     and_then (user_apply_rela E addr len elf_start ptr i s) (\<lambda>s'.
       user_apply_relas E addr len elf_start ptr is s')"

definition user_load_dynamic ::
  "'t kernel_env \<Rightarrow> nat \<Rightarrow> nat \<Rightarrow> nat \<Rightarrow> program_header \<Rightarrow> 't user_mem \<Rightarrow> 't user_mem run" where
  "user_load_dynamic E addr len elf_start ph s =
     and_then (rela_table (ph_data ph)) (\<lambda>t.
       case t of
         None \<Rightarrow> Inr s
       | Some (ptr, n) \<Rightarrow> user_apply_relas E addr len elf_start ptr [0 ..< n] s)"

subsection \<open>All segments\<close>

definition user_prepare_segment :: "'t kernel_env \<Rightarrow> nat \<Rightarrow> program_header \<Rightarrow> segment run" where
  "user_prepare_segment E addr ph =
     and_then (PhysAddr_add (ke_x86 E) addr (ph_offset ph)) (\<lambda>bytes.
     and_then (VirtAddr_new (ke_x86 E) (ph_vaddr ph)) (\<lambda>start.
     and_then (VirtAddr_add (ke_x86 E) start (ph_memsz ph)) (\<lambda>mem_end.
     and_then (VirtAddr_add (ke_x86 E) start (ph_filesz ph)) (\<lambda>file_end.
     and_then (PhysAddr_add (ke_x86 E) bytes (ph_filesz ph)) (\<lambda>e.
     and_then (PhysAddr_sub (ke_x86 E) e 1) (\<lambda>bytes_last.
     and_then (VirtAddr_sub (ke_x86 E) mem_end 1) (\<lambda>last_addr.
       Inr \<lparr>sg_start = start, sg_mem_end = mem_end, sg_file_end = file_end,
            sg_first_frame = frame_containing (ke_x86 E) bytes,
            sg_last_frame = frame_containing (ke_x86 E) bytes_last,
            sg_start_page = page_containing (ke_x86 E) start,
            sg_end_page = page_containing (ke_x86 E) last_addr\<rparr>)))))))"

definition user_load_header ::
  "'t kernel_env \<Rightarrow> nat \<Rightarrow> nat \<Rightarrow> nat \<Rightarrow> program_header \<Rightarrow> tls_template option
     \<Rightarrow> 't user_mem \<Rightarrow> (tls_template option \<times> 't user_mem) run" where
  "user_load_header E addr len elf_start ph tls s =
     (if ph_memsz ph = 0 then Inr (tls, s)
      else
        and_then (user_prepare_segment E addr ph) (\<lambda>sg.
          case ph_kind ph of
            PtLoad \<Rightarrow> and_then (user_load_segment E sg ph s) (\<lambda>s1. Inr (tls, s1))
          | PtDynamic \<Rightarrow> and_then (user_load_dynamic E addr len elf_start ph s) (\<lambda>s1. Inr (tls, s1))
          | PtGnuRelro \<Rightarrow>
              and_then (user_update_page_flag E (range_list 4096 (sg_start_page sg) (sg_end_page sg))
                          (- {WRITABLE}) s) (\<lambda>s1. Inr (tls, s1))
          | PtTls \<Rightarrow>
              Inr (Some \<lparr>tls_start_virt_addr = sg_start sg, tls_mem_size = ph_memsz ph,
                         tls_file_size = ph_filesz ph\<rparr>, s)
          | _ \<Rightarrow> Inr (tls, s)))"

fun user_load_segments ::
  "'t kernel_env \<Rightarrow> nat \<Rightarrow> nat \<Rightarrow> nat \<Rightarrow> program_header list \<Rightarrow> tls_template option
     \<Rightarrow> 't user_mem \<Rightarrow> (tls_template option \<times> 't user_mem) run" where
  "user_load_segments E addr len elf_start [] tls s = Inr (tls, s)"
| "user_load_segments E addr len elf_start (ph # phs) tls s =
     and_then (user_load_header E addr len elf_start ph tls s) (\<lambda>(tls', s').
       user_load_segments E addr len elf_start phs tls' s')"

text \<open>The second pass takes the mark of private pages away again.\<close>

fun user_unmark_private ::
  "'t kernel_env \<Rightarrow> program_header list \<Rightarrow> 't user_mem \<Rightarrow> 't user_mem run" where
  "user_unmark_private E [] s = Inr s"
| "user_unmark_private E (ph # phs) s =
     (if ph_memsz ph = 0 \<or> ph_kind ph \<noteq> PtLoad then user_unmark_private E phs s
      else
        and_then (VirtAddr_new (ke_x86 E) (ph_vaddr ph)) (\<lambda>start.
        and_then (VirtAddr_add (ke_x86 E) start (ph_memsz ph)) (\<lambda>mem_end.
        and_then (VirtAddr_sub (ke_x86 E) mem_end 1) (\<lambda>last_addr.
        and_then (user_update_page_flag E (range_list 4096 (page_containing (ke_x86 E) start)
                    (page_containing (ke_x86 E) last_addr)) (- {BIT_9}) s) (\<lambda>s1.
          user_unmark_private E phs s1)))))"

text \<open>The result is the entry point; the TLS template is computed and dropped.  The image is the slice of
  \<open>len\<close> bytes at \<open>addr\<close>.\<close>

definition elf_copy_to_addrsp ::
  "'t kernel_env \<Rightarrow> (memory \<Rightarrow> nat \<Rightarrow> nat \<Rightarrow> elf_file option) \<Rightarrow> nat \<Rightarrow> nat \<Rightarrow> 't user_mem
     \<Rightarrow> (nat \<times> 't user_mem) run" where
  "elf_copy_to_addrsp E parse addr len s =
     and_then (or_panic (parse (km_bytes (snd s)) addr len) ''failed to parse elf'') (\<lambda>f.
     and_then (if 0 < len then Inr () else Inl OutOfBounds) (\<lambda>_.
     and_then (PhysAddr_new (ke_x86 E) addr) (\<lambda>elf_bytes.
     and_then (sanity_checks f) (\<lambda>_.
     and_then (elf_range f) (\<lambda>(elf_start, space_size).
     and_then (user_load_segments E elf_bytes len elf_start (elf_phs f) None s) (\<lambda>(tls, s1).
     and_then (user_unmark_private E (elf_phs f) s1) (\<lambda>s2.
     and_then (VirtAddr_new (ke_x86 E) (elf_entry f)) (\<lambda>entry.
       Inr (entry, s2)))))))))"

subsection \<open>Fresh memory\<close>

text \<open>The bytes the frame allocator may still hand out: above its cursor, inside physical memory and in
  no reserved region.\<close>

definition kg_limit :: "frame_globals \<Rightarrow> nat" where
  "kg_limit g = base_address (the (FRAME_ALLOCATOR g)) + phys_mem_right_boundary (the (FRAME_ALLOCATOR g))"

definition fresh_bytes :: "frame_globals \<Rightarrow> nat set" where
  "fresh_bytes g = {x. kg_cursor g \<le> x \<and> x < kg_limit g \<and> x \<notin> kg_forbidden g}"

definition advanced :: "frame_globals \<Rightarrow> frame_globals \<Rightarrow> bool" where
  "advanced g g' \<longleftrightarrow> grown g g' \<and> kg_limit g' = kg_limit g"

lemma advanced_refl: "kg_wf g \<Longrightarrow> advanced g g"
  by (simp add: advanced_def grown_refl)

lemma advanced_trans: "advanced g g' \<Longrightarrow> advanced g' g'' \<Longrightarrow> advanced g g''"
  using grown_trans by (auto simp: advanced_def)

lemma advancedD:
  assumes "advanced g g'"
  shows "kg_wf g'" and "kg_cursor g \<le> kg_cursor g'" and "fresh_bytes g' \<subseteq> fresh_bytes g"
  using assms by (auto simp: advanced_def grown_def fresh_bytes_def)

lemma frame_alloc_fresh:
  assumes "x86_laws X" and "kg_wf g" and "frame_alloc X g = Inr (r, g')"
  shows "advanced g g'"
    and "r = Some f \<Longrightarrow> kg_cursor g \<le> f \<and> f + 4096 \<le> kg_cursor g' \<and> 4096 dvd f \<and> block f 4096 \<subseteq> fresh_bytes g"
proof -
  from assms(2) obtain al where al: "FRAME_ALLOCATOR g = Some al" "kf_wf al" by (auto simp: kg_wf_def)
  have n: "frame_alloc_n X 1 g = Inr (r, g')"
    using assms(3) by (simp add: frame_alloc_def frame_alloc_n_def allocate_frame_def [abs_def])
  then obtain al' where al': "allocate_frames X al 1 = Inr (r, al')" "g' = g\<lparr>FRAME_ALLOCATOR := Some al'\<rparr>"
    by (auto simp: frame_alloc_n_eq_Inr [OF al(1)])
  have step: "kf_step al 1 r al'" by (rule allocate_frames_step [OF assms(1) al(2) al'(1)])
  note L = kg_laws [OF assms(1,2) n]
  show "advanced g g'" using L(1-3) step al al'(2)
    by (auto simp: advanced_def grown_def kg_limit_def kf_step_def)
  assume r: "r = Some f"
  have "f + 4096 \<le> kg_limit g" using step r al(1) by (auto simp: kf_step_def kg_limit_def PAGE_SIZE_def split: if_splits)
  moreover have "block f 4096 \<inter> kg_forbidden g = {}" using L(5) [OF r] by (simp add: frames_block_def block_def)
  moreover note L(4) [OF r] L(6) [OF r]
  ultimately show "kg_cursor g \<le> f \<and> f + 4096 \<le> kg_cursor g' \<and> 4096 dvd f \<and> block f 4096 \<subseteq> fresh_bytes g"
    by (auto simp: fresh_bytes_def)
qed

subsection \<open>What the loader relies on\<close>

text \<open>Documented behaviour of the page table functions the loader adds to those of \<open>space_laws\<close>:
  translation of a page, removal of a mapping, change of its flags.\<close>

locale user_elf = user_space E view tab
  for E :: "'t kernel_env" and view :: "'t \<Rightarrow> nat \<Rightarrow> nat \<Rightarrow> (nat \<times> pt_flags) option" and tab +
  assumes translate_ok: "4096 dvd p \<Longrightarrow> view t r p = Some (f, fl) \<Longrightarrow> sp_translate (ke_space E) r t p = Mapped (Size4KiB f) fl"
    and translate_none: "4096 dvd p \<Longrightarrow> view t r p = None \<Longrightarrow> sp_translate (ke_space E) r t p \<noteq> Mapped (Size4KiB f) fl"
    and unmap_ok: "view t r p = Some (f, fl) \<Longrightarrow>
      \<exists>t'. sp_unmap (ke_space E) r t p = (Inr f, t') \<and> view t' r = (view t r)(p := None)"
    and update_ok: "view t r p = Some (f, fl) \<Longrightarrow> PRESENT \<in> fl' \<Longrightarrow>
      \<exists>t'. sp_update_flags (ke_space E) r t p fl' = (Inr (), t') \<and> view t' r = (view t r)(p \<mapsto> (f, fl'))"
    and update_none: "view t r p = None \<Longrightarrow> fst (sp_update_flags (ke_space E) r t p fl) \<noteq> Inr ()"

interpretation uem: user_elf table_env tm_view tm_entries
  by unfold_locales (auto simp: table_env_def table_mem_ops_def tm_put_view dvd_eq_mod_eq_0 split: option.splits)

subsection \<open>Observations\<close>

definition us_view :: "('t \<Rightarrow> nat \<Rightarrow> nat \<Rightarrow> (nat \<times> pt_flags) option) \<Rightarrow> 't user_mem \<Rightarrow> nat \<Rightarrow> (nat \<times> pt_flags) option" where
  "us_view view s = view (km_tables (snd s)) (page_table (fst s))"

definition us_read :: "('t \<Rightarrow> nat \<Rightarrow> nat \<Rightarrow> (nat \<times> pt_flags) option) \<Rightarrow> 't user_mem \<Rightarrow> nat \<Rightarrow> 8 word option" where
  "us_read view s v = vread (us_view view s) (km_bytes (snd s)) v"

text \<open>The flags of a page without the mark \<open>BIT_9\<close> and up to \<open>USER_ACCESSIBLE\<close>, which every mapping
  the loader makes has; that pages keep it is a part of \<open>us_step\<close>.\<close>

definition us_prot :: "('t \<Rightarrow> nat \<Rightarrow> nat \<Rightarrow> (nat \<times> pt_flags) option) \<Rightarrow> 't user_mem \<Rightarrow> nat \<Rightarrow> pt_flags option" where
  "us_prot view s v = map_option (\<lambda>fl. insert USER_ACCESSIBLE (fl - {BIT_9})) (vflags (us_view view s) v)"

definition us_user :: "('t \<Rightarrow> nat \<Rightarrow> nat \<Rightarrow> (nat \<times> pt_flags) option) \<Rightarrow> 't user_mem \<Rightarrow> nat set" where
  "us_user view s = {p. \<exists>f fl. us_view view s p = Some (f, fl) \<and> USER_ACCESSIBLE \<in> fl}"

text \<open>The invariant: frames come from \<open>U\<close>, and a mapped frame is outside \<open>U\<close> or mapped only once.\<close>

definition us_ok :: "('t \<Rightarrow> nat \<Rightarrow> nat \<Rightarrow> (nat \<times> pt_flags) option) \<Rightarrow> nat set \<Rightarrow> 't user_mem \<Rightarrow> bool" where
  "us_ok view U s \<longleftrightarrow> kg_wf (km_frames (snd s)) \<and> fresh_bytes (km_frames (snd s)) \<subseteq> U
     \<and> vm_ok U (kg_cursor (km_frames (snd s))) (us_view view s)"

definition us_step :: "('t \<Rightarrow> nat \<Rightarrow> nat \<Rightarrow> (nat \<times> pt_flags) option) \<Rightarrow> nat set \<Rightarrow> 't user_mem \<Rightarrow> 't user_mem \<Rightarrow> bool" where
  "us_step view U s s' \<longleftrightarrow> us_ok view U s' \<and> advanced (km_frames (snd s)) (km_frames (snd s'))
     \<and> page_table (fst s') = page_table (fst s) \<and> us_user view s \<subseteq> us_user view s'
     \<and> (\<forall>a. a \<notin> U \<longrightarrow> km_bytes (snd s') a = km_bytes (snd s) a)"

lemma us_step_refl: "us_ok view U s \<Longrightarrow> us_step view U s s"
  by (simp add: us_step_def us_ok_def advanced_refl)

lemma us_step_trans: "us_step view U s s' \<Longrightarrow> us_step view U s' s'' \<Longrightarrow> us_step view U s s''"
  using advanced_trans by (auto simp: us_step_def)

lemma us_step_ok: "us_step view U s s' \<Longrightarrow> us_ok view U s'"
  by (simp add: us_step_def)

definition us_keep :: "('t \<Rightarrow> nat \<Rightarrow> nat \<Rightarrow> (nat \<times> pt_flags) option) \<Rightarrow> 't user_mem \<Rightarrow> 't user_mem \<Rightarrow> bool" where
  "us_keep view s s' \<longleftrightarrow> (\<forall>v. us_prot view s v \<noteq> None \<longrightarrow>
     us_read view s' v = us_read view s v \<and> us_prot view s' v = us_prot view s v)"

lemma us_keep_refl: "us_keep view s s"
  by (simp add: us_keep_def)

lemma us_keep_trans: "us_keep view s s' \<Longrightarrow> us_keep view s' s'' \<Longrightarrow> us_keep view s s''"
  by (simp add: us_keep_def)

lemma us_prot_None: "us_prot view s v = None \<longleftrightarrow> us_view view s (page_of v) = None"
  by (simp add: us_prot_def vflags_def)

lemma us_fill_simps [simp]:
  "us_view view (us_fill f s) = us_view view s" "us_view view (us_push x s) = us_view view s"
  "us_user view (us_fill f s) = us_user view s" "us_user view (us_push x s) = us_user view s"
  "km_frames (snd (us_fill f s)) = km_frames (snd s)" "km_frames (snd (us_push x s)) = km_frames (snd s)"
  "km_bytes (snd (us_fill f s)) = f (km_bytes (snd s))" "km_bytes (snd (us_push x s)) = km_bytes (snd s)"
  "page_table (fst (us_fill f s)) = page_table (fst s)" "page_table (fst (us_push x s)) = page_table (fst s)"
  by (simp_all add: us_user_def us_view_def us_fill_def us_push_def push_tracked_frame_def)

lemma us_push_obs [simp]: "us_read view (us_push x s) = us_read view s" "us_prot view (us_push x s) = us_prot view s"
  "us_ok view U (us_push x s) = us_ok view U s" "us_step view U s' (us_push x s) = us_step view U s' s"
  "us_keep view s' (us_push x s) = us_keep view s' s"
  by (simp_all add: fun_eq_iff us_read_def us_prot_def us_ok_def us_step_def us_keep_def)

lemma us_prot_fill [simp]: "us_prot view (us_fill f s) v = us_prot view s v"
  by (simp add: us_prot_def)

text \<open>A table that differs in one page, which keeps or gets \<open>USER_ACCESSIBLE\<close>.\<close>

lemma us_user_upd:
  assumes "us_view view s' = (us_view view s)(p \<mapsto> (f, fl))"
    and "\<And>f' fl'. us_view view s p = Some (f', fl') \<Longrightarrow> USER_ACCESSIBLE \<in> fl' \<Longrightarrow> USER_ACCESSIBLE \<in> fl"
  shows "us_user view s \<subseteq> us_user view s'"
  using assms by (auto simp: us_user_def)

context user_elf
begin

subsection \<open>One page\<close>

lemma us_alloc_ok:
  assumes "us_alloc E s = Inr (r, s1)" and "us_ok view U s"
  shows "us_view view s1 = us_view view s" and "km_bytes (snd s1) = km_bytes (snd s)"
    and "page_table (fst s1) = page_table (fst s)" and "advanced (km_frames (snd s)) (km_frames (snd s1))"
    and "r = Some f \<Longrightarrow> kg_cursor (km_frames (snd s)) \<le> f \<and> f + 4096 \<le> kg_cursor (km_frames (snd s1))
       \<and> 4096 dvd f \<and> block f 4096 \<subseteq> U"
proof -
  from assms(1) obtain g where al: "frame_alloc (ke_x86 E) (km_frames (snd s)) = Inr (r, g)"
    and s1: "s1 = (fst s, (snd s)\<lparr>km_frames := g\<rparr>)" by (auto simp: us_alloc_def run_simps)
  have wf: "kg_wf (km_frames (snd s))" and U: "fresh_bytes (km_frames (snd s)) \<subseteq> U" using assms(2) by (auto simp: us_ok_def)
  note fr = frame_alloc_fresh [OF x86_laws_axioms wf al]
  show "us_view view s1 = us_view view s" "km_bytes (snd s1) = km_bytes (snd s)" "page_table (fst s1) = page_table (fst s)"
    "advanced (km_frames (snd s)) (km_frames (snd s1))"
    using fr(1) by (simp_all add: us_view_def s1)
  show "kg_cursor (km_frames (snd s)) \<le> f \<and> f + 4096 \<le> kg_cursor (km_frames (snd s1)) \<and> 4096 dvd f \<and> block f 4096 \<subseteq> U"
    if "r = Some f" using fr(2) [OF that] U by (auto simp: s1)
qed

lemma pte_reach_advanced:
  assumes "alloc_reach (pte_allocate_frame (ke_x86 E)) u u'" and "kg_wf (snd u)"
  shows "advanced (snd u) (snd u')"
proof (rule alloc_reach_inv [OF assms(1)])
  show "advanced (snd u) (snd u)" using assms(2) by (rule advanced_refl)
next
  fix w r w' assume w: "advanced (snd u) (snd w)" and st: "pte_allocate_frame (ke_x86 E) w = Inr (r, w')"
  then obtain f where "frame_alloc (ke_x86 E) (snd w) = Inr (f, snd w')"
    by (auto simp: pte_allocate_frame_def run_simps)
  then show "advanced (snd u) (snd w')"
    using frame_alloc_fresh(1) [OF x86_laws_axioms advancedD(1) [OF w]] advanced_trans [OF w] by blast
qed

lemma raw_map_to_ok:
  assumes "raw_map_to E p f fl s = Inr s'" and "kg_wf (km_frames (snd s))" and "PRESENT \<in> fl"
  shows "us_view view s p = None" and "us_view view s' = (us_view view s)(p \<mapsto> (f, insert USER_ACCESSIBLE fl))"
    and "advanced (km_frames (snd s)) (km_frames (snd s'))" and "km_bytes (snd s') = km_bytes (snd s)"
    and "page_table (fst s') = page_table (fst s)"
proof -
  obtain a k where s: "s = (a, k)" by fastforce
  from assms(1) obtain t ptes g where m: "sp_map_to (ke_space E) (pte_allocate_frame (ke_x86 E)) (page_table a) (km_tables k)
      (pte_frames a, km_frames k) p f (insert USER_ACCESSIBLE fl) = Inr (Inr (), t, ptes, g)"
    and s': "s' = (a\<lparr>pte_frames := ptes\<rparr>, k\<lparr>km_tables := t, km_frames := g\<rparr>)"
    by (auto simp: raw_map_to_def as_map_to_def km_map_to_def run_simps s)
  have pr: "PRESENT \<in> insert USER_ACCESSIBLE fl" using assms(3) by simp
  from map_to_ok [OF m pr] show "us_view view s p = None"
    and "us_view view s' = (us_view view s)(p \<mapsto> (f, insert USER_ACCESSIBLE fl))"
    by (simp_all add: us_view_def s s' fun_eq_iff)
  show "advanced (km_frames (snd s)) (km_frames (snd s'))"
    using pte_reach_advanced [OF map_to_reach [OF m]] assms(2) by (simp add: s s')
  show "km_bytes (snd s') = km_bytes (snd s)" "page_table (fst s') = page_table (fst s)" by (simp_all add: s s')
qed

lemma raw_unmap_ok:
  assumes "raw_unmap E p s = Inr s'" and "us_view view s p = Some (f, fl)"
  shows "us_view view s' = (us_view view s)(p := None)" and "km_frames (snd s') = km_frames (snd s)"
    and "km_bytes (snd s') = km_bytes (snd s)" and "page_table (fst s') = page_table (fst s)"
proof -
  obtain a k where s: "s = (a, k)" by fastforce
  from unmap_ok [of "km_tables k" "page_table a" p f fl] assms(2) obtain t where
    "sp_unmap (ke_space E) (page_table a) (km_tables k) p = (Inr f, t)"
    "view t (page_table a) = (view (km_tables k) (page_table a))(p := None)" by (auto simp: us_view_def s)
  with assms(1) show "us_view view s' = (us_view view s)(p := None)" and "km_frames (snd s') = km_frames (snd s)"
    and "km_bytes (snd s') = km_bytes (snd s)" and "page_table (fst s') = page_table (fst s)"
    by (auto simp: raw_unmap_def run_simps us_view_def s frame_dealloc_def)
qed

lemma raw_translate_eq:
  "4096 dvd p \<Longrightarrow> us_view view s p = Some (f, fl) \<Longrightarrow> raw_translate E p s = Mapped (Size4KiB f) fl"
  "4096 dvd p \<Longrightarrow> us_view view s p = None \<Longrightarrow> raw_translate E p s \<noteq> Mapped (Size4KiB f) fl"
  by (simp_all add: raw_translate_def us_view_def translate_ok translate_none)

text \<open>A fresh frame with its contents: what was mapped stays, and the page shows the contents.\<close>

lemma user_map_page_ok:
  assumes "user_map_page E fl p fill s = Inr s'" and "us_ok view U s" and "PRESENT \<in> fl" and "BIT_9 \<notin> fl" and "4096 dvd p"
    and "\<forall>f m a. a \<notin> block f 4096 \<longrightarrow> fill f m a = m a"
  shows "us_step view U s s' \<and> us_keep view s s' \<and> (\<forall>v. page_of v \<noteq> p \<longrightarrow> us_prot view s' v = us_prot view s v)
     \<and> (\<exists>f. block f 4096 \<subseteq> U \<and> (\<forall>v. page_of v = p \<longrightarrow> us_prot view s v = None
          \<and> us_read view s' v = Some (fill f (km_bytes (snd s)) (f + v mod 4096))
          \<and> us_prot view s' v = Some (insert USER_ACCESSIBLE fl)))
     \<and> p \<in> us_user view s'"
proof -
  from assms(1) obtain f s1 s2 where al: "us_alloc E s = Inr (Some f, s1)"
    and mp: "raw_map_to E p f fl (us_fill (fill f) s1) = Inr s2" and s': "s' = us_push f s2"
    by (auto simp: user_map_page_def run_simps)
  note A = us_alloc_ok [OF al assms(2)]
  have f: "kg_cursor (km_frames (snd s)) \<le> f" "f + 4096 \<le> kg_cursor (km_frames (snd s1))" "4096 dvd f" "block f 4096 \<subseteq> U"
    using A(5) by auto
  have wf1: "kg_wf (km_frames (snd (us_fill (fill f) s1)))" using advancedD(1) [OF A(4)] by simp
  note M = raw_map_to_ok [OF mp wf1 assms(3), simplified]
  have vm: "vm_ok U (kg_cursor (km_frames (snd s))) (us_view view s)" and U: "fresh_bytes (km_frames (snd s)) \<subseteq> U"
    using assms(2) by (auto simp: us_ok_def)
  have adv: "advanced (km_frames (snd s)) (km_frames (snd s2))" by (rule advanced_trans [OF A(4) M(3)])
  have V2: "us_view view s2 = (us_view view s)(p \<mapsto> (f, insert USER_ACCESSIBLE fl))" using M(2) A(1) by simp
  have B2: "km_bytes (snd s2) = fill f (km_bytes (snd s))" using M(4) A(2) by simp
  have n: "f + 4096 \<le> kg_cursor (km_frames (snd s2))" using f(2) advancedD(2) [OF M(3)] by simp
  have "us_ok view U s2" unfolding us_ok_def V2
    using vm_ok_map_fresh [OF vm f(4,1,3) n, of "insert USER_ACCESSIBLE fl" p] assms(3) advancedD(1,3) [OF adv] U by auto
  moreover have "us_user view s \<subseteq> us_user view s2" by (rule us_user_upd [OF V2]) simp
  moreover have "km_bytes (snd s2) a = km_bytes (snd s) a" if "a \<notin> U" for a
    unfolding B2 by (rule assms(6) [rule_format]) (use that f(4) in blast)
  ultimately have step: "us_step view U s s2" using adv M(5) A(3) by (simp add: us_step_def)
  have keep: "us_keep view s s2" unfolding us_keep_def us_prot_None
  proof (intro allI impI conjI)
    fix v assume v: "us_view view s (page_of v) \<noteq> None"
    have np: "page_of v \<noteq> p" using v M(1) A(1) by auto
    then show "us_prot view s2 v = us_prot view s v" by (simp add: us_prot_def vflags_def V2)
    have "vread (us_view view s) (fill f (km_bytes (snd s))) v = vread (us_view view s) (km_bytes (snd s)) v"
      by (rule vread_outside [of f]) (use assms(6) vm_ok_fresh [OF vm _ f(4,1,3)] in blast)+
    with np show "us_read view s2 v = us_read view s v" by (simp add: us_read_def V2 B2 vread_def)
  qed
  have "us_view view s p = None" using M(1) A(1) by simp
  then have "\<forall>v. page_of v = p \<longrightarrow> us_prot view s v = None
       \<and> us_read view s2 v = Some (fill f (km_bytes (snd s)) (f + v mod 4096))
       \<and> us_prot view s2 v = Some (insert USER_ACCESSIBLE fl)"
    using assms(4) by (simp add: us_prot_def us_read_def vread_def vflags_def V2 B2)
  moreover have "p \<in> us_user view s2" by (simp add: us_user_def V2)
  moreover have "\<forall>v. page_of v \<noteq> p \<longrightarrow> us_prot view s2 v = us_prot view s v" by (simp add: us_prot_def vflags_def V2)
  ultimately show ?thesis using step keep f(4) by (auto simp: s')
qed

subsection \<open>A private copy of a page\<close>

lemma user_copy_page_mapped:
  assumes "user_copy_page_and_remap E p s = Inr (Some g, s')" and "4096 dvd p"
  shows "\<exists>f fl. us_view view s p = Some (f, fl)"
proof (rule ccontr)
  assume "\<not> ?thesis"
  then have "us_view view s p = None" by (cases "us_view view s p") auto
  from raw_translate_eq(2) [OF assms(2) this] assms(1) show False
    by (auto simp: user_copy_page_and_remap_def split: translate_result.splits mapped_frame.splits)
qed

lemma user_copy_page_new:
  assumes "user_copy_page_and_remap E p s = Inr (Some g, s')" and "us_ok view U s" and "4096 dvd p"
    and "us_view view s p = Some (f, fl)" and "BIT_9 \<notin> fl"
  shows "us_view view s' = (us_view view s)(p \<mapsto> (g, insert USER_ACCESSIBLE (fl \<union> {BIT_9})))"
    and "km_bytes (snd s') = copy_bytes f g 4096 (km_bytes (snd s))" and "page_table (fst s') = page_table (fst s)"
    and "advanced (km_frames (snd s)) (km_frames (snd s'))"
    and "kg_cursor (km_frames (snd s)) \<le> g \<and> g + 4096 \<le> kg_cursor (km_frames (snd s')) \<and> 4096 dvd g \<and> block g 4096 \<subseteq> U"
proof -
  from assms(1,5) raw_translate_eq(1) [OF assms(3,4)] obtain s1 s2 where al: "us_alloc E s = Inr (Some g, s1)"
    and un: "raw_unmap E p (us_fill (copy_bytes f g 4096) (us_push g s1)) = Inr s2"
    and mp: "raw_map_to E p g (fl \<union> {BIT_9}) s2 = Inr s'"
    by (auto simp: user_copy_page_and_remap_def run_simps split: option.splits)
  note A = us_alloc_ok [OF al assms(2)]
  have "us_view view (us_fill (copy_bytes f g 4096) (us_push g s1)) p = Some (f, fl)" using A(1) assms(4) by simp
  note N = raw_unmap_ok [OF un this, simplified]
  have wf: "kg_wf (km_frames (snd s2))" using advancedD(1) [OF A(4)] N(2) by simp
  have pr: "PRESENT \<in> fl \<union> {BIT_9}"
    using vm_okD(2) [of U "kg_cursor (km_frames (snd s))" "us_view view s" p f fl] assms(2,4) by (simp add: us_ok_def)
  note M = raw_map_to_ok [OF mp wf pr]
  show "us_view view s' = (us_view view s)(p \<mapsto> (g, insert USER_ACCESSIBLE (fl \<union> {BIT_9})))" using M(2) N(1) A(1) by simp
  show "km_bytes (snd s') = copy_bytes f g 4096 (km_bytes (snd s))" using M(4) N(3) A(2) by simp
  show "page_table (fst s') = page_table (fst s)" using M(5) N(4) A(3) by simp
  show "advanced (km_frames (snd s)) (km_frames (snd s'))" using advanced_trans [OF A(4)] M(3) N(2) by simp
  have "kg_cursor (km_frames (snd s1)) \<le> kg_cursor (km_frames (snd s'))" using advancedD(2) [OF M(3)] N(2) by simp
  with A(5) [of g] show "kg_cursor (km_frames (snd s)) \<le> g \<and> g + 4096 \<le> kg_cursor (km_frames (snd s')) \<and> 4096 dvd g \<and> block g 4096 \<subseteq> U"
    by auto
qed

lemma user_copy_page_ok:
  assumes "user_copy_page_and_remap E p s = Inr (Some g, s')" and "us_ok view U s" and "4096 dvd p"
  shows "\<exists>fl. us_view view s' p = Some (g, fl) \<and> block g 4096 \<subseteq> U \<and> us_step view U s s'
     \<and> (\<forall>v. us_read view s' v = us_read view s v) \<and> (\<forall>v. us_prot view s' v = us_prot view s v)"
proof -
  from user_copy_page_mapped [OF assms(1,3)] obtain f fl where f: "us_view view s p = Some (f, fl)" by blast
  have vm: "vm_ok U (kg_cursor (km_frames (snd s))) (us_view view s)" and U: "fresh_bytes (km_frames (snd s)) \<subseteq> U"
    using assms(2) by (auto simp: us_ok_def)
  show ?thesis
  proof (cases "BIT_9 \<in> fl")
    case True
    with assms(1) raw_translate_eq(1) [OF assms(3) f] have "g = f" "s' = s" by (auto simp: user_copy_page_and_remap_def)
    then show ?thesis using f True vm_okD(3) [OF vm f] us_step_refl [OF assms(2)] by auto
  next
    case False
    note N = user_copy_page_new [OF assms f False]
    have g: "kg_cursor (km_frames (snd s)) \<le> g" "g + 4096 \<le> kg_cursor (km_frames (snd s'))" "4096 dvd g" "block g 4096 \<subseteq> U"
      using N(5) by auto
    have pr: "PRESENT \<in> insert USER_ACCESSIBLE (fl \<union> {BIT_9})" using vm_okD(2) [OF vm f] by simp
    have "us_ok view U s'" unfolding us_ok_def N(1)
      using vm_ok_map_fresh [OF vm g(4,1,3,2) pr, of p] advancedD(1,3) [OF N(4)] U by auto
    moreover have "us_user view s \<subseteq> us_user view s'" by (rule us_user_upd [OF N(1)]) simp
    moreover have "\<forall>a. a \<notin> U \<longrightarrow> km_bytes (snd s') a = km_bytes (snd s) a"
      using g(4) by (auto simp: N(2) copy_bytes_def)
    ultimately have "us_step view U s s'" using N(3,4) by (simp add: us_step_def)
    moreover have "us_read view s' v = us_read view s v" for v
      using vread_copy [OF vm f g(4,1,3)] by (simp add: us_read_def N)
    moreover have "us_prot view s' v = us_prot view s v" for v
      using f by (auto simp: us_prot_def vflags_def N(1))
    ultimately show ?thesis using N(1) g(4) by auto
  qed
qed

subsection \<open>Writing bytes\<close>

lemma us_store_ok:
  assumes "us_ok view U s" and "us_view view s p = Some (g, fl)" and "block g 4096 \<subseteq> U" and "4096 dvd p"
    and "o' + length bs \<le> 4096"
  shows "us_step view U s (us_fill (store_bytes (g + o') bs) s)"
    and "us_read view (us_fill (store_bytes (g + o') bs) s) v
       = (if p + o' \<le> v \<and> v < p + o' + length bs then Some (bs ! (v - (p + o'))) else us_read view s v)"
proof -
  have "store_bytes (g + o') bs (km_bytes (snd s)) a = km_bytes (snd s) a" if "a \<notin> U" for a
  proof -
    have "a \<notin> block g 4096" using that assms(3) by blast
    then show ?thesis using assms(5) by (auto simp: store_bytes_def)
  qed
  then show "us_step view U s (us_fill (store_bytes (g + o') bs) s)"
    using us_step_refl [OF assms(1)] by (simp add: us_step_def us_ok_def)
  have "vm_ok U (kg_cursor (km_frames (snd s))) (us_view view s)" using assms(1) by (simp add: us_ok_def)
  from vread_store [OF this assms(2-5)]
  show "us_read view (us_fill (store_bytes (g + o') bs) s) v
       = (if p + o' \<le> v \<and> v < p + o' + length bs then Some (bs ! (v - (p + o'))) else us_read view s v)"
    by (simp add: us_read_def)
qed

lemma user_write_page_ok:
  assumes "user_copy_page_and_remap E page s = Inr (Some frame, s1)" and "us_ok view U s" and "4096 dvd page"
    and "write_page_part addr buf last_addr page frame (km_bytes (snd s1)) = Inr m"
    and "last_addr + 1 = addr + length buf"
  shows "us_step view U s (us_fill (\<lambda>_. m) s1)"
    and "us_read view (us_fill (\<lambda>_. m) s1) v
       = (if page_of v = page \<and> addr \<le> v \<and> v < addr + length buf then Some (buf ! (v - addr)) else us_read view s v)"
    and "us_prot view (us_fill (\<lambda>_. m) s1) v = us_prot view s v"
proof -
  from user_copy_page_ok [OF assms(1-3)] obtain fl where cp: "us_view view s1 page = Some (frame, fl)"
    "block frame 4096 \<subseteq> U" "us_step view U s s1" "\<And>v. us_read view s1 v = us_read view s v"
    "\<And>v. us_prot view s1 v = us_prot view s v" by blast
  from write_page_part_eq [OF assms(4,5)] obtain o' bs where w: "m = store_bytes (frame + o') bs (km_bytes (snd s1))"
    "o' + length bs \<le> 4096"
    and iff: "page + o' \<le> v \<and> v < page + o' + length bs \<longleftrightarrow>
          page \<le> v \<and> v < page + 4096 \<and> addr \<le> v \<and> v < addr + length buf"
    and nth: "page + o' \<le> v \<and> v < page + o' + length bs \<Longrightarrow> bs ! (v - (page + o')) = buf ! (v - addr)"
    by blast
  have e: "us_fill (\<lambda>_. m) s1 = us_fill (store_bytes (frame + o') bs) s1" by (simp add: us_fill_def w(1))
  note st = us_store_ok [OF us_step_ok [OF cp(3)] cp(1,2) assms(3) w(2), folded e]
  show "us_step view U s (us_fill (\<lambda>_. m) s1)" by (rule us_step_trans [OF cp(3) st(1)])
  show "us_read view (us_fill (\<lambda>_. m) s1) v
       = (if page_of v = page \<and> addr \<le> v \<and> v < addr + length buf then Some (buf ! (v - addr)) else us_read view s v)"
    using st(2) [of v] iff nth cp(4) page_of_eq [OF assms(3), of v] by simp
  show "us_prot view (us_fill (\<lambda>_. m) s1) v = us_prot view s v" using cp(5) by simp
qed

lemma user_write_pages_ok:
  assumes "user_write_pages E addr buf last_addr pages s = Inr s'" and "us_ok view U s"
    and "\<forall>p\<in>set pages. 4096 dvd p" and "last_addr + 1 = addr + length buf"
  shows "us_step view U s s'
     \<and> (\<forall>v. us_read view s' v
          = (if page_of v \<in> set pages \<and> addr \<le> v \<and> v < addr + length buf then Some (buf ! (v - addr)) else us_read view s v))
     \<and> (\<forall>v. us_prot view s' v = us_prot view s v)"
  using assms(1-3)
proof (induction pages arbitrary: s)
  case Nil
  then show ?case by (simp add: us_step_refl)
next
  case (Cons page pages)
  from Cons.prems(1) obtain frame s1 mem where cp: "user_copy_page_and_remap E page s = Inr (Some frame, s1)"
    and w: "write_page_part addr buf last_addr page frame (km_bytes (snd s1)) = Inr mem"
    and rest: "user_write_pages E addr buf last_addr pages (us_fill (\<lambda>_. mem) s1) = Inr s'"
    by (auto simp: run_simps)
  have "4096 dvd page" using Cons.prems(3) by simp
  note one = user_write_page_ok [OF cp Cons.prems(2) this w assms(4)]
  note IH = Cons.IH [OF rest us_step_ok [OF one(1)]]
  have "us_step view U s s'" using us_step_trans [OF one(1)] IH Cons.prems(3) by simp
  then show ?case using one IH Cons.prems(3) by simp
qed

lemma user_page_containing: "page_containing (ke_x86 E) a = page_of a" "frame_containing (ke_x86 E) a = page_of a"
  by (simp_all add: page_containing_eq frame_containing_eq page_of_def)

lemma user_page_range:
  "set (range_list 4096 (page_of a) (page_of b)) = {p. page_of a \<le> p \<and> p \<le> page_of b \<and> 4096 dvd p}"
  using set_range_list [of 4096 "page_of a" "page_of b"] by simp

lemma user_write_ok:
  assumes "user_copy_pages_and_write E addr buf s = Inr s'" and "us_ok view U s" and "18446603336221196288 \<le> addr"
  shows "us_step view U s s'"
    and "us_read view s' v = (if addr \<le> v \<and> v < addr + length buf then Some (buf ! (v - addr)) else us_read view s v)"
    and "us_prot view s' v = us_prot view s v"
proof -
  from assms(1) obtain l where buf: "1 \<le> length buf" and fw: "VirtAddr_forward (ke_x86 E) addr (length buf - 1) = Some l"
    and loop: "user_write_pages E addr buf l (range_list 4096 (page_of addr) (page_of l)) s = Inr s'"
    by (auto simp: user_copy_pages_and_write_def run_simps user_page_containing)
  have l: "l + 1 = addr + length buf" using VirtAddr_forward_high [OF assms(3) fw] buf by simp
  note w = user_write_pages_ok [OF loop assms(2) _ l, unfolded user_page_range]
  have "page_of addr \<le> page_of v \<and> page_of v \<le> page_of l" if "addr \<le> v \<and> v < addr + length buf"
    using that l page_of_mono [of addr v] page_of_mono [of v l] by simp
  with w show "us_step view U s s'"
    and "us_read view s' v = (if addr \<le> v \<and> v < addr + length buf then Some (buf ! (v - addr)) else us_read view s v)"
    and "us_prot view s' v = us_prot view s v" by auto
qed

subsection \<open>Changing flags\<close>

lemma raw_update_ok:
  assumes "raw_update_flags E p fl' s = Inr s'" and "us_view view s p = Some (f, fl)" and "PRESENT \<in> fl'"
  shows "us_view view s' = (us_view view s)(p \<mapsto> (f, fl'))" and "km_frames (snd s') = km_frames (snd s)"
    and "km_bytes (snd s') = km_bytes (snd s)" and "page_table (fst s') = page_table (fst s)"
proof -
  obtain a k where s: "s = (a, k)" by fastforce
  from update_ok [of "km_tables k" "page_table a" p f fl fl'] assms(2,3) obtain t where
    "sp_update_flags (ke_space E) (page_table a) (km_tables k) p fl' = (Inr (), t)"
    "view t (page_table a) = (view (km_tables k) (page_table a))(p \<mapsto> (f, fl'))" by (auto simp: us_view_def s)
  with assms(1) show "us_view view s' = (us_view view s)(p \<mapsto> (f, fl'))" and "km_frames (snd s') = km_frames (snd s)"
    and "km_bytes (snd s') = km_bytes (snd s)" and "page_table (fst s') = page_table (fst s)"
    by (auto simp: raw_update_flags_def run_simps us_view_def s)
qed

lemma user_update_one:
  assumes "user_update_page_flag E (p # pages) keep s = Inr s'" and "us_ok view U s" and "{PRESENT, USER_ACCESSIBLE} \<subseteq> keep"
    and "4096 dvd p"
  obtains s1 where "user_update_page_flag E pages keep s1 = Inr s'" "us_step view U s s1" "us_view view s p \<noteq> None"
    "\<And>v. us_read view s1 v = us_read view s v"
    "\<And>v. vflags (us_view view s1) v = map_option (\<lambda>fl. if page_of v = p then fl \<inter> keep else fl) (vflags (us_view view s) v)"
proof -
  have "us_view view s p \<noteq> None"
  proof
    assume "us_view view s p = None"
    then have "raw_update_flags E p fl s \<noteq> Inr s1" for fl s1
      using update_none [of "km_tables (snd s)" "page_table (fst s)" p fl]
      by (cases s) (auto simp: us_view_def raw_update_flags_def run_simps split: prod.splits)
    with assms(1) show False by (auto simp: run_simps split: translate_result.splits)
  qed
  then obtain f fl where f: "us_view view s p = Some (f, fl)" by auto
  from assms(1) raw_translate_eq(1) [OF assms(4) f] obtain s1 where up: "raw_update_flags E p (fl \<inter> keep) s = Inr s1"
    and rest: "user_update_page_flag E pages keep s1 = Inr s'" by (auto simp: run_simps)
  have vm: "vm_ok U (kg_cursor (km_frames (snd s))) (us_view view s)" using assms(2) by (simp add: us_ok_def)
  have pr: "PRESENT \<in> fl \<inter> keep" using vm_okD(2) [OF vm f] assms(3) by simp
  note R = raw_update_ok [OF up f pr]
  have "us_ok view U s1" using assms(2) vm_ok_flags [OF vm f pr] by (simp add: us_ok_def R)
  moreover have "us_user view s \<subseteq> us_user view s1" by (rule us_user_upd [OF R(1)]) (use f assms(3) in auto)
  ultimately have "us_step view U s s1" using R assms(2) by (simp add: us_step_def us_ok_def advanced_refl)
  moreover have "us_read view s1 v = us_read view s v" for v
    using vread_flags [of "us_view view s" p f fl] f by (simp add: us_read_def R)
  moreover have "vflags (us_view view s1) v = map_option (\<lambda>fl. if page_of v = p then fl \<inter> keep else fl) (vflags (us_view view s) v)" for v
    using f by (simp add: vflags_def R(1) option.map_ident)
  ultimately show thesis using that rest f by blast
qed

lemma user_update_flags_ok:
  assumes "user_update_page_flag E pages keep s = Inr s'" and "us_ok view U s" and "{PRESENT, USER_ACCESSIBLE} \<subseteq> keep"
    and "\<forall>p\<in>set pages. 4096 dvd p"
  shows "(\<forall>p\<in>set pages. us_view view s p \<noteq> None) \<and> us_step view U s s' \<and> (\<forall>v. us_read view s' v = us_read view s v)
     \<and> (\<forall>v. vflags (us_view view s') v
          = map_option (\<lambda>fl. if page_of v \<in> set pages then fl \<inter> keep else fl) (vflags (us_view view s) v))"
  using assms(1,2,4)
proof (induction pages arbitrary: s)
  case Nil
  then show ?case by (simp add: us_step_refl option.map_ident)
next
  case (Cons p pages)
  have p: "4096 dvd p" "\<forall>p\<in>set pages. 4096 dvd p" using Cons.prems(3) by simp_all
  from user_update_one [OF Cons.prems(1,2) assms(3) p(1)] obtain s1 where
    rest: "user_update_page_flag E pages keep s1 = Inr s'" and st: "us_step view U s s1" and f: "us_view view s p \<noteq> None"
    and rd: "\<And>v. us_read view s1 v = us_read view s v"
    and fl: "\<And>v. vflags (us_view view s1) v = map_option (\<lambda>fl. if page_of v = p then fl \<inter> keep else fl) (vflags (us_view view s) v)"
    by blast
  note IH = Cons.IH [OF rest us_step_ok [OF st] p(2)]
  have "us_view view s q \<noteq> None" if "q \<in> set pages" for q
  proof -
    have "us_view view s1 q \<noteq> None" "page_of q = q" using IH that p(2) by auto
    then show ?thesis using fl [of q] by (cases "us_view view s q") (auto simp: vflags_def)
  qed
  moreover have "us_step view U s s'" using us_step_trans [OF st] IH by blast
  moreover have "vflags (us_view view s') v
      = map_option (\<lambda>fl. if page_of v \<in> set (p # pages) then fl \<inter> keep else fl) (vflags (us_view view s) v)" for v
    using IH fl [of v] by (cases "vflags (us_view view s) v") (auto simp: Int_assoc)
  ultimately show ?case using f IH rd by simp
qed

end

end
