(* ===== verification/User_Load.thy ===== *)
theory User_Load
  imports User_Elf
begin

section \<open>The loaded user program\<close>

text \<open>
  The specification of \<open>elf_copy_to_addrsp\<close> and the proof that it is met.  After a load that returns,
  every byte of every LOAD segment is the byte of the image, or zero behind its file part, with the
  relocations over it; its page is accessible to user mode and has the flags of the segment, without
  \<open>WRITABLE\<close> in the read-only-after-relocation range; the pages that were mapped before show the same
  bytes unless a relocation names them; and memory outside the frames handed out during the load is as
  it was, so the image, the kernel and all other address spaces are untouched.
\<close>

context user_elf
begin

subsection \<open>The file part of a segment\<close>

lemma us_keep_None: "us_keep view s s' \<Longrightarrow> us_prot view s' v = None \<Longrightarrow> us_prot view s v = None"
  unfolding us_keep_def by (metis option.distinct(1))

lemma us_step_user: "us_step view U s s' \<Longrightarrow> p \<in> us_user view s \<Longrightarrow> p \<in> us_user view s'"
  by (auto simp: us_step_def)

lemma map_file_frames_shows:
  assumes "user_map_file_frames E fl P first fs s = Inr s'" and "us_ok view U s" and "PRESENT \<in> fl" and "BIT_9 \<notin> fl"
    and "18446603336221196288 \<le> P" and "4096 dvd P" and "4096 dvd first"
    and "\<forall>f\<in>set fs. first \<le> f \<and> 4096 dvd f \<and> block f 4096 \<inter> U = {}"
  shows "us_step view U s s' \<and> us_keep view s s'
     \<and> (\<forall>f\<in>set fs. \<forall>v. page_of v = P + (f - first) \<longrightarrow> us_read view s' v = Some (km_bytes (snd s) (f + v mod 4096))
          \<and> us_prot view s' v = Some (insert USER_ACCESSIBLE fl) \<and> us_prot view s v = None \<and> page_of v \<in> us_user view s')"
  using assms(1,2,8)
proof (induction fs arbitrary: s)
  case Nil
  then show ?case by (simp add: us_step_refl us_keep_refl)
next
  case (Cons f fs)
  have f: "first \<le> f" "4096 dvd f" "block f 4096 \<inter> U = {}" using Cons.prems(3) by auto
  then have d: "4096 dvd f - first" using assms(7) by simp
  from Cons.prems(1) d obtain s1 where one: "user_map_page E fl (P + (f - first)) (\<lambda>new. copy_bytes f new 4096) s = Inr s1"
    and rest: "user_map_file_frames E fl P first fs s1 = Inr s'"
    by (auto simp: run_simps VirtAddr_add_high [OF assms(5)])
  have "4096 dvd P + (f - first)" using d assms(6) by simp
  from user_map_page_ok [OF one Cons.prems(2) assms(3,4) this]
  have M: "us_step view U s s1" "us_keep view s s1" "P + (f - first) \<in> us_user view s1"
    "\<forall>v. page_of v = P + (f - first) \<longrightarrow> us_prot view s v = None
       \<and> us_read view s1 v = Some (km_bytes (snd s) (f + v mod 4096)) \<and> us_prot view s1 v = Some (insert USER_ACCESSIBLE fl)"
    by (auto simp: copy_bytes_def)
  have IH: "us_step view U s1 s' \<and> us_keep view s1 s'
     \<and> (\<forall>f\<in>set fs. \<forall>v. page_of v = P + (f - first) \<longrightarrow> us_read view s' v = Some (km_bytes (snd s1) (f + v mod 4096))
          \<and> us_prot view s' v = Some (insert USER_ACCESSIBLE fl) \<and> us_prot view s1 v = None \<and> page_of v \<in> us_user view s')"
    by (rule Cons.IH [OF rest us_step_ok [OF M(1)]]) (use Cons.prems(3) in simp)
  have mem: "km_bytes (snd s1) (g + v mod 4096) = km_bytes (snd s) (g + v mod 4096)" if "g \<in> set fs" for g v
  proof -
    have "g + v mod 4096 \<in> block g 4096" by simp
    moreover have "block g 4096 \<inter> U = {}" using Cons.prems(3) that by simp
    ultimately have "g + v mod 4096 \<notin> U" by blast
    then show ?thesis using M(1) by (simp add: us_step_def)
  qed
  have "us_read view s' v = Some (km_bytes (snd s) (g + v mod 4096)) \<and> us_prot view s' v = Some (insert USER_ACCESSIBLE fl)
      \<and> us_prot view s v = None \<and> page_of v \<in> us_user view s'"
    if g: "g \<in> set (f # fs)" and v: "page_of v = P + (g - first)" for g v
  proof (cases "g \<in> set fs")
    case True
    with IH v mem us_keep_None [OF M(2)] show ?thesis by auto
  next
    case False
    with g v have v: "page_of v = P + (f - first)" and gf: "g = f" by auto
    have "page_of v \<in> us_user view s'" using us_step_user [of U s1 s'] IH M(3) v by simp
    then show ?thesis using M(4) v IH gf by (simp add: us_keep_def)
  qed
  moreover have "us_step view U s s'" "us_keep view s s'" using us_step_trans M(1) us_keep_trans M(2) IH by blast+
  ultimately show ?case by blast
qed

lemma user_map_file_ok:
  assumes "user_map_file_frames E fl P first (range_list 4096 first l) s = Inr s'" and "us_ok view U s"
    and "PRESENT \<in> fl" and "BIT_9 \<notin> fl" and "18446603336221196288 \<le> P"
    and "4096 dvd P" and "4096 dvd first" and "4096 dvd l"
    and "\<And>a. first \<le> a \<Longrightarrow> a < l + 4096 \<Longrightarrow> a \<notin> U"
  shows "us_step view U s s' \<and> us_keep view s s'
     \<and> (\<forall>x. first + x < l + 4096 \<longrightarrow> us_read view s' (P + x) = Some (km_bytes (snd s) (first + x))
          \<and> us_prot view s' (P + x) = Some (insert USER_ACCESSIBLE fl) \<and> us_prot view s (P + x) = None
          \<and> page_of (P + x) \<in> us_user view s')"
proof -
  let ?fs = "range_list 4096 first l"
  have fs: "set ?fs = {f. first \<le> f \<and> f \<le> l \<and> 4096 dvd f}" using set_range_list [OF _ assms(7,8)] by simp
  have "\<forall>f\<in>set ?fs. first \<le> f \<and> 4096 dvd f \<and> block f 4096 \<inter> U = {}"
    unfolding fs using assms(9) by auto
  note M = map_file_frames_shows [OF assms(1-7) this]
  have "us_read view s' (P + y) = Some (km_bytes (snd s) (first + y)) \<and> us_prot view s' (P + y) = Some (insert USER_ACCESSIBLE fl)
      \<and> us_prot view s (P + y) = None \<and> page_of (P + y) \<in> us_user view s'" if y: "first + y < l + 4096" for y
  proof -
    let ?f = "first + page_of y"
    have d: "4096 dvd ?f" using assms(7) by simp
    have "?f < l + 4096" using y page_of_le(1) [of y] by linarith
    then have "?f \<le> l" using d assms(8) by (auto elim!: dvdE)
    then have mem: "?f \<in> set ?fs" using d by (simp add: fs)
    have pg: "page_of (P + y) = P + (?f - first)" and md: "(P + y) mod 4096 = y mod 4096"
      using page_of_base [OF assms(6)] assms(6) by (auto elim!: dvdE)
    have "?f + y mod 4096 = first + y" using page_of_le(3) [of y] by simp
    then show ?thesis using M [THEN conjunct2, THEN conjunct2, rule_format, OF mem pg] by (simp only: md)
  qed
  with M show ?thesis by blast
qed

subsection \<open>The \<open>.bss\<close> part of a segment\<close>

lemma user_map_bss_ok:
  assumes "user_map_bss_pages E fl pages s = Inr s'" and "us_ok view U s" and "PRESENT \<in> fl" and "BIT_9 \<notin> fl"
    and "\<forall>p\<in>set pages. 4096 dvd p"
  shows "us_step view U s s' \<and> us_keep view s s'
     \<and> (\<forall>v. page_of v \<in> set pages \<longrightarrow> us_read view s' v = Some 0 \<and> us_prot view s' v = Some (insert USER_ACCESSIBLE fl)
          \<and> us_prot view s v = None \<and> page_of v \<in> us_user view s')"
  using assms(1,2,5)
proof (induction pages arbitrary: s)
  case Nil
  then show ?case by (simp add: us_step_refl us_keep_refl)
next
  case (Cons p pages)
  from Cons.prems(1) obtain s1 where one: "user_map_page E fl p (\<lambda>new. write_bytes new 0 4096) s = Inr s1"
    and rest: "user_map_bss_pages E fl pages s1 = Inr s'" by (auto simp: run_simps)
  have p: "4096 dvd p" "\<forall>p\<in>set pages. 4096 dvd p" using Cons.prems(3) by simp_all
  have M: "us_step view U s s1" "us_keep view s s1" "p \<in> us_user view s1"
    "\<forall>v. page_of v = p \<longrightarrow> us_prot view s v = None \<and> us_read view s1 v = Some 0 \<and> us_prot view s1 v = Some (insert USER_ACCESSIBLE fl)"
    using user_map_page_ok [OF one Cons.prems(2) assms(3,4) p(1)] by (auto simp: write_bytes_def)
  note IH = Cons.IH [OF rest us_step_ok [OF M(1)] p(2)]
  have "us_read view s' v = Some 0 \<and> us_prot view s' v = Some (insert USER_ACCESSIBLE fl) \<and> us_prot view s v = None
      \<and> page_of v \<in> us_user view s'" if "page_of v \<in> set (p # pages)" for v
  proof (cases "page_of v \<in> set pages")
    case True
    with IH us_keep_None [OF M(2)] show ?thesis by blast
  next
    case False
    with that have "page_of v = p" by simp
    then show ?thesis using M(3,4) IH us_step_user [of U s1 s' p] by (simp add: us_keep_def)
  qed
  moreover have "us_step view U s s'" "us_keep view s s'" using us_step_trans M(1) us_keep_trans M(2) IH by blast+
  ultimately show ?case by blast
qed

lemma user_clear_bss_ok:
  assumes "user_clear_bss_head E b s = Inr s'" and "us_ok view U s" and "18446603336221196288 \<le> b" and "b < two64"
  shows "us_step view U s s'" and "us_prot view s' v = us_prot view s v"
    and "us_read view s' v = (if b mod 4096 \<noteq> 0 \<and> b \<le> v \<and> v < page_of b + 4096 then Some 0 else us_read view s v)"
proof -
  have "us_step view U s s' \<and> us_prot view s' v = us_prot view s v
     \<and> us_read view s' v = (if b mod 4096 \<noteq> 0 \<and> b \<le> v \<and> v < page_of b + 4096 then Some 0 else us_read view s v)"
  proof (cases "b mod 4096 = 0")
    case True
    with assms(1) have "s' = s" by (simp add: user_clear_bss_head_def)
    with True show ?thesis using us_step_refl [OF assms(2)] by simp
  next
    case False
    let ?o = "b mod 4096"
    have "b \<noteq> 18446603336221196288" using False by auto
    then have hi: "18446603336221196288 < b" using assms(3) by simp
    from assms(1) False obtain f s1 where cp: "user_copy_page_and_remap E (page_of b) s = Inr (Some f, s1)"
      and s': "s' = us_fill (write_bytes (f + ?o) 0 (4096 - ?o)) s1"
      by (auto simp: user_clear_bss_head_def run_simps Let_def VirtAddr_sub_high [OF hi assms(4), unfolded One_nat_def]
          user_page_containing page_of_pred [OF False, unfolded One_nat_def])
    from user_copy_page_ok [OF cp assms(2) page_of_dvd] obtain fl where c: "us_view view s1 (page_of b) = Some (f, fl)"
      "block f 4096 \<subseteq> U" "us_step view U s s1" "us_read view s1 v = us_read view s v" "us_prot view s1 v = us_prot view s v"
      by blast
    have e: "s' = us_fill (store_bytes (f + ?o) (replicate (4096 - ?o) 0)) s1" unfolding s' by (simp add: us_fill_def write_bytes_store)
    note sto = us_store_ok [OF us_step_ok [OF c(3)] c(1,2) page_of_dvd, of ?o "replicate (4096 - ?o) 0", folded e]
    have b: "page_of b + ?o = b" "b + (4096 - ?o) = page_of b + 4096" using page_of_le [of b] by simp_all
    have "us_read view s' v = (if b \<le> v \<and> v < page_of b + 4096 then Some 0 else us_read view s v)"
    proof -
      have "v - b < 4096 - ?o" if "b \<le> v" "v < page_of b + 4096" using that b(2) by linarith
      moreover have "v < b + length (replicate (4096 - ?o) (0 :: 8 word)) \<longleftrightarrow> v < page_of b + 4096" by (simp only: length_replicate b(2))
      ultimately show ?thesis using sto(2) [of v] c(4) unfolding b(1) by (simp only: nth_replicate split: if_split) simp
    qed
    moreover have "us_step view U s s'" using us_step_trans [OF c(3)] sto(1) by simp
    ultimately show ?thesis using False c(5) by (simp add: s')
  qed
  then show "us_step view U s s'" and "us_prot view s' v = us_prot view s v"
    and "us_read view s' v = (if b mod 4096 \<noteq> 0 \<and> b \<le> v \<and> v < page_of b + 4096 then Some 0 else us_read view s v)" by blast+
qed

subsection \<open>A LOAD segment\<close>

lemma user_prepare_eq:
  assumes "user_prepare_segment E addr ph = Inr sg" and "18446603336221196288 \<le> ph_vaddr ph" and "ph_vaddr ph < two64"
    and "ph_memsz ph \<noteq> 0"
  defines "S \<equiv> ph_vaddr ph" and "B \<equiv> addr + ph_offset ph"
  shows "S + ph_filesz ph < two64" and "1 \<le> B + ph_filesz ph"
    and "sg = \<lparr>sg_start = S, sg_mem_end = S + ph_memsz ph, sg_file_end = S + ph_filesz ph,
       sg_first_frame = page_of B, sg_last_frame = page_of (B + ph_filesz ph - 1),
       sg_start_page = page_of S, sg_end_page = page_of (S + ph_memsz ph - 1)\<rparr>"
proof -
  note nw = VirtAddr_new_high [OF assms(2,3)] and add = VirtAddr_add_high [OF assms(2)]
  from assms(1) have m: "S + ph_memsz ph < two64" "S + ph_filesz ph < two64"
    by (auto simp: user_prepare_segment_def run_simps nw add S_def)
  have l: "VirtAddr_sub (ke_x86 E) (S + ph_memsz ph) 1 = Inr (S + ph_memsz ph - 1)"
    by (rule VirtAddr_sub_high) (use assms(2,4) m in \<open>auto simp: S_def\<close>)
  from assms(1) m l show "S + ph_filesz ph < two64" and "1 \<le> B + ph_filesz ph" and "sg = \<lparr>sg_start = S, sg_mem_end = S + ph_memsz ph,
       sg_file_end = S + ph_filesz ph, sg_first_frame = page_of B, sg_last_frame = page_of (B + ph_filesz ph - 1),
       sg_start_page = page_of S, sg_end_page = page_of (S + ph_memsz ph - 1)\<rparr>"
    by (auto simp: user_prepare_segment_def run_simps nw [folded S_def] add [folded S_def] S_def [symmetric] B_def
        user_page_containing PhysAddr_add_eq_Inr PhysAddr_sub_eq_Inr)
qed

lemma load_file_part:
  assumes "user_map_file_frames E (seg_flags ph) (page_of S) (page_of B) (range_list 4096 (page_of B) (page_of (B + n - 1))) s
      = Inr s'" and "us_ok view U s" and "18446603336221196288 \<le> page_of S" and "S mod 4096 = B mod 4096"
    and "\<forall>a. page_of B \<le> a \<and> a < page_of (B + n - 1) + 4096 \<longrightarrow> a \<notin> U"
  shows "us_step view U s s' \<and> us_keep view s s'"
    and "B + k < page_of (B + n - 1) + 4096 \<Longrightarrow> us_read view s' (S + k) = Some (km_bytes (snd s) (B + k))
          \<and> us_prot view s' (S + k) = Some (insert USER_ACCESSIBLE (seg_flags ph)) \<and> page_of (S + k) \<in> us_user view s'"
    and "page_of S \<le> v \<Longrightarrow> v - page_of S < page_of (B + n - 1) + 4096 - page_of B \<Longrightarrow> us_prot view s v = None"
proof -
  let ?l = "page_of (B + n - 1)"
  have ok: "us_step view U s s' \<and> us_keep view s s'
     \<and> (\<forall>x. page_of B + x < ?l + 4096 \<longrightarrow> us_read view s' (page_of S + x) = Some (km_bytes (snd s) (page_of B + x))
          \<and> us_prot view s' (page_of S + x) = Some (insert USER_ACCESSIBLE (seg_flags ph)) \<and> us_prot view s (page_of S + x) = None
          \<and> page_of (page_of S + x) \<in> us_user view s')"
    by (rule user_map_file_ok [OF assms(1,2)]) (use assms(3,5) in simp_all)
  then show "us_step view U s s' \<and> us_keep view s s'" by blast
  have e: "page_of B + (B mod 4096 + k) = B + k" "page_of S + (B mod 4096 + k) = S + k"
    using page_of_le(3) [of B] page_of_le(3) [of S] assms(4) by linarith+
  show "us_read view s' (S + k) = Some (km_bytes (snd s) (B + k))
      \<and> us_prot view s' (S + k) = Some (insert USER_ACCESSIBLE (seg_flags ph)) \<and> page_of (S + k) \<in> us_user view s'"
    if "B + k < ?l + 4096" using ok [THEN conjunct2, THEN conjunct2, rule_format, of "B mod 4096 + k"] that unfolding e by blast
  show "us_prot view s v = None" if "page_of S \<le> v" "v - page_of S < ?l + 4096 - page_of B"
  proof -
    have "page_of B + (v - page_of S) < ?l + 4096" and e: "page_of S + (v - page_of S) = v" using that by linarith+
    from ok [THEN conjunct2, THEN conjunct2, rule_format, OF this(1)] show ?thesis unfolding e by blast
  qed
qed

text \<open>The \<open>.bss\<close> part: the tail of the last page of the file part, then whole pages.\<close>

lemma load_bss_part:
  assumes "user_clear_bss_head E (S + n) s1 = Inr s2"
    and bss: "user_map_bss_pages E (seg_flags ph) (range_list 4096 (page_of (S + n + 4095)) (page_of (S + m - 1))) s2 = Inr s'"
    and ok: "us_ok view U s1" and S: "18446603336221196288 \<le> S + n" "S + n < two64"
  shows "us_step view U s1 s'"
    and "us_prot view s1 v \<noteq> None \<Longrightarrow> \<not> (S + n \<le> v \<and> v < page_of (S + n) + 4096 \<and> (S + n) mod 4096 \<noteq> 0) \<Longrightarrow>
       us_read view s' v = us_read view s1 v"
    and "us_prot view s1 v \<noteq> None \<Longrightarrow> us_prot view s' v = us_prot view s1 v"
    and "us_prot view s1 v \<noteq> None \<Longrightarrow> S + n \<le> v \<Longrightarrow> v < page_of (S + n) + 4096 \<Longrightarrow> (S + n) mod 4096 \<noteq> 0 \<Longrightarrow> us_read view s' v = Some 0"
    and "\<not> (v < page_of (S + n) + 4096 \<and> (S + n) mod 4096 \<noteq> 0) \<Longrightarrow> S + n \<le> v \<Longrightarrow> v < S + m \<Longrightarrow>
       us_read view s' v = Some 0 \<and> us_prot view s' v = Some (insert USER_ACCESSIBLE (seg_flags ph)) \<and> us_prot view s1 v = None
       \<and> page_of v \<in> us_user view s'"
proof -
  note h = user_clear_bss_ok [OF assms(1) ok S]
  have up: "range_list 4096 (page_of (S + n + 4095)) (page_of (S + m - 1))
      = range_list 4096 (page_of (page_of (S + n + 4095))) (page_of (S + m - 1))" by simp
  have b: "us_step view U s2 s' \<and> us_keep view s2 s'
     \<and> (\<forall>v. page_of v \<in> {p. page_of (S + n + 4095) \<le> p \<and> p \<le> page_of (S + m - 1) \<and> 4096 dvd p} \<longrightarrow>
          us_read view s' v = Some 0 \<and> us_prot view s' v = Some (insert USER_ACCESSIBLE (seg_flags ph))
          \<and> us_prot view s2 v = None \<and> page_of v \<in> us_user view s')"
    using user_map_bss_ok [OF bss us_step_ok [OF h(1)]] unfolding up user_page_range by simp
  show "us_step view U s1 s'" using us_step_trans [OF h(1)] b by blast
  have k: "us_read view s' v = us_read view s2 v \<and> us_prot view s' v = us_prot view s1 v" if "us_prot view s1 v \<noteq> None"
    using b that h(2) [of v] by (simp add: us_keep_def)
  show "us_read view s' v = us_read view s1 v"
    if "us_prot view s1 v \<noteq> None" "\<not> (S + n \<le> v \<and> v < page_of (S + n) + 4096 \<and> (S + n) mod 4096 \<noteq> 0)"
    using k [OF that(1)] that(2) h(3) [of v] by auto
  show "us_prot view s' v = us_prot view s1 v" if "us_prot view s1 v \<noteq> None" using k that by blast
  show "us_read view s' v = Some 0" if "us_prot view s1 v \<noteq> None" "S + n \<le> v" "v < page_of (S + n) + 4096" "(S + n) mod 4096 \<noteq> 0"
    using k [OF that(1)] that h(3) [of v] by auto
  show "us_read view s' v = Some 0 \<and> us_prot view s' v = Some (insert USER_ACCESSIBLE (seg_flags ph)) \<and> us_prot view s1 v = None
      \<and> page_of v \<in> us_user view s'"
    if "\<not> (v < page_of (S + n) + 4096 \<and> (S + n) mod 4096 \<noteq> 0)" "S + n \<le> v" "v < S + m"
  proof -
    have "page_of (S + n + 4095) \<le> v"
      using that(1,2) page_of_up(3,4) [of "S + n"] by (cases "(S + n) mod 4096 = 0") simp_all
    then have "page_of (S + n + 4095) \<le> page_of v" using page_of_mono [of "page_of (S + n + 4095)" v] by simp
    moreover have "page_of v \<le> page_of (S + m - 1)" by (rule page_of_mono) (use that(3) in simp)
    ultimately show ?thesis using b h(2) [of v] by simp
  qed
qed

lemma load_segment_runs:
  assumes "user_load_segment E sg ph s = Inr s'" and "18446603336221196288 \<le> S" and "S + ph_memsz ph + 4096 \<le> two64"
    and sg: "sg = \<lparr>sg_start = S, sg_mem_end = S + ph_memsz ph, sg_file_end = S + ph_filesz ph,
       sg_first_frame = page_of B, sg_last_frame = page_of (B + ph_filesz ph - 1),
       sg_start_page = page_of S, sg_end_page = page_of (S + ph_memsz ph - 1)\<rparr>"
  obtains s1 where "user_map_file_frames E (seg_flags ph) (page_of S) (page_of B)
      (range_list 4096 (page_of B) (page_of (B + ph_filesz ph - 1))) s = Inr s1"
    and "ph_memsz ph \<le> ph_filesz ph \<Longrightarrow> s' = s1"
    and "ph_filesz ph < ph_memsz ph \<Longrightarrow> \<exists>s2. user_clear_bss_head E (S + ph_filesz ph) s1 = Inr s2
       \<and> user_map_bss_pages E (seg_flags ph) (range_list 4096 (page_of (S + ph_filesz ph + 4095)) (page_of (S + ph_memsz ph - 1))) s2 = Inr s'"
proof -
  let ?n = "ph_filesz ph"
  from assms(1) obtain s1 where mapped: "user_map_file_frames E (seg_flags ph) (page_of S) (page_of B)
      (range_list 4096 (page_of B) (page_of (B + ?n - 1))) s = Inr s1"
    and rest: "(if ph_memsz ph \<le> ?n then Inr s1 else
         and_then (user_clear_bss_head E (S + ?n) s1) (\<lambda>s2.
         and_then (addr_align_up (ke_x86 E) (S + ?n) 4096) (\<lambda>up.
         and_then (VirtAddr_new (ke_x86 E) up) (\<lambda>bss_start.
         and_then (VirtAddr_sub (ke_x86 E) (S + ph_memsz ph) 1) (\<lambda>l.
           user_map_bss_pages E (seg_flags ph)
             (range_list 4096 (page_containing (ke_x86 E) bss_start) (page_containing (ke_x86 E) l)) s2))))) = Inr s'"
    using and_then_eq_Inr [THEN iffD1, OF assms(1) [unfolded user_load_segment_def sg segment.select_convs]] by blast
  have bss: "\<exists>s2. user_clear_bss_head E (S + ?n) s1 = Inr s2
       \<and> user_map_bss_pages E (seg_flags ph) (range_list 4096 (page_of (S + ?n + 4095)) (page_of (S + ph_memsz ph - 1))) s2 = Inr s'"
    if lt: "?n < ph_memsz ph"
  proof -
    have b1: "S + ?n + 4095 < two64" and b2: "S + ph_memsz ph < two64" using lt assms(3) by linarith+
    have up: "addr_align_up (ke_x86 E) (S + ?n) 4096 = Inr (page_of (S + ?n + 4095))"
      using addr_align_up_ok [OF b1] by (simp add: page_of_def)
    have nw: "VirtAddr_new (ke_x86 E) (page_of (S + ?n + 4095)) = Inr (page_of (S + ?n + 4095))"
      by (rule VirtAddr_new_high) (use b1 assms(2) page_of_up(1) [of "S + ?n"] page_of_le(1) [of "S + ?n + 4095"] in linarith)+
    have l: "VirtAddr_sub (ke_x86 E) (S + ph_memsz ph) 1 = Inr (S + ph_memsz ph - 1)"
      by (rule VirtAddr_sub_high) (use assms(2) b2 lt in linarith)+
    from rest lt have "and_then (user_clear_bss_head E (S + ?n) s1) (\<lambda>s2. user_map_bss_pages E (seg_flags ph)
        (range_list 4096 (page_containing (ke_x86 E) (page_of (S + ?n + 4095)))
          (page_containing (ke_x86 E) (S + ph_memsz ph - 1))) s2) = Inr s'"
      by (simp only: not_le [THEN iffD2, OF lt] if_False up nw l and_then_Inr)
    then show ?thesis unfolding and_then_eq_Inr user_page_containing by (simp only: page_of_aligned page_of_dvd)
  qed
  show thesis by (rule that [OF mapped _ bss]) (use rest in simp_all)
qed

lemma user_load_segment_ok:
  assumes "user_load_segment E sg ph s = Inr s'" and "us_ok view U s"
    and "18446603336221196288 \<le> S" and "S + ph_memsz ph + 4096 \<le> two64" and "S + ph_filesz ph < two64"
    and cong: "S mod 4096 = B mod 4096" and "1 \<le> B + ph_filesz ph"
    and "\<forall>a. page_of B \<le> a \<and> a < page_of (B + ph_filesz ph - 1) + 4096 \<longrightarrow> a \<notin> U"
    and sg: "sg = \<lparr>sg_start = S, sg_mem_end = S + ph_memsz ph, sg_file_end = S + ph_filesz ph,
       sg_first_frame = page_of B, sg_last_frame = page_of (B + ph_filesz ph - 1),
       sg_start_page = page_of S, sg_end_page = page_of (S + ph_memsz ph - 1)\<rparr>"
  shows "us_step view U s s' \<and> us_keep view s s'
     \<and> (\<forall>k<ph_memsz ph. us_read view s' (S + k) = Some (if k < ph_filesz ph then km_bytes (snd s) (B + k) else 0)
          \<and> us_prot view s' (S + k) = Some (insert USER_ACCESSIBLE (seg_flags ph)) \<and> us_prot view s (S + k) = None
          \<and> page_of (S + k) \<in> us_user view s')"
proof -
  let ?n = "ph_filesz ph" and ?l = "page_of (B + ph_filesz ph - 1)"
  obtain s1 where mapped: "user_map_file_frames E (seg_flags ph) (page_of S) (page_of B) (range_list 4096 (page_of B) ?l) s = Inr s1"
    and full: "ph_memsz ph \<le> ?n \<Longrightarrow> s' = s1"
    and bss: "?n < ph_memsz ph \<Longrightarrow> \<exists>s2. user_clear_bss_head E (S + ?n) s1 = Inr s2
       \<and> user_map_bss_pages E (seg_flags ph) (range_list 4096 (page_of (S + ?n + 4095)) (page_of (S + ph_memsz ph - 1))) s2 = Inr s'"
    by (rule load_segment_runs [OF assms(1,3,4) sg]) blast
  have hi: "18446603336221196288 \<le> page_of S" using page_of_mono [OF assms(3)] by simp
  note f = load_file_part [OF mapped assms(2) hi cong assms(8)]
  have step: "us_step view U s s1" and keep: "us_keep view s s1" using f(1) by blast+
  have new: "us_prot view s (S + k) = None" if "B + k < ?l + 4096" for k
    by (rule f(3)) (use that page_of_le(1,3) [of S] page_of_le(1,3) [of B] cong in linarith)+
  have inside: "B + k < ?l + 4096" if "k < ?n" for k using that page_of_le(2) [of "B + ?n - 1"] by linarith
  show ?thesis
  proof (cases "ph_memsz ph \<le> ?n")
    case True
    then show ?thesis using full step keep f(2) inside new by auto
  next
    case False
    then have lt: "?n < ph_memsz ph" by simp
    with bss obtain s2 where head: "user_clear_bss_head E (S + ?n) s1 = Inr s2"
      and pages: "user_map_bss_pages E (seg_flags ph) (range_list 4096 (page_of (S + ?n + 4095)) (page_of (S + ph_memsz ph - 1))) s2 = Inr s'"
      by blast
    have S: "18446603336221196288 \<le> S + ?n" using assms(3) by simp
    note b = load_bss_part [OF head pages us_step_ok [OF step] S assms(5)]
    have low: "B + k < ?l + 4096" if "(S + ?n) mod 4096 \<noteq> 0" "S + k < page_of (S + ?n) + 4096" for k
      using page_window [OF cong that(1)] that(2) page_of_le(1,3) [of S] page_of_le(1,3) [of B] cong by linarith
    have hd: "us_prot view s v = None" if "(S + ?n) mod 4096 \<noteq> 0" "S + ?n \<le> v" "v < page_of (S + ?n) + 4096" for v
      using new [OF low [of "v - S"]] that by simp
    have "us_keep view s s'" unfolding us_keep_def
    proof (intro allI impI)
      fix v assume v: "us_prot view s v \<noteq> None"
      then have e: "us_read view s1 v = us_read view s v" "us_prot view s1 v = us_prot view s v"
        using keep by (auto simp: us_keep_def)
      then show "us_read view s' v = us_read view s v \<and> us_prot view s' v = us_prot view s v"
        using b(2,3) [of v] hd [of v] v by auto
    qed
    moreover have "us_read view s' (S + k) = Some (if k < ?n then km_bytes (snd s) (B + k) else 0)
        \<and> us_prot view s' (S + k) = Some (insert USER_ACCESSIBLE (seg_flags ph)) \<and> us_prot view s (S + k) = None
        \<and> page_of (S + k) \<in> us_user view s'" if k: "k < ph_memsz ph" for k
    proof (cases "k < ?n \<or> (S + ?n) mod 4096 \<noteq> 0 \<and> S + k < page_of (S + ?n) + 4096")
      case True
      then have in1: "B + k < ?l + 4096" using inside low by blast
      note f1 = f(2) [OF in1]
      have u: "page_of (S + k) \<in> us_user view s'" using us_step_user [OF b(1)] f1 by blast
      show ?thesis using True f1 b(2,3,4) [of "S + k"] new [OF in1] u by (cases "k < ?n") auto
    next
      case out: False
      then have "us_read view s' (S + k) = Some 0 \<and> us_prot view s' (S + k) = Some (insert USER_ACCESSIBLE (seg_flags ph))
          \<and> us_prot view s1 (S + k) = None \<and> page_of (S + k) \<in> us_user view s'"
        by (intro b(5)) (use k in auto)
      then show ?thesis using out us_keep_None [OF keep] by auto
    qed
    ultimately show ?thesis using us_step_trans [OF step b(1)] by blast
  qed
qed

subsection \<open>Relocations\<close>

end

text \<open>The relocations of a file as writes to a flat memory, read from the image as it was.\<close>

definition user_rela_write :: "memory \<Rightarrow> nat \<Rightarrow> nat \<Rightarrow> nat \<Rightarrow> nat \<Rightarrow> nat \<times> 8 word list" where
  "user_rela_write m addr d ptr i =
     (let r = read_rela m (addr + (ptr - d + i * 24)) in (rela_offset r, le_bytes 8 (rela_addend r)))"

definition user_dyn_writes :: "memory \<Rightarrow> nat \<Rightarrow> nat \<Rightarrow> program_header \<Rightarrow> (nat \<times> 8 word list) list" where
  "user_dyn_writes m addr d ph =
     (case rela_table (ph_data ph) of
        Inr (Some (ptr, n)) \<Rightarrow> map (user_rela_write m addr d ptr) [0 ..< n]
      | _ \<Rightarrow> [])"

fun user_load_writes :: "memory \<Rightarrow> nat \<Rightarrow> nat \<Rightarrow> program_header list \<Rightarrow> (nat \<times> 8 word list) list" where
  "user_load_writes m addr d [] = []"
| "user_load_writes m addr d (ph # phs) =
     (if ph_memsz ph \<noteq> 0 \<and> ph_kind ph = PtDynamic then user_dyn_writes m addr d ph else [])
     @ user_load_writes m addr d phs"

text \<open>What the loader assumes of an image of \<open>len\<close> bytes at \<open>addr\<close>: its segments lie in the upper half, where
  the programs of the repository are linked, at the same place in their pages as in the image, and so do
  the targets of the relocations; the tables lie in the image.\<close>

definition user_image_ok :: "memory \<Rightarrow> nat \<Rightarrow> nat \<Rightarrow> nat \<Rightarrow> program_header list \<Rightarrow> bool" where
  "user_image_ok m addr len d phs \<longleftrightarrow>
     (\<forall>ph\<in>set phs.
        (ph_kind ph \<in> {PtLoad, PtGnuRelro} \<longrightarrow>
           18446603336221196288 \<le> ph_vaddr ph \<and> ph_vaddr ph + ph_memsz ph + 4096 \<le> two64)
      \<and> (ph_kind ph = PtLoad \<longrightarrow>
           (addr + ph_offset ph) mod 4096 = ph_vaddr ph mod 4096 \<and> ph_offset ph + ph_filesz ph \<le> len)
      \<and> (\<forall>ptr n. rela_table (ph_data ph) = Inr (Some (ptr, n)) \<longrightarrow>
           ptr - d + n * 24 \<le> len
         \<and> (\<forall>i<n. let r = read_rela m (addr + (ptr - d + i * 24)) in
              18446603336221196288 \<le> rela_offset r \<and> rela_offset r < two64 \<and> canonical (rela_addend r))))"

text \<open>The state of a load: the invariant and the image as it was.\<close>

definition us_at ::
  "('t \<Rightarrow> nat \<Rightarrow> nat \<Rightarrow> (nat \<times> pt_flags) option) \<Rightarrow> nat set \<Rightarrow> memory \<Rightarrow> nat \<Rightarrow> nat \<Rightarrow> 't user_mem \<Rightarrow> bool" where
  "us_at view U m addr len s \<longleftrightarrow>
     us_ok view U s \<and> (\<forall>a. a \<notin> U \<longrightarrow> km_bytes (snd s) a = m a) \<and> 1 \<le> len
     \<and> (\<forall>a. page_of addr \<le> a \<and> a < page_of (addr + len - 1) + 4096 \<longrightarrow> a \<notin> U)"

lemma us_at_step: "us_at view U m addr len s \<Longrightarrow> us_step view U s s' \<Longrightarrow> us_at view U m addr len s'"
  by (auto simp: us_at_def us_step_def)

lemma us_at_image:
  assumes "us_at view U m addr len s" and "addr \<le> a" and "a < addr + len"
  shows "a \<notin> U" and "km_bytes (snd s) a = m a"
proof -
  show "a \<notin> U" using assms page_of_le(1) [of addr] page_of_le(2) [of "addr + len - 1"] by (auto simp: us_at_def)
  then show "km_bytes (snd s) a = m a" using assms(1) by (simp add: us_at_def)
qed

context user_elf
begin

lemma user_apply_rela_ok:
  assumes "user_apply_rela E addr len d ptr i s = Inr s'" and "us_ok view U s"
    and r: "r = read_rela (km_bytes (snd s)) (addr + (ptr - d + i * 24))"
    and "18446603336221196288 \<le> rela_offset r" and "rela_offset r < two64" and "canonical (rela_addend r)"
  shows "us_step view U s s'"
    and "us_read view s' v = overlaid [user_rela_write (km_bytes (snd s)) addr d ptr i] (us_read view s) v"
    and "us_prot view s' v = us_prot view s v"
proof -
  from assms(1) have w: "user_copy_pages_and_write E (rela_offset r) (le_bytes 8 (rela_addend r)) s = Inr s'"
    by (auto simp: user_apply_rela_def run_simps Let_def r [symmetric] VirtAddr_new_high [OF assms(4,5)]
        VirtAddr_new_ok [OF assms(6)] split: if_splits)
  note W = user_write_ok [OF w assms(2,4)]
  show "us_step view U s s'" by (rule W(1))
  show "us_read view s' v = overlaid [user_rela_write (km_bytes (snd s)) addr d ptr i] (us_read view s) v"
    using W(2) [of v] by (simp add: overlaid_def user_rela_write_def Let_def r)
  show "us_prot view s' v = us_prot view s v" by (rule W(3))
qed

lemma user_apply_relas_ok:
  assumes "user_apply_relas E addr len d ptr is s = Inr s'" and "us_at view U m addr len s"
    and "\<forall>i\<in>set is. ptr - d + i * 24 + 24 \<le> len \<and> (let r = read_rela m (addr + (ptr - d + i * 24)) in
              18446603336221196288 \<le> rela_offset r \<and> rela_offset r < two64 \<and> canonical (rela_addend r))"
  shows "us_step view U s s'
     \<and> (\<forall>v. us_read view s' v = overlaid (map (user_rela_write m addr d ptr) is) (us_read view s) v)
     \<and> (\<forall>v. us_prot view s' v = us_prot view s v)"
  using assms
proof (induction "is" arbitrary: s)
  case Nil
  then show ?case by (simp add: us_step_refl us_at_def)
next
  case (Cons i "is")
  from Cons.prems(1) obtain s1 where one: "user_apply_rela E addr len d ptr i s = Inr s1"
    and rest: "user_apply_relas E addr len d ptr is s1 = Inr s'" by (auto simp: run_simps)
  have rd: "read_rela (km_bytes (snd s)) (addr + (ptr - d + i * 24)) = read_rela m (addr + (ptr - d + i * 24))"
    by (rule read_rela_cong, rule us_at_image(2) [OF Cons.prems(2)]) (use Cons.prems(3) in auto)
  have ok: "us_ok view U s" using Cons.prems(2) by (simp add: us_at_def)
  have W: "us_step view U s s1" "\<And>v. us_read view s1 v = overlaid [user_rela_write (km_bytes (snd s)) addr d ptr i] (us_read view s) v"
    "\<And>v. us_prot view s1 v = us_prot view s v"
    using user_apply_rela_ok [OF one ok refl, unfolded rd] Cons.prems(3) by (auto simp: Let_def)
  have e: "us_read view s1 = overlaid [user_rela_write m addr d ptr i] (us_read view s)"
    using W(2) rd by (intro ext) (simp add: user_rela_write_def)
  have "us_step view U s1 s'
     \<and> (\<forall>v. us_read view s' v = overlaid (map (user_rela_write m addr d ptr) is) (us_read view s1) v)
     \<and> (\<forall>v. us_prot view s' v = us_prot view s1 v)"
    by (rule Cons.IH [OF rest us_at_step [OF Cons.prems(2) W(1)]]) (use Cons.prems(3) in simp)
  then show ?case using us_step_trans [OF W(1)] W(3)
      overlaid_append [of "[user_rela_write m addr d ptr i]" "map (user_rela_write m addr d ptr) is"]
    by (simp add: e)
qed

lemma user_load_dynamic_ok:
  assumes "user_load_dynamic E addr len d ph s = Inr s'" and "us_at view U m addr len s" and "user_image_ok m addr len d [ph]"
  shows "us_step view U s s' \<and> (\<forall>v. us_read view s' v = overlaid (user_dyn_writes m addr d ph) (us_read view s) v)
     \<and> (\<forall>v. us_prot view s' v = us_prot view s v)"
proof -
  from assms(1) obtain t where t: "rela_table (ph_data ph) = Inr t"
    and run: "(case t of None \<Rightarrow> Inr s
       | Some (ptr, n) \<Rightarrow> user_apply_relas E addr len d ptr [0 ..< n] s) = Inr s'"
    by (auto simp: user_load_dynamic_def and_then_eq_Inr)
  show ?thesis
  proof (cases t)
    case None
    with run t assms(2) show ?thesis by (simp add: user_dyn_writes_def us_step_refl us_at_def)
  next
    case (Some pn)
    obtain ptr n where pn: "pn = (ptr, n)" by fastforce
    with run Some have loop: "user_apply_relas E addr len d ptr [0 ..< n] s = Inr s'" by simp
    have im: "ptr - d + n * 24 \<le> len" "\<forall>i<n. let r = read_rela m (addr + (ptr - d + i * 24)) in
              18446603336221196288 \<le> rela_offset r \<and> rela_offset r < two64 \<and> canonical (rela_addend r)"
      using assms(3) t Some pn by (auto simp: user_image_ok_def)
    have "\<forall>i\<in>set [0 ..< n]. ptr - d + i * 24 + 24 \<le> len \<and> (let r = read_rela m (addr + (ptr - d + i * 24)) in
              18446603336221196288 \<le> rela_offset r \<and> rela_offset r < two64 \<and> canonical (rela_addend r))"
    proof
      fix i assume "i \<in> set [0 ..< n]"
      then have "i < n" by simp
      then have "i * 24 + 24 \<le> n * 24" by simp
      then show "ptr - d + i * 24 + 24 \<le> len \<and> (let r = read_rela m (addr + (ptr - d + i * 24)) in
              18446603336221196288 \<le> rela_offset r \<and> rela_offset r < two64 \<and> canonical (rela_addend r))"
        using im(1) im(2) [rule_format, OF \<open>i < n\<close>] by linarith
    qed
    from user_apply_relas_ok [OF loop assms(2) this] t Some pn show ?thesis by (simp add: user_dyn_writes_def)
  qed
qed

end

subsection \<open>All segments\<close>

text \<open>What a part of the load does to the addresses that are mapped already, given the writes and the
  addresses that become read-only; both concern mapped addresses only.\<close>

definition us_writes ::
  "('t \<Rightarrow> nat \<Rightarrow> nat \<Rightarrow> (nat \<times> pt_flags) option) \<Rightarrow> (nat \<times> 8 word list) list \<Rightarrow> (nat \<Rightarrow> bool) \<Rightarrow> 't user_mem \<Rightarrow> 't user_mem \<Rightarrow> bool" where
  "us_writes view ws R s s' \<longleftrightarrow>
     (\<forall>v. us_prot view s v \<noteq> None \<longrightarrow> us_read view s' v = overlaid ws (us_read view s) v
        \<and> us_prot view s' v = map_option (\<lambda>fl. if R v then fl - {WRITABLE} else fl) (us_prot view s v))"

definition us_effect ::
  "('t \<Rightarrow> nat \<Rightarrow> nat \<Rightarrow> (nat \<times> pt_flags) option) \<Rightarrow> (nat \<times> 8 word list) list \<Rightarrow> (nat \<Rightarrow> bool) \<Rightarrow> 't user_mem \<Rightarrow> 't user_mem \<Rightarrow> bool" where
  "us_effect view ws R s s' \<longleftrightarrow> us_writes view ws R s s' \<and> (\<forall>v. us_prot view s v = None \<longrightarrow> overlay ws v = None \<and> \<not> R v)"

lemma us_effect_keep: "us_keep view s s' \<Longrightarrow> us_effect view [] (\<lambda>_. False) s s'"
  by (auto simp: us_effect_def us_writes_def us_keep_def option.map_ident)

lemma us_writesD:
  assumes "us_writes view ws R s s'"
  shows "us_prot view s v \<noteq> None \<Longrightarrow> us_read view s' v = overlaid ws (us_read view s) v"
    and "us_prot view s v \<noteq> None \<Longrightarrow> us_prot view s' v = map_option (\<lambda>fl. if R v then fl - {WRITABLE} else fl) (us_prot view s v)"
    and "us_prot view s' v = None \<Longrightarrow> us_prot view s v = None"
proof -
  show "us_prot view s v \<noteq> None \<Longrightarrow> us_read view s' v = overlaid ws (us_read view s) v"
    and *: "us_prot view s v \<noteq> None \<Longrightarrow> us_prot view s' v = map_option (\<lambda>fl. if R v then fl - {WRITABLE} else fl) (us_prot view s v)"
    using assms unfolding us_writes_def by blast+
  show "us_prot view s' v = None \<Longrightarrow> us_prot view s v = None" using * by (cases "us_prot view s v") auto
qed

lemma us_writes_trans:
  assumes "us_writes view ws R s s1" and "us_writes view ws' R' s1 s'"
  shows "us_writes view (ws @ ws') (\<lambda>v. R v \<or> R' v) s s'"
  unfolding us_writes_def
proof (intro allI impI)
  fix v assume v: "us_prot view s v \<noteq> None"
  note a = us_writesD(1,2) [OF assms(1) v]
  have v1: "us_prot view s1 v \<noteq> None" using us_writesD(3) [OF assms(1), of v] v by metis
  have "overlaid ws' (us_read view s1) v = overlaid ws' (overlaid ws (us_read view s)) v"
    by (rule overlaid_cong) (rule a(1))
  moreover have "us_prot view s' v = map_option (\<lambda>fl. if R v \<or> R' v then fl - {WRITABLE} else fl) (us_prot view s v)"
    using us_writesD(2) [OF assms(2) v1] a(2) by (cases "us_prot view s v") auto
  ultimately show "us_read view s' v = overlaid (ws @ ws') (us_read view s) v
      \<and> us_prot view s' v = map_option (\<lambda>fl. if R v \<or> R' v then fl - {WRITABLE} else fl) (us_prot view s v)"
    using us_writesD(1) [OF assms(2) v1] by (simp add: overlaid_append)
qed

text \<open>What one LOAD segment shows right after it has been loaded.\<close>

definition us_segment ::
  "('t \<Rightarrow> nat \<Rightarrow> nat \<Rightarrow> (nat \<times> pt_flags) option) \<Rightarrow> memory \<Rightarrow> nat \<Rightarrow> program_header \<Rightarrow> 't user_mem \<Rightarrow> 't user_mem \<Rightarrow> bool" where
  "us_segment view m addr ph s s' \<longleftrightarrow>
     (\<forall>k<ph_memsz ph. us_prot view s (ph_vaddr ph + k) = None
        \<and> us_read view s' (ph_vaddr ph + k) = Some (seg_byte m addr ph k)
        \<and> us_prot view s' (ph_vaddr ph + k) = Some (insert USER_ACCESSIBLE (seg_flags ph))
        \<and> page_of (ph_vaddr ph + k) \<in> us_user view s')"

text \<open>What it shows after the whole load: its bytes with the relocations over them.\<close>

definition us_loaded ::
  "('t \<Rightarrow> nat \<Rightarrow> nat \<Rightarrow> (nat \<times> pt_flags) option) \<Rightarrow> memory \<Rightarrow> nat \<Rightarrow> (nat \<times> 8 word list) list \<Rightarrow> (nat \<Rightarrow> bool)
     \<Rightarrow> program_header \<Rightarrow> 't user_mem \<Rightarrow> bool" where
  "us_loaded view m addr ws R ph s' \<longleftrightarrow>
     (\<forall>k<ph_memsz ph. let v = ph_vaddr ph + k in
        us_read view s' v = overlaid ws (\<lambda>_. Some (seg_byte m addr ph k)) v
        \<and> us_prot view s' v = Some (insert USER_ACCESSIBLE (if R v then seg_flags ph - {WRITABLE} else seg_flags ph))
        \<and> page_of v \<in> us_user view s')"

lemma us_loaded_out:
  assumes "us_loaded view m addr ws R ph s'" and "\<forall>k<ph_memsz ph. overlay ws0 (ph_vaddr ph + k) = None \<and> \<not> R0 (ph_vaddr ph + k)"
  shows "us_loaded view m addr (ws0 @ ws) (\<lambda>v. R0 v \<or> R v) ph s'"
  using assms by (simp add: us_loaded_def Let_def overlaid_out)

context user_elf
begin

lemma user_header_load:
  assumes "user_load_segment E sg ph s = Inr s'" and "us_at view U m addr len s" and "user_image_ok m addr len d [ph]"
    and "ph_kind ph = PtLoad" and "ph_memsz ph \<noteq> 0" and prep: "user_prepare_segment E addr ph = Inr sg"
  shows "us_step view U s s' \<and> us_keep view s s' \<and> us_segment view m addr ph s s'"
proof -
  let ?S = "ph_vaddr ph" and ?B = "addr + ph_offset ph"
  have im: "18446603336221196288 \<le> ?S" "?S + ph_memsz ph + 4096 \<le> two64" "?S mod 4096 = ?B mod 4096" "ph_offset ph + ph_filesz ph \<le> len"
    using assms(3,4) by (auto simp: user_image_ok_def)
  have "?S < two64" using im(2) by linarith
  note sg = user_prepare_eq [OF prep im(1) this assms(5)]
  have at: "us_ok view U s" "1 \<le> len" "\<And>a. page_of addr \<le> a \<Longrightarrow> a < page_of (addr + len - 1) + 4096 \<Longrightarrow> a \<notin> U"
    using assms(2) by (auto simp: us_at_def)
  have out: "\<forall>a. page_of ?B \<le> a \<and> a < page_of (?B + ph_filesz ph - 1) + 4096 \<longrightarrow> a \<notin> U"
  proof (intro allI impI, elim conjE, rule at(3))
    fix a assume a: "page_of ?B \<le> a" "a < page_of (?B + ph_filesz ph - 1) + 4096"
    show "page_of addr \<le> a" using a(1) page_of_mono [of addr ?B] by linarith
    have "page_of (?B + ph_filesz ph - 1) \<le> page_of (addr + len - 1)" by (rule page_of_mono) (use im(4) in linarith)
    with a(2) show "a < page_of (addr + len - 1) + 4096" by linarith
  qed
  have "km_bytes (snd s) (?B + k) = m (?B + k)" if "k < ph_filesz ph" for k
    by (rule us_at_image(2) [OF assms(2)]) (use that im(4) in linarith)+
  then show ?thesis
    using user_load_segment_ok [OF assms(1) at(1) im(1,2) sg(1) im(3) sg(2) out sg(3)] by (auto simp: us_segment_def seg_byte_def)
qed

lemma user_header_relro:
  assumes "user_update_page_flag E (range_list 4096 (page_of a) (page_of b)) (- {WRITABLE}) s = Inr s'" and "us_ok view U s"
  shows "us_step view U s s' \<and> us_effect view [] (\<lambda>v. page_of a \<le> page_of v \<and> page_of v \<le> page_of b) s s'"
proof -
  have ok: "(\<forall>p\<in>set (range_list 4096 (page_of a) (page_of b)). us_view view s p \<noteq> None) \<and> us_step view U s s'
     \<and> (\<forall>v. us_read view s' v = us_read view s v)
     \<and> (\<forall>v. vflags (us_view view s') v = map_option (\<lambda>fl. if page_of v \<in> set (range_list 4096 (page_of a) (page_of b))
          then fl \<inter> - {WRITABLE} else fl) (vflags (us_view view s) v))"
    by (rule user_update_flags_ok [OF assms]) (auto simp: user_page_range)
  have "us_prot view s' v = map_option (\<lambda>fl. if page_of a \<le> page_of v \<and> page_of v \<le> page_of b then fl - {WRITABLE} else fl)
      (us_prot view s v)" for v
    using ok by (cases "vflags (us_view view s) v") (auto simp: us_prot_def user_page_range)
  moreover have "\<not> (page_of a \<le> page_of v \<and> page_of v \<le> page_of b)" if "us_prot view s v = None" for v
    using ok that by (auto simp: us_prot_None user_page_range)
  ultimately show ?thesis using ok by (simp add: us_effect_def us_writes_def)
qed

lemma user_header_dynamic:
  assumes "user_load_dynamic E addr len d ph s = Inr s'" and "us_at view U m addr len s" and "user_image_ok m addr len d [ph]"
  shows "us_step view U s s' \<and> us_effect view (user_dyn_writes m addr d ph) (\<lambda>_. False) s s'"
proof -
  note ok = user_load_dynamic_ok [OF assms]
  have "overlay (user_dyn_writes m addr d ph) v = None" if "us_prot view s v = None" for v
  proof -
    have "us_view view s' (page_of v) = None" using ok that us_prot_None by metis
    then have "us_read view s' v = None" by (simp add: us_read_def vread_def)
    with ok show ?thesis by (auto simp: overlaid_def split: option.splits)
  qed
  with ok show ?thesis by (simp add: us_effect_def us_writes_def option.map_ident)
qed

lemma user_load_header_ok:
  assumes "user_load_header E addr len d ph tls s = Inr (tls', s')"
    and "us_at view U m addr len s" and "user_image_ok m addr len d [ph]"
  shows "us_step view U s s' \<and> us_effect view (user_load_writes m addr d [ph]) (relro_seg 0 0 ph) s s'
     \<and> (ph_kind ph = PtLoad \<longrightarrow> us_segment view m addr ph s s')"
proof (cases "ph_memsz ph = 0")
  case True
  then have "relro_seg 0 0 ph = (\<lambda>_. False)" by (simp add: relro_seg_def fun_eq_iff)
  moreover have "s' = s" using assms(1) True by (simp add: user_load_header_def)
  ultimately show ?thesis
    using True assms(2) us_effect_keep [OF us_keep_refl] by (simp add: us_at_def us_step_refl us_segment_def)
next
  case False
  from assms(1) False obtain sg where prep: "user_prepare_segment E addr ph = Inr sg"
    by (auto simp: user_load_header_def and_then_eq_Inr)
  have run: "(case ph_kind ph of
            PtLoad \<Rightarrow> and_then (user_load_segment E sg ph s) (\<lambda>s1. Inr (tls, s1))
          | PtDynamic \<Rightarrow> and_then (user_load_dynamic E addr len d ph s) (\<lambda>s1. Inr (tls, s1))
          | PtGnuRelro \<Rightarrow>
              and_then (user_update_page_flag E (range_list 4096 (sg_start_page sg) (sg_end_page sg))
                          (- {WRITABLE}) s) (\<lambda>s1. Inr (tls, s1))
          | PtTls \<Rightarrow> Inr (Some \<lparr>tls_start_virt_addr = sg_start sg, tls_mem_size = ph_memsz ph,
                         tls_file_size = ph_filesz ph\<rparr>, s)
          | _ \<Rightarrow> Inr (tls, s)) = Inr (tls', s')"
    using assms(1) False by (simp add: user_load_header_def prep)
  have ok: "us_ok view U s" using assms(2) by (simp add: us_at_def)
  have R: "relro_seg 0 0 ph = (\<lambda>v. ph_kind ph = PtGnuRelro \<and> page_of (ph_vaddr ph) \<le> page_of v
      \<and> page_of v \<le> page_of (ph_vaddr ph + ph_memsz ph - 1))" using False by (simp add: relro_seg_def fun_eq_iff)
  have other: ?thesis if "s' = s" "ph_kind ph \<notin> {PtLoad, PtDynamic, PtGnuRelro}"
    using that R us_step_refl [OF ok] us_effect_keep [OF us_keep_refl, of view s] by simp
  show ?thesis
  proof (cases "ph_kind ph")
    case PtLoad
    with run have "user_load_segment E sg ph s = Inr s'" by (auto simp: run_simps)
    from user_header_load [OF this assms(2,3) PtLoad False prep] show ?thesis
      using PtLoad R us_effect_keep [of view s s'] by simp
  next
    case PtDynamic
    with run have "user_load_dynamic E addr len d ph s = Inr s'" by (auto simp: run_simps)
    from user_header_dynamic [OF this assms(2,3)] show ?thesis using PtDynamic R False by simp
  next
    case PtGnuRelro
    have im: "18446603336221196288 \<le> ph_vaddr ph" "ph_vaddr ph < two64"
      using assms(3) PtGnuRelro by (auto simp: user_image_ok_def)
    from run PtGnuRelro have "user_update_page_flag E (range_list 4096 (page_of (ph_vaddr ph)) (page_of (ph_vaddr ph + ph_memsz ph - 1)))
        (- {WRITABLE}) s = Inr s'"
      using user_prepare_eq(3) [OF prep im False] by (auto simp: run_simps)
    from user_header_relro [OF this ok] show ?thesis using PtGnuRelro R by simp
  qed (use run other in simp_all)
qed

lemma us_loaded_later:
  assumes "us_segment view m addr ph s s1" and "us_writes view ws R s1 s'" and "us_step view U s1 s'"
  shows "us_loaded view m addr ws R ph s'"
  unfolding us_loaded_def Let_def
proof (intro allI impI)
  fix k assume k: "k < ph_memsz ph"
  let ?v = "ph_vaddr ph + k"
  have g: "us_read view s1 ?v = Some (seg_byte m addr ph k)" "us_prot view s1 ?v = Some (insert USER_ACCESSIBLE (seg_flags ph))"
    "page_of ?v \<in> us_user view s1" using assms(1) k by (auto simp: us_segment_def)
  have "overlaid ws (us_read view s1) ?v = overlaid ws (\<lambda>_. Some (seg_byte m addr ph k)) ?v"
    by (rule overlaid_cong) (simp add: g(1))
  moreover have "insert USER_ACCESSIBLE (seg_flags ph) - {WRITABLE} = insert USER_ACCESSIBLE (seg_flags ph - {WRITABLE})" by auto
  ultimately show "us_read view s' ?v = overlaid ws (\<lambda>_. Some (seg_byte m addr ph k)) ?v
      \<and> us_prot view s' ?v = Some (insert USER_ACCESSIBLE (if R ?v then seg_flags ph - {WRITABLE} else seg_flags ph))
      \<and> page_of ?v \<in> us_user view s'"
    using us_writesD(1,2) [OF assms(2), of ?v] g us_step_user [OF assms(3) g(3)] by simp
qed

lemma user_load_segments_ok:
  assumes "user_load_segments E addr len d phs tls s = Inr (tls', s')"
    and "us_at view U m addr len s" and "user_image_ok m addr len d phs"
  shows "us_step view U s s' \<and> us_writes view (user_load_writes m addr d phs) (in_relro 0 0 phs) s s'
     \<and> (\<forall>ph\<in>set phs. ph_kind ph = PtLoad \<longrightarrow> (\<forall>k<ph_memsz ph. us_prot view s (ph_vaddr ph + k) = None)
          \<and> us_loaded view m addr (user_load_writes m addr d phs) (in_relro 0 0 phs) ph s')"
  using assms
proof (induction phs arbitrary: tls s)
  case Nil
  then show ?case by (simp add: us_at_def us_step_refl us_writes_def in_relro_def option.map_ident)
next
  case (Cons ph phs)
  from Cons.prems(1) obtain tls1 s1 where head: "user_load_header E addr len d ph tls s = Inr (tls1, s1)"
    and rest: "user_load_segments E addr len d phs tls1 s1 = Inr (tls', s')" by (auto simp: run_simps)
  have im: "user_image_ok m addr len d [ph]" "user_image_ok m addr len d phs"
    using Cons.prems(3) by (simp_all add: user_image_ok_def)
  let ?wh = "user_load_writes m addr d [ph]" and ?ws = "user_load_writes m addr d phs"
  have h: "us_step view U s s1" "us_writes view ?wh (relro_seg 0 0 ph) s s1"
    "\<And>v. us_prot view s v = None \<Longrightarrow> overlay ?wh v = None \<and> \<not> relro_seg 0 0 ph v"
    "ph_kind ph = PtLoad \<Longrightarrow> us_segment view m addr ph s s1"
    using user_load_header_ok [OF head Cons.prems(2) im(1)] by (auto simp: us_effect_def)
  note IH = Cons.IH [OF rest us_at_step [OF Cons.prems(2) h(1)] im(2)]
  have e: "user_load_writes m addr d (ph # phs) = ?wh @ ?ws" "in_relro 0 0 (ph # phs) = (\<lambda>v. relro_seg 0 0 ph v \<or> in_relro 0 0 phs v)"
    by (auto simp: in_relro_def fun_eq_iff)
  have sg: "(\<forall>k<ph_memsz ph'. us_prot view s (ph_vaddr ph' + k) = None)
      \<and> us_loaded view m addr (?wh @ ?ws) (\<lambda>v. relro_seg 0 0 ph v \<or> in_relro 0 0 phs v) ph' s'"
    if ph': "ph' \<in> set (ph # phs)" "ph_kind ph' = PtLoad" for ph'
  proof -
    have "(\<forall>k<ph_memsz ph'. us_prot view s (ph_vaddr ph' + k) = None)
        \<and> us_loaded view m addr ?ws (in_relro 0 0 phs) ph' s'"
    proof (cases "ph' \<in> set phs")
      case True
      with IH ph'(2) us_writesD(3) [OF h(2)] show ?thesis by blast
    next
      case False
      with ph' h(4) have sg: "us_segment view m addr ph' s s1" by auto
      from IH have "us_loaded view m addr ?ws (in_relro 0 0 phs) ph' s'"
        by (intro us_loaded_later [OF sg, of _ _ _ U]) blast+
      with sg show ?thesis by (simp add: us_segment_def)
    qed
    then show ?thesis using h(3) by (intro conjI us_loaded_out) blast+
  qed
  have w: "us_writes view (?wh @ ?ws) (\<lambda>v. relro_seg 0 0 ph v \<or> in_relro 0 0 phs v) s s'"
    by (rule us_writes_trans [OF h(2)]) (use IH in blast)
  have st: "us_step view U s s'" by (rule us_step_trans [OF h(1)]) (use IH in blast)
  show ?case
  proof (intro conjI ballI impI)
    show "us_step view U s s'" by (rule st)
    show "us_writes view (user_load_writes m addr d (ph # phs)) (in_relro 0 0 (ph # phs)) s s'"
      by (subst e(1), subst e(2), rule w)
    fix ph' assume p: "ph' \<in> set (ph # phs)" "ph_kind ph' = PtLoad"
    show "\<forall>k<ph_memsz ph'. us_prot view s (ph_vaddr ph' + k) = None" by (rule sg [OF p, THEN conjunct1])
    show "us_loaded view m addr (user_load_writes m addr d (ph # phs)) (in_relro 0 0 (ph # phs)) ph' s'"
      by (subst e(1), subst e(2), rule sg [OF p, THEN conjunct2])
  qed
qed

end

subsection \<open>The second pass\<close>

definition us_marked :: "('t \<Rightarrow> nat \<Rightarrow> nat \<Rightarrow> (nat \<times> pt_flags) option) \<Rightarrow> 't user_mem \<Rightarrow> nat \<Rightarrow> bool" where
  "us_marked view s v \<longleftrightarrow> (\<exists>fl. vflags (us_view view s) v = Some fl \<and> BIT_9 \<in> fl)"

text \<open>The exact flags of a page, from what is known of it up to the mark and \<open>USER_ACCESSIBLE\<close>.\<close>

lemma us_flags_exact:
  assumes "us_prot view s v = Some fl" and "page_of v \<in> us_user view s" and "\<not> us_marked view s v"
  shows "vflags (us_view view s) v = Some fl"
  using assms by (auto simp: us_prot_def us_user_def us_marked_def vflags_def)

context user_elf
begin

lemma user_unmark_pages:
  assumes "user_update_page_flag E (range_list 4096 (page_of a) (page_of b)) (- {BIT_9}) s = Inr s'" and "us_ok view U s"
  shows "us_step view U s s'" and "us_read view s' v = us_read view s v" and "us_prot view s' v = us_prot view s v"
    and "us_marked view s' v \<longleftrightarrow> us_marked view s v \<and> \<not> (page_of a \<le> page_of v \<and> page_of v \<le> page_of b)"
proof -
  have ok: "(\<forall>p\<in>set (range_list 4096 (page_of a) (page_of b)). us_view view s p \<noteq> None) \<and> us_step view U s s'
     \<and> (\<forall>v. us_read view s' v = us_read view s v)
     \<and> (\<forall>v. vflags (us_view view s') v = map_option (\<lambda>fl. if page_of v \<in> set (range_list 4096 (page_of a) (page_of b))
          then fl \<inter> - {BIT_9} else fl) (vflags (us_view view s) v))"
    by (rule user_update_flags_ok [OF assms]) (auto simp: user_page_range)
  then show "us_step view U s s'" and "us_read view s' v = us_read view s v" by blast+
  have fl: "vflags (us_view view s') v = map_option (\<lambda>fl. if page_of a \<le> page_of v \<and> page_of v \<le> page_of b
      then fl - {BIT_9} else fl) (vflags (us_view view s) v)"
    using ok by (cases "vflags (us_view view s) v") (auto simp: user_page_range)
  then show "us_prot view s' v = us_prot view s v"
    by (cases "vflags (us_view view s) v") (auto simp: us_prot_def)
  show "us_marked view s' v \<longleftrightarrow> us_marked view s v \<and> \<not> (page_of a \<le> page_of v \<and> page_of v \<le> page_of b)"
    using fl by (cases "vflags (us_view view s) v") (auto simp: us_marked_def)
qed

lemma user_unmark_private_ok:
  assumes "user_unmark_private E phs s = Inr s'" and "us_ok view U s" and "user_image_ok m addr len d phs"
  shows "us_step view U s s' \<and> (\<forall>v. us_read view s' v = us_read view s v \<and> us_prot view s' v = us_prot view s v)
     \<and> (\<forall>v. us_marked view s' v \<longrightarrow> us_marked view s v)
     \<and> (\<forall>ph\<in>set phs. ph_kind ph = PtLoad \<longrightarrow> (\<forall>k<ph_memsz ph. \<not> us_marked view s' (ph_vaddr ph + k)))"
  using assms
proof (induction phs arbitrary: s)
  case Nil
  then show ?case by (simp add: us_step_refl)
next
  case (Cons ph phs)
  have im: "user_image_ok m addr len d phs" using Cons.prems(3) by (simp add: user_image_ok_def)
  show ?case
  proof (cases "ph_memsz ph = 0 \<or> ph_kind ph \<noteq> PtLoad")
    case True
    with Cons.prems(1) have "user_unmark_private E phs s = Inr s'" by simp
    from Cons.IH [OF this Cons.prems(2) im] True show ?thesis by auto
  next
    case False
    let ?S = "ph_vaddr ph"
    have hi: "18446603336221196288 \<le> ?S" "?S + ph_memsz ph < two64"
      using False Cons.prems(3) by (auto simp: user_image_ok_def)
    have nw: "VirtAddr_new (ke_x86 E) ?S = Inr ?S" by (rule VirtAddr_new_high) (use hi in linarith)+
    have l: "VirtAddr_sub (ke_x86 E) (?S + ph_memsz ph) 1 = Inr (?S + ph_memsz ph - 1)"
      by (rule VirtAddr_sub_high) (use hi False in linarith)+
    from Cons.prems(1) False obtain s1 where
      up: "user_update_page_flag E (range_list 4096 (page_of ?S) (page_of (?S + ph_memsz ph - 1))) (- {BIT_9}) s = Inr s1"
      and rest: "user_unmark_private E phs s1 = Inr s'"
      by (auto simp: run_simps nw VirtAddr_add_high [OF hi(1)] l [unfolded One_nat_def] user_page_containing)
    note u = user_unmark_pages [OF up Cons.prems(2)]
    note IH = Cons.IH [OF rest us_step_ok [OF u(1)] im]
    have "\<not> us_marked view s' (?S + k)" if "k < ph_memsz ph" for k
    proof -
      have "page_of ?S \<le> page_of (?S + k)" "page_of (?S + k) \<le> page_of (?S + ph_memsz ph - 1)"
        by (rule page_of_mono, use that in linarith)+
      then show ?thesis using IH u(4) [of "?S + k"] by blast
    qed
    moreover have "us_step view U s s'" by (rule us_step_trans [OF u(1)]) (use IH in blast)
    ultimately show ?thesis using IH u(2-4) by simp
  qed
qed

subsection \<open>The whole loader\<close>

lemma elf_copy_parts:
  assumes "elf_copy_to_addrsp E parse addr len s = Inr (entry, s')" and "parse (km_bytes (snd s)) addr len = Some f"
    and "elf_range f = Inr (d, n)" and "canonical (elf_entry f)"
  obtains tls s1 where "0 < len" "user_load_segments E addr len d (elf_phs f) None s = Inr (tls, s1)"
    "user_unmark_private E (elf_phs f) s1 = Inr s'" "entry = elf_entry f"
  using assms by (auto simp: elf_copy_to_addrsp_def run_simps PhysAddr_new_eq_Inr VirtAddr_new_ok split: if_splits)

end

lemma user_image_result:
  fixes s s' :: "'t user_mem"
  assumes "user_elf E view tab" and "parse (km_bytes (snd s)) addr len = Some f" and "elf_range f = Inr (d, n)"
    and "user_image_ok (km_bytes (snd s)) addr len d (elf_phs f)" and "canonical (elf_entry f)"
    and "kg_wf (km_frames (snd s))"
    and "vm_ok (fresh_bytes (km_frames (snd s))) (kg_cursor (km_frames (snd s))) (us_view view s)"
    and "\<forall>a. page_of addr \<le> a \<and> a < page_of (addr + len - 1) + 4096 \<longrightarrow> a \<notin> fresh_bytes (km_frames (snd s))"
    and "elf_copy_to_addrsp E parse addr len s = Inr (entry, s')"
  defines "ws \<equiv> user_load_writes (km_bytes (snd s)) addr d (elf_phs f)"
  shows "entry = elf_entry f"
    and "\<forall>ph\<in>set (elf_phs f). ph_kind ph = PtLoad \<longrightarrow> (\<forall>i<ph_memsz ph.
          us_read view s' (ph_vaddr ph + i) = overlaid ws (\<lambda>_. Some (seg_byte (km_bytes (snd s)) addr ph i)) (ph_vaddr ph + i)
          \<and> vflags (us_view view s') (ph_vaddr ph + i)
              = Some (insert USER_ACCESSIBLE (if in_relro 0 0 (elf_phs f) (ph_vaddr ph + i) then seg_flags ph - {WRITABLE} else seg_flags ph)))"
    and "\<forall>v. us_prot view s v \<noteq> None \<longrightarrow> us_read view s' v = overlaid ws (us_read view s) v"
    and "\<forall>x. x \<notin> fresh_bytes (km_frames (snd s)) \<longrightarrow> km_bytes (snd s') x = km_bytes (snd s) x"
proof -
  note B = assms(1)
  let ?U = "fresh_bytes (km_frames (snd s))" and ?m = "km_bytes (snd s)" and ?R = "in_relro 0 0 (elf_phs f)"
  obtain tls s1 where p: "0 < len" "user_load_segments E addr len d (elf_phs f) None s = Inr (tls, s1)"
    "user_unmark_private E (elf_phs f) s1 = Inr s'" "entry = elf_entry f"
    by (rule user_elf.elf_copy_parts [OF B assms(9,2,3,5)])
  show "entry = elf_entry f" by (rule p(4))
  have at: "us_at view ?U ?m addr len s" using assms(6-8) p(1) by (simp add: us_at_def us_ok_def)
  have L: "us_step view ?U s s1" "us_writes view ws ?R s s1"
    "\<And>ph. ph \<in> set (elf_phs f) \<Longrightarrow> ph_kind ph = PtLoad \<Longrightarrow> us_loaded view ?m addr ws ?R ph s1"
    using user_elf.user_load_segments_ok [OF B p(2) at assms(4)] unfolding ws_def by blast+
  note N = user_elf.user_unmark_private_ok [OF B p(3) us_step_ok [OF L(1)] assms(4)]
  have st: "us_step view ?U s s'" by (rule us_step_trans [OF L(1)]) (use N in blast)
  show "\<forall>x. x \<notin> ?U \<longrightarrow> km_bytes (snd s') x = ?m x" using st by (simp add: us_step_def)
  show "\<forall>v. us_prot view s v \<noteq> None \<longrightarrow> us_read view s' v = overlaid ws (us_read view s) v"
    using N us_writesD(1) [OF L(2)] by simp
  show "\<forall>ph\<in>set (elf_phs f). ph_kind ph = PtLoad \<longrightarrow> (\<forall>i<ph_memsz ph.
          us_read view s' (ph_vaddr ph + i) = overlaid ws (\<lambda>_. Some (seg_byte ?m addr ph i)) (ph_vaddr ph + i)
          \<and> vflags (us_view view s') (ph_vaddr ph + i)
              = Some (insert USER_ACCESSIBLE (if ?R (ph_vaddr ph + i) then seg_flags ph - {WRITABLE} else seg_flags ph)))"
  proof (intro ballI impI allI)
    fix ph i assume ph: "ph \<in> set (elf_phs f)" "ph_kind ph = PtLoad" and i: "i < ph_memsz ph"
    let ?v = "ph_vaddr ph + i"
    have g: "us_read view s1 ?v = overlaid ws (\<lambda>_. Some (seg_byte ?m addr ph i)) ?v"
      "us_prot view s1 ?v = Some (insert USER_ACCESSIBLE (if ?R ?v then seg_flags ph - {WRITABLE} else seg_flags ph))"
      "page_of ?v \<in> us_user view s1"
      using L(3) [OF ph] i by (auto simp: us_loaded_def Let_def)
    have st1: "us_step view ?U s1 s'" and nm: "\<not> us_marked view s' ?v" using N ph i by blast+
    have "page_of ?v \<in> us_user view s'" using g(3) st1 by (auto simp: us_step_def)
    from us_flags_exact [OF _ this nm] g(1,2) N
    show "us_read view s' ?v = overlaid ws (\<lambda>_. Some (seg_byte ?m addr ph i)) ?v
      \<and> vflags (us_view view s') ?v = Some (insert USER_ACCESSIBLE (if ?R ?v then seg_flags ph - {WRITABLE} else seg_flags ph))"
      by simp
  qed
qed

text \<open>C11. The kernel's loader: when \<open>elf_copy_to_addrsp\<close> returns, it returns the entry point of the file; every byte of
  every LOAD segment is the byte of the image or zero behind the file part, with the relocations over it, and
  its page is accessible to user mode with the segment's access rights, not writable in the read-only range; pages
  mapped before show what they showed, except where a relocation writes; and no byte of memory changes outside
  the frames the allocator could still hand out, so neither the image, the kernel nor any other program is
  touched.  It is assumed that the image satisfies \<open>user_image_ok\<close> and does not overlap free frames, and that
  no free frame is mapped in the address space.\<close>

theorem user_image_loaded:
  assumes "user_elf E view tab" and "parse (km_bytes (snd s)) addr len = Some f" and "elf_range f = Inr (d, n)"
    and "user_image_ok (km_bytes (snd s)) addr len d (elf_phs f)" and "canonical (elf_entry f)"
    and "kg_wf (km_frames (snd s))"
    and "vm_ok (fresh_bytes (km_frames (snd s))) (kg_cursor (km_frames (snd s))) (us_view view s)"
    and "\<forall>a. page_of addr \<le> a \<and> a < page_of (addr + len - 1) + 4096 \<longrightarrow> a \<notin> fresh_bytes (km_frames (snd s))"
    and "elf_copy_to_addrsp E parse addr len s = Inr (entry, s')"
  defines "ws \<equiv> user_load_writes (km_bytes (snd s)) addr d (elf_phs f)"
  shows "entry = elf_entry f
     \<and> (\<forall>ph\<in>set (elf_phs f). ph_kind ph = PtLoad \<longrightarrow> (\<forall>i<ph_memsz ph.
          us_read view s' (ph_vaddr ph + i) = overlaid ws (\<lambda>_. Some (seg_byte (km_bytes (snd s)) addr ph i)) (ph_vaddr ph + i)
          \<and> vflags (us_view view s') (ph_vaddr ph + i)
              = Some (insert USER_ACCESSIBLE (if in_relro 0 0 (elf_phs f) (ph_vaddr ph + i) then seg_flags ph - {WRITABLE} else seg_flags ph))))
     \<and> (\<forall>v. us_prot view s v \<noteq> None \<longrightarrow> us_read view s' v = overlaid ws (us_read view s) v)
     \<and> (\<forall>x. x \<notin> fresh_bytes (km_frames (snd s)) \<longrightarrow> km_bytes (snd s') x = km_bytes (snd s) x)"
  unfolding ws_def by (intro conjI user_image_result [OF assms(1-9)])

text \<open>A program with one segment, one relocation and a read-only range.\<close>

definition prog_phs :: "program_header list" where
  "prog_phs =
     [\<lparr>ph_type = Some PtLoad, ph_sane = True, ph_offset = 0, ph_vaddr = 0xFFFF800000000000, ph_filesz = 0x200, ph_memsz = 0x1200,
       ph_execute = False, ph_write = True, ph_data = SegmentOther\<rparr>,
      \<lparr>ph_type = Some PtDynamic, ph_sane = True, ph_offset = 0x100, ph_vaddr = 0xFFFF800000000100, ph_filesz = 0x30, ph_memsz = 0x30,
       ph_execute = False, ph_write = True,
       ph_data = Dynamic64 [\<lparr>dyn_tag = Some TagRela, dyn_val = Some 0xFFFF800000000180\<rparr>, \<lparr>dyn_tag = Some TagRelaSize, dyn_val = Some 24\<rparr>,
         \<lparr>dyn_tag = Some TagRelaEnt, dyn_val = Some 24\<rparr>]\<rparr>,
      \<lparr>ph_type = Some PtGnuRelro, ph_sane = True, ph_offset = 0x100, ph_vaddr = 0xFFFF800000000000, ph_filesz = 0x30, ph_memsz = 0x30,
       ph_execute = False, ph_write = True, ph_data = SegmentOther\<rparr>]"

definition prog_elf :: elf_file where
  "prog_elf = \<lparr>elf_type = Executable, elf_sane = True, elf_entry = 0xFFFF800000000040, elf_phs = prog_phs\<rparr>"

definition prog_mem :: memory where
  "prog_mem = (\<lambda>a. if a = 0x7FC0000180 \<or> a = 0x7FC0000188 then 8 else if a = 0x7FC0000190 then 0x40
     else if a = 0x7FC0000185 \<or> a = 0x7FC0000195 then 0x80
     else if a = 0x7FC0000186 \<or> a = 0x7FC0000187 \<or> a = 0x7FC0000196 \<or> a = 0x7FC0000197 then 0xFF else 0)"

definition prog_tables :: table_mem where
  "prog_tables = \<lparr>tm_entries = (\<lambda>r i. if r = 0x101000 then Some i else None), tm_pages = (\<lambda>_ _. None)\<rparr>"

definition prog_state :: "table_mem user_mem" where
  "prog_state = (\<lparr>page_table = 0x102000, pte_frames = [], tracked_large_buffers = [], tracked_medium_buffers = [],
      medium_buffer_pointer = 0, tracked_small_buffers = [], small_buffer_pointer = 0, consumed_page_count = 2, as_base_address = 0\<rparr>,
    \<lparr>km_frames = late_frames 0x200000, km_tables = prog_tables, km_bytes = prog_mem, KERNEL_PML4_PAGE_TABLE = Some 0x101000, km_cr3 = 0x102000\<rparr>)"

definition prog_parse :: "memory \<Rightarrow> nat \<Rightarrow> nat \<Rightarrow> elf_file option" where
  "prog_parse m a n = Some prog_elf"

lemma prog_rela: "read_rela prog_mem 0x7FC0000180 = \<lparr>rela_offset = 0xFFFF800000000008, rela_info = 8, rela_addend = 0xFFFF800000000040\<rparr>"
  by (simp add: read_rela_def read64_def prog_mem_def upt8)

lemma prog_range: "elf_range prog_elf = Inr (0xFFFF800000000000, 0x1200)"
  by (simp add: elf_range_def prog_elf_def prog_phs_def)

lemma prog_image_ok: "user_image_ok prog_mem 0x7FC0000000 0x1000 0xFFFF800000000000 (elf_phs prog_elf)"
  by (simp add: user_image_ok_def prog_elf_def prog_phs_def ph_kind_def rela_table_def prog_rela canonical_def Let_def)

lemma prog_tables_view: "tm_view prog_tables 0x102000 = Map.empty"
  by (simp add: tm_view_def prog_tables_def fun_eq_iff)

lemmas user_eval = us_alloc_def us_fill_def us_push_def raw_map_to_def as_map_to_def km_map_to_def raw_unmap_def raw_translate_def
  raw_update_flags_def push_tracked_frame_def frame_dealloc_def table_env_def table_mem_ops_def tm_put_view late_alloc
  x86_model_eval canonical_def range_list_def seg_flags_def ph_kind_def Let_def prog_tables_view

lemma prog_segments:
  "\<exists>s1 s2. user_load_segments table_env 0x7FC0000000 0x1000 0xFFFF800000000000 prog_phs None prog_state = Inr (None, s1)
     \<and> user_unmark_private table_env prog_phs s1 = Inr s2"
  by (simp add: user_load_header_def user_prepare_segment_def prog_phs_def user_load_segment_def user_map_page_def
      user_clear_bss_head_def user_copy_page_and_remap_def prog_state_def user_load_dynamic_def rela_table_def user_apply_rela_def
      prog_rela read_rela_write rela_symbol_def rela_type_def user_copy_pages_and_write_def write_page_part_def user_eval)

theorem user_image_loaded_witness:
  "\<exists>s'. elf_copy_to_addrsp table_env prog_parse 0x7FC0000000 0x1000 prog_state = Inr (0xFFFF800000000040, s')
     \<and> us_read tm_view s' 0xFFFF800000000008 = Some 0x40 \<and> us_read tm_view s' 0xFFFF800000001100 = Some 0
     \<and> vflags (us_view tm_view s') 0xFFFF800000000008 = Some {USER_ACCESSIBLE, PRESENT, NO_EXECUTE}
     \<and> vflags (us_view tm_view s') 0xFFFF800000001100 = Some {USER_ACCESSIBLE, PRESENT, NO_EXECUTE, WRITABLE}"
proof -
  let ?d = "0xFFFF800000000000 :: nat"
  obtain s1 s' where "user_load_segments table_env 0x7FC0000000 0x1000 ?d prog_phs None prog_state = Inr (None, s1)"
    "user_unmark_private table_env prog_phs s1 = Inr s'" using prog_segments by blast
  then have run: "elf_copy_to_addrsp table_env prog_parse 0x7FC0000000 0x1000 prog_state = Inr (0xFFFF800000000040, s')"
    using prog_range by (simp add: elf_copy_to_addrsp_def prog_parse_def sanity_checks_def table_env_def x86_model_eval canonical_def)
      (simp add: prog_elf_def prog_phs_def)
  have st: "km_bytes (snd prog_state) = prog_mem" "km_frames (snd prog_state) = late_frames 0x200000" by (simp_all add: prog_state_def)
  have V: "us_view tm_view prog_state = Map.empty" using prog_tables_view by (simp add: us_view_def prog_state_def)
  have lim: "kg_limit (late_frames 0x200000) = 0x1000000" by (simp add: kg_limit_def late_frames_def sample_allocator_def)
  have out: "\<forall>a. page_of 0x7FC0000000 \<le> a \<and> a < page_of (0x7FC0000000 + 0x1000 - 1) + 4096 \<longrightarrow> a \<notin> fresh_bytes (km_frames (snd prog_state))"
    unfolding st by (auto simp: fresh_bytes_def lim page_of_def)
  have vm: "vm_ok (fresh_bytes (km_frames (snd prog_state))) (kg_cursor (km_frames (snd prog_state))) (us_view tm_view prog_state)"
    by (simp add: V vm_ok_def)
  have wf: "kg_wf (km_frames (snd prog_state))" using late_wf [of "0x200000"] by (simp add: st)
  have parse: "prog_parse (km_bytes (snd prog_state)) 0x7FC0000000 0x1000 = Some prog_elf" by (simp add: prog_parse_def)
  have ent: "canonical (elf_entry prog_elf)" by (simp add: prog_elf_def canonical_def)
  note K = user_image_loaded [OF uem.user_elf_axioms parse prog_range prog_image_ok [folded st(1)] ent wf vm out run]
  have ph: "prog_phs ! 0 \<in> set (elf_phs prog_elf)" "ph_kind (prog_phs ! 0) = PtLoad" and sz: "ph_memsz (prog_phs ! 0) = 0x1200"
    and va: "ph_vaddr (prog_phs ! 0) = ?d" and fs: "ph_filesz (prog_phs ! 0) = 0x200" by (simp_all add: prog_elf_def prog_phs_def ph_kind_def)
  have G: "us_read tm_view s' (?d + i) = overlaid (user_load_writes prog_mem 0x7FC0000000 ?d prog_phs)
        (\<lambda>_. Some (seg_byte prog_mem 0x7FC0000000 (prog_phs ! 0) i)) (?d + i)
      \<and> vflags (us_view tm_view s') (?d + i) = Some (insert USER_ACCESSIBLE
          (if in_relro 0 0 prog_phs (?d + i) then seg_flags (prog_phs ! 0) - {WRITABLE} else seg_flags (prog_phs ! 0)))"
    if "i < 0x1200" for i
    using K [THEN conjunct2, THEN conjunct1, rule_format, OF ph, of i] that unfolding va sz st by (simp add: prog_elf_def)
  have ws: "user_load_writes prog_mem 0x7FC0000000 ?d prog_phs = [(0xFFFF800000000008, le_bytes 8 0xFFFF800000000040)]"
    by (simp add: prog_phs_def ph_kind_def user_dyn_writes_def rela_table_def user_rela_write_def prog_rela)
  have fl: "seg_flags (prog_phs ! 0) = {PRESENT, NO_EXECUTE, WRITABLE}" by (auto simp: seg_flags_def prog_phs_def)
  have ro: "in_relro 0 0 prog_phs (?d + 8)" "\<not> in_relro 0 0 prog_phs (?d + 0x1100)"
    by (simp_all add: in_relro_def relro_seg_def prog_phs_def ph_kind_def page_of_def)
  have by8: "le_bytes 8 v = word_of_nat (v mod 256) # le_bytes 7 (v div 256)" for v
    using le_bytes.simps(2) [of 7 v] by simp
  have "us_read tm_view s' (?d + 8) = Some 0x40" "us_read tm_view s' (?d + 0x1100) = Some 0"
    using G [of 8] G [of "0x1100"] by (simp_all add: ws overlaid_def by8 seg_byte_def fs)
  moreover have "vflags (us_view tm_view s') (?d + 8) = Some {USER_ACCESSIBLE, PRESENT, NO_EXECUTE}"
    using G [of 8] ro(1) unfolding fl by auto
  moreover have "vflags (us_view tm_view s') (?d + 0x1100) = Some {USER_ACCESSIBLE, PRESENT, NO_EXECUTE, WRITABLE}"
    using G [of "0x1100"] ro(2) unfolding fl by auto
  ultimately show ?thesis using run by simp
qed

end
