(* ===== verification/Spec2Isabelle.thy ===== *)
theory Spec2Isabelle
  imports Kernel_Frames Boot_Run Trap_Frames User_Space Contexts Scheduler Context_Switch Descriptors Io_Apic Local_Apic Framebuffer Boot_Acpi User_Load
begin

text \<open>
  This development verifies \<open>miniature\<close>, an operating system for x86-64 written in Rust: a UEFI
  bootloader (\<open>src/bootloader-efi\<close>), a kernel (\<open>src/kernel\<close>), the code both share (\<open>src/shared\<close>), the user
  library (\<open>src/libvdso\<close>) and the first user program (\<open>src/bootstrap\<close>).

  \<^bold>\<open>How the parts interact.\<close>  The bootloader asks the firmware for a graphics mode and the ACPI tables, reads
  the kernel and bootstrap images, leaves the boot services, builds the kernel's page table, loads the
  kernel into its slot 511, maps the bootstrap image, the stack, the framebuffer and the argument structure below
  it, lists the memory that is in use and jumps.  The kernel's \<open>_start\<close> gives that list to its frame
  allocator, sets up descriptor tables, APICs and the system call registers, starts the other
  processors, creates its contexts and switches between them; the first user context loads the bootstrap
  image into its address space and enters user mode.

  \<^bold>\<open>Conventions.\<close>  A Rust function is a HOL function into \<open>'a run\<close> (theory \<open>Prelude\<close>): \<open>Inr\<close> is a return, \<open>Inl\<close> a
  panic, an overflow (the images are debug builds, where overflow panics), an index out of bounds, a failed
  assertion, a loop that does not end, or undefined behaviour.  Structures are records, enums are datatypes,
  global variables are fields of an explicit state.  Integers that are only added and compared are natural numbers
  with the check for \<open>2\<^sup>6\<^sup>4\<close> written out, masked and shifted values are words.  Log output is left out.

  \<^bold>\<open>Parameters.\<close>  Third-party code is never defined here.  It is an argument of the definitions, its
  documented behaviour is the assumption of a locale, and each locale is interpreted: \<open>x86_laws\<close> (addresses and
  frames of the \<open>x86_64\<close> crate), \<open>mapper_laws\<close> and \<open>space_laws\<close> (its page-table functions), \<open>gdt_laws\<close> and
  \<open>idt_laws\<close> (its tables), \<open>font_laws\<close> (the bitmap font).  The ELF parser of \<open>xmas_elf\<close>, the \<open>acpi\<close> crate, the
  sort of the memory map and the devices are plain arguments.  The interpretations for these crates are concrete
  functions that satisfy the laws; they also serve the witnesses.  \<open>bump_allocator\<close> is the interface of the
  repository's own two frame allocators: the locale \<open>x86_laws\<close> is a sublocale of it on the definitions of
  \<open>Boot_Frames\<close> and of \<open>Kernel_Frames\<close>.  \<open>boot_maps\<close>, \<open>user_space\<close> and \<open>user_elf\<close> combine these contracts for
  their clients.

  \<^bold>\<open>The bootloader.\<close>
  \<^item> \<open>Boot_Acpi\<close>: \<open>acpi.rs\<close>, \<open>framebuffer.rs\<close>.  Which root pointer is accepted, what is collected from the MADT, when
    the arrays overflow, which graphics mode is chosen.
  \<^item> \<open>Boot_Frames\<close>: \<open>mem/frame_allocator.rs\<close>, \<open>mem/memory_descriptor.rs\<close>.  Frames are usable, aligned and never repeated;
    exhaustion is reported only when nothing is left.
  \<^item> \<open>Tracked_Mapper\<close>: \<open>mem/tracked_mapper.rs\<close>, the bookkeeping of page-table slots.
  \<^item> \<open>Boot_Maps\<close>: \<open>mem/runtime_map.rs\<close>, each region mapped page by page onto the intended frames.
  \<^item> \<open>Boot_Elf\<close>, \<open>Boot_Elf_Proofs\<close>, \<open>Boot_Load\<close>: \<open>kernel.rs\<close>.  The loader refines writes to a flat memory: every byte of
    every segment, the relocations and the access rights.
  \<^item> \<open>Boot_Main\<close>, \<open>Boot_Run\<close>: \<open>main.rs\<close> from the exit of the boot services to the jump, as the one function
    \<open>boot_kernel\<close>; the layout and the list of regions it leaves, and a concrete machine on which it runs.

  \<^bold>\<open>The kernel.\<close>
  \<^item> \<open>Kernel_Frames\<close>: \<open>mem/frame_allocator.rs\<close>.  The merge keeps exactly the reported bytes, blocks are disjoint and
    avoid them, the search ends, running out of memory is permanent.
  \<^item> \<open>User_Space\<close>: \<open>mem/user_addr_space.rs\<close>, \<open>mem/user_buffer.rs\<close>.  What a buffer resolves to, and which
    slots address spaces share.
  \<^item> \<open>User_Elf\<close>, \<open>User_Load\<close>: \<open>mem/load_elf.rs\<close>, the loader of user programs, against the same flat memory.
  \<^item> \<open>Machine\<close>, \<open>Trap_Frames\<close>: the processor's instructions as far as the assembly uses them, and the entry code of
    \<open>interrupt_macro.rs\<close> and \<open>syscall.rs\<close>, instruction by instruction.
  \<^item> \<open>Contexts\<close>, \<open>Scheduler\<close>, \<open>Context_Switch\<close>: \<open>context/*.rs\<close>.  Fresh numbers, the stack of a spawned context; a step
    relation of all processors with mutual exclusion and bounded waiting; the assembly of the switch.
  \<^item> \<open>Descriptors\<close>: \<open>gdt.rs\<close>, \<open>interrupt.rs\<close>, \<open>init_syscall\<close>.
  \<^item> \<open>Local_Apic\<close>, \<open>Io_Apic\<close>: \<open>acpi/*.rs\<close>, \<open>ipi.rs\<close>.  Interrupt commands, the start of the other processors, the routing
    of legacy interrupts.

  \<^bold>\<open>Shared.\<close>  \<open>Shared_Args\<close> (\<open>shared/src/arg.rs\<close>), \<open>Framebuffer\<close> (\<open>shared/src/framebuffer_writer.rs\<close>), \<open>Vdso\<close>
  (\<open>libvdso\<close>, \<open>bootstrap\<close>); \<open>X86_Crate\<close>, \<open>Paging\<close>, \<open>Bump_Allocator\<close> hold the interfaces, \<open>Elf_Image\<close> and
  \<open>Virtual_Memory\<close> what both ELF loaders have in common.

  \<^bold>\<open>This theory\<close> joins the two halves: no frame the kernel hands out meets what the bootloader still needs.

  \<^bold>\<open>Loops and bounds.\<close>  No fuel is used.  Loops are structural or have a termination proof; those that wait
  for a device or another processor, or whose end depends on their arguments, are partial functions into
  option, where \<open>None\<close> is a loop that never ends.  The search for frames and the resolution of a buffer are proved
  to return; the waits are proved to return when the event they wait for happens.  The constants (512 ranges, \<open>MAX_CPUS\<close>, slots 507 to 511, stacks of 64 and 128 pages) are those of the source.

  \<^bold>\<open>What holds only in part.\<close>  Several properties state what the code does where this is not what it means to
  do: one request that fails exhausts the kernel's allocator, all address spaces share slot 0, the switch keeps
  32 bits of the segment bases, later processors have no user segments, the xAPIC identifier is read as 0,
  two exceptions leave their error code on the stack, and copying into a new buffer misses it.

  \<^bold>\<open>Not modelled.\<close>  The heap (the \<open>buddy_alloc\<close> crate) and its boxes; \<open>cpuid.rs\<close> and the loggers, which only print;
  serial ports, QEMU devices and panic handlers; the firmware's files and partitions; the jump of the bootloader
  (\<open>context.rs\<close>) and the real-mode \<open>trampoline.asm\<close>, which is a list of bytes; the newtypes of \<open>int_like.rs\<close>; the build
  tools; and the order of the calls in \<open>_start\<close>, whose routines are modelled one by one.
\<close>

section \<open>From the bootloader to the kernel\<close>

text \<open>What the kernel's allocator does with the argument it receives (\<open>kernel/src/main.rs\<close>,
  \<open>_start\<close>): the base is the address physical memory is mapped at, the list is that of the argument.\<close>

definition kernel_frames_from ::
  "x86 \<Rightarrow> (nat \<Rightarrow> range) \<Rightarrow> kernel_arg \<Rightarrow> frame_globals \<Rightarrow> frame_globals run" where
  "kernel_frames_from X junk arg g =
     and_then (VirtAddr_new X (phys_mem_mapped_addr arg)) (\<lambda>base.
     and_then (if unav_phys_mem_regions_len arg \<le> length (unav_phys_mem_regions arg)
               then Inr (take (unav_phys_mem_regions_len arg) (unav_phys_mem_regions arg)) else Inl OutOfBounds) (\<lambda>regions.
       init_frame_allocator junk base (phys_mem_size arg) regions g))"

text \<open>What must not be handed out: all the bootloader allocated from 1 MiB on (page tables, the
  kernel's writable pages, the stack, the GDT), the firmware's reserved descriptors, the kernel
  image, the framebuffer, the argument structure, the local APIC, and as much of the bootstrap image as
  the kernel image is long.\<close>

definition handed_over :: "(memory_descriptor list \<Rightarrow> memory_descriptor list) \<Rightarrow> boot_inputs \<Rightarrow> boot_frame_allocator \<Rightarrow> nat set" where
  "handed_over srt inp al =
     {0x100000 ..< bf_next_frame al}
     \<union> \<Union> ((\<lambda>d. {phys_start d ..< phys_start d + page_count d * 4096}) `
            {d \<in> set (srt (in_memory_map inp)). \<not> usable_after_bootloader_exit d})
     \<union> {in_kernel_addr inp ..< in_kernel_addr inp + in_kernel_len inp}
     \<union> {in_arg_addr inp ..< in_arg_addr inp + in_arg_len inp}
     \<union> (case in_framebuffer inp of None \<Rightarrow> {} | Some f \<Rightarrow> {fb_ptr f ..< fb_ptr f + fb_len f})
     \<union> {local_apic_base (in_acpi inp) ..< local_apic_base (in_acpi inp) + 4096}
     \<union> {in_bootstrap_addr inp ..< in_bootstrap_addr inp + min (in_bootstrap_len inp) (in_kernel_len inp)}"

lemma handed_over_reported:
  assumes "boot_maps E view" and "boot_inputs_ok srt parse inp f d n" and "boot_kernel E srt parse inp = Inr h"
  shows "handed_over srt inp (ho_al h) \<subseteq> \<Union> (mr_set ` set (live_regions (ho_arg h)))"
proof (rule boot_maps.boot_kernel_ok [OF assms], goal_cases)
  case (1 fb r0 r)
  have r: "mr_set r = {0x100000 ..< bf_next_frame (ho_al h)}"
    using 1(13,17) by (auto simp: allocated_region_def run_simps mr_set_def)
  let ?rs = "set (live_regions (ho_arg h))"
  have sub: "X \<subseteq> \<Union> (mr_set ` ?rs)" if "x \<in> ?rs" "X \<subseteq> mr_set x" for X x using that by blast
  have mem: "\<lparr>mr_start = in_kernel_addr inp, mr_length = in_kernel_len inp, mr_kind = Bootloader\<rparr> \<in> ?rs"
    "\<lparr>mr_start = in_bootstrap_addr inp, mr_length = in_kernel_len inp, mr_kind = Bootloader\<rparr> \<in> ?rs"
    "\<lparr>mr_start = in_arg_addr inp, mr_length = in_arg_len inp, mr_kind = Bootloader\<rparr> \<in> ?rs"
    "\<lparr>mr_start = fb_ptr fb, mr_length = fb_len fb, mr_kind = Bootloader\<rparr> \<in> ?rs"
    "page_region (local_apic_base (in_acpi inp)) \<in> ?rs" "r \<in> ?rs"
    unfolding 1(15) reserved_regions_def by simp_all
  have desc: "descriptor_region e \<in> ?rs" if "e \<in> set (srt (in_memory_map inp))" "\<not> usable_after_bootloader_exit e" for e
    unfolding 1(15) reserved_regions_def using that by simp
  have "{phys_start e ..< phys_start e + page_count e * 4096} \<subseteq> \<Union> (mr_set ` ?rs)"
    if "e \<in> {e \<in> set (srt (in_memory_map inp)). \<not> usable_after_bootloader_exit e}" for e
    by (rule sub [OF desc]) (use that in \<open>auto simp: mr_set_def descriptor_region_def\<close>)
  moreover have "{0x100000 ..< bf_next_frame (ho_al h)} \<subseteq> \<Union> (mr_set ` ?rs)" by (rule sub [OF mem(6)]) (simp add: r)
  moreover have "{in_kernel_addr inp ..< in_kernel_addr inp + in_kernel_len inp} \<subseteq> \<Union> (mr_set ` ?rs)"
    by (rule sub [OF mem(1)]) (simp add: mr_set_def)
  moreover have "{in_arg_addr inp ..< in_arg_addr inp + in_arg_len inp} \<subseteq> \<Union> (mr_set ` ?rs)"
    by (rule sub [OF mem(3)]) (simp add: mr_set_def)
  moreover have "{fb_ptr fb ..< fb_ptr fb + fb_len fb} \<subseteq> \<Union> (mr_set ` ?rs)"
    by (rule sub [OF mem(4)]) (simp add: mr_set_def)
  moreover have "{local_apic_base (in_acpi inp) ..< local_apic_base (in_acpi inp) + 4096} \<subseteq> \<Union> (mr_set ` ?rs)"
    by (rule sub [OF mem(5)]) (simp add: mr_set_def page_region_def)
  moreover have "{in_bootstrap_addr inp ..< in_bootstrap_addr inp + min (in_bootstrap_len inp) (in_kernel_len inp)} \<subseteq> \<Union> (mr_set ` ?rs)"
    by (rule sub [OF mem(2)]) (auto simp: mr_set_def)
  ultimately show ?case unfolding handed_over_def 1(1) option.case by (intro Un_least UN_least)
qed

text \<open>C1. From the bootloader to the kernel's allocator: after the bootloader has jumped, no frame that
  the kernel's allocator hands out, over any sequence of requests, meets memory that is already in
  use: what the bootloader allocated, the firmware's reserved memory, the kernel image, the
  argument, the framebuffer, the local APIC, and the bootstrap image up to the length of the kernel
  image.\<close>

theorem handoff_safe:
  assumes "boot_maps E view" and "boot_inputs_ok srt parse inp f d n" and "boot_kernel E srt parse inp = Inr h"
    and "kernel_frames_from (be_x E) junk (ho_arg h) g0 = Inr g"
    and "alloc_seq (\<lambda>g n. frame_alloc_n (be_x E) n g) g ns = Inr (bs, g')"
  shows "\<forall>(a, k)\<in>set bs. 4096 dvd a \<and> frames_block a k \<inter> handed_over srt inp (ho_al h) = {}"
proof -
  have x: "x86_laws (be_x E)" by (rule boot_maps.x [OF assms(1)])
  have arg: "phys_mem_mapped_addr (ho_arg h) = 0" "sorted (map mr_start (live_regions (ho_arg h)))"
    by (rule boot_maps.boot_kernel_ok [OF assms(1-3)], simp)+
  have init: "init_frame_allocator junk 0 (phys_mem_size (ho_arg h)) (live_regions (ho_arg h)) g0 = Inr g"
    using assms(4) x86_laws.VirtAddr_new_ok [OF x, of 0]
    by (auto simp: kernel_frames_from_def arg(1) canonical_def live_regions_def split: if_splits)
  note wf = init_frame_allocator_wf [OF arg(2) _ init, simplified]
  from x86_laws.kernel_seq_above [OF x wf(1) assms(5)] wf(2,3)
  have "\<forall>(a, k)\<in>set bs. 4096 dvd a \<and> frames_block a k \<inter> \<Union> (mr_set ` set (live_regions (ho_arg h))) = {}"
    by (simp add: case_prod_beta)
  with handed_over_reported [OF assms(1-3)] show ?thesis by blast
qed

lemma alloc_seq_one:
  "frame_alloc_n X 1 g = Inr (Some a, g') \<Longrightarrow> alloc_seq (\<lambda>g n. frame_alloc_n X n g) g [1] = Inr ([(a, 1)], g')"
  by simp

theorem handoff_safe_witness:
  "\<exists>h g a g'. boot_kernel model_env (\<lambda>m. m) sample_parse sample_inputs = Inr h
     \<and> kernel_frames_from x86_model (\<lambda>_. \<lparr>rg_start = 0, rg_end = 0\<rparr>) (ho_arg h)
         \<lparr>FRAME_ALLOCATOR = None, PHYS_MEM_SIZE = None\<rparr> = Inr g
     \<and> alloc_seq (\<lambda>g n. frame_alloc_n x86_model n g) g [1] = Inr ([(a, 1)], g')
     \<and> frames_block a 1 \<inter> handed_over (\<lambda>m. m) sample_inputs (ho_al h) = {}"
proof -
  let ?g0 = "\<lparr>FRAME_ALLOCATOR = None, PHYS_MEM_SIZE = None\<rparr>" and ?j = "\<lambda>_. \<lparr>rg_start = 0, rg_end = 0\<rparr>"
  obtain h where run: "boot_kernel model_env (\<lambda>m. m) sample_parse sample_inputs = Inr h"
    and len: "unav_phys_mem_regions_len (ho_arg h) \<le> length (unav_phys_mem_regions (ho_arg h))"
      "length (live_regions (ho_arg h)) \<le> 502" and size: "phys_mem_size (ho_arg h) = 0x101000000"
    and low: "\<forall>r\<in>set (live_regions (ho_arg h)). mr_start r + mr_length r \<le> 0xFEE01000"
    using sample_boot_run by blast
  have arg: "phys_mem_mapped_addr (ho_arg h) = 0" "sorted (map mr_start (live_regions (ho_arg h)))" "live_regions (ho_arg h) \<noteq> []"
    by (rule bootm.boot_kernel_ok [OF sample_inputs_ok run], force)+
  have "Suc (length (live_regions (ho_arg h))) * (PAGE_SIZE * 1) \<le> 503 * 4096"
    by (rule mult_le_mono) (use len in \<open>simp_all add: PAGE_SIZE_def\<close>)
  then obtain g a g' where init: "init_frame_allocator ?j 0 0x101000000 (live_regions (ho_arg h)) ?g0 = Inr g"
    and al: "frame_alloc_n x86_model 1 g = Inr (Some a, g')"
    using init_allocates [OF x86m.x86_laws_axioms arg(2,3) _ low, of 1 "0x101000000" ?j ?g0] len
    by (auto simp: MAX_RANGE_COUNT_def)
  have v0: "VirtAddr_new x86_model 0 = Inr 0" by (simp add: x86_model_eval canonical_def)
  have kf: "kernel_frames_from x86_model ?j (ho_arg h) ?g0 = Inr g"
    using init len(1) by (simp add: kernel_frames_from_def arg(1) v0 size live_regions_def)
  note seq = alloc_seq_one [OF al]
  from handoff_safe [OF bootm.boot_maps_axioms sample_inputs_ok run kf [folded model_env_eval(1)] seq [folded model_env_eval(1)]]
    run kf seq show ?thesis by auto
qed

end
